(* ===== verification/Go_Prelude.thy ===== *)
theory Go_Prelude
  imports Main "HOL-Library.Word" "HOL-Library.Sublist"
begin

unbundle bit_operations_syntax

text \<open>
  Shared vocabulary of the development: bytes and byte slices of Go, the fixed-width
  encodings of \<^verbatim>\<open>encoding/binary\<close>, the magnitude encoding of \<^verbatim>\<open>math/big\<close>, the hexadecimal
  printing of \<^verbatim>\<open>encoding/hex\<close>, and Go's \<^verbatim>\<open>copy\<close>. A nil slice and an empty slice are the
  same list \<open>[]\<close>; the places where the code tells them apart use an \<open>option\<close>.
\<close>

type_synonym byte = "8 word"
type_synonym bytes = "byte list"
type_synonym u32 = "32 word"
type_synonym u64 = "64 word"

named_theorems codec_simps \<open>lengths and round trips of the byte encodings\<close>

subsection \<open>Little-endian and big-endian naturals\<close>

primrec le_bytes :: "nat \<Rightarrow> nat \<Rightarrow> bytes" where
  "le_bytes 0 x = []"
| "le_bytes (Suc n) x = word_of_nat (x mod 256) # le_bytes n (x div 256)"

primrec le_nat :: "bytes \<Rightarrow> nat" where
  "le_nat [] = 0"
| "le_nat (b # bs) = unat b + 256 * le_nat bs"

definition be_bytes :: "nat \<Rightarrow> nat \<Rightarrow> bytes" where
  "be_bytes n x = rev (le_bytes n x)"

definition be_nat :: "bytes \<Rightarrow> nat" where
  "be_nat bs = le_nat (rev bs)"

lemma unat_byte_less: "unat (b :: byte) < 256"
  using unsigned_less [where 'a = nat, of b] by simp

lemma unat_word_of_nat_mod256 [simp]: "unat (word_of_nat (x mod 256) :: byte) = x mod 256"
  by (simp add: unat_of_nat)

lemma length_le_bytes [simp, codec_simps]: "length (le_bytes n x) = n"
  by (induction n arbitrary: x) auto

lemma length_be_bytes [simp, codec_simps]: "length (be_bytes n x) = n"
  by (simp add: be_bytes_def)

lemma le_nat_less: "le_nat bs < 256 ^ length bs"
proof (induction bs)
  case Nil
  show ?case by simp
next
  case (Cons b bs)
  have "unat b + 256 * le_nat bs < 256 * Suc (le_nat bs)"
    using unat_byte_less [of b] by simp
  also have "\<dots> \<le> 256 * 256 ^ length bs"
    using Cons.IH by (intro mult_le_mono) auto
  finally show ?case by simp
qed

lemma le_nat_le_bytes [codec_simps]: "le_nat (le_bytes n x) = x mod 256 ^ n"
proof (induction n arbitrary: x)
  case 0
  show ?case by simp
next
  case (Suc n)
  have "x mod 256 + 256 * (x div 256 mod 256 ^ n) = x mod (256 * 256 ^ n)"
    by (simp add: mod_mult2_eq)
  with Suc.IH show ?case by simp
qed

lemma le_bytes_le_nat [codec_simps]: "le_bytes (length bs) (le_nat bs) = bs"
proof (induction bs)
  case Nil
  show ?case by simp
next
  case (Cons b bs)
  have m: "(unat b + 256 * le_nat bs) mod 256 = unat b"
    using unat_byte_less [of b] by simp
  have d: "(unat b + 256 * le_nat bs) div 256 = le_nat bs"
    using unat_byte_less [of b] by simp
  have w: "word_of_nat (unat b) = b" by simp
  show ?case
    by (simp only: le_nat.simps list.size add_Suc_right add_0_right le_bytes.simps m d w Cons.IH)
qed

lemma be_nat_less: "be_nat bs < 256 ^ length bs"
  using le_nat_less [of "rev bs"] by (simp add: be_nat_def)

lemma be_nat_be_bytes [codec_simps]: "be_nat (be_bytes n x) = x mod 256 ^ n"
  by (simp add: be_nat_def be_bytes_def le_nat_le_bytes)

lemma be_bytes_be_nat [codec_simps]: "be_bytes (length bs) (be_nat bs) = bs"
  using le_bytes_le_nat [of "rev bs"] by (simp add: be_nat_def be_bytes_def)

lemma be_nat_inj: "length as = length bs \<Longrightarrow> be_nat as = be_nat bs \<Longrightarrow> as = bs"
  by (metis be_bytes_be_nat)

subsection \<open>encoding/binary on 32- and 64-bit words\<close>

definition put_be64 :: "u64 \<Rightarrow> bytes" where
  "put_be64 w = be_bytes 8 (unat w)"

definition get_be64 :: "bytes \<Rightarrow> u64" where
  "get_be64 bs = word_of_nat (be_nat (take 8 bs))"

definition put_le64 :: "u64 \<Rightarrow> bytes" where
  "put_le64 w = le_bytes 8 (unat w)"

definition get_le64 :: "bytes \<Rightarrow> u64" where
  "get_le64 bs = word_of_nat (le_nat (take 8 bs))"

definition put_le32 :: "u32 \<Rightarrow> bytes" where
  "put_le32 w = le_bytes 4 (unat w)"

definition get_le32 :: "bytes \<Rightarrow> u32" where
  "get_le32 bs = word_of_nat (le_nat (take 4 bs))"

lemma unat_u64_less: "unat (w :: u64) < 256 ^ 8"
  using unsigned_less [where 'a = nat, of w] by simp

lemma unat_u32_less: "unat (w :: u32) < 256 ^ 4"
  using unsigned_less [where 'a = nat, of w] by simp

lemma length_put [simp, codec_simps]:
  "length (put_be64 w) = 8" "length (put_le64 w) = 8" "length (put_le32 v) = 4"
  by (simp_all add: put_be64_def put_le64_def put_le32_def)

lemma get_put_be64 [simp, codec_simps]: "get_be64 (put_be64 w @ bs) = w"
  using unat_u64_less [of w] by (simp add: get_be64_def put_be64_def be_nat_be_bytes)

lemma get_put_le64 [simp, codec_simps]: "get_le64 (put_le64 w @ bs) = w"
  using unat_u64_less [of w] by (simp add: get_le64_def put_le64_def le_nat_le_bytes)

lemma get_put_le32 [simp, codec_simps]: "get_le32 (put_le32 w @ bs) = w"
  using unat_u32_less [of w] by (simp add: get_le32_def put_le32_def le_nat_le_bytes)

lemma put_get_be64: "length bs = 8 \<Longrightarrow> put_be64 (get_be64 bs) = bs"
proof -
  assume len: "length bs = 8"
  then have "be_nat bs < 2 ^ 64"
    using be_nat_less [of bs] by simp
  then have "unat (get_be64 bs) = be_nat bs"
    using len by (simp add: get_be64_def unat_of_nat)
  then show ?thesis
    using be_bytes_be_nat [of bs] len by (simp add: put_be64_def)
qed

subsection \<open>math/big: the magnitude of an integer as minimal big-endian bytes\<close>

fun min_le :: "nat \<Rightarrow> bytes" where
  "min_le n = (if n = 0 then [] else word_of_nat (n mod 256) # min_le (n div 256))"

declare min_le.simps [simp del]

text \<open>\<^verbatim>\<open>Int.Bytes\<close> gives the absolute value, without leading zero bytes.\<close>

definition big_bytes :: "int \<Rightarrow> bytes" where
  "big_bytes i = rev (min_le (nat \<bar>i\<bar>))"

text \<open>\<^verbatim>\<open>Int.SetBytes\<close> reads an unsigned big-endian number.\<close>

definition big_set_bytes :: "bytes \<Rightarrow> int" where
  "big_set_bytes bs = int (be_nat bs)"

lemma le_nat_min_le: "le_nat (min_le n) = n"
proof (induction n rule: min_le.induct)
  case (1 n)
  then show ?case
    by (subst min_le.simps) (cases "n = 0", simp_all)
qed

lemma big_set_bytes_big_bytes [simp, codec_simps]: "big_set_bytes (big_bytes i) = \<bar>i\<bar>"
  by (simp add: big_set_bytes_def big_bytes_def be_nat_def le_nat_min_le)

lemma big_bytes_inj: "0 \<le> i \<Longrightarrow> 0 \<le> j \<Longrightarrow> big_bytes i = big_bytes j \<Longrightarrow> i = j"
  by (metis abs_of_nonneg big_set_bytes_big_bytes)

lemma big_bytes_0 [simp]: "big_bytes 0 = []"
  by (simp add: big_bytes_def min_le.simps)

lemma big_set_bytes_nonneg [simp]: "0 \<le> big_set_bytes bs"
  by (simp add: big_set_bytes_def)

subsection \<open>encoding/hex\<close>

definition hexdigit :: "nat \<Rightarrow> char" where
  "hexdigit n = ''0123456789abcdef'' ! n"

primrec hex_encode :: "bytes \<Rightarrow> string" where
  "hex_encode [] = []"
| "hex_encode (b # bs) =
     hexdigit (unat b div 16) # hexdigit (unat b mod 16) # hex_encode bs"

lemma hexdigit_inj: "i < 16 \<Longrightarrow> j < 16 \<Longrightarrow> hexdigit i = hexdigit j \<Longrightarrow> i = j"
proof -
  have d: "distinct ''0123456789abcdef''" by simp
  assume "i < 16" "j < 16" "hexdigit i = hexdigit j"
  with d show "i = j"
    by (simp add: hexdigit_def nth_eq_iff_index_eq)
qed

lemma hex_encode_inj: "hex_encode as = hex_encode bs \<Longrightarrow> as = bs"
proof (induction as arbitrary: bs)
  case Nil
  then show ?case by (cases bs) auto
next
  case (Cons a as)
  then obtain b bs' where bs: "bs = b # bs'" by (cases bs) auto
  have "unat a < 256" "unat b < 256" by (rule unat_byte_less)+
  then have "unat a div 16 < 16" "unat b div 16 < 16" by auto
  with Cons.prems bs have "unat a div 16 = unat b div 16" "unat a mod 16 = unat b mod 16"
    using hexdigit_inj [of "unat a mod 16" "unat b mod 16"] by (auto dest: hexdigit_inj)
  then have "unat a = unat b" by (metis div_mult_mod_eq)
  then have "a = b" by (simp add: unsigned_word_eqI)
  with Cons bs show ?case by simp
qed

lemma hex_encode_append: "hex_encode (as @ bs) = hex_encode as @ hex_encode bs"
  by (induction as) auto

lemma hex_encode_eq_iff [simp]: "hex_encode as = hex_encode bs \<longleftrightarrow> as = bs"
  by (auto dest: hex_encode_inj)

text \<open>A decoder, for instances of the parameter \<^verbatim>\<open>common.FromHex\<close>.\<close>

definition hexval :: "char \<Rightarrow> nat" where
  "hexval c = length (takeWhile (\<lambda>d. d \<noteq> c) ''0123456789abcdef'')"

fun hex_decode_ref :: "string \<Rightarrow> bytes" where
  "hex_decode_ref (a # b # s) = word_of_nat (16 * hexval a + hexval b) # hex_decode_ref s"
| "hex_decode_ref s = []"

lemma hexval_hexdigit: "n < 16 \<Longrightarrow> hexval (hexdigit n) = n"
  unfolding hexval_def hexdigit_def
  by (auto simp: less_Suc_eq numeral_eq_Suc)

lemma hex_decode_ref_inverse: "hex_decode_ref (hex_encode b) = b"
proof (induction b)
  case (Cons a b)
  have "unat a div 16 < 16" using unat_byte_less [of a] by auto
  with Cons show ?case by (simp add: hexval_hexdigit)
qed simp

subsection \<open>Go's copy and fixed-size arrays\<close>

text \<open>\<^verbatim>\<open>copy(dst, src)\<close> overwrites the first \<open>min (len dst) (len src)\<close> elements of \<open>dst\<close>.\<close>

definition go_copy :: "'a list \<Rightarrow> 'a list \<Rightarrow> 'a list" where
  "go_copy dst src = take (length dst) src @ drop (length src) dst"

lemma length_go_copy [simp, codec_simps]: "length (go_copy dst src) = length dst"
  by (simp add: go_copy_def min_def)

lemma go_copy_same_length: "length src = length dst \<Longrightarrow> go_copy dst src = src"
  by (simp add: go_copy_def)

text \<open>\<^verbatim>\<open>var a [n]byte; copy(a[:], src)\<close>: truncated or zero-padded on the right.\<close>

definition to_array :: "nat \<Rightarrow> bytes \<Rightarrow> bytes" where
  "to_array n src = go_copy (replicate n 0) src"

lemma length_to_array [simp, codec_simps]: "length (to_array n src) = n"
  by (simp add: to_array_def)

lemma to_array_id: "length src = n \<Longrightarrow> to_array n src = src"
  by (simp add: to_array_def go_copy_same_length)

lemma to_array_idem [simp]: "to_array n (to_array n src) = to_array n src"
  by (rule to_array_id) simp

subsection \<open>Signed 64-bit arithmetic\<close>

text \<open>Go's \<^verbatim>\<open>int\<close> and \<^verbatim>\<open>int64\<close> on a 64-bit machine: the value after wrap-around.\<close>

definition int64 :: "int \<Rightarrow> int" where
  "int64 i = sint (word_of_int i :: u64)"

lemma int64_small: "- (2 ^ 63) \<le> i \<Longrightarrow> i < 2 ^ 63 \<Longrightarrow> int64 i = i"
  by (simp add: int64_def signed_of_int signed_take_bit_int_eq_self)

end
