(* ===== verification/Hex_Encoding.thy ===== *)
theory Hex_Encoding
  imports Go_Prelude
begin

text \<open>
  The key encodings of the Merkle-Patricia trie (\<^verbatim>\<open>pkg/trie/node/encoding.go\<close>, duplicated in
  part by \<^verbatim>\<open>pkg/common/encoding.go\<close>): raw key bytes, one nibble per byte with an optional
  terminator 16, and the compact form written into short nodes. An index out of range or an
  explicit panic of the code is the value \<open>None\<close>.
\<close>

subsection \<open>The functions of the source\<close>

definition HasTerm :: "bytes \<Rightarrow> bool" where
  "HasTerm s \<longleftrightarrow> length s > 0 \<and> s ! (length s - 1) = 16"

fun decodeNibbles :: "bytes \<Rightarrow> bytes \<Rightarrow> bytes option" where
  "decodeNibbles [] bs = Some bs"
| "decodeNibbles [n] bs = None"
| "decodeNibbles (n # m # ns) [] = None"
| "decodeNibbles (n # m # ns) (b # bs) =
     map_option (\<lambda>r. (push_bit 4 n OR m) # r) (decodeNibbles ns bs)"

definition HexToCompact :: "bytes \<Rightarrow> bytes option" where
  "HexToCompact hex0 =
     (let terminator = (if HasTerm hex0 then 1 else 0 :: byte);
          hex1 = (if HasTerm hex0 then take (length hex0 - 1) hex0 else hex0);
          buf = replicate (length hex1 div 2 + 1) (0 :: byte);
          buf0 = push_bit 5 terminator
      in if length hex1 mod 2 = 1
         then map_option (\<lambda>r. (buf0 OR push_bit 4 1 OR hex1 ! 0) # r)
                (decodeNibbles (drop 1 hex1) (drop 1 buf))
         else map_option (\<lambda>r. buf0 # r) (decodeNibbles hex1 (drop 1 buf)))"

text \<open>The loop of \<^verbatim>\<open>hexToCompactInPlace\<close>, which reads and writes the same buffer.\<close>

function inPlaceLoop :: "bytes \<Rightarrow> nat \<Rightarrow> nat \<Rightarrow> nat \<Rightarrow> bytes option" where
  "inPlaceLoop hex hexLen bi ni =
     (if ni < hexLen
      then if ni + 1 < length hex \<and> bi < length hex
           then inPlaceLoop (hex[bi := push_bit 4 (hex ! ni) OR hex ! (ni + 1)])
                  hexLen (bi + 1) (ni + 2)
           else None
      else Some hex)"
  by auto
termination
  by (relation "measure (\<lambda>(hex, hexLen, bi, ni). hexLen - ni)") auto

declare inPlaceLoop.simps [simp del]

definition hexToCompactInPlace :: "bytes \<Rightarrow> bytes option" where
  "hexToCompactInPlace hex =
     (let term = (length hex > 0 \<and> hex ! (length hex - 1) = 16);
          hexLen = (if term then length hex - 1 else length hex);
          first0 = (if term then push_bit 5 1 else 0 :: byte);
          binLen = hexLen div 2 + 1;
          isodd = (hexLen mod 2 = 1);
          firstByte = (if isodd then first0 OR push_bit 4 1 OR hex ! 0 else first0);
          ni = (if isodd then 1 else 0)
      in case inPlaceLoop hex hexLen 1 ni of
           None \<Rightarrow> None
         | Some hex' \<Rightarrow>
             if 0 < length hex' \<and> binLen \<le> length hex'
             then Some (take binLen (hex'[0 := firstByte])) else None)"

definition KeybytesToHex :: "bytes \<Rightarrow> bytes" where
  "KeybytesToHex str = concat (map (\<lambda>b. [b div 16, b mod 16]) str) @ [16]"

definition CompactToHex :: "bytes \<Rightarrow> bytes" where
  "CompactToHex compact =
     (if length compact = 0 then compact
      else let base = KeybytesToHex compact;
               base' = (if base ! 0 < 2 then take (length base - 1) base else base);
               chop = 2 - (base' ! 0 AND 1)
           in drop (unat chop) base')"

definition HexToKeybytes :: "bytes \<Rightarrow> bytes option" where
  "HexToKeybytes hex0 =
     (let hex = (if HasTerm hex0 then take (length hex0 - 1) hex0 else hex0)
      in if length hex mod 2 \<noteq> 0 then None
         else decodeNibbles hex (replicate (length hex div 2) 0))"

function prefixLoop :: "bytes \<Rightarrow> bytes \<Rightarrow> nat \<Rightarrow> nat \<Rightarrow> nat" where
  "prefixLoop a b len i =
     (if i < len then if a ! i \<noteq> b ! i then i else prefixLoop a b len (i + 1) else i)"
  by auto
termination
  by (relation "measure (\<lambda>(a, b, len, i). len - i)") auto

declare prefixLoop.simps [simp del]

definition PrefixLen :: "bytes \<Rightarrow> bytes \<Rightarrow> nat" where
  "PrefixLen a b =
     (let len = (if length b < length a then length b else length a) in prefixLoop a b len 0)"

subsection \<open>Nibbles\<close>

definition is_nibble :: "byte \<Rightarrow> bool" where
  "is_nibble n \<longleftrightarrow> n < 16"

text \<open>Hex keys: nibbles, then possibly the terminator.\<close>

definition hex_path :: "bytes \<Rightarrow> bool" where
  "hex_path s \<longleftrightarrow> list_all is_nibble (if HasTerm s then butlast s else s)"

fun pack :: "bytes \<Rightarrow> bytes" where
  "pack (n # m # ns) = (push_bit 4 n OR m) # pack ns"
| "pack _ = []"

definition unpack :: "bytes \<Rightarrow> bytes" where
  "unpack str = concat (map (\<lambda>b. [b div 16, b mod 16]) str)"

lemma HasTerm_Nil [simp]: "\<not> HasTerm []"
  by (simp add: HasTerm_def)

lemma HasTerm_snoc [simp]: "HasTerm (s @ [x]) \<longleftrightarrow> x = 16"
  by (simp add: HasTerm_def)

lemma HasTerm_iff: "HasTerm s \<longleftrightarrow> (\<exists>p. s = p @ [16])"
  by (cases s rule: rev_cases) auto

lemma not_nibble_16 [simp]: "\<not> is_nibble 16"
  by (simp add: is_nibble_def)

lemma byte_div16: "(b :: byte) div 16 = drop_bit 4 b"
  by (simp add: drop_bit_eq_div)

lemma byte_mod16: "(b :: byte) mod 16 = take_bit 4 b"
  by (simp add: take_bit_eq_mod)

lemma nibble_mod: "is_nibble n \<Longrightarrow> n mod 16 = n"
  by (simp add: is_nibble_def word_less_nat_alt unat_mod_distrib word_unat_eq_iff)

lemma nibble_bit: "is_nibble n \<Longrightarrow> bit n k \<Longrightarrow> k < 4"
  using nibble_mod [of n] by (metis byte_mod16 bit_take_bit_iff)

lemma nibble_bit_high: "is_nibble n \<Longrightarrow> 4 \<le> k \<Longrightarrow> \<not> bit n k"
  using nibble_bit by fastforce

lemma pack_byte [simp]:
  assumes "is_nibble n" "is_nibble m"
  shows "(push_bit 4 n OR m) div 16 = n" "(push_bit 4 n OR m) mod 16 = m"
  unfolding byte_div16 byte_mod16
  by (rule bit_word_eqI; use assms in \<open>auto simp: bit_simps dest: nibble_bit\<close>)+

lemma pack_unpack_byte [simp]: "push_bit 4 (b div 16) OR b mod 16 = (b :: byte)"
  unfolding byte_div16 byte_mod16 by (rule bit_word_eqI) (auto simp: bit_simps)

lemma nibbles_of_byte [simp]: "is_nibble (b div 16)" "is_nibble (b mod 16)"
  using unat_byte_less [of b]
  by (auto simp: is_nibble_def word_less_nat_alt unat_div_distrib unat_mod_distrib)

lemma and_1_cases: "(x :: byte) AND 1 = 0 \<or> x AND 1 = 1"
  by (cases "even x") (simp_all add: and_one_eq odd_iff_mod_2_eq_one even_iff_mod_2_eq_zero)

subsection \<open>Packing nibbles\<close>

lemma KeybytesToHex_unpack: "KeybytesToHex str = unpack str @ [16]"
  by (simp add: KeybytesToHex_def unpack_def)

lemma unpack_simps [simp]:
  "unpack [] = []" "unpack (b # bs) = b div 16 # b mod 16 # unpack bs"
  by (simp_all add: unpack_def)

lemma length_unpack [simp]: "length (unpack s) = 2 * length s"
  by (induction s) auto

lemma nibbles_unpack [simp]: "list_all is_nibble (unpack s)"
  by (induction s) auto

lemma pack_unpack [simp]: "pack (unpack s) = s"
  by (induction s) auto

lemma unpack_pack: "even (length ns) \<Longrightarrow> list_all is_nibble ns \<Longrightarrow> unpack (pack ns) = ns"
  by (induction ns rule: pack.induct) auto

lemma length_pack [simp]: "length (pack ns) = length ns div 2"
  by (induction ns rule: pack.induct) auto

lemma unpack_inj: "unpack s = unpack t \<Longrightarrow> s = t"
  by (metis pack_unpack)

lemma KeybytesToHex_inj: "KeybytesToHex s = KeybytesToHex t \<Longrightarrow> s = t"
  by (simp add: KeybytesToHex_unpack unpack_inj)

lemma hex_path_KeybytesToHex [simp]: "hex_path (KeybytesToHex s)" "HasTerm (KeybytesToHex s)"
  by (simp_all add: KeybytesToHex_unpack hex_path_def)

lemma decodeNibbles_pack:
  "even (length ns) \<Longrightarrow> length ns div 2 \<le> length buf \<Longrightarrow>
   decodeNibbles ns buf = Some (pack ns @ drop (length ns div 2) buf)"
  by (induction ns buf rule: decodeNibbles.induct) auto

lemma decodeNibbles_odd: "odd (length ns) \<Longrightarrow> decodeNibbles ns buf = None"
  by (induction ns buf rule: decodeNibbles.induct) auto

text \<open>The flag byte and the compact form in closed form.\<close>

definition flag_byte :: "bool \<Rightarrow> bytes \<Rightarrow> byte" where
  "flag_byte t ns = push_bit 5 (if t then 1 else 0)
     OR (if odd (length ns) then push_bit 4 1 OR ns ! 0 else 0)"

definition compact_of :: "bool \<Rightarrow> bytes \<Rightarrow> bytes" where
  "compact_of t ns = flag_byte t ns # pack (if odd (length ns) then drop 1 ns else ns)"

lemma length_compact_of [simp]: "length (compact_of t ns) = length ns div 2 + 1"
  by (auto simp: compact_of_def elim!: oddE)

lemma HexToCompact_closed:
  "HexToCompact s = Some (compact_of (HasTerm s) (if HasTerm s then butlast s else s))"
proof -
  have e: "decodeNibbles ns (replicate (length ns div 2) 0) = Some (pack ns)"
    if "even (length ns)" for ns
    using that by (simp add: decodeNibbles_pack)
  have o: "decodeNibbles (drop (Suc 0) ns) (replicate (length ns div 2) 0) = Some (pack (drop (Suc 0) ns))"
    if "odd (length ns)" for ns
    using that e [of "drop (Suc 0) ns"] by (cases ns) auto
  show ?thesis
  proof (cases "odd (length (if HasTerm s then butlast s else s))")
    case True
    from o [OF True] True show ?thesis
      by (simp only: HexToCompact_def Let_def compact_of_def flag_byte_def odd_iff_mod_2_eq_one
          or.assoc butlast_conv_take) (simp add: or.assoc)
  next
    case False
    then have ev: "even (length (if HasTerm s then butlast s else s))" by simp
    from e [OF ev] False show ?thesis
      by (simp only: HexToCompact_def Let_def compact_of_def flag_byte_def odd_iff_mod_2_eq_one
          butlast_conv_take) simp
  qed
qed

lemma flag_odd:
  assumes "is_nibble n"
  shows "(32 OR 16 OR n :: byte) mod 16 = n" "(32 OR 16 OR n :: byte) div 16 = 3"
    "(16 OR n :: byte) mod 16 = n" "(16 OR n :: byte) div 16 = 1"
proof -
  have f: "(32 OR 16 OR n :: byte) = push_bit 4 3 OR n" "(16 OR n :: byte) = push_bit 4 1 OR n"
    by (simp_all flip: or.assoc)
  have "is_nibble 3" "is_nibble 1" by (simp_all add: is_nibble_def)
  with assms show "(32 OR 16 OR n :: byte) mod 16 = n" "(32 OR 16 OR n :: byte) div 16 = 3"
    by (simp_all only: f(1) pack_byte)
  from \<open>is_nibble 1\<close> assms show "(16 OR n :: byte) mod 16 = n" "(16 OR n :: byte) div 16 = 1"
    by (simp_all only: f(2) pack_byte)
qed

lemma CompactToHex_Cons:
  "CompactToHex (f # c) =
     drop (if f div 16 AND 1 = 0 then 2 else 1)
       (f div 16 # f mod 16 # unpack c @ (if f div 16 < 2 then [] else [16]))"
proof -
  have "f div 16 AND 1 = 0 \<or> f div 16 AND 1 = 1"
    by (rule and_1_cases)
  then show ?thesis
    by (auto simp: CompactToHex_def KeybytesToHex_unpack Let_def)
qed

lemma CompactToHex_compact_of:
  assumes "list_all is_nibble ns"
  shows "CompactToHex (compact_of t ns) = ns @ (if t then [16] else [])"
proof (cases "odd (length ns)")
  case True
  then obtain n ms where ns: "ns = n # ms" by (cases ns) auto
  with True assms have "is_nibble n" "even (length ms)" "list_all is_nibble ms" by auto
  then show ?thesis
    using ns by (simp add: compact_of_def flag_byte_def CompactToHex_Cons flag_odd unpack_pack)
next
  case False
  then show ?thesis
    using assms by (simp add: compact_of_def flag_byte_def CompactToHex_Cons unpack_pack)
qed

subsection \<open>The in-place variant\<close>

lemma pack_nth_drop:
  assumes "ni + 1 < hexLen" "hexLen \<le> length hex"
  shows "pack (take (hexLen - ni) (drop ni hex)) =
    (push_bit 4 (hex ! ni) OR hex ! (ni + 1)) # pack (take (hexLen - (ni + 2)) (drop (ni + 2) hex))"
proof -
  have "drop ni hex = hex ! ni # hex ! (ni + 1) # drop (ni + 2) hex"
    using assms by (metis Cons_nth_drop_Suc Suc_eq_plus1 Suc_lessD add_2_eq_Suc' less_le_trans)
  moreover have "hexLen - ni = Suc (Suc (hexLen - (ni + 2)))" using assms by simp
  ultimately show ?thesis by simp
qed

lemma inPlaceLoop_pack:
  assumes "hexLen \<le> length hex" "bi \<le> ni + 1" "even (hexLen - ni)" "1 \<le> bi"
  shows "\<exists>rest. inPlaceLoop hex hexLen bi ni =
      Some (take bi hex @ pack (take (hexLen - ni) (drop ni hex)) @ rest)
    \<and> bi + length (pack (take (hexLen - ni) (drop ni hex))) + length rest = max bi (length hex)"
  using assms
proof (induction hex hexLen bi ni rule: inPlaceLoop.induct)
  case (1 hex hexLen bi ni)
  show ?case
  proof (cases "ni < hexLen")
    case False
    then show ?thesis
      by (intro exI [of _ "drop bi hex"]) (simp add: inPlaceLoop.simps)
  next
    case True
    with "1.prems" have lt: "ni + 1 < hexLen" by (cases "hexLen - ni") (auto elim: oddE)
    let ?x = "push_bit 4 (hex ! ni) OR hex ! (ni + 1)"
    let ?hex = "hex[bi := ?x]"
    have step: "inPlaceLoop hex hexLen bi ni = inPlaceLoop ?hex hexLen (bi + 1) (ni + 2)"
      using True lt "1.prems" by (subst inPlaceLoop.simps) simp
    have ev: "even (hexLen - (ni + 2))" using "1.prems"(3) lt by simp
    have d: "drop (ni + 2) ?hex = drop (ni + 2) hex" using "1.prems"(2) by simp
    have t: "take (bi + 1) ?hex = take bi hex @ [?x]"
      using "1.prems" lt by (simp add: take_Suc_conv_app_nth)
    obtain rest where
      "inPlaceLoop ?hex hexLen (bi + 1) (ni + 2) =
         Some (take (bi + 1) ?hex @ pack (take (hexLen - (ni + 2)) (drop (ni + 2) ?hex)) @ rest)"
      "bi + 1 + length (pack (take (hexLen - (ni + 2)) (drop (ni + 2) ?hex))) + length rest
         = max (bi + 1) (length ?hex)"
      using "1.IH" [OF True] "1.prems" lt ev by (auto simp del: length_pack)
    then show ?thesis
      unfolding step t d pack_nth_drop [OF lt "1.prems"(1)]
      using lt "1.prems" by (intro exI [of _ rest]) (auto simp del: length_pack)
  qed
qed

lemma hexToCompactInPlace_aux:
  assumes "hex \<noteq> []" and l: "hexLen \<le> length hex" and ni: "ni = (if odd hexLen then 1 else 0)"
  shows "\<exists>hex'. inPlaceLoop hex hexLen 1 ni = Some hex' \<and> hexLen div 2 + 1 \<le> length hex' \<and>
    take (hexLen div 2 + 1) (hex'[0 := b]) = b # pack (take (hexLen - ni) (drop ni hex))"
proof -
  let ?p = "pack (take (hexLen - ni) (drop ni hex))"
  have ev: "even (hexLen - ni)" using ni by auto
  obtain rest where r: "inPlaceLoop hex hexLen 1 ni = Some (take 1 hex @ ?p @ rest)"
    using inPlaceLoop_pack [of hexLen hex 1 ni] l ev by auto
  have t1: "take 1 hex = [hd hex]" using assms(1) by (cases hex) auto
  have len: "length ?p = hexLen div 2"
    using ni l by (auto elim!: oddE)
  show ?thesis
    unfolding r t1 by (intro exI conjI) (use len in auto)
qed

lemma hexToCompactInPlace_nonempty:
  assumes "hex \<noteq> []"
  shows "hexToCompactInPlace hex = HexToCompact hex"
proof -
  let ?n = "if HasTerm hex then length hex - 1 else length hex"
  let ?ns = "if HasTerm hex then butlast hex else hex"
  let ?ni = "if odd ?n then 1 else 0 :: nat"
  have ns: "?ns = take ?n hex" by (auto simp: butlast_conv_take)
  have ln: "length ?ns = ?n" by auto
  have p: "take (?n - ?ni) (drop ?ni hex) = (if odd (length ?ns) then drop 1 ?ns else ?ns)"
    unfolding ln unfolding ns by (auto simp: drop_take)
  have n0: "?ns ! 0 = hex ! 0" if "odd (length ?ns)"
    using that by (cases hex) (auto split: if_splits simp: nth_butlast)
  have fb: "(if ?n mod 2 = 1 then (if HasTerm hex then push_bit 5 1 else 0) OR push_bit 4 1 OR hex ! 0
             else if HasTerm hex then push_bit 5 1 else 0) = flag_byte (HasTerm hex) ?ns"
    using n0 unfolding flag_byte_def ln odd_iff_mod_2_eq_one
    by (auto simp: or.assoc)
  have "?n \<le> length hex" by simp
  from hexToCompactInPlace_aux [OF assms this refl, of "flag_byte (HasTerm hex) ?ns"]
  obtain hex' where h: "inPlaceLoop hex ?n 1 ?ni = Some hex'" "?n div 2 + 1 \<le> length hex'"
    "take (?n div 2 + 1) (hex'[0 := flag_byte (HasTerm hex) ?ns]) =
       flag_byte (HasTerm hex) ?ns # pack (take (?n - ?ni) (drop ?ni hex))"
    by blast
  from h(2) have "hex' \<noteq> []" by auto
  then have "hexToCompactInPlace hex =
      Some (take (?n div 2 + 1) (hex'[0 := flag_byte (HasTerm hex) ?ns]))"
    using h(1, 2) fb
    unfolding hexToCompactInPlace_def Let_def HasTerm_def [symmetric] odd_iff_mod_2_eq_one by simp
  then show ?thesis
    unfolding h(3) p HexToCompact_closed compact_of_def by simp
qed

lemma hexToCompactInPlace_Nil: "hexToCompactInPlace [] = None"
  by (simp add: hexToCompactInPlace_def Let_def inPlaceLoop.simps)

subsection \<open>Common prefixes\<close>

lemma prefixLoop_le: "i \<le> len \<Longrightarrow> prefixLoop a b len i \<le> len \<and> i \<le> prefixLoop a b len i"
  by (induction a b len i rule: prefixLoop.induct) (subst (1 2) prefixLoop.simps, auto)

lemma prefixLoop_lcp:
  "i \<le> length a \<Longrightarrow> i \<le> length b \<Longrightarrow>
   prefixLoop a b (min (length a) (length b)) i =
     i + length (longest_common_prefix (drop i a) (drop i b))"
proof (induction "length a - i" arbitrary: i)
  case 0
  then show ?case by (subst prefixLoop.simps) simp
next
  case (Suc n)
  show ?case
  proof (cases "i < length b")
    case True
    then have "drop i a = a ! i # drop (Suc i) a" "drop i b = b ! i # drop (Suc i) b"
      using Suc by (simp_all add: Cons_nth_drop_Suc)
    then show ?thesis
      using Suc True by (subst prefixLoop.simps) auto
  next
    case False
    with Suc show ?thesis by (subst prefixLoop.simps) simp
  qed
qed

lemma PrefixLen_lcp: "PrefixLen a b = length (longest_common_prefix a b)"
  using prefixLoop_lcp [of 0 a b] by (auto simp: PrefixLen_def min_def not_less)

lemma PrefixLen_le: "PrefixLen a b \<le> length a" "PrefixLen a b \<le> length b"
  unfolding PrefixLen_lcp
  by (meson longest_common_prefix_prefix1 longest_common_prefix_prefix2 prefix_length_le)+

lemma take_PrefixLen: "take (PrefixLen a b) a = take (PrefixLen a b) b"
  unfolding PrefixLen_lcp
  by (metis longest_common_prefix_prefix1 longest_common_prefix_prefix2 prefix_def append_eq_conv_conj)

lemma PrefixLen_diff:
  assumes "PrefixLen a b < length a" "PrefixLen a b < length b"
  shows "a ! PrefixLen a b \<noteq> b ! PrefixLen a b"
proof
  assume eq: "a ! PrefixLen a b = b ! PrefixLen a b"
  let ?n = "PrefixLen a b"
  have "take (Suc ?n) a = take (Suc ?n) b"
    using assms eq take_PrefixLen [of a b] by (simp add: take_Suc_conv_app_nth)
  then have "prefix (take (Suc ?n) a) (longest_common_prefix a b)"
    by (metis longest_common_prefix_max_prefix take_is_prefix)
  then show False
    using prefix_length_le assms unfolding PrefixLen_lcp by fastforce
qed

lemma PrefixLen_eq_length: "PrefixLen a b = length a \<longleftrightarrow> prefix a b"
  using take_PrefixLen [of a b] PrefixLen_le [of a b] longest_common_prefix_max_prefix [of a a b]
  unfolding PrefixLen_lcp
  by (metis le_antisym prefix_length_le prefix_order.order_refl take_all take_is_prefix)

subsection \<open>Properties\<close>

text \<open>C37. Compact encoding loses nothing: for every hex key (nibbles, with or without the
  terminator) \<^verbatim>\<open>HexToCompact\<close> returns without panicking and \<^verbatim>\<open>CompactToHex\<close> gives the key back.\<close>

theorem compact_roundtrip:
  assumes "hex_path s"
  shows "\<exists>c. HexToCompact s = Some c \<and> CompactToHex c = s \<and> length c = (length s - (if HasTerm s then 1 else 0)) div 2 + 1"
proof (intro exI conjI)
  let ?ns = "if HasTerm s then butlast s else s"
  show "HexToCompact s = Some (compact_of (HasTerm s) ?ns)" by (rule HexToCompact_closed)
  have "list_all is_nibble ?ns" using assms by (simp only: hex_path_def)
  then have "CompactToHex (compact_of (HasTerm s) ?ns) = ?ns @ (if HasTerm s then [16] else [])"
    by (rule CompactToHex_compact_of)
  also have "\<dots> = s" by (auto simp: HasTerm_iff)
  finally show "CompactToHex (compact_of (HasTerm s) ?ns) = s" .
  show "length (compact_of (HasTerm s) ?ns) = (length s - (if HasTerm s then 1 else 0)) div 2 + 1"
    by (simp add: length_compact_of)
qed

theorem compact_roundtrip_witness:
  "\<exists>c. HexToCompact [1, 2, 3, 16] = Some c \<and> CompactToHex c = [1, 2, 3, 16] \<and> length c = Suc (Suc 0)"
proof -
  have "hex_path [1, 2, 3, 16]" by (simp add: hex_path_def HasTerm_def is_nibble_def)
  from compact_roundtrip [OF this] show ?thesis by (simp add: HasTerm_def)
qed

text \<open>C38. The in-place compaction agrees with \<^verbatim>\<open>HexToCompact\<close> on every nonempty buffer, although
  it overwrites the buffer it reads; on the empty buffer it panics (it writes \<^verbatim>\<open>hex[0]\<close>) where
  \<^verbatim>\<open>HexToCompact\<close> returns the flag byte 0.\<close>

theorem hexToCompactInPlace_equiv:
  "hexToCompactInPlace hex = (if hex = [] then None else HexToCompact hex) \<and> HexToCompact [] = Some [0]"
  by (simp add: hexToCompactInPlace_nonempty hexToCompactInPlace_Nil HexToCompact_closed
      compact_of_def flag_byte_def)

text \<open>\<^verbatim>\<open>HexToKeybytes\<close> inverts \<^verbatim>\<open>KeybytesToHex\<close> for every key, and it panics exactly on
  hex keys whose nibble count is odd.\<close>

lemma keybytes_roundtrip:
  "HexToKeybytes (KeybytesToHex key) = Some key \<and>
   (HexToKeybytes hex = None \<longleftrightarrow> odd (length hex - (if HasTerm hex then 1 else 0)))"
proof
  show "HexToKeybytes (KeybytesToHex key) = Some key"
    by (simp add: HexToKeybytes_def KeybytesToHex_unpack decodeNibbles_pack)
  have "(if odd (length ns) then None else decodeNibbles ns (replicate (length ns div 2) 0)) = None
    \<longleftrightarrow> odd (length ns)" for ns
    by (simp add: decodeNibbles_pack)
  from this [of "if HasTerm hex then take (length hex - 1) hex else hex"]
  show "HexToKeybytes hex = None \<longleftrightarrow> odd (length hex - (if HasTerm hex then 1 else 0))"
    unfolding HexToKeybytes_def Let_def odd_iff_mod_2_eq_one not_mod_2_eq_0_eq_1
    by (cases "HasTerm hex") simp_all
qed

text \<open>\<^verbatim>\<open>PrefixLen\<close> returns the length of the longest common prefix, and both keys start with that
  prefix.\<close>

lemma PrefixLen_correct:
  "PrefixLen a b = length (longest_common_prefix a b) \<and>
   take (PrefixLen a b) a = longest_common_prefix a b \<and> take (PrefixLen a b) b = longest_common_prefix a b"
  unfolding PrefixLen_lcp
  by (metis append_eq_conv_conj longest_common_prefix_prefix1 longest_common_prefix_prefix2 prefix_def)

end
