(* ===== verification/Trie_Node.thy ===== *)
theory Trie_Node
  imports Hex_Encoding "HOL-Library.AList" "HOL-Library.List_Lexorder" "HOL-Library.Char_ord"
begin

text \<open>
  The nodes of the Merkle-Patricia trie and their byte form (\<^verbatim>\<open>pkg/trie/node\<close>: \<^verbatim>\<open>node.go\<close>,
  \<^verbatim>\<open>full_node.go\<close>, \<^verbatim>\<open>short_node.go\<close>, \<^verbatim>\<open>value_node.go\<close>, \<^verbatim>\<open>hash_node.go\<close>, \<^verbatim>\<open>node_set.go\<close>), the set
  of nodes a commit collects, and the change tracer (\<^verbatim>\<open>pkg/trie/tracer.go\<close>).

  The protobuf codec, Keccak-256 and go-ethereum's \<^verbatim>\<open>BytesToHash\<close> are not code of this
  repository: they are the fields of the record \<open>ext\<close>, and what the trie relies on is the
  locale \<open>trie_ext\<close>.
\<close>

subsection \<open>The external functions\<close>

datatype MPTNODE_TYPE = MPTNODE_TYPE_FULL | MPTNODE_TYPE_SHORT | MPTNODE_TYPE_VALUE | MPTNODE_TYPE_OTHER int

record ext =
  keccak :: "bytes \<Rightarrow> bytes"
  BytesToHash :: "bytes \<Rightarrow> bytes"
  pbNode :: "MPTNODE_TYPE \<Rightarrow> bytes \<Rightarrow> bytes"
  unNode :: "bytes \<Rightarrow> (MPTNODE_TYPE \<times> bytes) option"
  pbFull :: "bytes list \<Rightarrow> bytes"
  unFull :: "bytes \<Rightarrow> bytes list option"
  pbShort :: "bytes \<Rightarrow> bytes \<Rightarrow> bytes"
  unShort :: "bytes \<Rightarrow> (bytes \<times> bytes) option"

definition zero_hash :: bytes where
  "zero_hash = replicate 32 0"

lemma length_zero_hash [simp]: "length zero_hash = 32"
  by (simp add: zero_hash_def)

text \<open>Documented behaviour: \<^verbatim>\<open>BytesToHash\<close> yields 32 bytes and keeps 32-byte inputs, Keccak-256
  yields 32 bytes, protobuf messages parse back to what was written, and only the message
  with default fields is written as zero bytes.\<close>

locale trie_ext =
  fixes X :: ext
  assumes length_BytesToHash: "length (BytesToHash X b) = 32"
    and BytesToHash_id: "length b = 32 \<Longrightarrow> BytesToHash X b = b"
    and length_keccak: "length (keccak X b) = 32"
    and unNode_pbNode: "unNode X (pbNode X t d) = Some (t, d)"
    and unFull_pbFull: "unFull X (pbFull X ns) = Some ns"
    and unShort_pbShort: "unShort X (pbShort X k v) = Some (k, v)"
    and pbNode_empty: "pbNode X t d = [] \<Longrightarrow> t = MPTNODE_TYPE_FULL \<and> d = []"
    and pbFull_empty: "pbFull X ns = [] \<Longrightarrow> ns = []"

subsection \<open>Nodes\<close>

record NodeFlag =
  Hash :: bytes
  Dirty :: bool

definition NewFlag :: NodeFlag where
  "NewFlag = \<lparr>Hash = [], Dirty = True\<rparr>"

text \<open>\<^verbatim>\<open>NilNode\<close> is the nil interface value; the hash of a flag is \<open>[]\<close> when it is nil.\<close>

datatype node =
    NilNode
  | ValueNode bytes
  | HashNode bytes
  | ShortNode bytes node NodeFlag
  | FullNode "node list" NodeFlag

definition TOTAL_CHILD_NODE :: nat where
  "TOTAL_CHILD_NODE = 17"

definition NilValueNode :: node where
  "NilValueNode = ValueNode []"

text \<open>\<^verbatim>\<open>Cache\<close>; on the nil interface the call is a nil dereference.\<close>

fun Cache :: "node \<Rightarrow> (bytes \<times> bool) option" where
  "Cache (FullNode cs f) = Some (Hash f, Dirty f)"
| "Cache (ShortNode k v f) = Some (Hash f, Dirty f)"
| "Cache (ValueNode v) = Some ([], True)"
| "Cache (HashNode h) = Some ([], True)"
| "Cache NilNode = None"

text \<open>\<^verbatim>\<open>Marshal\<close>. A short node without a value would be a nil dereference; its value is \<open>None\<close>.\<close>

fun Marshal :: "ext \<Rightarrow> node \<Rightarrow> bytes option" where
  "Marshal X NilNode = None"
| "Marshal X (ValueNode v) = Some v"
| "Marshal X (HashNode h) = Some h"
| "Marshal X (ShortNode k v f) =
     (case Marshal X v of
        None \<Rightarrow> None
      | Some valBuf \<Rightarrow> Some (pbNode X MPTNODE_TYPE_SHORT (pbShort X k valBuf)))"
| "Marshal X (FullNode cs f) =
     (let bufNodes = map (\<lambda>c. if c = NilNode then Some zero_hash else Marshal X c) cs
      in if None \<in> set bufNodes then None
         else Some (pbNode X MPTNODE_TYPE_FULL (pbFull X (map the bufNodes))))"

definition NodeToBytes :: "ext \<Rightarrow> node \<Rightarrow> bytes option" where
  "NodeToBytes X n = Marshal X n"

text \<open>The children loop of \<^verbatim>\<open>FullNode.Unmarshal\<close>; an 18th entry is an index out of range.\<close>

fun setChildren :: "ext \<Rightarrow> nat \<Rightarrow> bytes list \<Rightarrow> node list \<Rightarrow> node list option" where
  "setChildren X i [] cs = Some cs"
| "setChildren X i (v # vs) cs =
     (if BytesToHash X v = zero_hash then setChildren X (Suc i) vs cs
      else if i < length cs then setChildren X (Suc i) vs (cs[i := HashNode v])
      else None)"

datatype 'a unmarshal = UnmarshalOk 'a | UnmarshalErr | UnmarshalPanic

definition FullNode_Unmarshal :: "ext \<Rightarrow> bytes \<Rightarrow> bytes \<Rightarrow> node unmarshal" where
  "FullNode_Unmarshal X hash buf =
     (case unFull X buf of
        None \<Rightarrow> UnmarshalErr
      | Some vs \<Rightarrow>
          (case setChildren X 0 vs (replicate TOTAL_CHILD_NODE NilNode) of
             None \<Rightarrow> UnmarshalPanic
           | Some cs \<Rightarrow> UnmarshalOk (FullNode cs \<lparr>Hash = hash, Dirty = False\<rparr>)))"

definition ShortNode_Unmarshal :: "ext \<Rightarrow> bytes \<Rightarrow> bytes \<Rightarrow> node unmarshal" where
  "ShortNode_Unmarshal X hash buf =
     (case unShort X buf of
        None \<Rightarrow> UnmarshalErr
      | Some (k, v) \<Rightarrow>
          let key = CompactToHex k;
              val = (if HasTerm key then ValueNode v else HashNode v)
          in UnmarshalOk (ShortNode key val \<lparr>Hash = hash, Dirty = False\<rparr>))"

text \<open>\<^verbatim>\<open>DecodeNode\<close> never returns an error; \<open>None\<close> is the panic of the children loop.\<close>

definition DecodeNode :: "ext \<Rightarrow> bytes \<Rightarrow> bytes \<Rightarrow> node option" where
  "DecodeNode X hash buf =
     (case unNode X buf of
        None \<Rightarrow> Some (HashNode buf)
      | Some (MPTNODE_TYPE_FULL, d) \<Rightarrow>
          (case FullNode_Unmarshal X hash d of
             UnmarshalErr \<Rightarrow> Some (HashNode d) | UnmarshalPanic \<Rightarrow> None | UnmarshalOk n \<Rightarrow> Some n)
      | Some (MPTNODE_TYPE_SHORT, d) \<Rightarrow>
          (case ShortNode_Unmarshal X hash d of
             UnmarshalErr \<Rightarrow> Some (HashNode d) | UnmarshalPanic \<Rightarrow> None | UnmarshalOk n \<Rightarrow> Some n)
      | Some _ \<Rightarrow> Some NilNode)"

subsection \<open>The node set of a commit\<close>

record NodeWrapper =
  NHash :: bytes
  Blob :: bytes

definition NodeWrapper_Size :: "NodeWrapper \<Rightarrow> nat" where
  "NodeWrapper_Size n = length (Blob n) + 32"

definition IsDeleted :: "NodeWrapper \<Rightarrow> bool" where
  "IsDeleted n \<longleftrightarrow> length (Blob n) = 0"

definition NewWrapper :: "bytes \<Rightarrow> bytes \<Rightarrow> NodeWrapper" where
  "NewWrapper hash blob = \<lparr>NHash = hash, Blob = blob\<rparr>"

definition NewDeleted :: NodeWrapper where
  "NewDeleted = NewWrapper zero_hash []"

record leaf =
  LBlob :: bytes
  LParent :: bytes

text \<open>The Go map is an association list with distinct keys: one of its iteration orders.\<close>

record NodeSet =
  Leaves :: "leaf list"
  Nodes :: "(string \<times> NodeWrapper) list"
  updates :: int
  deletes_cnt :: int

definition NewNodeSet :: NodeSet where
  "NewNodeSet = \<lparr>Leaves = [], Nodes = [], updates = 0, deletes_cnt = 0\<rparr>"

definition AddNode :: "bytes \<Rightarrow> NodeWrapper \<Rightarrow> NodeSet \<Rightarrow> NodeSet" where
  "AddNode path n s =
     (let s' = (if IsDeleted n then s\<lparr>deletes_cnt := deletes_cnt s + 1\<rparr>
                else s\<lparr>updates := updates s + 1\<rparr>)
      in s'\<lparr>Nodes := AList.update (hex_encode path) n (Nodes s')\<rparr>)"

text \<open>\<^verbatim>\<open>[]byte(path)\<close> of a Go string.\<close>

definition string_bytes :: "string \<Rightarrow> bytes" where
  "string_bytes s = map of_char s"

fun Merge :: "(string \<times> NodeWrapper) list \<Rightarrow> NodeSet \<Rightarrow> NodeSet" where
  "Merge [] s = s"
| "Merge ((path, n) # ns) s =
     (let s' = (case map_of (Nodes s) path of
                  None \<Rightarrow> s
                | Some prev \<Rightarrow>
                    if IsDeleted prev then s\<lparr>deletes_cnt := deletes_cnt s - 1\<rparr>
                    else s\<lparr>updates := updates s - 1\<rparr>)
      in Merge ns (AddNode (string_bytes path) n s'))"

definition AddLeaf :: "bytes \<Rightarrow> bytes \<Rightarrow> NodeSet \<Rightarrow> NodeSet" where
  "AddLeaf parent blob s = s\<lparr>Leaves := Leaves s @ [\<lparr>LBlob = blob, LParent = parent\<rparr>]\<rparr>"

definition NodeSet_Size :: "NodeSet \<Rightarrow> int \<times> int" where
  "NodeSet_Size s = (updates s, deletes_cnt s)"

definition Hashes :: "NodeSet \<Rightarrow> bytes list" where
  "Hashes s = map (\<lambda>(path, n). NHash n) (Nodes s)"

text \<open>The calls of the callback of \<^verbatim>\<open>ForEachWithOrder\<close>, in order.\<close>

definition ForEachWithOrder :: "NodeSet \<Rightarrow> (string \<times> NodeWrapper) list" where
  "ForEachWithOrder s =
     (let paths = rev (sort (map fst (Nodes s)))
      in map (\<lambda>path. (path, the (map_of (Nodes s) path))) paths)"

subsection \<open>The tracer\<close>

text \<open>The key sets of the \<^verbatim>\<open>sync.Map\<close>s \<^verbatim>\<open>inserts\<close> and \<^verbatim>\<open>deletes\<close> are lists without duplicates, in one
  of the orders \<^verbatim>\<open>Range\<close> may use.\<close>

record Tracer =
  inserts :: "bytes list"
  deletes :: "bytes list"
  oldKeys :: "bytes list"
  accessList :: "bytes \<Rightarrow> bytes option"

definition newTracer :: Tracer where
  "newTracer = \<lparr>inserts = [], deletes = [], oldKeys = [], accessList = Map.empty\<rparr>"

definition onRead :: "bytes \<Rightarrow> bytes \<Rightarrow> Tracer \<Rightarrow> Tracer" where
  "onRead path val t = t\<lparr>accessList := (accessList t)(path \<mapsto> val)\<rparr>"

definition onInsert :: "bytes \<Rightarrow> Tracer \<Rightarrow> Tracer" where
  "onInsert path t =
     (if path \<in> set (deletes t) then t\<lparr>deletes := removeAll path (deletes t)\<rparr>
      else t\<lparr>inserts := List.insert path (inserts t)\<rparr>)"

definition onDelete :: "bytes \<Rightarrow> Tracer \<Rightarrow> Tracer" where
  "onDelete path t =
     (if path \<in> set (inserts t) then t\<lparr>inserts := removeAll path (inserts t)\<rparr>
      else t\<lparr>deletes := List.insert path (deletes t)\<rparr>)"

definition addOldKey :: "bytes \<Rightarrow> Tracer \<Rightarrow> Tracer" where
  "addOldKey h t = t\<lparr>oldKeys := oldKeys t @ [h]\<rparr>"

definition Tracer_reset :: "Tracer \<Rightarrow> Tracer" where
  "Tracer_reset t = t\<lparr>inserts := [], deletes := [], accessList := Map.empty, oldKeys := []\<rparr>"

definition Tracer_copy :: "Tracer \<Rightarrow> Tracer" where
  "Tracer_copy t = \<lparr>inserts = inserts t, deletes = deletes t, oldKeys = [], accessList = accessList t\<rparr>"

definition deletedNodes :: "Tracer \<Rightarrow> bytes list" where
  "deletedNodes t = [path \<leftarrow> deletes t. accessList t path \<noteq> None]"

end
