(* ===== verification/Trie_Spec.thy ===== *)
theory Trie_Spec
  imports Hex_Encoding
begin

text \<open>
  The specification of the Merkle-Patricia trie: a trie without hashes, flags, tracer and
  database. \<open>alookup\<close> gives the map from hex keys to values that a trie stands for, \<open>ainsert\<close>
  and \<open>adelete\<close> are the pure counterparts of \<^verbatim>\<open>insert\<close> and \<^verbatim>\<open>delete\<close>, \<open>canon\<close> is the canonical form
  they keep, and canonical tries with the same map are equal.
\<close>

subsection \<open>Abstract tries\<close>

datatype atrie = ANil | AVal bytes | AShort bytes atrie | AFull "atrie list"

lemma size_child [termination_simp]: "i < length cs \<Longrightarrow> size (cs ! i) < Suc (size_list size cs)"
  using size_list_estimation' [OF nth_mem, of i cs "size (cs ! i)" size] by simp

lemma size_butlast [termination_simp]: "c \<in> set (butlast cs) \<Longrightarrow> size c < Suc (size_list size cs)"
  using size_list_estimation' [OF in_set_butlastD, of c cs "size c" size] by simp

fun alookup :: "atrie \<Rightarrow> bytes \<Rightarrow> bytes" where
  "alookup ANil key = []"
| "alookup (AVal v) key = v"
| "alookup (AShort sk c) key = (if prefix sk key then alookup c (drop (length sk) key) else [])"
| "alookup (AFull cs) [] = []"
| "alookup (AFull cs) (k # ks) = (if unat k < length cs then alookup (cs ! unat k) ks else [])"

definition mkshort :: "bytes \<Rightarrow> atrie \<Rightarrow> atrie" where
  "mkshort k c = (if k = [] then c else AShort k c)"

definition abranch :: "byte \<Rightarrow> atrie \<Rightarrow> byte \<Rightarrow> atrie \<Rightarrow> atrie" where
  "abranch i c j d = AFull ((replicate 17 ANil)[unat i := c, unat j := d])"

fun ainsert :: "atrie \<Rightarrow> bytes \<Rightarrow> bytes \<Rightarrow> atrie" where
  "ainsert ANil key v = mkshort key (AVal v)"
| "ainsert (AVal w) key v = AVal v"
| "ainsert (AShort sk c) key v =
     (let m = PrefixLen key sk
      in if m = length sk then AShort sk (ainsert c (drop m key) v)
         else mkshort (take m key)
                (abranch (sk ! m) (mkshort (drop (Suc m) sk) c)
                   (key ! m) (mkshort (drop (Suc m) key) (AVal v))))"
| "ainsert (AFull cs) [] v = AFull cs"
| "ainsert (AFull cs) (k # ks) v =
     (if unat k < length cs then AFull (cs[unat k := ainsert (cs ! unat k) ks v]) else AFull cs)"

definition nonnil :: "atrie list \<Rightarrow> nat list" where
  "nonnil cs = [i \<leftarrow> [0..<length cs]. cs ! i \<noteq> ANil]"

text \<open>\<open>amerge k c\<close> is the short node with key \<open>k\<close> over \<open>c\<close>, merged with \<open>c\<close> when \<open>c\<close> is short.\<close>

fun amerge :: "bytes \<Rightarrow> atrie \<Rightarrow> atrie" where
  "amerge k (AShort k2 c) = AShort (k @ k2) c"
| "amerge k c = AShort k c"

definition areduce :: "atrie list \<Rightarrow> atrie" where
  "areduce cs = (case nonnil cs of [i] \<Rightarrow> amerge [word_of_nat i] (cs ! i) | _ \<Rightarrow> AFull cs)"

fun adelete :: "atrie \<Rightarrow> bytes \<Rightarrow> atrie" where
  "adelete ANil key = ANil"
| "adelete (AVal w) key = ANil"
| "adelete (AShort sk c) key =
     (if \<not> prefix sk key then AShort sk c
      else if key = sk then ANil
      else amerge sk (adelete c (drop (length sk) key)))"
| "adelete (AFull cs) [] = AFull cs"
| "adelete (AFull cs) (k # ks) =
     (if unat k < length cs
      then (let c = adelete (cs ! unat k) ks; cs' = cs[unat k := c]
            in if c = ANil then areduce cs' else AFull cs')
      else AFull cs)"

subsection \<open>Hex keys and canonical form\<close>

definition hexkey :: "bytes \<Rightarrow> bool" where
  "hexkey k \<longleftrightarrow> (\<exists>p. k = p @ [16] \<and> list_all is_nibble p)"

fun is_full :: "atrie \<Rightarrow> bool" where
  "is_full (AFull cs) = True"
| "is_full _ = False"

text \<open>Canonical non-empty tries: a short node is a leaf (its key ends in the terminator) or leads
  to a full node; a full node has at least two children, and only its last child is a value.\<close>

fun wft :: "atrie \<Rightarrow> bool" where
  "wft ANil = False"
| "wft (AVal v) = False"
| "wft (AShort k c) =
     (if HasTerm k then hexkey k \<and> (case c of AVal v \<Rightarrow> v \<noteq> [] | _ \<Rightarrow> False)
      else k \<noteq> [] \<and> list_all is_nibble k \<and> is_full c \<and> wft c)"
| "wft (AFull cs) =
     (length cs = 17 \<and> 2 \<le> length (nonnil cs) \<and> (\<forall>c \<in> set (butlast cs). c \<noteq> ANil \<longrightarrow> wft c)
      \<and> (case last cs of ANil \<Rightarrow> True | AVal v \<Rightarrow> v \<noteq> [] | _ \<Rightarrow> False))"

definition canon :: "atrie \<Rightarrow> bool" where
  "canon t \<longleftrightarrow> t = ANil \<or> wft t"

text \<open>The child \<open>i\<close> of a canonical full node.\<close>

definition wfc :: "nat \<Rightarrow> atrie \<Rightarrow> bool" where
  "wfc i c \<longleftrightarrow> (if i < 16 then canon c else case c of ANil \<Rightarrow> True | AVal v \<Rightarrow> v \<noteq> [] | _ \<Rightarrow> False)"

lemma less_17: "i < (17 :: nat) \<longleftrightarrow> i < 16 \<or> i = 16"
  by arith

lemma wft_AFull:
  "wft (AFull cs) \<longleftrightarrow> length cs = 17 \<and> 2 \<le> length (nonnil cs) \<and> (\<forall>i < 17. wfc i (cs ! i))"
proof (cases "length cs = 17")
  case True
  then have "cs \<noteq> []" by auto
  then have l: "last cs = cs ! 16" using True by (simp add: last_conv_nth)
  have "(\<forall>c \<in> set (butlast cs). c \<noteq> ANil \<longrightarrow> wft c) \<longleftrightarrow> (\<forall>i < 16. canon (cs ! i))"
    using True by (auto simp: all_set_conv_all_nth nth_butlast canon_def)
  moreover have "(\<forall>i < 17. wfc i (cs ! i)) \<longleftrightarrow> (\<forall>i < 16. canon (cs ! i)) \<and> wfc 16 (cs ! 16)"
    unfolding less_17 by (auto simp: wfc_def)
  ultimately show ?thesis using True l by (auto simp: wfc_def)
qed simp

lemma wfc_ANil [simp]: "wfc i ANil" by (simp add: wfc_def canon_def)
lemma canon_ANil [simp]: "canon ANil" by (simp add: canon_def)
lemma wft_canon [simp]: "wft t \<Longrightarrow> canon t" by (simp add: canon_def)
lemma wfc_canon: "i < 16 \<Longrightarrow> wfc i c \<longleftrightarrow> canon c" by (simp add: wfc_def)
lemma wfc_16: "wfc 16 c \<longleftrightarrow> c = ANil \<or> (\<exists>v. c = AVal v \<and> v \<noteq> [])"
  by (auto simp: wfc_def split: atrie.splits)

lemma hexkey_Cons: "hexkey (k # ks) \<longleftrightarrow> (k = 16 \<and> ks = []) \<or> (is_nibble k \<and> hexkey ks)"
proof
  assume "hexkey (k # ks)"
  then obtain p where p: "k # ks = p @ [16]" "list_all is_nibble p" by (auto simp: hexkey_def)
  then show "(k = 16 \<and> ks = []) \<or> (is_nibble k \<and> hexkey ks)"
    by (cases p) (auto simp: hexkey_def)
next
  assume "(k = 16 \<and> ks = []) \<or> (is_nibble k \<and> hexkey ks)"
  then show "hexkey (k # ks)"
  proof
    assume "is_nibble k \<and> hexkey ks"
    then obtain p where "ks = p @ [16]" "list_all is_nibble (k # p)" by (auto simp: hexkey_def)
    then show ?thesis unfolding hexkey_def by (intro exI [of _ "k # p"]) simp
  qed (simp add: hexkey_def)
qed

lemma hexkey_Nil [simp]: "\<not> hexkey []"
  by (simp add: hexkey_def)

lemma hexkey_16 [simp]: "hexkey [16]"
  by (simp add: hexkey_def)

lemma hexkey_append: "list_all is_nibble p \<Longrightarrow> hexkey (p @ ks) \<longleftrightarrow> hexkey ks"
  by (induction p) (auto simp: hexkey_Cons)

lemma hexkey_HasTerm: "hexkey k \<Longrightarrow> HasTerm k"
  by (auto simp: hexkey_def)

lemma nibbles_not_HasTerm: "list_all is_nibble k \<Longrightarrow> \<not> HasTerm k"
  by (auto simp: HasTerm_iff)

lemma hexkey_KeybytesToHex [simp]: "hexkey (KeybytesToHex k)"
  by (auto simp: KeybytesToHex_unpack hexkey_def)

text \<open>No hex key is a proper prefix of another.\<close>

lemma hexkey_prefix: "hexkey a \<Longrightarrow> hexkey b \<Longrightarrow> prefix a b \<Longrightarrow> a = b"
proof (induction a arbitrary: b)
  case (Cons x a)
  then obtain b' where b: "b = x # b'" "prefix a b'" by (cases b) auto
  show ?case
  proof (cases "x = 16")
    case True
    then show ?thesis using Cons.prems b by (auto simp: hexkey_Cons is_nibble_def)
  next
    case False
    then show ?thesis using Cons b by (auto simp: hexkey_Cons)
  qed
qed simp

lemma unat_numeral_byte_16 [simp]: "unat (16 :: byte) = 16"
  by simp

lemma hexkey_head_less: "hexkey (k # ks) \<Longrightarrow> unat k < 17"
  by (auto simp: hexkey_Cons is_nibble_def word_less_nat_alt)

lemma nibble_unat: "is_nibble k \<longleftrightarrow> unat k < 16"
  by (simp add: is_nibble_def word_less_nat_alt)

lemma unat_eq_16: "unat (k :: byte) = 16 \<longleftrightarrow> k = 16"
  by (metis unat_numeral_byte_16 unsigned_word_eqI)

subsection \<open>Splitting keys\<close>

lemma PrefixLen_commute: "PrefixLen a b = PrefixLen b a"
  unfolding PrefixLen_lcp
  by (induction a b rule: longest_common_prefix.induct) auto

lemma PrefixLen_split:
  assumes "PrefixLen a b < length a" "PrefixLen a b < length b"
  obtains p i as j bs where "a = p @ i # as" "b = p @ j # bs" "i \<noteq> j" "length p = PrefixLen a b"
proof
  let ?m = "PrefixLen a b"
  show "a = take ?m a @ a ! ?m # drop (Suc ?m) a"
    using assms(1) by (rule id_take_nth_drop)
  have "b = take ?m b @ b ! ?m # drop (Suc ?m) b"
    using assms(2) by (rule id_take_nth_drop)
  then show "b = take ?m a @ b ! ?m # drop (Suc ?m) b"
    by (simp only: take_PrefixLen [of a b])
  show "a ! ?m \<noteq> b ! ?m" using assms by (rule PrefixLen_diff)
  show "length (take ?m a) = ?m" using assms(1) by simp
qed

text \<open>The key of a canonical short node against a hex key: either it is a prefix, or both go on
  and differ.\<close>

lemma short_key_cases:
  assumes "wft (AShort sk c)" "hexkey key"
  obtains (match) "PrefixLen key sk = length sk" "prefix sk key"
  | (differ) p i sr j kr where "sk = p @ i # sr" "key = p @ j # kr" "i \<noteq> j"
      "PrefixLen key sk = length p" "PrefixLen key sk \<noteq> length sk" "list_all is_nibble p"
proof (cases "PrefixLen key sk = length sk")
  case True
  then show ?thesis
    using match PrefixLen_commute [of key sk] PrefixLen_eq_length [of sk key] by simp
next
  case False
  then have lt: "PrefixLen key sk < length sk" using PrefixLen_le [of key sk] by simp
  have "PrefixLen key sk \<noteq> length key"
  proof
    assume "PrefixLen key sk = length key"
    then have pre: "prefix key sk" by (simp add: PrefixLen_eq_length)
    show False
    proof (cases "HasTerm sk")
      case True
      with assms have "hexkey sk" by simp
      with pre assms(2) have "key = sk" using hexkey_prefix by blast
      with False show False using \<open>PrefixLen key sk = length key\<close> by simp
    next
      case False
      with assms(1) have "list_all is_nibble sk" by simp
      with pre have "list_all is_nibble key" by (auto simp: prefix_def)
      with assms(2) show False using hexkey_HasTerm nibbles_not_HasTerm by blast
    qed
  qed
  then have lt': "PrefixLen key sk < length key" using PrefixLen_le [of key sk] by simp
  obtain p j kr i sr where s: "key = p @ j # kr" "sk = p @ i # sr" "j \<noteq> i" "length p = PrefixLen key sk"
    using PrefixLen_split [OF lt' lt] by metis
  have "list_all is_nibble p"
    using assms(2) s(1)
  proof (induction p arbitrary: key)
    case (Cons x p)
    then show ?case by (auto simp: hexkey_Cons)
  qed simp
  then show ?thesis using differ [of p i sr j kr] s False by simp
qed

lemma wft_short_cases:
  assumes "wft (AShort sk c)"
  obtains (leaf) v where "hexkey sk" "c = AVal v" "v \<noteq> []"
  | (ext) "list_all is_nibble sk" "sk \<noteq> []" "is_full c" "wft c" "\<not> HasTerm sk"
  using assms by (cases "HasTerm sk") (auto split: atrie.splits)

lemma alookup_mkshort:
  "alookup (mkshort p c) k = (if prefix p k then alookup c (drop (length p) k) else [])"
  by (simp add: mkshort_def)

lemma alookup_abranch:
  assumes "i \<noteq> j" "unat i < 17" "unat j < 17"
  shows "alookup (abranch i A j B) (x # xs) =
    (if x = i then alookup A xs else if x = j then alookup B xs else [])"
proof -
  have ne: "unat i \<noteq> unat j" using assms(1) by (simp add: word_unat_eq_iff)
  have "(replicate 17 ANil)[unat i := A, unat j := B] ! unat x =
      (if x = i then A else if x = j then B else ANil)" if "unat x < 17"
    using that assms ne by (auto simp: nth_list_update word_unat_eq_iff)
  then show ?thesis using assms by (auto simp: abranch_def)
qed

lemma set_nonnil: "set (nonnil cs) = {i. i < length cs \<and> cs ! i \<noteq> ANil}"
  by (auto simp: nonnil_def)

lemma distinct_nonnil [simp]: "distinct (nonnil cs)"
  by (simp add: nonnil_def)

lemma two_nonnil:
  "2 \<le> length (nonnil cs) \<longleftrightarrow>
    (\<exists>i < length cs. \<exists>j < length cs. i \<noteq> j \<and> cs ! i \<noteq> ANil \<and> cs ! j \<noteq> ANil)"
proof
  assume "2 \<le> length (nonnil cs)"
  then obtain i j xs where n: "nonnil cs = i # j # xs"
    by (metis Suc_le_length_iff numeral_2_eq_2)
  with distinct_nonnil [of cs] have "i \<noteq> j" by simp
  moreover have "{i, j} \<subseteq> set (nonnil cs)" by (simp add: n)
  ultimately show "\<exists>i < length cs. \<exists>j < length cs. i \<noteq> j \<and> cs ! i \<noteq> ANil \<and> cs ! j \<noteq> ANil"
    unfolding set_nonnil by auto
next
  assume "\<exists>i < length cs. \<exists>j < length cs. i \<noteq> j \<and> cs ! i \<noteq> ANil \<and> cs ! j \<noteq> ANil"
  then obtain i j where "{i, j} \<subseteq> set (nonnil cs)" "i \<noteq> j" unfolding set_nonnil by auto
  then have "card {i, j} \<le> card (set (nonnil cs))" by (intro card_mono) auto
  with \<open>i \<noteq> j\<close> show "2 \<le> length (nonnil cs)" by (simp add: distinct_card)
qed

subsection \<open>Insertion\<close>

declare wft.simps(3, 4) [simp del]

lemma wft_leaf [intro]: "hexkey key \<Longrightarrow> v \<noteq> [] \<Longrightarrow> wft (AShort key (AVal v))"
  by (simp add: hexkey_HasTerm wft.simps)

lemma wft_ext [intro]: "list_all is_nibble k \<Longrightarrow> k \<noteq> [] \<Longrightarrow> is_full c \<Longrightarrow> wft c \<Longrightarrow> wft (AShort k c)"
  by (simp add: nibbles_not_HasTerm wft.simps(3))

lemma wft_AFull_child:
  "wft (AFull cs) \<Longrightarrow> is_nibble k \<Longrightarrow> canon (cs ! unat k)"
  "wft (AFull cs) \<Longrightarrow> cs ! 16 = ANil \<or> (\<exists>v. cs ! 16 = AVal v \<and> v \<noteq> [])"
  "wft (AFull cs) \<Longrightarrow> length cs = 17"
proof -
  assume "wft (AFull cs)"
  then have "length cs = 17" and c: "\<And>i. i < 17 \<Longrightarrow> wfc i (cs ! i)" by (auto simp: wft_AFull)
  then show "length cs = 17" by simp
  show "canon (cs ! unat k)" if "is_nibble k"
    using that c [of "unat k"] by (simp add: nibble_unat wfc_canon)
  show "cs ! 16 = ANil \<or> (\<exists>v. cs ! 16 = AVal v \<and> v \<noteq> [])"
    using c [of 16] by (simp add: wfc_16)
qed

lemma wfc_mkshort_tail:
  assumes "wft (AShort (p @ i # sr) c)" "list_all is_nibble p"
  shows "wfc (unat i) (mkshort sr c)" "unat i < 17" "mkshort sr c \<noteq> ANil"
proof -
  from assms(1) have "wfc (unat i) (mkshort sr c) \<and> unat i < 17 \<and> mkshort sr c \<noteq> ANil"
  proof (cases rule: wft_short_cases)
    case (leaf v)
    then have h: "hexkey (i # sr)" using assms(2) hexkey_append by blast
    then consider "i = 16" "sr = []" | "is_nibble i" "hexkey sr" by (auto simp: hexkey_Cons)
    then show ?thesis
    proof cases
      case 1
      then show ?thesis using leaf by (simp add: mkshort_def wfc_16)
    next
      case 2
      then show ?thesis
        using leaf wft_leaf [of sr v] by (auto simp: mkshort_def nibble_unat wfc_canon canon_def)
    qed
  next
    case ext
    then have "is_nibble i" "list_all is_nibble sr" by auto
    then show ?thesis
      using ext wft_ext [of sr c] by (auto simp: mkshort_def nibble_unat wfc_canon canon_def)
  qed
  then show "wfc (unat i) (mkshort sr c)" "unat i < 17" "mkshort sr c \<noteq> ANil" by auto
qed

lemma alookup_ainsert:
  assumes "canon t" "hexkey key" "hexkey key'"
  shows "alookup (ainsert t key v) key' = (if key' = key then v else alookup t key')"
  using assms
proof (induction t key v arbitrary: key' rule: ainsert.induct)
  case (1 key v)
  then show ?case using hexkey_prefix by (auto simp: alookup_mkshort)
next
  case (2 w key v)
  then show ?case by (simp add: canon_def)
next
  case (3 sk c key v)
  then have w: "wft (AShort sk c)" by (simp add: canon_def)
  show ?case
  using w "3.prems"(2) proof (cases rule: short_key_cases)
    case match
    then obtain r where r: "key = sk @ r" by (auto simp: prefix_def)
    from w show ?thesis
    proof (cases rule: wft_short_cases)
      case leaf
      then have "key = sk" using match "3.prems" hexkey_prefix by blast
      then show ?thesis using match leaf "3.prems" hexkey_prefix by auto
    next
      case ext
      show ?thesis
      proof (cases "prefix sk key'")
        case True
        then obtain r' where r': "key' = sk @ r'" by (auto simp: prefix_def)
        then have "hexkey r" "hexkey r'" using ext r "3.prems" by (auto simp: hexkey_append)
        then show ?thesis using "3.IH" match ext r r' by (simp add: canon_def)
      next
        case False
        then show ?thesis using match r by auto
      qed
    qed
  next
    case (differ p i sr j kr)
    then have i: "unat i < 17" "unat j < 17"
      using w "3.prems"(2) wfc_mkshort_tail(2) [of p i sr c] by (auto simp: hexkey_append hexkey_head_less)
    have ne: "key' \<noteq> p" using "3.prems"(3) differ(6) hexkey_HasTerm nibbles_not_HasTerm by blast
    show ?thesis
    proof (cases "prefix p key'")
      case True
      then obtain x xs where k': "key' = p @ x # xs" using ne by (metis append_Nil2 list.exhaust prefix_def)
      have "hexkey (j # kr)" "hexkey (x # xs)"
        using "3.prems"(2, 3) differ(2, 6) k' by (simp_all add: hexkey_append)
      then have eq: "x = j \<Longrightarrow> prefix kr xs \<longleftrightarrow> xs = kr"
        using hexkey_prefix [of "j # kr" "x # xs"] by auto
      show ?thesis
        using differ i k' eq by (auto simp: Let_def alookup_mkshort alookup_abranch)
    next
      case False
      then have "\<not> prefix sk key'" "key' \<noteq> key" using differ by (auto simp: prefix_def)
      then show ?thesis using differ False by (simp add: Let_def alookup_mkshort)
    qed
  qed
next
  case (4 cs v)
  then show ?case by simp
next
  case (5 cs k ks v)
  then have w: "wft (AFull cs)" by (simp add: canon_def)
  then have l: "length cs = 17" "unat k < 17"
    using "5.prems" wft_AFull_child(3) hexkey_head_less by blast+
  obtain x xs where key': "key' = x # xs" using "5.prems"(3) by (cases key') auto
  show ?case
  proof (cases "x = k")
    case True
    then show ?thesis
    proof (cases "k = 16")
      case True
      then have "ks = []" "xs = []" using "5.prems" key' \<open>x = k\<close> by (auto simp: hexkey_Cons)
      then show ?thesis using True l key' \<open>x = k\<close> wft_AFull_child(2) [OF w] by (auto simp: mkshort_def)
    next
      case False
      then have "is_nibble k" "hexkey ks" "hexkey xs"
        using "5.prems" key' \<open>x = k\<close> by (auto simp: hexkey_Cons)
      then show ?thesis
        using "5.IH" l key' True wft_AFull_child(1) [OF w] by simp
    qed
  next
    case False
    then show ?thesis using key' l by (simp add: nth_list_update word_unat_eq_iff)
  qed
qed

lemma is_full_ainsert: "is_full t \<Longrightarrow> is_full (ainsert t key v)"
  by (cases t; cases key) auto

lemma wft_abranch:
  assumes "i \<noteq> j" "unat i < 17" "unat j < 17" "wfc (unat i) A" "wfc (unat j) B" "A \<noteq> ANil" "B \<noteq> ANil"
  shows "wft (abranch i A j B)" "is_full (abranch i A j B)"
proof -
  let ?cs = "(replicate 17 ANil)[unat i := A, unat j := B]"
  have ne: "unat i \<noteq> unat j" using assms(1) by (simp add: word_unat_eq_iff)
  have "2 \<le> length (nonnil ?cs)"
    unfolding two_nonnil using assms ne
    by (intro exI [of _ "unat i"] conjI exI [of _ "unat j"]) (simp_all add: nth_list_update)
  moreover have "wfc n (?cs ! n)" if "n < 17" for n
    using assms that ne by (auto simp: nth_list_update)
  ultimately show "wft (abranch i A j B)" by (simp add: abranch_def wft_AFull)
  show "is_full (abranch i A j B)" by (simp add: abranch_def)
qed

lemma wft_mkshort_full:
  "list_all is_nibble p \<Longrightarrow> wft t \<Longrightarrow> is_full t \<Longrightarrow> wft (mkshort p t)"
  by (auto simp: mkshort_def)

lemma wft_AFull_update:
  assumes "wft (AFull cs)" "n < 17" "wfc n c" "c \<noteq> ANil"
  shows "wft (AFull (cs[n := c]))"
proof -
  from assms(1) have len: "length cs = 17" and ch: "\<And>m. m < 17 \<Longrightarrow> wfc m (cs ! m)"
    and two: "2 \<le> length (nonnil cs)" by (auto simp: wft_AFull)
  from two have "2 \<le> length (nonnil (cs[n := c]))"
    unfolding two_nonnil using assms(2,4) len by (metis length_list_update nth_list_update_eq nth_list_update_neq)
  then show ?thesis
    using len ch assms(2,3) by (auto simp: wft_AFull nth_list_update)
qed

lemma wft_ainsert:
  assumes "canon t" "hexkey key" "v \<noteq> []"
  shows "wft (ainsert t key v)"
  using assms
proof (induction t key v rule: ainsert.induct)
  case (1 key v)
  then show ?case using wft_leaf by (auto simp: mkshort_def)
next
  case (2 w key v)
  then show ?case by (simp add: canon_def)
next
  case (3 sk c key v)
  then have w: "wft (AShort sk c)" by (simp add: canon_def)
  show ?case
  using w "3.prems"(2) proof (cases rule: short_key_cases)
    case match
    then obtain r where r: "key = sk @ r" by (auto simp: prefix_def)
    from w show ?thesis
    proof (cases rule: wft_short_cases)
      case leaf
      then show ?thesis using match \<open>v \<noteq> []\<close> by auto
    next
      case ext
      then have "hexkey r" using r "3.prems" by (simp add: hexkey_append)
      then show ?thesis
        using "3.IH" match ext r \<open>v \<noteq> []\<close> is_full_ainsert [of c r v] by auto
    qed
  next
    case (differ p i sr j kr)
    then have k: "wft (AShort (p @ j # kr) (AVal v))" using wft_leaf "3.prems" by blast
    show ?thesis
      using differ wfc_mkshort_tail [of p i sr c] wfc_mkshort_tail [OF k] w
        wft_abranch [of i j "mkshort sr c" "mkshort kr (AVal v)"]
      by (simp add: Let_def wft_mkshort_full)
  qed
next
  case (4 cs v)
  then show ?case by simp
next
  case (5 cs k ks v)
  then have w: "wft (AFull cs)" by (simp add: canon_def)
  have l: "unat k < 17" "length cs = 17"
    using "5.prems" wft_AFull_child(3) [OF w] hexkey_head_less by blast+
  have "wfc (unat k) (ainsert (cs ! unat k) ks v) \<and> ainsert (cs ! unat k) ks v \<noteq> ANil"
  proof (cases "k = 16")
    case True
    then have "ks = []" using "5.prems" by (auto simp: hexkey_Cons)
    then show ?thesis using True wft_AFull_child(2) [OF w] "5.prems"(3) by (auto simp: mkshort_def wfc_16)
  next
    case False
    then have "is_nibble k" "hexkey ks" using "5.prems" by (auto simp: hexkey_Cons)
    then have "wft (ainsert (cs ! unat k) ks v)"
      using "5.IH" l wft_AFull_child(1) [OF w] "5.prems"(3) by simp
    then show ?thesis using \<open>is_nibble k\<close> by (auto simp: nibble_unat wfc_canon)
  qed
  then show ?case using wft_AFull_update [OF w l(1)] l by simp
qed

subsection \<open>Deletion\<close>

lemma alookup_amerge:
  "c \<noteq> ANil \<Longrightarrow> alookup (amerge p c) k = (if prefix p k then alookup c (drop (length p) k) else [])"
  by (cases c) (auto simp: prefix_def)

lemma wft_amerge: "list_all is_nibble p \<Longrightarrow> p \<noteq> [] \<Longrightarrow> wft c \<Longrightarrow> wft (amerge p c)"
proof (cases c)
  case (AShort k d)
  assume p: "list_all is_nibble p" "p \<noteq> []" and "wft c"
  with AShort have "wft (AShort k d)" by simp
  then show ?thesis
  proof (cases rule: wft_short_cases)
    case (leaf v)
    then show ?thesis using AShort p by (auto simp: hexkey_append)
  next
    case ext
    then show ?thesis using AShort p by auto
  qed
qed auto

lemma unat_of_nat_17: "i < 17 \<Longrightarrow> unat (word_of_nat i :: byte) = i"
  by (simp add: unat_of_nat)

lemma areduce_cases:
  assumes "nonnil cs \<noteq> []"
  obtains (one) i where "nonnil cs = [i]" "i < length cs" "cs ! i \<noteq> ANil"
      "\<And>j. j < length cs \<Longrightarrow> j \<noteq> i \<Longrightarrow> cs ! j = ANil" "areduce cs = amerge [word_of_nat i] (cs ! i)"
  | (many) "2 \<le> length (nonnil cs)" "areduce cs = AFull cs"
proof (cases "nonnil cs" rule: list.exhaust)
  case (Cons i xs)
  show ?thesis
  proof (cases xs)
    case Nil
    then have n: "nonnil cs = [i]" using Cons by simp
    then have "set (nonnil cs) = {i}" by simp
    then show ?thesis
      unfolding set_nonnil by (intro one [of i]) (auto simp: n areduce_def)
  next
    case (Cons j ys)
    then show ?thesis using many \<open>nonnil cs = i # xs\<close> by (simp add: areduce_def)
  qed
qed (use assms in simp)

lemma wft_areduce:
  assumes "length cs = 17" "\<And>i. i < 17 \<Longrightarrow> wfc i (cs ! i)" "nonnil cs \<noteq> []"
  shows "wft (areduce cs)"
  using assms(3)
proof (cases rule: areduce_cases)
  case (one i)
  show ?thesis
  proof (cases "i = 16")
    case True
    then obtain v where v: "cs ! 16 = AVal v" "v \<noteq> []" using assms(2) [of 16] one(3) by (auto simp: wfc_16)
    then show ?thesis using one True by auto
  next
    case False
    then have "i < 16" using one assms(1) by simp
    then have "wft (cs ! i)" "is_nibble (word_of_nat i)"
      using assms(2) [of i] one(3) by (auto simp: wfc_canon canon_def nibble_unat unat_of_nat)
    then show ?thesis using one wft_amerge by simp
  qed
next
  case many
  then show ?thesis using assms by (simp add: wft_AFull)
qed

lemma alookup_areduce:
  assumes "length cs = 17" "nonnil cs \<noteq> []" "hexkey key"
  shows "alookup (areduce cs) key = alookup (AFull cs) key"
  using assms(2)
proof (cases rule: areduce_cases)
  case (one i)
  obtain k ks where key: "key = k # ks" using assms(3) by (cases key) auto
  then have "unat k < 17" using assms(3) hexkey_head_less by blast
  then show ?thesis
    using one assms(1) key unat_of_nat_17 [of i]
    by (cases "unat k = i") (auto simp: alookup_amerge)
qed simp

text \<open>After deleting below child \<open>n\<close> of a canonical full node, the node is reduced exactly when
  the child is gone, and the result is canonical and has the map of the updated full node.\<close>

lemma full_delete:
  assumes "wft (AFull cs)" "n < 17" "wfc n c"
  defines "t \<equiv> if c = ANil then areduce (cs[n := c]) else AFull (cs[n := c])"
  shows "wft t" "hexkey key \<Longrightarrow> alookup t key = alookup (AFull (cs[n := c])) key"
proof -
  from assms(1) have len: "length cs = 17" and ch: "\<And>m. m < 17 \<Longrightarrow> wfc m (cs ! m)"
    and two: "2 \<le> length (nonnil cs)" by (auto simp: wft_AFull)
  have w: "wfc m (cs[n := c] ! m)" if "m < 17" for m
    using ch [OF that] that assms(3) len by (cases "m = n") simp_all
  from two obtain i where "i < length cs" "i \<noteq> n" "cs ! i \<noteq> ANil" unfolding two_nonnil by metis
  then have "i \<in> set (nonnil (cs[n := c]))" by (simp add: set_nonnil)
  then have ne: "nonnil (cs[n := c]) \<noteq> []" by auto
  show "wft t"
    unfolding t_def using wft_areduce [of "cs[n := c]", OF _ w ne] len wft_AFull_update [OF assms(1-3)]
    by (cases "c = ANil") simp_all
  show "hexkey key \<Longrightarrow> alookup t key = alookup (AFull (cs[n := c])) key"
    unfolding t_def using alookup_areduce [of "cs[n := c]" key] ne len by (cases "c = ANil") simp_all
qed

lemma adelete_correct:
  assumes "canon t" "hexkey key"
  shows "canon (adelete t key) \<and> (is_full t \<longrightarrow> wft (adelete t key)) \<and>
    (\<forall>key'. hexkey key' \<longrightarrow> alookup (adelete t key) key' = (if key' = key then [] else alookup t key'))"
  using assms
proof (induction t key rule: adelete.induct)
  case (3 sk c key)
  then have w: "wft (AShort sk c)" by (simp add: canon_def)
  show ?case
  proof (cases "prefix sk key \<and> key \<noteq> sk")
    case False
    then show ?thesis using w "3.prems" hexkey_prefix by auto
  next
    case True
    then obtain r where r: "key = sk @ r" "r \<noteq> []" by (auto simp: prefix_def)
    from w show ?thesis
    proof (cases rule: wft_short_cases)
      case leaf
      then show ?thesis using True "3.prems" hexkey_prefix by blast
    next
      case ext
      then have h: "hexkey r" using r "3.prems" by (simp add: hexkey_append)
      with "3.IH" True r ext have IH: "wft (adelete c r)"
        "\<And>k'. hexkey k' \<Longrightarrow> alookup (adelete c r) k' = (if k' = r then [] else alookup c k')" by auto
      then have nn: "adelete c r \<noteq> ANil" by auto
      have "wft (amerge sk (adelete c r))" using wft_amerge ext IH by blast
      moreover have "alookup (amerge sk (adelete c r)) key' = (if key' = key then [] else alookup (AShort sk c) key')"
        if "hexkey key'" for key'
      proof (cases "prefix sk key'")
        case True
        then obtain r' where r': "key' = sk @ r'" by (auto simp: prefix_def)
        then have "hexkey r'" using that ext by (simp add: hexkey_append)
        then show ?thesis using IH nn r r' by (simp add: alookup_amerge)
      next
        case False
        then show ?thesis using nn r by (auto simp: alookup_amerge)
      qed
      ultimately show ?thesis using True r by (simp add: canon_def)
    qed
  qed
next
  case (5 cs k ks)
  then have w: "wft (AFull cs)" by (simp add: canon_def)
  have l: "unat k < 17" "length cs = 17"
    using "5.prems" wft_AFull_child(3) [OF w] hexkey_head_less by blast+
  let ?c = "adelete (cs ! unat k) ks"
  have c: "wfc (unat k) ?c \<and> (\<forall>xs. hexkey (k # xs) \<longrightarrow>
      alookup ?c xs = (if xs = ks then [] else alookup (cs ! unat k) xs))"
  proof (cases "k = 16")
    case True
    then show ?thesis using "5.prems" wft_AFull_child(2) [OF w] by (auto simp: hexkey_Cons)
  next
    case False
    then have "is_nibble k" "hexkey ks" using "5.prems" by (auto simp: hexkey_Cons)
    then show ?thesis
      using "5.IH" l wft_AFull_child(1) [OF w] False by (simp add: nibble_unat wfc_canon hexkey_Cons)
  qed
  have "alookup (AFull (cs[unat k := ?c])) key' = (if key' = k # ks then [] else alookup (AFull cs) key')"
    if "hexkey key'" for key'
  proof -
    obtain x xs where k': "key' = x # xs" by (cases key') (use \<open>hexkey key'\<close> in auto)
    show ?thesis
    proof (cases "x = k")
      case True
      then show ?thesis using c l that k' by simp
    next
      case False
      then show ?thesis using l k' by (simp add: nth_list_update word_unat_eq_iff)
    qed
  qed
  then show ?case
    using full_delete [OF w l(1), of ?c] c l by (simp add: Let_def canon_def)
qed (auto simp: canon_def)

subsection \<open>Canonical tries are determined by their map\<close>

definition akeys :: "atrie \<Rightarrow> bytes set" where
  "akeys t = {k. hexkey k \<and> alookup t k \<noteq> []}"

lemma akeys_ANil [simp]: "akeys ANil = {}"
  by (simp add: akeys_def)

lemma akeys_leaf: "hexkey sk \<Longrightarrow> v \<noteq> [] \<Longrightarrow> akeys (AShort sk (AVal v)) = {sk}"
  using hexkey_prefix by (auto simp: akeys_def)

lemma akeys_ext: "list_all is_nibble sk \<Longrightarrow> akeys (AShort sk c) = (@) sk ` akeys c"
  by (auto simp: akeys_def hexkey_append prefix_def image_iff)

lemma akeys_full_Cons:
  assumes "wft (AFull cs)"
  shows "k # ks \<in> akeys (AFull cs) \<longleftrightarrow>
    (is_nibble k \<and> ks \<in> akeys (cs ! unat k)) \<or> (k = 16 \<and> ks = [] \<and> cs ! 16 \<noteq> ANil)"
  using wft_AFull_child(2,3) [OF assms] by (auto simp: akeys_def hexkey_Cons nibble_unat is_nibble_def word_less_nat_alt)

text \<open>A canonical trie has a key; a canonical full node has keys with different heads.\<close>

lemma akeys_nonempty: "wft t \<Longrightarrow> akeys t \<noteq> {}"
  and akeys_full_heads: "wft t \<Longrightarrow> is_full t \<Longrightarrow>
    \<exists>k ks k' ks'. k # ks \<in> akeys t \<and> k' # ks' \<in> akeys t \<and> k \<noteq> k'"
proof (induction t rule: wft.induct)
  case (3 sk c)
  {
    case 1
    then show ?case
    proof (cases rule: wft_short_cases)
      case leaf
      then show ?thesis by (simp add: akeys_leaf)
    next
      case ext
      then show ?thesis using 3 by (simp add: akeys_ext)
    qed
  next
    case 2
    then show ?case by simp
  }
next
  case (4 cs)
  have "\<exists>k ks k' ks'. k # ks \<in> akeys (AFull cs) \<and> k' # ks' \<in> akeys (AFull cs) \<and> k \<noteq> k'"
    if w: "wft (AFull cs)"
  proof -
    have len: "length cs = 17" using w by (rule wft_AFull_child)
    have ex: "\<exists>ks. word_of_nat i # ks \<in> akeys (AFull cs)" if "i < 17" "cs ! i \<noteq> ANil" for i
    proof (cases "i = 16")
      case True
      then show ?thesis using that w by (simp add: akeys_full_Cons)
    next
      case False
      then have i: "i < 16" using that by simp
      then have mem: "cs ! i \<in> set (butlast cs)" using len by (metis diff_Suc_1 eval_nat_numeral(3) length_butlast nth_butlast nth_mem numeral_eq_Suc pred_numeral_simps(3))
      have "wft (cs ! i)"
        using wft_AFull_child(1) [OF w, of "word_of_nat i"] i that(2) by (simp add: nibble_unat unat_of_nat canon_def)
      then have "akeys (cs ! i) \<noteq> {}" using "4.IH"(1) mem that(2) by blast
      then show ?thesis using w i by (auto simp: akeys_full_Cons nibble_unat unat_of_nat)
    qed
    from w have "2 \<le> length (nonnil cs)" by (simp add: wft_AFull)
    then obtain i j where ij: "i < 17" "j < 17" "i \<noteq> j" "cs ! i \<noteq> ANil" "cs ! j \<noteq> ANil"
      unfolding two_nonnil len by metis
    then have "(word_of_nat i :: byte) \<noteq> word_of_nat j"
      by (metis unat_of_nat_17)
    with ex [of i] ex [of j] ij show ?thesis by metis
  qed
  then show "wft (AFull cs) \<Longrightarrow> akeys (AFull cs) \<noteq> {}"
    and "wft (AFull cs) \<Longrightarrow> is_full (AFull cs) \<Longrightarrow>
      \<exists>k ks k' ks'. k # ks \<in> akeys (AFull cs) \<and> k' # ks' \<in> akeys (AFull cs) \<and> k \<noteq> k'" by blast+
qed auto

lemma akeys_short_head: "wft (AShort sk c) \<Longrightarrow> k # ks \<in> akeys (AShort sk c) \<Longrightarrow> k = hd sk"
  by (cases sk) (auto simp: akeys_def split: if_splits elim: wft_short_cases)

lemma akeys_leaf_single: "wft t \<Longrightarrow> akeys t = {sk} \<Longrightarrow> \<exists>v. v \<noteq> [] \<and> t = AShort sk (AVal v)"
proof (cases t)
  case (AShort k c)
  assume w: "wft t" and s: "akeys t = {sk}"
  from w AShort have "wft (AShort k c)" by simp
  then show ?thesis
  proof (cases rule: wft_short_cases)
    case leaf
    then show ?thesis using AShort s by (simp add: akeys_leaf)
  next
    case ext
    then obtain x xs y ys where "x # xs \<in> akeys c" "y # ys \<in> akeys c" "x \<noteq> y"
      using akeys_full_heads [of c] by blast
    then have "k @ x # xs \<in> akeys t" "k @ y # ys \<in> akeys t" using AShort ext by (auto simp: akeys_ext)
    then show ?thesis using s \<open>x \<noteq> y\<close> by auto
  qed
next
  case (AFull cs)
  assume "wft t" "akeys t = {sk}"
  then show ?thesis using AFull akeys_full_heads [of t] by force
qed auto

lemma akeys_prefix_short:
  assumes "wft (AShort s c)" "is_full c" "wft c" "list_all is_nibble s" "\<And>k. k \<in> akeys (AShort s c) \<Longrightarrow> prefix s2 k"
  shows "prefix s2 s"
proof -
  obtain x xs y ys where xy: "x # xs \<in> akeys c" "y # ys \<in> akeys c" "x \<noteq> y"
    using akeys_full_heads assms by blast
  then have "prefix s2 (s @ x # xs)" "prefix s2 (s @ y # ys)" using assms by (auto simp: akeys_ext)
  then have "prefix s2 (longest_common_prefix (s @ x # xs) (s @ y # ys))"
    by (rule longest_common_prefix_max_prefix)
  moreover have "longest_common_prefix (s @ x # xs) (s @ y # ys) = s"
    using xy(3) by (induction s) auto
  ultimately show ?thesis by simp
qed

lemma akeys_eqI: "(\<And>k. hexkey k \<Longrightarrow> alookup t1 k = alookup t2 k) \<Longrightarrow> akeys t1 = akeys t2"
  by (auto simp: akeys_def)

lemma canon_empty: "canon t \<Longrightarrow> akeys t = {} \<Longrightarrow> t = ANil"
  using akeys_nonempty canon_def by blast

lemma canon_unique:
  assumes "canon t1" "canon t2" "\<And>k. hexkey k \<Longrightarrow> alookup t1 k = alookup t2 k"
  shows "t1 = t2"
  using assms
proof (induction t1 arbitrary: t2 rule: wft.induct)
  case 1
  then show ?case using canon_empty [of t2] akeys_eqI [of ANil t2] by simp
next
  case (2 v)
  then show ?case by (simp add: canon_def)
next
  case (3 sk c)
  then have w: "wft (AShort sk c)" by (simp add: canon_def)
  have ak: "akeys (AShort sk c) = akeys t2" using "3.prems"(3) by (rule akeys_eqI)
  then have w2: "wft t2" using akeys_nonempty [OF w] "3.prems"(2) by (auto simp: canon_def)
  from w show ?case
  proof (cases rule: wft_short_cases)
    case (leaf v)
    then obtain v2 where "t2 = AShort sk (AVal v2)" using akeys_leaf_single w2 ak akeys_leaf by metis
    then show ?thesis using "3.prems"(3) [of sk] leaf by simp
  next
    case ext
    obtain s2 c2 where t2: "t2 = AShort s2 c2"
    proof (cases t2)
      case (AFull cs)
      then have "is_full t2" by simp
      from akeys_full_heads [OF w2 this] obtain x xs y ys
        where "x # xs \<in> akeys t2" "y # ys \<in> akeys t2" "x \<noteq> y" by blast
      then show ?thesis using akeys_short_head [OF w, of x xs] akeys_short_head [OF w, of y ys] ak by simp
    qed (use w2 in auto)
    from w2 have w2': "wft (AShort s2 c2)" by (simp add: t2)
    then have e2: "list_all is_nibble s2 \<and> is_full c2 \<and> wft c2"
    proof (cases rule: wft_short_cases)
      case (leaf v)
      then have "akeys (AShort sk c) = {s2}" using ak t2 by (simp add: akeys_leaf)
      from akeys_leaf_single [OF w this] show ?thesis using ext(3) by (elim exE conjE) simp
    qed simp
    have pre: "prefix s k" if "k \<in> akeys (AShort s d)" for s d k
      using that by (auto simp: akeys_def split: if_splits)
    have "prefix s2 sk"
      by (rule akeys_prefix_short [OF w ext(3,4,1)]) (use pre ak t2 in blast)
    moreover have "prefix sk s2"
      by (rule akeys_prefix_short [OF w2']) (use e2 pre [of _ sk c] ak t2 in auto)
    ultimately have s: "s2 = sk" by simp
    have "alookup c k = alookup c2 k" if "hexkey k" for k
      using "3.prems"(3) [of "sk @ k"] that ext(1) t2 s by (simp add: hexkey_append)
    then show ?thesis using "3.IH" ext e2 t2 s by (simp add: canon_def)
  qed
next
  case (4 cs)
  then have w: "wft (AFull cs)" by (simp add: canon_def)
  have ak: "akeys (AFull cs) = akeys t2" using "4.prems"(3) by (rule akeys_eqI)
  then have w2: "wft t2" using akeys_nonempty [OF w] "4.prems"(2) by (auto simp: canon_def)
  obtain cs2 where t2: "t2 = AFull cs2"
  proof (cases t2)
    case (AShort s c)
    then have "k = hd s" if "k # ks \<in> akeys (AFull cs)" for k ks
      using akeys_short_head [of s c] w2 ak that by simp
    moreover obtain x xs y ys
      where "x # xs \<in> akeys (AFull cs)" "y # ys \<in> akeys (AFull cs)" "x \<noteq> y"
      using akeys_full_heads [OF w] by auto
    ultimately show ?thesis by metis
  qed (use w2 in auto)
  note ch = wft_AFull_child [OF w] and ch2 = wft_AFull_child [OF w2 [unfolded t2]]
  have "cs ! i = cs2 ! i" if "i < 17" for i
  proof (cases "i = 16")
    case True
    then show ?thesis using "4.prems"(3) [of "[16]"] ch(2,3) ch2(2,3) t2 by auto
  next
    case False
    then have i: "i < 16" using that by simp
    have n: "is_nibble (word_of_nat i)" "unat (word_of_nat i :: byte) = i"
      using i by (simp_all add: nibble_unat unat_of_nat)
    have eq: "alookup (cs ! i) k = alookup (cs2 ! i) k" if "hexkey k" for k
      using "4.prems"(3) [of "word_of_nat i # k"] that n t2 ch(3) ch2(3) i by (simp add: hexkey_Cons)
    have c: "canon (cs ! i)" "canon (cs2 ! i)" using ch(1) ch2(1) n by metis+
    show ?thesis
    proof (cases "cs ! i = ANil")
      case True
      then show ?thesis using canon_empty [OF c(2)] akeys_eqI [OF eq] by simp
    next
      case False
      moreover have "cs ! i \<in> set (butlast cs)"
        using i ch(3) by (metis One_nat_def diff_Suc_1 length_butlast nth_butlast nth_mem numeral_eq_Suc pred_numeral_simps(3) semiring_norm(26) semiring_norm(27) semiring_norm(28))
      ultimately show ?thesis using "4.IH" c eq by blast
    qed
  qed
  then show ?case using ch(3) ch2(3) t2 by (auto intro: nth_equalityI)
qed

end
