(* ===== verification/Merkle_Trie.thy ===== *)
theory Merkle_Trie
  imports Trie_Node Trie_Spec
begin

text \<open>
  The operations of \<^verbatim>\<open>pkg/trie/trie.go\<close> that read and change a trie (\<^verbatim>\<open>get\<close>, \<^verbatim>\<open>insert\<close>, \<^verbatim>\<open>delete\<close> and
  the exported operations over them), the reader of \<^verbatim>\<open>trie_reader.go\<close> and the hasher of
  \<^verbatim>\<open>hasher.go\<close>. The database behind the reader is a function from keys to blobs; \<open>None\<close> is an
  error of \<^verbatim>\<open>Get\<close>. Every operation that resolves hash nodes takes fuel, because a database with
  undecodable blobs can send it from hash to hash without end.
\<close>

type_synonym db = "bytes \<Rightarrow> bytes option"

datatype trie_error = MissingNodeError bytes bytes | ErrCommitted | GoPanic | OutOfFuel

subsection \<open>Reading nodes\<close>

definition reader_node :: "db \<Rightarrow> bytes \<Rightarrow> bytes \<Rightarrow> trie_error + bytes" where
  "reader_node db path hash =
     (case db hash of
        None \<Rightarrow> Inl (MissingNodeError hash path)
      | Some blob \<Rightarrow> if length blob = 0 then Inl (MissingNodeError hash path) else Inr blob)"

definition resolveAndTrack ::
  "ext \<Rightarrow> db \<Rightarrow> bytes \<Rightarrow> bytes \<Rightarrow> Tracer \<Rightarrow> (trie_error + node) \<times> Tracer" where
  "resolveAndTrack X db n pre tr =
     (case reader_node db pre (BytesToHash X n) of
        Inl e \<Rightarrow> (Inl e, tr)
      | Inr blob \<Rightarrow>
          (case DecodeNode X n blob of
             None \<Rightarrow> (Inl GoPanic, onRead pre blob tr)
           | Some nd \<Rightarrow> (Inr nd, onRead pre blob tr)))"

definition resolve ::
  "ext \<Rightarrow> db \<Rightarrow> node \<Rightarrow> bytes \<Rightarrow> Tracer \<Rightarrow> (trie_error + node) \<times> Tracer" where
  "resolve X db n pre tr =
     (case n of HashNode h \<Rightarrow> resolveAndTrack X db h pre tr | _ \<Rightarrow> (Inr n, tr))"

subsection \<open>get\<close>

fun trie_get ::
  "ext \<Rightarrow> db \<Rightarrow> nat \<Rightarrow> node \<Rightarrow> bytes \<Rightarrow> nat \<Rightarrow> Tracer \<Rightarrow>
   (trie_error + bytes \<times> node \<times> bool) \<times> Tracer" where
  "trie_get X db 0 n key pos tr = (Inl OutOfFuel, tr)"
| "trie_get X db (Suc fuel) NilNode key pos tr = (Inr ([], NilNode, False), tr)"
| "trie_get X db (Suc fuel) (ValueNode v) key pos tr = (Inr (v, ValueNode v, False), tr)"
| "trie_get X db (Suc fuel) (ShortNode k v f) key pos tr =
     (if length key < pos + length k \<or> k \<noteq> take (length k) (drop pos key)
      then (Inr ([], ShortNode k v f, False), tr)
      else (case trie_get X db fuel v key (pos + length k) tr of
              (Inl e, tr') \<Rightarrow> (Inl e, tr')
            | (Inr (val, nn, didResolve), tr') \<Rightarrow>
                (Inr (val, if didResolve then ShortNode k nn f else ShortNode k v f, didResolve), tr')))"
| "trie_get X db (Suc fuel) (FullNode cs f) key pos tr =
     (if pos < length key \<and> unat (key ! pos) < length cs
      then (case trie_get X db fuel (cs ! unat (key ! pos)) key (pos + 1) tr of
              (Inl e, tr') \<Rightarrow> (Inl e, tr')
            | (Inr (val, nn, didResolve), tr') \<Rightarrow>
                (Inr (val, if didResolve then FullNode (cs[unat (key ! pos) := nn]) f else FullNode cs f,
                      didResolve), tr'))
      else (Inl GoPanic, tr))"
| "trie_get X db (Suc fuel) (HashNode h) key pos tr =
     (case resolveAndTrack X db h (take pos key) tr of
        (Inl e, tr') \<Rightarrow> (Inl e, tr')
      | (Inr child, tr') \<Rightarrow>
          (case trie_get X db fuel child key pos tr' of
             (Inl e, tr'') \<Rightarrow> (Inl e, tr'')
           | (Inr (val, nn, _), tr'') \<Rightarrow> (Inr (val, nn, True), tr'')))"

subsection \<open>insert\<close>

text \<open>The branch built when a short node and the new key part: both sides are inserted below
  nil, and the children array of the code has room for 17 nodes.\<close>

definition branch_node :: "byte \<Rightarrow> node \<Rightarrow> byte \<Rightarrow> node \<Rightarrow> node" where
  "branch_node i c1 j c2 =
     FullNode ((replicate TOTAL_CHILD_NODE NilNode)[unat i := c1, unat j := c2]) NewFlag"

fun trie_insert ::
  "ext \<Rightarrow> db \<Rightarrow> nat \<Rightarrow> node \<Rightarrow> bytes \<Rightarrow> bytes \<Rightarrow> node \<Rightarrow> Tracer \<Rightarrow>
   (trie_error + bool \<times> node) \<times> Tracer" where
  "trie_insert X db 0 n pre key val tr = (Inl OutOfFuel, tr)"
| "trie_insert X db (Suc fuel) n pre key val tr =
     (if length key = 0
      then (case n of
              ValueNode v \<Rightarrow>
                (case val of ValueNode w \<Rightarrow> (Inr (v \<noteq> w, val), tr) | _ \<Rightarrow> (Inl GoPanic, tr))
            | _ \<Rightarrow> (Inr (True, val), tr))
      else case n of
        ShortNode k v f \<Rightarrow>
          (let matchlen = PrefixLen key k
           in if matchlen = length k
              then (case trie_insert X db fuel v (pre @ take matchlen key) (drop matchlen key) val tr of
                      (Inl e, tr') \<Rightarrow> (Inl e, tr')
                    | (Inr (dirty, nn), tr') \<Rightarrow>
                        if \<not> dirty then (Inr (False, n), tr')
                        else (Inr (True, ShortNode k nn NewFlag), addOldKey (Hash f) tr'))
              else
                (case trie_insert X db fuel NilNode (pre @ take (matchlen + 1) k) (drop (matchlen + 1) k) v tr of
                   (Inl e, tr1) \<Rightarrow> (Inl e, tr1)
                 | (Inr (_, c1), tr1) \<Rightarrow>
                     if length key \<le> matchlen then (Inl GoPanic, tr1)
                     else
                       (case trie_insert X db fuel NilNode (pre @ take (matchlen + 1) key)
                               (drop (matchlen + 1) key) val tr1 of
                          (Inl e, tr2) \<Rightarrow> (Inl e, tr2)
                        | (Inr (_, c2), tr2) \<Rightarrow>
                            if unat (k ! matchlen) < TOTAL_CHILD_NODE \<and> unat (key ! matchlen) < TOTAL_CHILD_NODE
                            then let branch = branch_node (k ! matchlen) c1 (key ! matchlen) c2
                                 in if matchlen = 0
                                    then (Inr (True, branch), addOldKey (Hash f) tr2)
                                    else (Inr (True, ShortNode (take matchlen key) branch NewFlag),
                                          addOldKey (Hash f) (onInsert (pre @ take matchlen key) tr2))
                            else (Inl GoPanic, tr2))))
      | FullNode cs f \<Rightarrow>
          if unat (key ! 0) < length cs
          then (case trie_insert X db fuel (cs ! unat (key ! 0)) (pre @ [key ! 0]) (drop 1 key) val tr of
                  (Inl e, tr') \<Rightarrow> (Inl e, tr')
                | (Inr (dirty, nn), tr') \<Rightarrow>
                    if \<not> dirty then (Inr (False, n), tr')
                    else (Inr (True, FullNode (cs[unat (key ! 0) := nn]) NewFlag), addOldKey (Hash f) tr'))
          else (Inl GoPanic, tr)
      | NilNode \<Rightarrow> (Inr (True, ShortNode key val NewFlag), onInsert pre tr)
      | HashNode h \<Rightarrow>
          (case resolveAndTrack X db h pre tr of
             (Inl (MissingNodeError _ _), tr') \<Rightarrow> trie_insert X db fuel NilNode pre key val tr'
           | (Inl e, tr') \<Rightarrow> (Inl e, tr')
           | (Inr rn, tr') \<Rightarrow>
               (case trie_insert X db fuel rn pre key val tr' of
                  (Inl e, tr'') \<Rightarrow> (Inl e, tr'')
                | (Inr (dirty, nn), tr'') \<Rightarrow>
                    if \<not> dirty then (Inr (False, rn), tr'') else (Inr (True, nn), tr'')))
      | ValueNode _ \<Rightarrow> (Inl GoPanic, tr))"

declare trie_insert.simps(2) [simp del]

subsection \<open>delete\<close>

text \<open>The loop that looks for the single remaining child: its index, -1 for none, -2 for several.\<close>

fun reduce_pos :: "nat \<Rightarrow> int \<Rightarrow> node list \<Rightarrow> int" where
  "reduce_pos i pos [] = pos"
| "reduce_pos i pos (cld # cs) =
     (if cld \<noteq> NilNode then (if pos = -1 then reduce_pos (i + 1) (int i) cs else -2)
      else reduce_pos (i + 1) pos cs)"

text \<open>\<^verbatim>\<open>concat\<close> allocates the sum of the lengths and copies both slices.\<close>

definition concat_bytes :: "bytes \<Rightarrow> bytes \<Rightarrow> bytes" where
  "concat_bytes s1 s2 =
     (let r = go_copy (replicate (length s1 + length s2) 0) s1
      in take (length s1) r @ go_copy (drop (length s1) r) s2)"

text \<open>The reduction at the end of the full node case: with one child left the node becomes a short
  node, merged with that child when the child is short.\<close>

definition reduce_full ::
  "ext \<Rightarrow> db \<Rightarrow> bytes \<Rightarrow> node list \<Rightarrow> Tracer \<Rightarrow> (trie_error + bool \<times> node) \<times> Tracer" where
  "reduce_full X db pre cs tr =
     (let pos = reduce_pos 0 (-1) cs
      in if 0 \<le> pos
         then if pos \<noteq> 16
              then (case resolve X db (cs ! nat pos) (pre @ [word_of_nat (nat pos)]) tr of
                      (Inl e, tr') \<Rightarrow> (Inl e, tr')
                    | (Inr (ShortNode ck cv cf), tr') \<Rightarrow>
                        (Inr (True, ShortNode ([word_of_nat (nat pos)] @ ck) cv NewFlag),
                         onDelete (pre @ [word_of_nat (nat pos)]) tr')
                    | (Inr _, tr') \<Rightarrow>
                        (Inr (True, ShortNode [word_of_nat (nat pos)] (cs ! nat pos) NewFlag), tr'))
              else (Inr (True, ShortNode [word_of_nat (nat pos)] (cs ! nat pos) NewFlag), tr)
         else (Inr (True, FullNode cs NewFlag), tr))"

fun trie_delete ::
  "ext \<Rightarrow> db \<Rightarrow> nat \<Rightarrow> node \<Rightarrow> bytes \<Rightarrow> bytes \<Rightarrow> Tracer \<Rightarrow>
   (trie_error + bool \<times> node) \<times> Tracer" where
  "trie_delete X db 0 n pre key tr = (Inl OutOfFuel, tr)"
| "trie_delete X db (Suc fuel) n pre key tr =
     (case n of
        ShortNode k v f \<Rightarrow>
          (let matchlen = PrefixLen key k
           in if matchlen < length k then (Inr (False, n), tr)
              else if matchlen = length key then (Inr (True, NilNode), onDelete pre tr)
              else
                (case trie_delete X db fuel v (pre @ take (length k) key) (drop (length k) key) tr of
                   (Inl e, tr') \<Rightarrow> (Inl e, tr')
                 | (Inr (dirty, child), tr') \<Rightarrow>
                     if \<not> dirty then (Inr (False, n), tr')
                     else (case child of
                             ShortNode ck cv cf \<Rightarrow>
                               (Inr (True, ShortNode (concat_bytes k ck) cv NewFlag), onDelete (pre @ k) tr')
                           | _ \<Rightarrow> (Inr (True, ShortNode k child NewFlag), tr'))))
      | FullNode cs f \<Rightarrow>
          if 0 < length key \<and> unat (key ! 0) < length cs
          then
            (case trie_delete X db fuel (cs ! unat (key ! 0)) (pre @ [key ! 0]) (drop 1 key) tr of
               (Inl e, tr') \<Rightarrow> (Inl e, tr')
             | (Inr (dirty, nn), tr') \<Rightarrow>
                 if \<not> dirty then (Inr (False, n), tr')
                 else
                   let cs' = cs[unat (key ! 0) := nn]
                   in if nn \<noteq> NilNode then (Inr (True, FullNode cs' NewFlag), tr')
                      else reduce_full X db pre cs' tr')
          else (Inl GoPanic, tr)
      | ValueNode v \<Rightarrow> (Inr (True, NilNode), tr)
      | NilNode \<Rightarrow> (Inr (False, NilNode), tr)
      | HashNode h \<Rightarrow>
          (case resolveAndTrack X db h pre tr of
             (Inl e, tr') \<Rightarrow> (Inl e, tr')
           | (Inr rn, tr') \<Rightarrow>
               (case trie_delete X db fuel rn pre key tr' of
                  (Inl e, tr'') \<Rightarrow> (Inl e, tr'')
                | (Inr (dirty, nn), tr'') \<Rightarrow>
                    if \<not> dirty then (Inr (False, rn), tr'') else (Inr (True, nn), tr''))))"

declare trie_delete.simps(2) [simp del]

subsection \<open>The hasher\<close>

lemma size_take_node [termination_simp]:
  "c \<in> set (take n cs) \<Longrightarrow> size c < Suc (size_list size cs)"
  using size_list_estimation' [OF in_set_takeD, of c n cs "size c" size] by simp

text \<open>\<open>hash\<close> gives the collapsed and the cached node; \<open>None\<close> is a nil dereference. The parallel and
  the sequential loop of the code do the same to the children 0 to 15.\<close>

definition hash_flag :: "bytes \<Rightarrow> NodeFlag \<Rightarrow> NodeFlag" where
  "hash_flag h f = f\<lparr>Hash := h\<rparr>"

fun hash_node :: "ext \<Rightarrow> node \<Rightarrow> (node \<times> node) option" where
  "hash_node X NilNode = None"
| "hash_node X (ValueNode v) = Some (ValueNode v, ValueNode v)"
| "hash_node X (HashNode h) = Some (HashNode h, HashNode h)"
| "hash_node X (ShortNode k v f) =
     (if Hash f \<noteq> [] then Some (HashNode (Hash f), ShortNode k v f)
      else
        (case (case v of FullNode _ _ \<Rightarrow> hash_node X v | ShortNode _ _ _ \<Rightarrow> hash_node X v | _ \<Rightarrow> Some (v, v)) of
           None \<Rightarrow> None
         | Some (collapsedVal, cachedVal) \<Rightarrow>
             (case Marshal X (ShortNode (the (HexToCompact k)) collapsedVal f) of
                None \<Rightarrow> None
              | Some b \<Rightarrow> Some (HashNode (keccak X b), ShortNode k cachedVal (hash_flag (keccak X b) f)))))"
| "hash_node X (FullNode cs f) =
     (if Hash f \<noteq> [] then Some (HashNode (Hash f), FullNode cs f)
      else
        (let kids = map (\<lambda>c. if c = NilNode then Some (NilValueNode, NilNode) else hash_node X c) (take 16 cs)
         in if None \<in> set kids then None
            else
              (case Marshal X (FullNode (map (fst \<circ> the) kids @ drop 16 cs) f) of
                 None \<Rightarrow> None
               | Some b \<Rightarrow>
                   Some (HashNode (keccak X b),
                         FullNode (map (snd \<circ> the) kids @ drop 16 cs) (hash_flag (keccak X b) f)))))"

subsection \<open>The exported operations\<close>

record MerklePatriciaTrie =
  root :: node
  committed :: bool
  tracer :: Tracer
  isHash :: bool

definition EmptyRootHash :: bytes where
  "EmptyRootHash =
    [0x56, 0xe8, 0x1f, 0x17, 0x1b, 0xcc, 0x55, 0xa6, 0xff, 0x83, 0x45, 0xe6, 0x92, 0xc0, 0xf8, 0x6e,
     0x5b, 0x48, 0xe0, 0x1b, 0x99, 0x6c, 0xad, 0xc0, 0x01, 0x62, 0x2f, 0xb5, 0xe3, 0x63, 0xb4, 0x21]"

definition hashKey :: "ext \<Rightarrow> MerklePatriciaTrie \<Rightarrow> bytes \<Rightarrow> bytes" where
  "hashKey X t key = (if length key = 32 \<or> \<not> isHash t then key else keccak X key)"

definition trie_New :: "ext \<Rightarrow> db \<Rightarrow> bytes \<Rightarrow> bool \<Rightarrow> trie_error + MerklePatriciaTrie" where
  "trie_New X db rt ih =
     (let t = \<lparr>root = NilNode, committed = False, tracer = newTracer, isHash = ih\<rparr>
      in if rt \<noteq> zero_hash \<and> rt \<noteq> EmptyRootHash
         then (case resolveAndTrack X db rt [] (tracer t) of
                 (Inl e, tr) \<Rightarrow> Inl e
               | (Inr rootnode, tr) \<Rightarrow> Inr (t\<lparr>root := rootnode, tracer := tr\<rparr>))
         else Inr t)"

definition trie_Copy :: "MerklePatriciaTrie \<Rightarrow> MerklePatriciaTrie" where
  "trie_Copy t = \<lparr>root = root t, committed = False, tracer = newTracer, isHash = isHash t\<rparr>"

definition trie_Get ::
  "ext \<Rightarrow> db \<Rightarrow> nat \<Rightarrow> MerklePatriciaTrie \<Rightarrow> bytes \<Rightarrow> (trie_error + bytes) \<times> MerklePatriciaTrie" where
  "trie_Get X db fuel t key =
     (if committed t then (Inl ErrCommitted, t)
      else (case trie_get X db fuel (root t) (KeybytesToHex (hashKey X t key)) 0 (tracer t) of
              (Inl e, tr) \<Rightarrow> (Inl e, t\<lparr>tracer := tr\<rparr>)
            | (Inr (val, _, _), tr) \<Rightarrow> (Inr val, t\<lparr>tracer := tr\<rparr>)))"

definition trie_update ::
  "ext \<Rightarrow> db \<Rightarrow> nat \<Rightarrow> MerklePatriciaTrie \<Rightarrow> bytes \<Rightarrow> bytes \<Rightarrow>
   trie_error option \<times> MerklePatriciaTrie" where
  "trie_update X db fuel t key val =
     (let k = KeybytesToHex key
      in case (if length val \<noteq> 0 then trie_insert X db fuel (root t) [] k (ValueNode val) (tracer t)
               else trie_delete X db fuel (root t) [] k (tracer t)) of
           (Inl e, tr) \<Rightarrow> (Some e, t\<lparr>tracer := tr\<rparr>)
         | (Inr (_, n), tr) \<Rightarrow> (None, t\<lparr>root := n, tracer := tr\<rparr>))"

definition trie_Update ::
  "ext \<Rightarrow> db \<Rightarrow> nat \<Rightarrow> MerklePatriciaTrie \<Rightarrow> bytes \<Rightarrow> bytes \<Rightarrow>
   trie_error option \<times> MerklePatriciaTrie" where
  "trie_Update X db fuel t key val =
     (if committed t then (Some ErrCommitted, t)
      else trie_update X db fuel t (hashKey X t key) val)"

definition hashRoot :: "ext \<Rightarrow> MerklePatriciaTrie \<Rightarrow> (node \<times> node) option" where
  "hashRoot X t =
     (if root t = NilNode then Some (HashNode EmptyRootHash, NilNode) else hash_node X (root t))"

definition trie_Hash :: "ext \<Rightarrow> MerklePatriciaTrie \<Rightarrow> (bytes \<times> MerklePatriciaTrie) option" where
  "trie_Hash X t =
     (case hashRoot X t of
        Some (HashNode h, cached) \<Rightarrow> Some (BytesToHash X h, t\<lparr>root := cached\<rparr>)
      | _ \<Rightarrow> None)"

text \<open>\<^verbatim>\<open>ParallelGet\<close>: the goroutines run \<open>get\<close> on the same root in the order \<open>sched\<close> (indices into the
  keys) and write their own slot of \<^verbatim>\<open>results\<close> and \<^verbatim>\<open>errors\<close>; the tracer is shared. The call reports the
  whole \<^verbatim>\<open>errors\<close> slice as soon as one entry is set.\<close>

fun parallel_loop ::
  "ext \<Rightarrow> db \<Rightarrow> nat \<Rightarrow> MerklePatriciaTrie \<Rightarrow> bytes list \<Rightarrow> nat list \<Rightarrow> bytes list \<Rightarrow>
   trie_error option list \<Rightarrow> Tracer \<Rightarrow> bytes list \<times> trie_error option list \<times> Tracer" where
  "parallel_loop X db fuel t keys [] results errors tr = (results, errors, tr)"
| "parallel_loop X db fuel t keys (idx # sched) results errors tr =
     (case trie_get X db fuel (root t) (KeybytesToHex (hashKey X t (keys ! idx))) 0 tr of
        (Inl e, tr') \<Rightarrow> parallel_loop X db fuel t keys sched (results[idx := []]) (errors[idx := Some e]) tr'
      | (Inr (val, _, _), tr') \<Rightarrow> parallel_loop X db fuel t keys sched (results[idx := val]) errors tr')"

definition trie_ParallelGet ::
  "ext \<Rightarrow> db \<Rightarrow> nat \<Rightarrow> MerklePatriciaTrie \<Rightarrow> bytes list \<Rightarrow> nat list \<Rightarrow>
   ((trie_error option list) + bytes list) \<times> MerklePatriciaTrie" where
  "trie_ParallelGet X db fuel t keys sched =
     (if committed t then (Inl [Some ErrCommitted], t)
      else let (results, errors, tr) =
                 parallel_loop X db fuel t keys sched (replicate (length keys) [])
                   (replicate (length keys) None) (tracer t)
           in if \<exists>e \<in> set errors. e \<noteq> None then (Inl errors, t\<lparr>tracer := tr\<rparr>)
              else (Inr results, t\<lparr>tracer := tr\<rparr>))"

text \<open>\<^verbatim>\<open>GetRootHash\<close> on the entries of the data map in iteration order; the keys are given after
  go-ethereum's \<^verbatim>\<open>FromHex\<close>. The errors of \<^verbatim>\<open>Update\<close> are ignored, as in the code; the memory store
  is empty and never written.\<close>

fun update_all ::
  "ext \<Rightarrow> db \<Rightarrow> nat \<Rightarrow> MerklePatriciaTrie \<Rightarrow> (bytes \<times> bytes) list \<Rightarrow> MerklePatriciaTrie" where
  "update_all X db fuel t [] = t"
| "update_all X db fuel t ((k, v) # kvs) = update_all X db fuel (snd (trie_Update X db fuel t k v)) kvs"

definition GetRootHash :: "ext \<Rightarrow> nat \<Rightarrow> ('k \<Rightarrow> bytes) \<Rightarrow> ('k \<times> bytes) list \<Rightarrow> trie_error + bytes" where
  "GetRootHash X fuel FromHex entries =
     (case trie_New X Map.empty zero_hash False of
        Inl e \<Rightarrow> Inl e
      | Inr t \<Rightarrow>
          (case trie_Hash X (update_all X Map.empty fuel t (map (\<lambda>(k, v). (FromHex k, v)) entries)) of
             None \<Rightarrow> Inl GoPanic
           | Some (h, t') \<Rightarrow> Inr h))"

subsection \<open>Traversals\<close>

text \<open>\<^verbatim>\<open>getAll\<close> and \<^verbatim>\<open>getKeyValue\<close> write the same entry for a value: the hex form of the path followed
  by the nibbles of the path's hash. \<open>walk\<close> is their common recursion, with the visit of a value as
  a parameter; \<open>walk_children\<close> is the loop over the children, \<open>i\<close> its index.\<close>

function (sequential) walk ::
  "ext \<Rightarrow> db \<Rightarrow> (bytes \<Rightarrow> bytes \<Rightarrow> 's \<Rightarrow> 's) \<Rightarrow> nat \<Rightarrow> node \<Rightarrow> bytes \<Rightarrow> 's \<Rightarrow> Tracer \<Rightarrow>
   (trie_error + 's) \<times> Tracer"
and walk_children ::
  "ext \<Rightarrow> db \<Rightarrow> (bytes \<Rightarrow> bytes \<Rightarrow> 's \<Rightarrow> 's) \<Rightarrow> nat \<Rightarrow> node list \<Rightarrow> nat \<Rightarrow> bytes \<Rightarrow> 's \<Rightarrow> Tracer \<Rightarrow>
   (trie_error + 's) \<times> Tracer" where
  "walk X db visit 0 n pre s tr = (Inl OutOfFuel, tr)"
| "walk X db visit (Suc fuel) NilNode pre s tr = (Inr s, tr)"
| "walk X db visit (Suc fuel) (ValueNode v) pre s tr = (Inr (visit pre v s), tr)"
| "walk X db visit (Suc fuel) (ShortNode k v f) pre s tr = walk X db visit fuel v (pre @ k) s tr"
| "walk X db visit (Suc fuel) (FullNode cs f) pre s tr = walk_children X db visit fuel cs 0 pre s tr"
| "walk X db visit (Suc fuel) (HashNode h) pre s tr =
     (case resolveAndTrack X db h pre tr of
        (Inl e, tr') \<Rightarrow> (Inl e, tr')
      | (Inr child, tr') \<Rightarrow> walk X db visit fuel child pre s tr')"
| "walk_children X db visit fuel [] i pre s tr = (Inr s, tr)"
| "walk_children X db visit fuel (c # cs) i pre s tr =
     (if c = NilNode then walk_children X db visit fuel cs (Suc i) pre s tr
      else (case walk X db visit fuel c (pre @ [word_of_nat i]) s tr of
              (Inl e, tr') \<Rightarrow> (Inl e, tr')
            | (Inr s', tr') \<Rightarrow> walk_children X db visit fuel cs (Suc i) pre s' tr'))"
  by pat_completeness auto
termination
  by (relation "measures [\<lambda>x. case x of Inl (X, db, visit, fuel, n, pre, s, tr) \<Rightarrow> fuel
                              | Inr (X, db, visit, fuel, cs, i, pre, s, tr) \<Rightarrow> fuel,
                          \<lambda>x. case x of Inl _ \<Rightarrow> 0 | Inr (X, db, visit, fuel, cs, i, pre, s, tr) \<Rightarrow> Suc (length cs)]") auto

definition all_visit :: "ext \<Rightarrow> bytes \<Rightarrow> bytes \<Rightarrow> (string \<Rightarrow> bytes option) \<Rightarrow> string \<Rightarrow> bytes option" where
  "all_visit X pre v data = data(hex_encode (pre @ KeybytesToHex (keccak X pre)) \<mapsto> v)"

definition getAll ::
  "ext \<Rightarrow> db \<Rightarrow> nat \<Rightarrow> node \<Rightarrow> bytes \<Rightarrow> (string \<Rightarrow> bytes option) \<Rightarrow> Tracer \<Rightarrow>
   (trie_error + (string \<Rightarrow> bytes option)) \<times> Tracer" where
  "getAll X db fuel n pre data tr = walk X db (all_visit X) fuel n pre data tr"

definition getKeyValue ::
  "ext \<Rightarrow> db \<Rightarrow> nat \<Rightarrow> node \<Rightarrow> bytes \<Rightarrow> (string \<Rightarrow> bytes option) \<Rightarrow> Tracer \<Rightarrow>
   (trie_error + (string \<Rightarrow> bytes option)) \<times> Tracer" where
  "getKeyValue X db fuel n pre data tr = walk X db (all_visit X) fuel n pre data tr"

definition countRecursive ::
  "ext \<Rightarrow> db \<Rightarrow> nat \<Rightarrow> node \<Rightarrow> bytes \<Rightarrow> nat \<Rightarrow> Tracer \<Rightarrow> (trie_error + nat) \<times> Tracer" where
  "countRecursive X db fuel n pre count tr = walk X db (\<lambda>pre v count. Suc count) fuel n pre count tr"

definition trie_GetKeyValue ::
  "ext \<Rightarrow> db \<Rightarrow> nat \<Rightarrow> MerklePatriciaTrie \<Rightarrow> (trie_error + (string \<Rightarrow> bytes option)) \<times> MerklePatriciaTrie" where
  "trie_GetKeyValue X db fuel t =
     (if committed t then (Inl ErrCommitted, t)
      else (case getKeyValue X db fuel (root t) [] Map.empty (tracer t) of
              (Inl e, tr) \<Rightarrow> (Inl e, t\<lparr>tracer := tr\<rparr>)
            | (Inr data, tr) \<Rightarrow> (Inr data, t\<lparr>tracer := tr\<rparr>)))"

definition trie_GetAll ::
  "ext \<Rightarrow> db \<Rightarrow> nat \<Rightarrow> MerklePatriciaTrie \<Rightarrow> (trie_error + (string \<Rightarrow> bytes option)) \<times> MerklePatriciaTrie" where
  "trie_GetAll X db fuel t =
     (if committed t then (Inl ErrCommitted, t)
      else (case getAll X db fuel (root t) [] Map.empty (tracer t) of
              (Inl e, tr) \<Rightarrow> (Inl e, t\<lparr>tracer := tr\<rparr>)
            | (Inr data, tr) \<Rightarrow> (Inr data, t\<lparr>tracer := tr\<rparr>)))"

definition trie_Count ::
  "ext \<Rightarrow> db \<Rightarrow> nat \<Rightarrow> MerklePatriciaTrie \<Rightarrow> (trie_error + nat) \<times> MerklePatriciaTrie" where
  "trie_Count X db fuel t =
     (if committed t then (Inl ErrCommitted, t)
      else (case countRecursive X db fuel (root t) [] 0 (tracer t) of
              (Inl e, tr) \<Rightarrow> (Inl e, t\<lparr>tracer := tr\<rparr>)
            | (Inr count, tr) \<Rightarrow> (Inr count, t\<lparr>tracer := tr\<rparr>)))"

text \<open>\<^verbatim>\<open>ImportTrie\<close> after decoding the file: the trie is opened on the root hash over a fresh memory
  store before any entry is written.\<close>

definition ImportTrie ::
  "ext \<Rightarrow> nat \<Rightarrow> bytes \<Rightarrow> (bytes \<times> bytes) list \<Rightarrow> trie_error + MerklePatriciaTrie" where
  "ImportTrie X fuel rootHash keyValues =
     (case trie_New X Map.empty rootHash True of
        Inl e \<Rightarrow> Inl e
      | Inr t \<Rightarrow>
          (case fold (\<lambda>(k, v) r. case r of Inl e \<Rightarrow> Inl e
                        | Inr t \<Rightarrow> (case trie_Update X Map.empty fuel t k v of
                                      (Some e, t') \<Rightarrow> Inl e | (None, t') \<Rightarrow> Inr t'))
                  keyValues (Inr t) of
             Inl e \<Rightarrow> Inl e | Inr t' \<Rightarrow> Inr t'))"

end
