(* ===== verification/Trie_Refine.thy ===== *)
theory Trie_Refine
  imports Merkle_Trie
begin

text \<open>
  The trie of the code refines the trie of the specification. \<open>aref\<close> is the reference to a
  subtrie that the hasher computes, \<open>cblob\<close> the blob that a commit writes for it, \<open>stored\<close> says
  that a database holds the blobs of all its nodes, and \<open>rep\<close> relates an in-memory node, whose
  parts may be replaced by hash nodes, to the subtrie it stands for.
\<close>

subsection \<open>References and blobs\<close>

lemma size_take_atrie [termination_simp]:
  "c \<in> set (take n cs) \<Longrightarrow> size c < Suc (size_list size (cs :: atrie list))"
  using size_list_estimation' [OF in_set_takeD, of c n cs "size c" size] by simp

lemma size_drop_atrie [termination_simp]:
  "c \<in> set (drop n cs) \<Longrightarrow> size c < Suc (size_list size (cs :: atrie list))"
  using size_list_estimation' [OF in_set_dropD, of c n cs "size c" size] by simp

fun aref :: "ext \<Rightarrow> atrie \<Rightarrow> bytes" where
  "aref X ANil = []"
| "aref X (AVal v) = v"
| "aref X (AShort k c) =
     keccak X (pbNode X MPTNODE_TYPE_SHORT (pbShort X (the (HexToCompact k)) (aref X c)))"
| "aref X (AFull cs) =
     keccak X (pbNode X MPTNODE_TYPE_FULL (pbFull X
       (map (\<lambda>c. aref X c) (take 16 cs) @ map (\<lambda>c. if c = ANil then zero_hash else aref X c) (drop 16 cs))))"

fun cblob :: "ext \<Rightarrow> atrie \<Rightarrow> bytes" where
  "cblob X ANil = []"
| "cblob X (AVal v) = v"
| "cblob X (AShort k c) = pbNode X MPTNODE_TYPE_SHORT (pbShort X (the (HexToCompact k)) (aref X c))"
| "cblob X (AFull cs) =
     pbNode X MPTNODE_TYPE_FULL (pbFull X (map (\<lambda>c. if c = ANil then zero_hash else aref X c) cs))"

fun is_branch :: "atrie \<Rightarrow> bool" where
  "is_branch ANil = False"
| "is_branch (AVal v) = False"
| "is_branch _ = True"

fun stored :: "ext \<Rightarrow> db \<Rightarrow> atrie \<Rightarrow> bool" where
  "stored X db ANil = True"
| "stored X db (AVal v) = True"
| "stored X db (AShort k c) \<longleftrightarrow>
     db (aref X (AShort k c)) = Some (cblob X (AShort k c)) \<and> stored X db c"
| "stored X db (AFull cs) \<longleftrightarrow>
     db (aref X (AFull cs)) = Some (cblob X (AFull cs)) \<and>
     (\<forall>c \<in> set (take 16 cs). stored X db c \<and> (c \<noteq> ANil \<longrightarrow> aref X c \<noteq> zero_hash)) \<and>
     (\<forall>c \<in> set (drop 16 cs). c = ANil)"

lemma wft_is_branch: "wft t \<Longrightarrow> is_branch t"
  by (cases t) auto

text \<open>Every in-memory node has its hash.\<close>

fun hashed :: "node \<Rightarrow> bool" where
  "hashed (ShortNode k v f) \<longleftrightarrow> Hash f \<noteq> [] \<and> hashed v"
| "hashed (FullNode cs f) \<longleftrightarrow> Hash f \<noteq> [] \<and> (\<forall>c \<in> set cs. hashed c)"
| "hashed _ \<longleftrightarrow> True"

text \<open>A cached hash is the reference of the subtrie, and a clean node is in the database.\<close>

definition flag_ok :: "ext \<Rightarrow> db \<Rightarrow> NodeFlag \<Rightarrow> atrie \<Rightarrow> bool" where
  "flag_ok X db f t \<longleftrightarrow> (Hash f \<noteq> [] \<longrightarrow> Hash f = aref X t) \<and> (\<not> Dirty f \<longrightarrow> Hash f \<noteq> [] \<and> stored X db t)"

inductive rep :: "ext \<Rightarrow> db \<Rightarrow> node \<Rightarrow> atrie \<Rightarrow> bool" for X db where
  rep_Nil: "rep X db NilNode ANil"
| rep_Value: "rep X db (ValueNode v) (AVal v)"
| rep_Hash: "is_branch t \<Longrightarrow> stored X db t \<Longrightarrow> h = aref X t \<Longrightarrow> rep X db (HashNode h) t"
| rep_Short: "rep X db n t \<Longrightarrow> flag_ok X db f (AShort k t) \<Longrightarrow> (Hash f \<noteq> [] \<Longrightarrow> hashed n) \<Longrightarrow>
    rep X db (ShortNode k n f) (AShort k t)"
| rep_Full: "list_all2 (rep X db) ns ts \<Longrightarrow> flag_ok X db f (AFull ts) \<Longrightarrow>
    (Hash f \<noteq> [] \<Longrightarrow> \<forall>n \<in> set ns. hashed n) \<Longrightarrow> rep X db (FullNode ns f) (AFull ts)"
  monos list_all2_mono

inductive_simps rep_node_simps [simp]:
  "rep X db NilNode t" "rep X db (ValueNode v) t" "rep X db (HashNode h) t"
  "rep X db (ShortNode k n f) t" "rep X db (FullNode ns f) t"

inductive_cases rep_atrieE:
  "rep X db n ANil" "rep X db n (AVal v)" "rep X db n (AShort k t)" "rep X db n (AFull ts)"

lemma flag_ok_New [simp]: "flag_ok X db NewFlag t"
  by (simp add: flag_ok_def NewFlag_def)

lemma Hash_New [simp]: "Hash NewFlag = []"
  by (simp add: NewFlag_def)

lemma rep_ANil [simp]: "rep X db n ANil \<longleftrightarrow> n = NilNode"
  by (cases n) auto

lemma rep_AVal [simp]: "rep X db n (AVal v) \<longleftrightarrow> n = ValueNode v"
  by (cases n) auto

subsection \<open>Positions in a trie\<close>

text \<open>A subtrie and the rest of a hex key that leads into it.\<close>

definition sub_ok :: "atrie \<Rightarrow> bytes \<Rightarrow> bool" where
  "sub_ok t ks \<longleftrightarrow> (canon t \<and> hexkey ks) \<or> (ks = [] \<and> (t = ANil \<or> (\<exists>v. v \<noteq> [] \<and> t = AVal v)))"

lemma sub_ok_full: "wft (AFull cs) \<Longrightarrow> hexkey (k # ks) \<Longrightarrow> sub_ok (cs ! unat k) ks"
  using wft_AFull_child(1) [of cs k] wft_AFull_child(2) [of cs] by (auto simp: sub_ok_def hexkey_Cons)

lemma sub_ok_short: "wft (AShort sk c) \<Longrightarrow> hexkey (sk @ r) \<Longrightarrow> sub_ok c r"
proof (erule wft_short_cases)
  assume "hexkey (sk @ r)" "hexkey sk"
  then have "r = []" using hexkey_prefix [of sk "sk @ r"] by simp
  then show "c = AVal v \<Longrightarrow> v \<noteq> [] \<Longrightarrow> sub_ok c r" for v by (simp add: sub_ok_def)
qed (auto simp: sub_ok_def hexkey_append)

lemma sub_ok_AShort: "sub_ok (AShort sk c) ks \<longleftrightarrow> wft (AShort sk c) \<and> hexkey ks"
  by (auto simp: sub_ok_def canon_def)

lemma sub_ok_AFull: "sub_ok (AFull cs) ks \<longleftrightarrow> wft (AFull cs) \<and> hexkey ks"
  by (auto simp: sub_ok_def canon_def)

lemma sub_ok_branch: "sub_ok t ks \<Longrightarrow> is_branch t \<Longrightarrow> wft t \<and> hexkey ks"
  by (cases t) (auto simp: sub_ok_def canon_def)

lemmas sub_ok_simps = sub_ok_AShort sub_ok_AFull

subsection \<open>Resolving a stored subtrie\<close>

definition blob_child :: "ext \<Rightarrow> atrie \<Rightarrow> node" where
  "blob_child X c = (if c = ANil then NilNode else HashNode (aref X c))"

lemma setChildren_append:
  "setChildren X (length ps) (map (\<lambda>c. if c = ANil then zero_hash else aref X c) cs)
     (ps @ replicate (length cs) NilNode @ qs) = Some (ps @ map (blob_child X) cs @ qs)"
  if "\<And>c. c \<in> set cs \<Longrightarrow> c \<noteq> ANil \<Longrightarrow> BytesToHash X (aref X c) \<noteq> zero_hash"
    "BytesToHash X zero_hash = zero_hash"
  using that(1)
proof (induction cs arbitrary: ps)
  case (Cons c cs)
  show ?case
    using Cons.IH [of "ps @ [blob_child X c]"] Cons.prems that(2)
    by (cases "c = ANil") (simp_all add: blob_child_def list_update_append)
qed simp

lemma drop_16: "length cs = 17 \<Longrightarrow> drop 16 cs = [cs ! 16]"
  using Cons_nth_drop_Suc [of 16 cs] by simp

text \<open>The node that decoding the blob of a subtrie gives.\<close>

fun bnode :: "ext \<Rightarrow> atrie \<Rightarrow> node" where
  "bnode X (AShort k c) =
     ShortNode k (if HasTerm k then ValueNode (aref X c) else HashNode (aref X c))
       \<lparr>Hash = aref X (AShort k c), Dirty = False\<rparr>"
| "bnode X (AFull cs) = FullNode (map (blob_child X) cs) \<lparr>Hash = aref X (AFull cs), Dirty = False\<rparr>"
| "bnode X _ = NilNode"

lemma CompactToHex_wft: "wft (AShort k c) \<Longrightarrow> CompactToHex (the (HexToCompact k)) = k"
proof (erule wft_short_cases)
  assume "hexkey k"
  then obtain p where "k = p @ [16]" "list_all is_nibble p" by (auto simp: hexkey_def)
  then show ?thesis by (simp add: HexToCompact_closed CompactToHex_compact_of)
next
  assume "list_all is_nibble k" "\<not> HasTerm k"
  then show ?thesis by (simp add: HexToCompact_closed CompactToHex_compact_of)
qed

lemma hashed_bnode [simp]: "hashed (blob_child X c)"
  by (simp add: blob_child_def)

context trie_ext
begin

lemma length_aref: "is_branch t \<Longrightarrow> length (aref X t) = 32"
  by (cases t) (simp_all add: length_keccak)

lemma aref_nonempty: "is_branch t \<Longrightarrow> aref X t \<noteq> []"
  using length_aref by fastforce

lemma cblob_nonempty: "wft t \<Longrightarrow> cblob X t \<noteq> []"
proof (cases t)
  case (AFull cs)
  assume "wft t"
  then have "length cs = 17" using AFull wft_AFull by blast
  then have "pbFull X (map (\<lambda>c. if c = ANil then zero_hash else aref X c) cs) \<noteq> []"
    using pbFull_empty by fastforce
  then show ?thesis using AFull pbNode_empty by auto
qed (auto dest: pbNode_empty)

lemma wft_full_children:
  assumes "wft (AFull cs)" "stored X db (AFull cs)" "c \<in> set cs" "c \<noteq> ANil"
  shows "wft c" "stored X db c" "aref X c \<noteq> zero_hash" "length (aref X c) = 32"
proof -
  have len: "length cs = 17" using assms(1) by (rule wft_AFull_child)
  obtain i where i: "i < 17" "c = cs ! i" using assms(3) len by (metis in_set_conv_nth)
  have "i \<noteq> 16"
  proof
    assume "i = 16"
    then show False using assms(2,4) i drop_16 [OF len] by simp
  qed
  then have "i < 16" using i by simp
  then have t: "c \<in> set (take 16 cs)" using i len by (force simp: in_set_conv_nth)
  have "wfc i c" using assms(1) i by (simp add: wft_AFull)
  then show "wft c" using assms(4) \<open>i < 16\<close> by (simp add: wfc_canon canon_def)
  then show "length (aref X c) = 32" using length_aref wft_is_branch by blast
  show "stored X db c" "aref X c \<noteq> zero_hash" using assms(2,4) t by auto
qed

lemma DecodeNode_cblob:
  assumes "wft t" "stored X db t"
  shows "DecodeNode X (aref X t) (cblob X t) = Some (bnode X t)"
proof (cases t)
  case (AShort k c)
  then show ?thesis
    using assms(1) by (auto simp: DecodeNode_def unNode_pbNode ShortNode_Unmarshal_def unShort_pbShort
        Let_def CompactToHex_wft)
next
  case (AFull cs)
  have len: "length cs = 17" using assms(1) AFull wft_AFull by blast
  have "BytesToHash X (aref X c) \<noteq> zero_hash" if "c \<in> set cs" "c \<noteq> ANil" for c
    using wft_full_children [of cs db c] assms AFull that by (simp add: BytesToHash_id)
  moreover have "BytesToHash X zero_hash = zero_hash" by (simp add: BytesToHash_id zero_hash_def)
  ultimately have "setChildren X 0 (map (\<lambda>c. if c = ANil then zero_hash else aref X c) cs)
      (replicate 17 NilNode) = Some (map (blob_child X) cs)"
    using setChildren_append [of cs X "[]" "[]"] len by simp
  then show ?thesis
    using AFull by (simp add: DecodeNode_def unNode_pbNode FullNode_Unmarshal_def unFull_pbFull
        TOTAL_CHILD_NODE_def)
qed (use assms in auto)

lemma rep_bnode:
  assumes "wft t" "stored X db t"
  shows "rep X db (bnode X t) t" "hashed (bnode X t)"
proof -
  have f: "flag_ok X db \<lparr>Hash = aref X t, Dirty = False\<rparr> t" and ne: "aref X t \<noteq> []"
    using assms aref_nonempty wft_is_branch by (auto simp: flag_ok_def)
  have "rep X db (bnode X t) t \<and> hashed (bnode X t)"
  proof (cases t)
    case (AShort k c)
    then have "wft (AShort k c)" using assms by simp
    then show ?thesis
      by (cases rule: wft_short_cases)
        (use f ne assms AShort in \<open>auto simp: hexkey_HasTerm intro: wft_is_branch\<close>)
  next
    case (AFull cs)
    have "rep X db (blob_child X c) c" if "c \<in> set cs" for c
      using wft_full_children [of cs db c] assms AFull that wft_is_branch
      by (auto simp: blob_child_def)
    then show ?thesis using f ne AFull by (auto simp: list_all2_map1 list_all2_same)
  qed (use assms in auto)
  then show "rep X db (bnode X t) t" "hashed (bnode X t)" by auto
qed

lemma resolve_stored:
  assumes "wft t" "stored X db t"
  shows "resolveAndTrack X db (aref X t) pre tr = (Inr (bnode X t), onRead pre (cblob X t) tr)"
proof -
  have "db (aref X t) = Some (cblob X t)" using assms by (cases t) auto
  moreover have "BytesToHash X (aref X t) = aref X t"
    using assms(1) length_aref wft_is_branch BytesToHash_id by blast
  ultimately show ?thesis
    using assms by (simp add: resolveAndTrack_def reader_node_def cblob_nonempty DecodeNode_cblob)
qed

end

end
