(* ===== verification/Trie_Ops.thy ===== *)
theory Trie_Ops
  imports Trie_Refine
begin

text \<open>
  \<^verbatim>\<open>get\<close>, \<^verbatim>\<open>insert\<close>, \<^verbatim>\<open>delete\<close> and the hasher implement \<open>alookup\<close>, \<open>ainsert\<close>, \<open>adelete\<close> and \<open>aref\<close>:
  on a node that represents a canonical trie they return without error or panic, with fuel
  linear in the length of the key, and the nodes they return represent the result.
\<close>

subsection \<open>Fuel\<close>

fun is_hash_node :: "node \<Rightarrow> bool" where
  "is_hash_node (HashNode h) = True"
| "is_hash_node _ = False"

text \<open>One step per node, and one more to resolve it; every node below the first takes at least
  one nibble of the key.\<close>

definition fuel_ok :: "nat \<Rightarrow> node \<Rightarrow> bytes \<Rightarrow> bool" where
  "fuel_ok fuel n ks \<longleftrightarrow> 2 * length ks + 1 + (if is_hash_node n then 1 else 0) \<le> fuel"

lemma fuel_ok_Suc: "fuel_ok fuel n ks \<Longrightarrow> \<exists>f. fuel = Suc f"
  by (cases fuel) (auto simp: fuel_ok_def)

lemma fuel_ok_top: "2 * length ks + 2 \<le> fuel \<Longrightarrow> fuel_ok fuel n ks"
  by (auto simp: fuel_ok_def)

lemma fuel_ok_child: "fuel_ok (Suc fuel) n ks \<Longrightarrow> length ks' < length ks \<Longrightarrow> fuel_ok fuel n' ks'"
  by (auto simp: fuel_ok_def split: if_splits)

lemma fuel_ok_hash: "fuel_ok (Suc fuel) (HashNode h) ks \<Longrightarrow> \<not> is_hash_node n \<Longrightarrow> fuel_ok fuel n ks"
  by (auto simp: fuel_ok_def)

lemma bnode_not_hash: "\<not> is_hash_node (bnode X t)"
  by (cases t) auto

lemma list_all2_update_rep:
  "list_all2 (rep X db) ns ts \<Longrightarrow> rep X db n t \<Longrightarrow> list_all2 (rep X db) (ns[i := n]) (ts[i := t])"
  by (rule list_all2_update_cong)

lemma hashed_list_update: "\<forall>n \<in> set ns. hashed n \<Longrightarrow> hashed n' \<Longrightarrow> \<forall>n \<in> set (ns[i := n']). hashed n"
  using set_update_subset_insert by fastforce

lemma concat_bytes [simp]: "concat_bytes a b = a @ b"
  by (simp add: concat_bytes_def Let_def go_copy_def)

lemma filter_upt_Suc:
  "filter P [0..<Suc n] = (if P 0 then [0] else []) @ map Suc (filter (\<lambda>i. P (Suc i)) [0..<n])"
  by (simp add: upt_conv_Cons filter_map comp_def del: upt_Suc flip: map_Suc_upt)

lemma reduce_pos_found: "reduce_pos i (int q) cs = (if \<forall>c \<in> set cs. c = NilNode then int q else -2)"
  by (induction cs arbitrary: i) auto

lemma reduce_pos_none:
  "reduce_pos i (-1) cs = (case filter (\<lambda>j. cs ! j \<noteq> NilNode) [0..<length cs] of
     [] \<Rightarrow> -1 | [j] \<Rightarrow> int (i + j) | _ \<Rightarrow> -2)"
proof (induction cs arbitrary: i)
  case (Cons c cs)
  have all: "filter (\<lambda>j. cs ! j \<noteq> NilNode) [0..<length cs] = [] \<longleftrightarrow> (\<forall>c \<in> set cs. c = NilNode)"
    by (auto simp: filter_empty_conv all_set_conv_all_nth)
  show ?case
    using Cons.IH [of "i + 1"] all
    by (auto simp: filter_upt_Suc reduce_pos_found simp del: upt_Suc split: list.splits)
qed simp

lemma nonnil_rep:
  "list_all2 (rep X db) ns ts \<Longrightarrow> filter (\<lambda>j. ns ! j \<noteq> NilNode) [0..<length ns] = nonnil ts"
  unfolding nonnil_def by (rule filter_cong) (auto simp: list_all2_conv_all_nth dest!: spec elim: rep.cases)

context trie_ext
begin

subsection \<open>get\<close>

lemma trie_get_refines:
  assumes "rep X db n t" "sub_ok t (drop pos key)" "fuel_ok fuel n (drop pos key)" "pos \<le> length key"
  shows "\<exists>n' b tr'. trie_get X db fuel n key pos tr = (Inr (alookup t (drop pos key), n', b), tr')
    \<and> rep X db n' t \<and> (hashed n \<longrightarrow> hashed n')"
  using assms
proof (induction fuel arbitrary: n t pos tr)
  case 0
  then show ?case by (simp add: fuel_ok_def)
next
  case (Suc fuel)
  from Suc.prems(1) show ?case
  proof (cases rule: rep.cases)
    case (rep_Hash h)
    then have w: "wft t" using sub_ok_branch Suc.prems(2) by blast
    obtain n' b tr' where "trie_get X db fuel (bnode X t) key pos (onRead (take pos key) (cblob X t) tr)
        = (Inr (alookup t (drop pos key), n', b), tr')" "rep X db n' t" "hashed n'"
      using Suc.IH [of "bnode X t" t pos] rep_bnode [OF w rep_Hash(3)] Suc.prems rep_Hash
        fuel_ok_hash [OF _ bnode_not_hash] by metis
    then show ?thesis using rep_Hash resolve_stored [OF w rep_Hash(3)] by auto
  next
    case (rep_Short n0 t0 f k)
    then have w: "wft (AShort k t0)" "hexkey (drop pos key)" using Suc.prems(2) by (auto simp: sub_ok_simps)
    then have ne: "k \<noteq> []" by (auto elim: wft_short_cases)
    show ?thesis
    proof (cases "prefix k (drop pos key)")
      case False
      then have "k \<noteq> take (length k) (drop pos key)" using take_is_prefix by metis
      then show ?thesis using rep_Short False Suc.prems(1) by auto
    next
      case True
      then obtain r where r: "drop pos key = k @ r" by (auto simp: prefix_def)
      then have len: "pos + length k \<le> length key" using Suc.prems(4)
        by (metis append_eq_conv_conj length_append length_drop length_take min.cobounded2 nat_add_left_cancel_le le_add_diff_inverse le_add1)
      have dr: "drop (pos + length k) key = r" using r by (metis add.commute append_eq_conv_conj drop_drop)
      have "sub_ok t0 r" using sub_ok_short w r by metis
      moreover have "fuel_ok fuel n0 r" using fuel_ok_child Suc.prems(3) r ne by fastforce
      ultimately obtain n' b tr' where "trie_get X db fuel n0 key (pos + length k) tr
          = (Inr (alookup t0 r, n', b), tr')" "rep X db n' t0" "hashed n0 \<longrightarrow> hashed n'"
        using Suc.IH [of n0 t0 "pos + length k" tr] rep_Short len dr by auto
      then show ?thesis using rep_Short r len by auto
    qed
  next
    case (rep_Full ns ts f)
    then have w: "wft (AFull ts)" "hexkey (drop pos key)" using Suc.prems(2) by (auto simp: sub_ok_simps)
    then obtain k ks where r: "drop pos key = k # ks" by (cases "drop pos key") auto
    then have pos: "pos < length key" "key ! pos = k" "drop (pos + 1) key = ks"
      by (metis drop_all leI list.distinct(1)) (use r in \<open>metis hd_drop_conv_nth drop_all leI list.distinct(1) list.sel(1)\<close>,
        use r in \<open>metis Suc_eq_plus1 drop_Suc list.sel(3) tl_drop\<close>)
    have len: "length ts = 17" "length ns = 17" "unat k < 17"
      using w r wft_AFull_child(3) rep_Full(3) hexkey_head_less by (auto dest: list_all2_lengthD)
    have "sub_ok (ts ! unat k) ks" using sub_ok_full w r by simp
    moreover have "fuel_ok fuel (ns ! unat k) ks" using fuel_ok_child Suc.prems(3) r by fastforce
    moreover have "rep X db (ns ! unat k) (ts ! unat k)" using rep_Full(3) len by (simp add: list_all2_conv_all_nth)
    ultimately obtain n' b tr' where g: "trie_get X db fuel (ns ! unat k) key (pos + 1) tr
        = (Inr (alookup (ts ! unat k) ks, n', b), tr')" "rep X db n' (ts ! unat k)"
        "hashed (ns ! unat k) \<longrightarrow> hashed n'"
      using Suc.IH [of "ns ! unat k" "ts ! unat k" "pos + 1" tr] pos by auto
    have h: "\<forall>n \<in> set (ns[unat k := n']). hashed n" if "\<forall>n \<in> set ns. hashed n"
      using hashed_list_update [OF that] g(3) that len by simp
    have "rep X db (FullNode (ns[unat k := n']) f) (AFull ts)"
      using rep_Full(4,5) list_all2_update_rep [OF rep_Full(3) g(2), of "unat k"] h
      by (simp add: list_update_id)
    then show ?thesis using g pos r len rep_Full h by auto
  qed auto
qed

subsection \<open>insert\<close>

lemma trie_insert_nil:
  "trie_insert X db (Suc fuel) NilNode pre key val tr =
    (Inr (True, if key = [] then val else ShortNode key val NewFlag),
     if key = [] then tr else onInsert pre tr)"
  by (simp add: trie_insert.simps)

lemma rep_mkshort:
  "rep X db n t \<Longrightarrow> rep X db (if k = [] then n else ShortNode k n NewFlag) (mkshort k t)"
  by (simp add: mkshort_def)

lemma rep_branch:
  assumes "rep X db c1 a1" "rep X db c2 a2"
  shows "rep X db (branch_node i c1 j c2) (abranch i a1 j a2)"
proof -
  have "list_all2 (rep X db) (replicate 17 NilNode) (replicate 17 ANil)"
    by (simp add: list_all2_conv_all_nth)
  then show ?thesis
    using assms by (auto simp: branch_node_def abranch_def TOTAL_CHILD_NODE_def intro: list_all2_update_rep)
qed

lemma trie_insert_short_differ:
  assumes "key = p @ j # kr" "k = p @ i # sr" "PrefixLen key k = length p" "PrefixLen key k \<noteq> length k"
    "unat i < 17" "unat j < 17"
  shows "\<exists>tr'. trie_insert X db (Suc (Suc fuel)) (ShortNode k n f) pre key val tr =
    (Inr (True, if p = [] then branch_node i (if sr = [] then n else ShortNode sr n NewFlag)
                                 j (if kr = [] then val else ShortNode kr val NewFlag)
                else ShortNode p (branch_node i (if sr = [] then n else ShortNode sr n NewFlag)
                                 j (if kr = [] then val else ShortNode kr val NewFlag)) NewFlag), tr')"
  using assms
  by (subst trie_insert.simps) (auto simp: Let_def trie_insert_nil nth_append TOTAL_CHILD_NODE_def)

lemma trie_insert_refines:
  assumes "rep X db n t" "sub_ok t ks" "fuel_ok fuel n ks"
  shows "\<exists>dirty n' tr'. trie_insert X db fuel n pre ks (ValueNode v) tr = (Inr (dirty, n'), tr')
    \<and> rep X db n' (ainsert t ks v) \<and> (\<not> dirty \<longrightarrow> ainsert t ks v = t)"
  using assms
proof (induction fuel arbitrary: n t ks pre tr)
  case 0
  then show ?case by (simp add: fuel_ok_def)
next
  case (Suc fuel)
  from Suc.prems(1) show ?case
  proof (cases rule: rep.cases)
    case rep_Nil
    then show ?thesis by (auto simp: trie_insert.simps mkshort_def)
  next
    case (rep_Value w)
    then show ?thesis using Suc.prems(2) by (auto simp: trie_insert.simps sub_ok_def canon_def)
  next
    case (rep_Hash h)
    then have w: "wft t" "hexkey ks" using sub_ok_branch Suc.prems(2) by blast+
    then have "ks \<noteq> []" by auto
    obtain d n' tr' where "trie_insert X db fuel (bnode X t) pre ks (ValueNode v) (onRead pre (cblob X t) tr)
        = (Inr (d, n'), tr')" "rep X db n' (ainsert t ks v)" "\<not> d \<longrightarrow> ainsert t ks v = t"
      using Suc.IH [OF rep_bnode(1) [OF w(1) rep_Hash(3)] Suc.prems(2)] Suc.prems(3) rep_Hash(1)
        fuel_ok_hash [OF _ bnode_not_hash] by metis
    then show ?thesis
      using rep_Hash resolve_stored [OF w(1) rep_Hash(3)] rep_bnode [OF w(1) rep_Hash(3)] \<open>ks \<noteq> []\<close>
      by (auto simp: trie_insert.simps)
  next
    case (rep_Short n0 t0 f k)
    then have w: "wft (AShort k t0)" "hexkey ks" using Suc.prems(2) by (auto simp: sub_ok_simps)
    then have ne: "k \<noteq> []" "ks \<noteq> []" by (auto elim: wft_short_cases)
    from w show ?thesis
    proof (cases rule: short_key_cases)
      case match
      then obtain r where r: "ks = k @ r" by (auto simp: prefix_def)
      have "sub_ok t0 r" using sub_ok_short w r by metis
      moreover have "fuel_ok fuel n0 r" using fuel_ok_child Suc.prems(3) r ne by fastforce
      ultimately obtain d n' tr' where "trie_insert X db fuel n0 (pre @ k) r (ValueNode v) tr = (Inr (d, n'), tr')"
          "rep X db n' (ainsert t0 r v)" "\<not> d \<longrightarrow> ainsert t0 r v = t0"
        using Suc.IH rep_Short by blast
      then show ?thesis
        using rep_Short match r ne by (auto simp: trie_insert.simps Let_def)
    next
      case (differ p i sr j kr)
      obtain fuel' where fuel: "fuel = Suc fuel'"
        using Suc.prems(3) ne by (cases fuel) (auto simp: fuel_ok_def)
      have ij: "unat i < 17" "unat j < 17"
        using wfc_mkshort_tail(2) [of p i sr t0] w differ by (auto simp: hexkey_append hexkey_head_less)
      note b = rep_branch [OF rep_mkshort [of db n0 t0 sr] rep_mkshort [of db "ValueNode v" "AVal v" kr], of i j]
      show ?thesis
        using trie_insert_short_differ [OF differ(2,1,4,5) ij, of db fuel' n0 f pre "ValueNode v" tr]
          b rep_Short differ fuel by (auto simp: Let_def mkshort_def)
    qed
  next
    case (rep_Full ns ts f)
    then have w: "wft (AFull ts)" "hexkey ks" using Suc.prems(2) by (auto simp: sub_ok_simps)
    then obtain k ks' where r: "ks = k # ks'" by (cases ks) auto
    have len: "length ts = 17" "length ns = 17" "unat k < 17"
      using w r wft_AFull_child(3) rep_Full(3) hexkey_head_less by (auto dest: list_all2_lengthD)
    have "sub_ok (ts ! unat k) ks'" using sub_ok_full w r by simp
    moreover have "fuel_ok fuel (ns ! unat k) ks'" using fuel_ok_child Suc.prems(3) r by fastforce
    moreover have "rep X db (ns ! unat k) (ts ! unat k)" using rep_Full(3) len by (simp add: list_all2_conv_all_nth)
    ultimately obtain d n' tr' where g: "trie_insert X db fuel (ns ! unat k) (pre @ [k]) ks' (ValueNode v) tr
        = (Inr (d, n'), tr')" "rep X db n' (ainsert (ts ! unat k) ks' v)"
        "\<not> d \<longrightarrow> ainsert (ts ! unat k) ks' v = ts ! unat k"
      using Suc.IH by blast
    have new: "rep X db (FullNode (ns[unat k := n']) NewFlag) (ainsert t ks v)"
      using list_all2_update_rep [OF rep_Full(3) g(2), of "unat k"] len rep_Full r by simp
    obtain tr'' where step: "trie_insert X db (Suc fuel) n pre ks (ValueNode v) tr =
        (Inr (d, if d then FullNode (ns[unat k := n']) NewFlag else n), tr'')"
      using g(1) r len rep_Full(1) by (cases d) (simp_all add: trie_insert.simps)
    have same: "\<not> d \<Longrightarrow> ainsert t ks v = t" using g(3) r rep_Full(2) by simp
    show ?thesis
    proof (cases d)
      case True
      with step new show ?thesis by auto
    next
      case False
      with step same Suc.prems(1) show ?thesis by auto
    qed
  qed
qed

subsection \<open>delete\<close>

lemma rep_nil_iff: "rep X db n t \<Longrightarrow> n = NilNode \<longleftrightarrow> t = ANil"
  by (auto elim: rep.cases)

lemma resolve_rep:
  assumes "rep X db n t" "wft t"
  shows "\<exists>n' tr'. resolve X db n pre tr = (Inr n', tr') \<and> rep X db n' t \<and> \<not> is_hash_node n'"
  using assms(1)
proof (cases rule: rep.cases)
  case (rep_Hash h)
  then show ?thesis
    using resolve_stored [OF assms(2) rep_Hash(3)] rep_bnode [OF assms(2) rep_Hash(3)] bnode_not_hash
    by (simp add: resolve_def)
qed (use assms in \<open>auto simp: resolve_def\<close>)

lemma rep_amerge:
  assumes "rep X db n t" "\<not> is_hash_node n" "is_branch t"
  shows "rep X db (case n of ShortNode ck cv cf \<Rightarrow> ShortNode (k @ ck) cv NewFlag | _ \<Rightarrow> ShortNode k n NewFlag) (amerge k t)"
  using assms by (cases n) auto

lemma reduce_full_refines:
  assumes "list_all2 (rep X db) ns ts" "length ts = 17" "\<And>i. i < 17 \<Longrightarrow> wfc i (ts ! i)" "nonnil ts \<noteq> []"
  shows "\<exists>n' tr'. reduce_full X db pre ns tr = (Inr (True, n'), tr') \<and> rep X db n' (areduce ts) \<and> \<not> is_hash_node n'"
  using assms(4)
proof (cases rule: areduce_cases)
  case (one i)
  have pos: "reduce_pos 0 (-1) ns = int i" using reduce_pos_none [of 0 ns] nonnil_rep [OF assms(1)] one(1) by simp
  have len: "length ns = 17" using assms(1,2) list_all2_lengthD by metis
  have i: "i < 17" using one(2) assms(2) by simp
  have r: "rep X db (ns ! i) (ts ! i)" using assms(1) i len by (simp add: list_all2_conv_all_nth)
  show ?thesis
  proof (cases "i = 16")
    case True
    then obtain v where v: "ts ! 16 = AVal v" using assms(3) [of 16] one(3) by (auto simp: wfc_16)
    then show ?thesis using pos one True r by (simp add: reduce_full_def)
  next
    case False
    then have w: "wft (ts ! i)" using assms(3) [OF i] i one(3) by (simp add: wfc_canon canon_def)
    obtain n' tr' where n': "resolve X db (ns ! i) (pre @ [word_of_nat i]) tr = (Inr n', tr')"
        "rep X db n' (ts ! i)" "\<not> is_hash_node n'"
      using resolve_rep [OF r w] by blast
    show ?thesis
    proof (cases n')
      case (ShortNode ck cv cf)
      then show ?thesis using n' pos one False by (auto simp: reduce_full_def)
    next
      case (FullNode cs f)
      then obtain ts' where "ts ! i = AFull ts'" using n'(2) by auto
      then show ?thesis using n' pos one False FullNode r by (auto simp: reduce_full_def)
    qed (use n' w in auto)
  qed
next
  case many
  then obtain a b xs where "nonnil ts = a # b # xs" by (metis Suc_le_length_iff numeral_2_eq_2)
  then have "reduce_pos 0 (-1) ns = -2" using reduce_pos_none [of 0 ns] nonnil_rep [OF assms(1)] by simp
  then show ?thesis using many assms(1) by (auto simp: reduce_full_def)
qed

lemma trie_delete_full:
  assumes "ks = k # ks'" "unat k < length cs"
  shows "trie_delete X db (Suc fuel) (FullNode cs f) pre ks tr =
    (case trie_delete X db fuel (cs ! unat k) (pre @ [k]) ks' tr of
       (Inl e, tr') \<Rightarrow> (Inl e, tr')
     | (Inr (dirty, nn), tr') \<Rightarrow>
         if \<not> dirty then (Inr (False, FullNode cs f), tr')
         else if nn \<noteq> NilNode then (Inr (True, FullNode (cs[unat k := nn]) NewFlag), tr')
         else reduce_full X db pre (cs[unat k := nn]) tr')"
  using assms by (simp add: trie_delete.simps Let_def split: prod.splits sum.splits)

lemma trie_delete_short:
  assumes "ks = k @ r" "r \<noteq> []" "PrefixLen ks k = length k"
  shows "trie_delete X db (Suc fuel) (ShortNode k v f) pre ks tr =
    (case trie_delete X db fuel v (pre @ k) r tr of
       (Inl e, tr') \<Rightarrow> (Inl e, tr')
     | (Inr (dirty, child), tr') \<Rightarrow>
         if \<not> dirty then (Inr (False, ShortNode k v f), tr')
         else (case child of
                 ShortNode ck cv cf \<Rightarrow> (Inr (True, ShortNode (k @ ck) cv NewFlag), onDelete (pre @ k) tr')
               | _ \<Rightarrow> (Inr (True, ShortNode k child NewFlag), tr')))"
  using assms by (simp add: trie_delete.simps Let_def split: prod.splits sum.splits node.splits)

lemma trie_delete_refines:
  assumes "rep X db n t" "sub_ok t ks" "fuel_ok fuel n ks"
  shows "\<exists>dirty n' tr'. trie_delete X db fuel n pre ks tr = (Inr (dirty, n'), tr')
    \<and> rep X db n' (adelete t ks) \<and> (\<not> dirty \<longrightarrow> adelete t ks = t) \<and> (dirty \<longrightarrow> \<not> is_hash_node n')"
  using assms
proof (induction fuel arbitrary: n t ks pre tr)
  case 0
  then show ?case by (simp add: fuel_ok_def)
next
  case (Suc fuel)
  from Suc.prems(1) show ?case
  proof (cases rule: rep.cases)
    case (rep_Hash h)
    then have w: "wft t" using sub_ok_branch Suc.prems(2) by blast
    obtain d n' tr' where "trie_delete X db fuel (bnode X t) pre ks (onRead pre (cblob X t) tr)
        = (Inr (d, n'), tr')" "rep X db n' (adelete t ks)" "\<not> d \<longrightarrow> adelete t ks = t" "d \<longrightarrow> \<not> is_hash_node n'"
      using Suc.IH [OF rep_bnode(1) [OF w rep_Hash(3)] Suc.prems(2)] Suc.prems(3) rep_Hash(1)
        fuel_ok_hash [OF _ bnode_not_hash] by metis
    then show ?thesis
      using rep_Hash resolve_stored [OF w rep_Hash(3)] rep_bnode [OF w rep_Hash(3)]
      by (auto simp: trie_delete.simps)
  next
    case (rep_Short n0 t0 f k)
    then have w: "wft (AShort k t0)" "hexkey ks" using Suc.prems(2) by (auto simp: sub_ok_simps)
    then have ne: "k \<noteq> []" by (auto elim: wft_short_cases)
    show ?thesis
    proof (cases "prefix k ks \<and> ks \<noteq> k")
      case False
      then have "PrefixLen ks k < length k \<or> ks = k"
        using PrefixLen_eq_length [of k ks] PrefixLen_commute [of k ks] PrefixLen_le(2) [of ks k] by auto
      moreover have "PrefixLen k k = length k" by (simp add: PrefixLen_eq_length)
      ultimately show ?thesis
        using False rep_Short Suc.prems(1) by (auto simp: trie_delete.simps Let_def)
    next
      case True
      then obtain r where r: "ks = k @ r" "r \<noteq> []" by (auto simp: prefix_def)
      have pl: "PrefixLen ks k = length k"
        using True PrefixLen_eq_length [of k ks] PrefixLen_commute [of k ks] by simp
      have so: "sub_ok t0 r" using sub_ok_short w r by metis
      have full: "is_full t0" "wft t0"
        using w so r(2) by (auto elim!: wft_short_cases simp: sub_ok_def canon_def)
      have fu: "fuel_ok fuel n0 r" using fuel_ok_child Suc.prems(3) r ne by fastforce
      obtain d n' tr' where g: "trie_delete X db fuel n0 (pre @ k) r tr = (Inr (d, n'), tr')"
          "rep X db n' (adelete t0 r)" "\<not> d \<longrightarrow> adelete t0 r = t0" "d \<longrightarrow> \<not> is_hash_node n'"
        using Suc.IH [OF rep_Short(3) so fu] by blast
      have b: "is_branch (adelete t0 r)"
        using adelete_correct [of t0 r] full so r(2) wft_is_branch by (auto simp: sub_ok_def canon_def)
      have am: "amerge k t0 = AShort k t0" using full(1) by (cases t0) auto
      show ?thesis
      proof (cases d)
        case True
        then show ?thesis
          using rep_amerge [OF g(2) _ b, of k] g(1,4) r rep_Short(1,2)
            trie_delete_short [OF r pl, of db fuel n0 f pre tr] by (cases n') auto
      next
        case False
        then show ?thesis
          using g Suc.prems(1) r am rep_Short(1,2) trie_delete_short [OF r pl, of db fuel n0 f pre tr] by auto
      qed
    qed
  next
    case (rep_Full ns ts f)
    then have w: "wft (AFull ts)" "hexkey ks" using Suc.prems(2) by (auto simp: sub_ok_simps)
    then obtain k ks' where r: "ks = k # ks'" by (cases ks) auto
    have len: "length ts = 17" "length ns = 17" "unat k < 17"
      using w r wft_AFull_child(3) rep_Full(3) hexkey_head_less by (auto dest: list_all2_lengthD)
    have so: "sub_ok (ts ! unat k) ks'" using sub_ok_full w r by simp
    have fu: "fuel_ok fuel (ns ! unat k) ks'" using fuel_ok_child Suc.prems(3) r by fastforce
    have rp: "rep X db (ns ! unat k) (ts ! unat k)" using rep_Full(3) len by (simp add: list_all2_conv_all_nth)
    let ?c = "adelete (ts ! unat k) ks'"
    obtain d n' tr' where g: "trie_delete X db fuel (ns ! unat k) (pre @ [k]) ks' tr = (Inr (d, n'), tr')"
        "rep X db n' ?c" "\<not> d \<longrightarrow> ?c = ts ! unat k" "d \<longrightarrow> \<not> is_hash_node n'"
      using Suc.IH [OF rp so fu] by blast
    note upd = list_all2_update_rep [OF rep_Full(3) g(2), of "unat k"]
    have two: "2 \<le> length (nonnil ts)" and ch: "\<And>i. i < 17 \<Longrightarrow> wfc i (ts ! i)" using w(1) by (auto simp: wft_AFull)
    have wc: "wfc (unat k) ?c"
      using adelete_correct [of "ts ! unat k" ks'] so w r len ch [OF len(3)]
      by (auto simp: sub_ok_def wfc_def hexkey_Cons nibble_unat)
    from two obtain i where i: "i < length ts" "i \<noteq> unat k" "ts ! i \<noteq> ANil" unfolding two_nonnil by metis
    then have "i \<in> set (nonnil (ts[unat k := ?c]))" by (simp add: set_nonnil)
    then have nn: "nonnil (ts[unat k := ?c]) \<noteq> []" by auto
    have red: "\<not> d \<Longrightarrow> areduce ts = AFull ts" using two by (auto simp: areduce_def split: list.splits)
    have ch': "wfc j (ts[unat k := ?c] ! j)" if "j < 17" for j
      using ch [OF that] wc len that by (cases "j = unat k") simp_all
    show ?thesis
    proof (cases "d \<and> n' = NilNode")
      case True
      then have "?c = ANil" using g(2) by simp
      then show ?thesis
        using reduce_full_refines [OF upd _ ch' nn, of pre tr'] g True r len rep_Full trie_delete_full [OF r, of ns db fuel f pre tr]
        by (auto simp: Let_def)
    next
      case False
      note eq = trie_delete_full [OF r, of ns db fuel f pre tr]
      show ?thesis
      proof (cases d)
        case True
        then have "?c \<noteq> ANil" using False rep_nil_iff [OF g(2)] by simp
        then show ?thesis using eq g(1) len True False upd r rep_Full(1,2) by (auto simp: Let_def)
      next
        case False
        then have "?c = ts ! unat k" using g(3) by simp
        then have u: "ts[unat k := ?c] = ts" by simp
        have "adelete t ks = (if ?c = ANil then areduce (ts[unat k := ?c]) else AFull (ts[unat k := ?c]))"
          using r len rep_Full(2) by (simp add: Let_def)
        then have "adelete t ks = t" unfolding u using red [OF False] rep_Full(2) by simp
        then show ?thesis using eq g(1) len False rep_Full(1) Suc.prems(1) by auto
      qed
    qed
  qed (auto simp: trie_delete.simps)
qed

subsection \<open>The hasher\<close>

definition hash_ok :: "db \<Rightarrow> node \<Rightarrow> atrie \<Rightarrow> bool" where
  "hash_ok db n t \<longleftrightarrow> (\<exists>r n'. hash_node X n = Some (r, n') \<and> Marshal X r = Some (aref X t)
     \<and> (is_branch t \<longrightarrow> r = HashNode (aref X t)) \<and> rep X db n' t \<and> hashed n' \<and> r \<noteq> NilNode
     \<and> (is_hash_node n' \<longleftrightarrow> is_hash_node n))"

lemma flag_ok_hash:
  "flag_ok X db f t \<Longrightarrow> Hash f = [] \<Longrightarrow> is_branch t \<Longrightarrow> flag_ok X db (hash_flag (aref X t) f) t"
  by (auto simp: flag_ok_def hash_flag_def)

lemma Hash_hash_flag [simp]: "Hash (hash_flag h f) = h"
  by (simp add: hash_flag_def)

lemma hash_ok_cached:
  assumes "rep X db n t" "hashed n" "Cache n = Some (h, d)" "h \<noteq> []"
  shows "hash_ok db n t"
  using assms by (cases n) (auto simp: hash_ok_def flag_ok_def)

lemma hash_ok_short:
  assumes "rep X db (ShortNode k n f) (AShort k t)" "Hash f = []" "t \<noteq> ANil" "hash_ok db n t"
  shows "hash_ok db (ShortNode k n f) (AShort k t)"
proof -
  obtain r n' where h: "hash_node X n = Some (r, n')" "Marshal X r = Some (aref X t)" "rep X db n' t" "hashed n'"
    "r \<noteq> NilNode"
    using assms(4) by (auto simp: hash_ok_def)
  have n: "(case n of FullNode _ _ \<Rightarrow> hash_node X n | ShortNode _ _ _ \<Rightarrow> hash_node X n | _ \<Rightarrow> Some (n, n)) = Some (r, n')"
    using h(1) by (cases n) auto
  have ne: "aref X (AShort k t) \<noteq> []" by (rule aref_nonempty) simp
  have "flag_ok X db (hash_flag (aref X (AShort k t)) f) (AShort k t)"
    using assms by (intro flag_ok_hash) auto
  then show ?thesis
    using n h ne assms(2) by (auto simp: hash_ok_def)
qed

lemma hash_ok_full:
  assumes "rep X db (FullNode ns f) (AFull ts)" "Hash f = []" "wft (AFull ts)"
    "\<And>i. i < 16 \<Longrightarrow> ts ! i \<noteq> ANil \<Longrightarrow> hash_ok db (ns ! i) (ts ! i)"
  shows "hash_ok db (FullNode ns f) (AFull ts)"
proof -
  have rp: "list_all2 (rep X db) ns ts" using assms(1) by simp
  have len: "length ts = 17" "length ns = 17"
    using wft_AFull_child(3) [OF assms(3)] list_all2_lengthD [OF rp] by auto
  define h where "h = (\<lambda>c. if c = NilNode then Some (NilValueNode, NilNode) else hash_node X c)"
  have kid: "\<exists>r n'. h (ns ! i) = Some (r, n') \<and> Marshal X r = Some (aref X (ts ! i)) \<and> r \<noteq> NilNode
      \<and> rep X db n' (ts ! i) \<and> hashed n'" if "i < 16" for i
  proof -
    have "rep X db (ns ! i) (ts ! i)" using rp len that by (simp add: list_all2_conv_all_nth)
    then show ?thesis
      using assms(4) [OF that] by (cases "ts ! i = ANil") (auto simp: h_def NilValueNode_def hash_ok_def dest: rep_nil_iff)
  qed
  then obtain R N where k: "\<And>i. i < 16 \<Longrightarrow> h (ns ! i) = Some (R i, N i) \<and> Marshal X (R i) = Some (aref X (ts ! i))
      \<and> R i \<noteq> NilNode \<and> rep X db (N i) (ts ! i) \<and> hashed (N i)" by metis
  have kids: "map h (take 16 ns) = map (\<lambda>i. Some (R i, N i)) [0..<16]"
    using k len by (intro nth_equalityI) auto
  have last: "rep X db (ns ! 16) (ts ! 16)" "ts ! 16 = ANil \<or> (\<exists>v. ts ! 16 = AVal v)"
    using rp len wft_AFull_child(2) [OF assms(3)] by (auto simp: list_all2_conv_all_nth)
  have d: "drop 16 ns = [ns ! 16]" "drop 16 ts = [ts ! 16]" using len drop_16 by blast+
  have m1: "map (\<lambda>c. if c = NilNode then Some zero_hash else Marshal X c) (map R [0..<16])
      = map Some (map (aref X) (take 16 ts))"
    using k len by (intro nth_equalityI) auto
  have m2: "(if ns ! 16 = NilNode then Some zero_hash else Marshal X (ns ! 16))
      = Some (if ts ! 16 = ANil then zero_hash else aref X (ts ! 16))"
    using last by auto
  have "Marshal X (FullNode (map R [0..<16] @ [ns ! 16]) f) = Some (pbNode X MPTNODE_TYPE_FULL
      (pbFull X (map (aref X) (take 16 ts) @ [if ts ! 16 = ANil then zero_hash else aref X (ts ! 16)])))"
    unfolding Marshal.simps Let_def map_append m1 list.map m2 by (auto simp: comp_def)
  then have marshal: "Marshal X (FullNode (map (fst \<circ> the) (map h (take 16 ns)) @ drop 16 ns) f)
      = Some (pbNode X MPTNODE_TYPE_FULL (pbFull X (map (aref X) (take 16 ts) @
          map (\<lambda>c. if c = ANil then zero_hash else aref X c) (drop 16 ts))))"
    unfolding kids d by (simp add: comp_def del: Marshal.simps)
  have "list_all2 (rep X db) (map N [0..<16] @ [ns ! 16]) (take 16 ts @ [ts ! 16])"
    using k last(1) len by (intro list_all2_appendI) (auto simp: list_all2_conv_all_nth)
  moreover have "take 16 ts @ [ts ! 16] = ts" using append_take_drop_id [of 16 ts] d by simp
  ultimately have rp': "list_all2 (rep X db) (map (snd \<circ> the) (map h (take 16 ns)) @ drop 16 ns) ts"
    unfolding kids d by (simp add: comp_def)
  have hs: "\<forall>n \<in> set (map (snd \<circ> the) (map h (take 16 ns)) @ drop 16 ns). hashed n"
    unfolding kids d using k last by (auto elim: rep.cases)
  have "None \<notin> set (map h (take 16 ns))" unfolding kids by auto
  then have eq: "hash_node X (FullNode ns f) = Some (HashNode (aref X (AFull ts)),
      FullNode (map (snd \<circ> the) (map h (take 16 ns)) @ drop 16 ns) (hash_flag (aref X (AFull ts)) f))"
    using marshal assms(2) by (simp add: h_def [symmetric] Let_def del: Marshal.simps)
  have ne: "aref X (AFull ts) \<noteq> []" by (rule aref_nonempty) simp
  have "flag_ok X db (hash_flag (aref X (AFull ts)) f) (AFull ts)"
    using assms by (intro flag_ok_hash) auto
  then show ?thesis
    unfolding hash_ok_def eq using rp' hs ne by auto
qed

lemma hash_node_refines:
  assumes "rep X db n t" "wft t"
  shows "hash_ok db n t"
  using assms
proof (induction t arbitrary: n rule: wft.induct)
  case (3 k c)
  note rp = \<open>rep X db n (AShort k c)\<close>
  show ?case
  using rp proof (cases rule: rep.cases)
    case (rep_Short n0 f)
    show ?thesis
    proof (cases "Hash f = []")
      case True
      from \<open>wft (AShort k c)\<close> have "c \<noteq> ANil \<and> hash_ok db n0 c"
      proof (cases rule: wft_short_cases)
        case (leaf v)
        then show ?thesis using rep_Short by (auto simp: hash_ok_def)
      next
        case ext
        then have "c \<noteq> ANil" by auto
        then show ?thesis using 3 ext rep_Short by blast
      qed
      then show ?thesis using hash_ok_short rp rep_Short True by blast
    next
      case False
      then show ?thesis using rp rep_Short by (intro hash_ok_cached) auto
    qed
  qed (auto simp: hash_ok_def)
next
  case (4 cs)
  note rp = \<open>rep X db n (AFull cs)\<close>
  show ?case
  using rp proof (cases rule: rep.cases)
    case (rep_Full ns f)
    show ?thesis
    proof (cases "Hash f = []")
      case True
      have len: "length cs = 17" using "4.prems"(2) by (rule wft_AFull_child)
      have "hash_ok db (ns ! i) (cs ! i)" if i: "i < 16" "cs ! i \<noteq> ANil" for i
      proof -
        have "cs ! i \<in> set (butlast cs)"
          using i len by (metis diff_Suc_1 length_butlast nth_butlast nth_mem numeral_eq_Suc pred_numeral_simps(3) eval_nat_numeral(3))
        moreover have "wfc i (cs ! i)" using "4.prems"(2) i len by (simp add: wft_AFull)
        then have "wft (cs ! i)" using i by (simp add: wfc_canon canon_def)
        moreover have "rep X db (ns ! i) (cs ! i)" using rep_Full(2) i len by (simp add: list_all2_conv_all_nth)
        ultimately show ?thesis using "4.IH" i(2) by blast
      qed
      then show ?thesis using hash_ok_full rp rep_Full True "4.prems"(2) by blast
    next
      case False
      then show ?thesis using rp rep_Full by (intro hash_ok_cached) auto
    qed
  qed (auto simp: hash_ok_def)
qed auto

end

end
