(* ===== verification/Trie_Instance.thy ===== *)
theory Trie_Instance
  imports Trie_Node
begin

text \<open>
  A reference instance of the external functions of the trie: a polynomial hash in place of
  Keccak-256 and a self-delimiting encoding in place of protobuf. It shows that the laws of
  \<open>trie_ext\<close> can hold together, and the concrete examples of the development run on it.
\<close>

definition ref_hash :: "bytes \<Rightarrow> bytes" where
  "ref_hash b = 1 # be_bytes 31 (foldl (\<lambda>h x. h * 257 + unat x + 1) 7 b)"

definition ref_BytesToHash :: "bytes \<Rightarrow> bytes" where
  "ref_BytesToHash b = (let c = drop (length b - 32) b in replicate (32 - length c) 0 @ c)"

text \<open>A byte string with its length in unary in front.\<close>

definition ref_enc :: "bytes \<Rightarrow> bytes" where
  "ref_enc v = replicate (length v) 1 @ [0] @ v"

definition ref_dec :: "bytes \<Rightarrow> (bytes \<times> bytes) option" where
  "ref_dec b =
     (let n = length (takeWhile (\<lambda>x. x = 1) b); r = drop n b
      in case r of [] \<Rightarrow> None
         | x # r' \<Rightarrow> if n \<le> length r' then Some (take n r', drop n r') else None)"

fun ref_dec_list :: "nat \<Rightarrow> bytes \<Rightarrow> bytes list option" where
  "ref_dec_list 0 b = (if b = [] then Some [] else None)"
| "ref_dec_list (Suc n) b =
     (if b = [] then Some []
      else case ref_dec b of None \<Rightarrow> None | Some (v, r) \<Rightarrow> map_option ((#) v) (ref_dec_list n r))"

definition ref_pbNode :: "MPTNODE_TYPE \<Rightarrow> bytes \<Rightarrow> bytes" where
  "ref_pbNode t d =
     (case t of MPTNODE_TYPE_FULL \<Rightarrow> [0] | MPTNODE_TYPE_SHORT \<Rightarrow> [1] | MPTNODE_TYPE_VALUE \<Rightarrow> [2]
      | MPTNODE_TYPE_OTHER i \<Rightarrow> (if 0 \<le> i then 3 else 4) # ref_enc (replicate (nat \<bar>i\<bar>) 1)) @ d"

definition ref_unNode :: "bytes \<Rightarrow> (MPTNODE_TYPE \<times> bytes) option" where
  "ref_unNode b =
     (case b of [] \<Rightarrow> None
      | x # d \<Rightarrow>
          if x = 0 then Some (MPTNODE_TYPE_FULL, d)
          else if x = 1 then Some (MPTNODE_TYPE_SHORT, d)
          else if x = 2 then Some (MPTNODE_TYPE_VALUE, d)
          else case ref_dec d of None \<Rightarrow> None
            | Some (u, r) \<Rightarrow>
                Some (MPTNODE_TYPE_OTHER (if x = 3 then int (length u) else - int (length u)), r))"

definition ref_ext :: ext where
  "ref_ext = \<lparr>keccak = ref_hash, BytesToHash = ref_BytesToHash, pbNode = ref_pbNode, unNode = ref_unNode,
     pbFull = (\<lambda>ns. concat (map ref_enc ns)), unFull = (\<lambda>b. ref_dec_list (length b) b),
     pbShort = (\<lambda>k v. ref_enc k @ v), unShort = ref_dec\<rparr>"

lemma takeWhile_ones: "takeWhile (\<lambda>x. x = 1) (replicate n (1 :: byte) @ 0 # r) = replicate n 1"
  by (induction n) auto

lemma ref_dec_enc [simp]: "ref_dec (ref_enc v @ r) = Some (v, r)"
  by (simp add: ref_dec_def ref_enc_def takeWhile_ones)

lemma length_ref_enc [simp]: "length (ref_enc v) = 2 * length v + 1"
  by (simp add: ref_enc_def)

lemma ref_dec_list_concat:
  "length ns \<le> n \<Longrightarrow> ref_dec_list n (concat (map ref_enc ns)) = Some ns"
proof (induction n arbitrary: ns)
  case (Suc n)
  show ?case
  proof (cases ns)
    case (Cons v vs)
    have "ref_enc v @ concat (map ref_enc vs) \<noteq> []" by (simp add: ref_enc_def)
    then show ?thesis using Cons Suc by simp
  qed simp
qed simp

lemma length_concat_enc: "length ns \<le> length (concat (map ref_enc ns))"
  by (induction ns) auto

lemma ref_unNode_pbNode: "ref_unNode (ref_pbNode t d) = Some (t, d)"
  by (cases t) (auto simp: ref_unNode_def ref_pbNode_def)

interpretation ref: trie_ext ref_ext
proof
  show "length (BytesToHash ref_ext b) = 32" for b
    by (simp add: ref_ext_def ref_BytesToHash_def Let_def)
  show "length b = 32 \<Longrightarrow> BytesToHash ref_ext b = b" for b
    by (simp add: ref_ext_def ref_BytesToHash_def)
  show "length (keccak ref_ext b) = 32" for b
    by (simp add: ref_ext_def ref_hash_def)
  show "unNode ref_ext (pbNode ref_ext t d) = Some (t, d)" for t d
    by (simp add: ref_ext_def ref_unNode_pbNode)
  show "unFull ref_ext (pbFull ref_ext ns) = Some ns" for ns
    using ref_dec_list_concat [OF length_concat_enc] by (simp add: ref_ext_def)
  show "unShort ref_ext (pbShort ref_ext k v) = Some (k, v)" for k v
    by (simp add: ref_ext_def)
  show "pbNode ref_ext t d = [] \<Longrightarrow> t = MPTNODE_TYPE_FULL \<and> d = []" for t d
    by (cases t) (simp_all add: ref_ext_def ref_pbNode_def)
  show "pbFull ref_ext ns = [] \<Longrightarrow> ns = []" for ns
    by (cases ns) (simp_all add: ref_ext_def ref_enc_def)
qed

lemma ref_ext_laws: "trie_ext ref_ext"
  by (rule ref.trie_ext_axioms)

text \<open>The laws only ask of the hash that it has 32 bytes.\<close>

lemma ref_ext_hash: "(\<And>b. length (h b) = 32) \<Longrightarrow> trie_ext (ref_ext\<lparr>keccak := h\<rparr>)"
  using ref_ext_laws by (simp add: trie_ext_def)

definition len_hash :: "bytes \<Rightarrow> bytes" where
  "len_hash b = be_bytes 32 (length b)"

lemma len_ext_laws: "trie_ext (ref_ext\<lparr>keccak := len_hash\<rparr>)"
  by (rule ref_ext_hash) (simp add: len_hash_def)

end
