(* ===== verification/Trie_API.thy ===== *)
theory Trie_API
  imports Trie_Ops Trie_Instance
begin

text \<open>
  The exported operations of a trie as a map from byte keys to values: \<open>trie_ok\<close> is the
  invariant of a trie over a database, every operation keeps it, and the map that \<^verbatim>\<open>Get\<close> shows
  changes as \<^verbatim>\<open>Update\<close> says. The invariant holds for the empty trie and for a trie opened on the
  root hash of a stored one.
\<close>

subsection \<open>The invariant\<close>

definition byte_keys :: "atrie \<Rightarrow> bool" where
  "byte_keys a \<longleftrightarrow> (\<forall>k \<in> akeys a. \<exists>b. k = KeybytesToHex b)"

definition trie_inv :: "ext \<Rightarrow> db \<Rightarrow> MerklePatriciaTrie \<Rightarrow> atrie \<Rightarrow> bool" where
  "trie_inv X db t a \<longleftrightarrow> rep X db (root t) a \<and> canon a \<and> byte_keys a"

definition trie_ok :: "ext \<Rightarrow> db \<Rightarrow> MerklePatriciaTrie \<Rightarrow> bool" where
  "trie_ok X db t \<longleftrightarrow> (\<exists>a. trie_inv X db t a)"

text \<open>The fuel that an operation on a key needs.\<close>

definition key_fuel :: "bytes \<Rightarrow> nat" where
  "key_fuel key = 4 * length key + 4"

lemma length_KeybytesToHex [simp]: "length (KeybytesToHex k) = 2 * length k + 1"
  by (simp add: KeybytesToHex_unpack)

lemma fuel_ok_key: "key_fuel key \<le> fuel \<Longrightarrow> fuel_ok fuel n (KeybytesToHex key)"
  by (rule fuel_ok_top) (simp add: key_fuel_def)

lemma sub_ok_key: "canon a \<Longrightarrow> sub_ok a (KeybytesToHex key)"
  by (simp add: sub_ok_def)

lemma trie_inv_unique:
  assumes "canon a" "canon b" "byte_keys a" "byte_keys b"
    and "\<And>key. alookup a (KeybytesToHex key) = alookup b (KeybytesToHex key)"
  shows "a = b"
proof (rule canon_unique [OF assms(1,2)])
  fix k :: bytes
  assume "hexkey k"
  show "alookup a k = alookup b k"
  proof (cases "\<exists>key. k = KeybytesToHex key")
    case True
    then show ?thesis using assms(5) by auto
  next
    case False
    then have "k \<notin> akeys a" "k \<notin> akeys b" using assms(3,4) by (auto simp: byte_keys_def)
    then show ?thesis using \<open>hexkey k\<close> by (simp add: akeys_def)
  qed
qed

text \<open>The pure counterpart of \<^verbatim>\<open>update\<close>: the empty value deletes.\<close>

definition aupdate :: "atrie \<Rightarrow> bytes \<Rightarrow> bytes \<Rightarrow> atrie" where
  "aupdate a key v =
     (if v = [] then adelete a (KeybytesToHex key) else ainsert a (KeybytesToHex key) v)"

lemma canon_aupdate: "canon a \<Longrightarrow> canon (aupdate a key v)"
  using adelete_correct [of a "KeybytesToHex key"] wft_ainsert [of a "KeybytesToHex key" v]
  by (auto simp: aupdate_def)

lemma alookup_aupdate:
  assumes "canon a" "hexkey k"
  shows "alookup (aupdate a key v) k = (if k = KeybytesToHex key then v else alookup a k)"
  using assms adelete_correct [of a "KeybytesToHex key"] alookup_ainsert [of a "KeybytesToHex key" k v]
  by (auto simp: aupdate_def)

lemma byte_keys_aupdate: "canon a \<Longrightarrow> byte_keys a \<Longrightarrow> byte_keys (aupdate a key v)"
  by (auto simp: byte_keys_def akeys_def alookup_aupdate split: if_splits)

lemmas aupdate_facts = canon_aupdate alookup_aupdate byte_keys_aupdate

context trie_ext
begin

subsection \<open>The operations keep the invariant\<close>

lemma trie_Get_spec:
  assumes "trie_inv X db t a" "\<not> committed t" "key_fuel (hashKey X t key) \<le> fuel"
  shows "\<exists>tr. trie_Get X db fuel t key =
    (Inr (alookup a (KeybytesToHex (hashKey X t key))), t\<lparr>tracer := tr\<rparr>)"
proof -
  let ?k = "KeybytesToHex (hashKey X t key)"
  have "\<exists>n' b tr'. trie_get X db fuel (root t) ?k 0 (tracer t) = (Inr (alookup a (drop 0 ?k), n', b), tr')
    \<and> rep X db n' a \<and> (hashed (root t) \<longrightarrow> hashed n')"
    using assms by (intro trie_get_refines) (auto simp: trie_inv_def sub_ok_key fuel_ok_key)
  then show ?thesis using assms(2) by (auto simp: trie_Get_def)
qed

lemma trie_Update_spec:
  assumes "trie_inv X db t a" "\<not> committed t" "key_fuel (hashKey X t key) \<le> fuel"
  shows "\<exists>n tr. trie_Update X db fuel t key v = (None, t\<lparr>root := n, tracer := tr\<rparr>)
    \<and> trie_inv X db (t\<lparr>root := n, tracer := tr\<rparr>) (aupdate a (hashKey X t key) v)"
proof -
  let ?k = "KeybytesToHex (hashKey X t key)"
  have r: "rep X db (root t) a" "canon a" "byte_keys a" using assms(1) by (auto simp: trie_inv_def)
  have f: "fuel_ok fuel (root t) ?k" using assms(3) by (rule fuel_ok_key)
  obtain d n tr where "(if length v \<noteq> 0 then trie_insert X db fuel (root t) [] ?k (ValueNode v) (tracer t)
        else trie_delete X db fuel (root t) [] ?k (tracer t)) = (Inr (d, n), tr)"
      "rep X db n (aupdate a (hashKey X t key) v)"
    using trie_insert_refines [OF r(1) sub_ok_key [OF r(2)] f, of "[]" v "tracer t"]
      trie_delete_refines [OF r(1) sub_ok_key [OF r(2)] f, of "[]" "tracer t"]
    by (cases "v = []") (auto simp: aupdate_def)
  then show ?thesis
    using assms(2) r
    by (intro exI [of _ n] exI [of _ tr]) (simp add: trie_Update_def trie_update_def Let_def trie_inv_def aupdate_facts)
qed

lemma trie_Hash_spec:
  assumes "trie_inv X db t a"
  shows "\<exists>n. trie_Hash X t = Some (if a = ANil then EmptyRootHash else aref X a, t\<lparr>root := n\<rparr>)
    \<and> rep X db n a \<and> hashed n \<and> (is_hash_node n \<longleftrightarrow> is_hash_node (root t)) \<and> (n = NilNode \<longleftrightarrow> root t = NilNode)"
proof (cases "a = ANil")
  case True
  then have "root t = NilNode" using assms by (simp add: trie_inv_def)
  then show ?thesis
    using True BytesToHash_id by (auto simp: trie_Hash_def hashRoot_def EmptyRootHash_def)
next
  case False
  then have w: "wft a" and r: "rep X db (root t) a" using assms by (auto simp: trie_inv_def canon_def)
  then have nn: "root t \<noteq> NilNode" using False rep_nil_iff by blast
  have b: "is_branch a" using w by (rule wft_is_branch)
  then have "BytesToHash X (aref X a) = aref X a" using length_aref BytesToHash_id by blast
  moreover obtain n where n: "hash_node X (root t) = Some (HashNode (aref X a), n)" "rep X db n a" "hashed n"
      "is_hash_node n \<longleftrightarrow> is_hash_node (root t)"
    using hash_node_refines [OF r w] b by (auto simp: hash_ok_def)
  moreover have "n \<noteq> NilNode" using n(2) False rep_nil_iff by blast
  ultimately show ?thesis using nn False by (auto simp: trie_Hash_def hashRoot_def)
qed

lemma trie_New_stored:
  assumes "wft a" "byte_keys a" "stored X db a" "aref X a \<noteq> zero_hash" "aref X a \<noteq> EmptyRootHash"
  shows "\<exists>t. trie_New X db (aref X a) ih = Inr t \<and> trie_inv X db t a \<and> \<not> committed t \<and> isHash t = ih"
  using assms resolve_stored [OF assms(1,3), of "[]" newTracer] rep_bnode [OF assms(1,3)]
  by (simp add: trie_New_def trie_inv_def)

end

subsection \<open>Example tries\<close>

lemma trie_inv_empty: "trie_inv X db \<lparr>root = NilNode, committed = False, tracer = tr, isHash = ih\<rparr> ANil"
  by (simp add: trie_inv_def byte_keys_def)

definition empty_trie :: "bool \<Rightarrow> MerklePatriciaTrie" where
  "empty_trie ih = \<lparr>root = NilNode, committed = False, tracer = newTracer, isHash = ih\<rparr>"

lemma trie_ok_empty [simp]: "trie_ok X db (empty_trie ih)"
  unfolding trie_ok_def empty_trie_def using trie_inv_empty by blast

lemma empty_trie_simps [simp]:
  "\<not> committed (empty_trie ih)" "isHash (empty_trie ih) = ih" "root (empty_trie ih) = NilNode"
  by (simp_all add: empty_trie_def)

lemma hashKey_plain [simp]: "\<not> isHash t \<Longrightarrow> hashKey X t key = key"
  by (simp add: hashKey_def)

definition leaf_trie :: MerklePatriciaTrie where
  "leaf_trie = (empty_trie False)\<lparr>root := ShortNode [0, 1, 16] (ValueNode [7]) NewFlag\<rparr>"

definition leaf_atrie :: atrie where
  "leaf_atrie = AShort [0, 1, 16] (AVal [7])"

lemma leaf_inv: "trie_inv X db leaf_trie leaf_atrie"
proof -
  have h: "hexkey [0, 1, 16]" by (simp add: hexkey_Cons is_nibble_def)
  then have "byte_keys leaf_atrie"
    by (auto simp: leaf_atrie_def byte_keys_def akeys_leaf KeybytesToHex_def intro!: exI [of _ "[1]"])
  then show ?thesis
    using wft_leaf [OF h, of "[7]"] by (simp add: trie_inv_def leaf_trie_def leaf_atrie_def)
qed

lemma ref_keccak_neq: "keccak ref_ext b \<noteq> zero_hash" "keccak ref_ext b \<noteq> EmptyRootHash"
proof -
  have "hd (keccak ref_ext b) = 1" by (simp add: ref_ext_def ref_hash_def)
  moreover have "hd zero_hash = 0" "hd EmptyRootHash = 0x56" by (simp_all add: zero_hash_def EmptyRootHash_def hd_replicate)
  ultimately show "keccak ref_ext b \<noteq> zero_hash" "keccak ref_ext b \<noteq> EmptyRootHash" by auto
qed

end
