(* ===== verification/Trie_Commit.thy ===== *)
theory Trie_Commit
  imports Trie_API
begin

text \<open>
  The committer (\<^verbatim>\<open>pkg/trie/committer.go\<close>) and \<^verbatim>\<open>Commit\<close>. A commit hands its caller the root hash
  and the blobs of the new nodes; once the caller has written them, a trie opened on the root
  hash shows the same map.
\<close>

subsection \<open>The committer\<close>

text \<open>\<^verbatim>\<open>store\<close> is only called on collapsed short and full nodes. \<open>None\<close> is a nil dereference in
  \<^verbatim>\<open>NodeToBytes\<close>.\<close>

definition commit_store ::
  "ext \<Rightarrow> bool \<Rightarrow> Tracer \<Rightarrow> bytes \<Rightarrow> node \<Rightarrow> NodeSet \<Rightarrow> (node \<times> NodeSet) option" where
  "commit_store X collectLeaf tr path n s =
     (case Cache n of
        None \<Rightarrow> None
      | Some (hash, _) \<Rightarrow>
          if hash = []
          then Some (n, if accessList tr path \<noteq> None then AddNode path NewDeleted s else s)
          else (case NodeToBytes X n of
                  None \<Rightarrow> None
                | Some blob \<Rightarrow>
                    let nhash = BytesToHash X hash;
                        s1 = AddNode path (NewWrapper nhash blob) s;
                        s2 = (if collectLeaf
                              then (case n of ShortNode _ (ValueNode val) _ \<Rightarrow> AddLeaf nhash val s1 | _ \<Rightarrow> s1)
                              else s1)
                    in Some (HashNode hash, s2)))"

fun commit_node ::
  "ext \<Rightarrow> bool \<Rightarrow> Tracer \<Rightarrow> bytes \<Rightarrow> node \<Rightarrow> NodeSet \<Rightarrow> (node \<times> NodeSet) option"
and commit_children ::
  "ext \<Rightarrow> bool \<Rightarrow> Tracer \<Rightarrow> bytes \<Rightarrow> nat \<Rightarrow> node list \<Rightarrow> NodeSet \<Rightarrow> (node list \<times> NodeSet) option" where
  "commit_node X cl tr path (ShortNode k v f) s =
     (if Hash f \<noteq> [] \<and> \<not> Dirty f then Some (HashNode (Hash f), s)
      else (case (case v of FullNode _ _ \<Rightarrow> commit_node X cl tr (path @ k) v s | _ \<Rightarrow> Some (v, s)) of
              None \<Rightarrow> None
            | Some (v', s') \<Rightarrow> commit_store X cl tr path (ShortNode (the (HexToCompact k)) v' f) s'))"
| "commit_node X cl tr path (FullNode cs f) s =
     (if Hash f \<noteq> [] \<and> \<not> Dirty f then Some (HashNode (Hash f), s)
      else (case commit_children X cl tr path 0 cs s of
              None \<Rightarrow> None
            | Some (hashedKids, s') \<Rightarrow> commit_store X cl tr path (FullNode hashedKids f) s'))"
| "commit_node X cl tr path (HashNode h) s = Some (HashNode h, s)"
| "commit_node X cl tr path (ValueNode v) s = None"
| "commit_node X cl tr path NilNode s = None"
| "commit_children X cl tr path i [] s = Some ([], s)"
| "commit_children X cl tr path i (c # cs) s =
     (case (if i < 16
            then (case c of
                    NilNode \<Rightarrow> Some (c, s)
                  | HashNode h \<Rightarrow> Some (c, s)
                  | _ \<Rightarrow> commit_node X cl tr (path @ [word_of_nat i]) c s)
            else Some (c, s)) of
        None \<Rightarrow> None
      | Some (c', s') \<Rightarrow>
          (case commit_children X cl tr path (Suc i) cs s' of
             None \<Rightarrow> None
           | Some (kids, s'') \<Rightarrow> Some (c' # kids, s'')))"

subsection \<open>Commit\<close>

text \<open>The result is the root hash, the node set (\<open>None\<close> is nil) and the old keys; the receiver keeps
  its root and gets a reset tracer. \<open>None\<close> is a panic.\<close>

definition trie_Commit ::
  "ext \<Rightarrow> bool \<Rightarrow> MerklePatriciaTrie \<Rightarrow>
   ((bytes \<times> NodeSet option \<times> bytes list) \<times> MerklePatriciaTrie) option" where
  "trie_Commit X collectLeaf t =
     (let t' = t\<lparr>tracer := Tracer_reset (tracer t)\<rparr>;
          deleted = fold (\<lambda>path s. AddNode path NewDeleted s) (deletedNodes (tracer t)) NewNodeSet
      in if root t = NilNode
         then if length (deletedNodes (tracer t)) = 0
              then Some ((EmptyRootHash, None, oldKeys (tracer t)), t')
              else Some ((EmptyRootHash, Some deleted, oldKeys (tracer t)), t')
         else
           (case trie_Hash X (trie_Copy t) of
              None \<Rightarrow> None
            | Some (rootHash, commitTrie) \<Rightarrow>
                (case Cache (root commitTrie) of
                   None \<Rightarrow> None
                 | Some (_, dirty) \<Rightarrow>
                     if \<not> dirty then Some ((rootHash, None, oldKeys (tracer t)), t')
                     else
                       (case commit_node X collectLeaf (tracer t) [] (root commitTrie) deleted of
                          Some (HashNode _, nodes) \<Rightarrow> Some ((rootHash, Some nodes, oldKeys (tracer t)), t')
                        | _ \<Rightarrow> None))))"

text \<open>What the callers of \<^verbatim>\<open>Commit\<close> write: the nodes with a nonzero hash, in some order
  (\<^verbatim>\<open>pkg/receipt/receipts.go\<close>, \<^verbatim>\<open>commitInternal\<close>).\<close>

definition node_batch :: "NodeSet \<Rightarrow> (bytes \<times> bytes) list" where
  "node_batch s = map (\<lambda>(path, w). (NHash w, Blob w)) (filter (\<lambda>(path, w). NHash w \<noteq> zero_hash) (Nodes s))"

definition put_all :: "(bytes \<times> bytes) list \<Rightarrow> db \<Rightarrow> db" where
  "put_all batch db = fold (\<lambda>(k, v) d. d(k \<mapsto> v)) batch db"

text \<open>\<^verbatim>\<open>forGatherChildren\<close> and \<^verbatim>\<open>mptResolver.ForEach\<close>: the hashes the callback is given.\<close>

fun forGatherChildren :: "ext \<Rightarrow> node \<Rightarrow> bytes list" where
  "forGatherChildren X (ShortNode k v f) = forGatherChildren X v"
| "forGatherChildren X (FullNode cs f) = concat (map (\<lambda>c. forGatherChildren X c) (take 16 cs))"
| "forGatherChildren X (HashNode h) = [BytesToHash X h]"
| "forGatherChildren X _ = []"

definition mptResolver_ForEach :: "ext \<Rightarrow> bytes \<Rightarrow> bytes list option" where
  "mptResolver_ForEach X n = map_option (forGatherChildren X) (DecodeNode X [] n)"

subsection \<open>The subtries of a trie\<close>

lemma size_mem_atrie [termination_simp]:
  "c \<in> set cs \<Longrightarrow> size c < Suc (size_list size (cs :: atrie list))"
  using size_list_estimation' [of c cs "size c" size] by simp

fun subs :: "atrie \<Rightarrow> atrie set" where
  "subs (AShort k c) = insert (AShort k c) (subs c)"
| "subs (AFull cs) = insert (AFull cs) (\<Union>c \<in> set cs. subs c)"
| "subs _ = {}"

text \<open>What a hash must not do on the subtries of one trie: send two of them with different blobs to
  the same reference, or give the zero hash or the hash that stands for the empty trie.\<close>

definition hash_good :: "ext \<Rightarrow> atrie \<Rightarrow> bool" where
  "hash_good X a \<longleftrightarrow>
     (\<forall>u \<in> subs a. \<forall>w \<in> subs a. aref X u = aref X w \<longrightarrow> cblob X u = cblob X w) \<and>
     (\<forall>u \<in> subs a. aref X u \<noteq> zero_hash \<and> aref X u \<noteq> EmptyRootHash)"

text \<open>No value in the last child of a full node: no key is a proper prefix of another.\<close>

definition prefix_free :: "atrie \<Rightarrow> bool" where
  "prefix_free a \<longleftrightarrow> (\<forall>cs. AFull cs \<in> subs a \<longrightarrow> (\<forall>c \<in> set (drop 16 cs). c = ANil))"

lemma stored_iff_subs:
  "(\<forall>u \<in> subs a. db (aref X u) = Some (cblob X u)) \<and> (\<forall>u \<in> subs a. aref X u \<noteq> zero_hash) \<and>
   (\<forall>cs. AFull cs \<in> subs a \<longrightarrow> (\<forall>c \<in> set (drop 16 cs). c = ANil) \<and> (\<forall>c \<in> set cs. is_branch c \<or> c = ANil)) \<Longrightarrow>
   stored X db a"
proof (induction a)
  case (AFull cs)
  have mem: "c \<in> set (take 16 cs) \<Longrightarrow> c \<in> set cs" for c by (rule in_set_takeD)
  have "c \<in> subs (AFull cs)" if "c \<in> set cs" "c \<noteq> ANil" for c
  proof -
    have "is_branch c" using AFull.prems that by auto
    then have "c \<in> subs c" by (cases c) auto
    then show ?thesis using that by auto
  qed
  then have nz: "aref X c \<noteq> zero_hash" if "c \<in> set cs" "c \<noteq> ANil" for c using AFull.prems that by blast
  have "stored X db c" if "c \<in> set cs" for c
  proof (rule AFull.IH [OF that])
    have "subs c \<subseteq> subs (AFull cs)" using that by auto
    with AFull.prems show "(\<forall>u \<in> subs c. db (aref X u) = Some (cblob X u)) \<and> (\<forall>u \<in> subs c. aref X u \<noteq> zero_hash) \<and>
      (\<forall>cs. AFull cs \<in> subs c \<longrightarrow> (\<forall>c \<in> set (drop 16 cs). c = ANil) \<and> (\<forall>c \<in> set cs. is_branch c \<or> c = ANil))"
      by blast
  qed
  then show ?case using AFull.prems nz mem by auto
qed auto

lemma stored_subs: "stored X db a \<Longrightarrow> u \<in> subs a \<Longrightarrow> db (aref X u) = Some (cblob X u)"
proof (induction a)
  case (AFull cs)
  show ?case
  proof (cases "u = AFull cs")
    case False
    then obtain c where c: "c \<in> set cs" "u \<in> subs c" using AFull.prems by auto
    then have "c \<noteq> ANil" by auto
    then have "c \<in> set (take 16 cs)"
      using c AFull.prems(1) by (metis UnE append_take_drop_id set_append stored.simps(4))
    then show ?thesis using AFull c by auto
  qed (use AFull in auto)
qed auto

lemma wft_full_kids:
  assumes "wft (AFull cs)" "c \<in> set cs"
  shows "c = ANil \<or> wft c \<or> c \<in> set (drop 16 cs) \<and> (\<exists>v. c = AVal v)"
proof -
  have len: "length cs = 17" using assms(1) by (rule wft_AFull_child)
  obtain i where i: "i < 17" "c = cs ! i" using assms(2) len by (metis in_set_conv_nth)
  then have "wfc i c" using assms(1) by (simp add: wft_AFull)
  then show ?thesis
    using i drop_16 [OF len] by (cases "i = 16") (auto simp: wfc_16 wfc_canon canon_def)
qed

lemma wft_subs: "canon a \<Longrightarrow> u \<in> subs a \<Longrightarrow> wft u"
proof (induction a)
  case (AShort k c)
  then have "wft (AShort k c)" by (simp add: canon_def)
  then show ?case using AShort by (cases rule: wft_short_cases) auto
next
  case (AFull cs)
  then have w: "wft (AFull cs)" by (simp add: canon_def)
  show ?case
  proof (cases "u = AFull cs")
    case False
    then obtain c where c: "c \<in> set cs" "u \<in> subs c" using AFull.prems by auto
    then have "wft c" using wft_full_kids [OF w c(1)] by auto
    then show ?thesis using AFull.IH c by simp
  qed (use w in simp)
qed auto

subsection \<open>What a commit collects\<close>

text \<open>The node set only gains, at paths below \<open>path\<close>, wrappers of nodes of \<open>a\<close>.\<close>

definition grows :: "ext \<Rightarrow> bytes \<Rightarrow> atrie set \<Rightarrow> NodeSet \<Rightarrow> NodeSet \<Rightarrow> bool" where
  "grows X path U s s' \<longleftrightarrow> (\<forall>p. map_of (Nodes s') p = map_of (Nodes s) p \<or>
     (\<exists>q u. p = hex_encode (path @ q) \<and> u \<in> U \<and> map_of (Nodes s') p = Some (NewWrapper (aref X u) (cblob X u))))"

text \<open>Every node of \<open>a\<close> is in the database or in the node set below \<open>path\<close>.\<close>

definition covered :: "ext \<Rightarrow> db \<Rightarrow> bytes \<Rightarrow> atrie set \<Rightarrow> NodeSet \<Rightarrow> bool" where
  "covered X db path U s \<longleftrightarrow> (\<forall>u \<in> U. db (aref X u) = Some (cblob X u) \<or>
     (\<exists>q. map_of (Nodes s) (hex_encode (path @ q)) = Some (NewWrapper (aref X u) (cblob X u))))"

lemma map_of_AddNode: "map_of (Nodes (AddNode path n s)) = (map_of (Nodes s))(hex_encode path \<mapsto> n)"
  by (simp add: AddNode_def Let_def update_conv')

lemma Nodes_AddLeaf [simp]: "Nodes (AddLeaf h v s) = Nodes s"
  by (simp add: AddLeaf_def)

lemma grows_refl [simp]: "grows X path U s s"
  by (simp add: grows_def)

lemma grows_trans: "grows X path U s s1 \<Longrightarrow> grows X path U s1 s2 \<Longrightarrow> grows X path U s s2"
  unfolding grows_def by metis

lemma grows_mono: "grows X (path @ p) U s s' \<Longrightarrow> U \<subseteq> V \<Longrightarrow> grows X path V s s'"
  unfolding grows_def by (metis append.assoc subsetD)

lemma grows_weaken: "grows X path U s s' \<Longrightarrow> U \<subseteq> V \<Longrightarrow> grows X path V s s'"
  unfolding grows_def by blast

lemma covered_mono: "covered X db (path @ p) U s \<Longrightarrow> covered X db path U s"
  unfolding covered_def by (metis append.assoc)

text \<open>Growth elsewhere, or of other nodes at the same path, keeps what is covered.\<close>

definition grows_children :: "ext \<Rightarrow> bytes \<Rightarrow> byte set \<Rightarrow> atrie set \<Rightarrow> NodeSet \<Rightarrow> NodeSet \<Rightarrow> bool" where
  "grows_children X path J U s s' \<longleftrightarrow> (\<forall>p. map_of (Nodes s') p = map_of (Nodes s) p \<or>
     (\<exists>j \<in> J. \<exists>q u. p = hex_encode (path @ j # q) \<and> u \<in> U \<and>
        map_of (Nodes s') p = Some (NewWrapper (aref X u) (cblob X u))))"

lemma grows_children_refl [simp]: "grows_children X path J U s s"
  by (simp add: grows_children_def)

lemma grows_children_trans:
  "grows_children X path J U s s1 \<Longrightarrow> grows_children X path K V s1 s2 \<Longrightarrow>
   grows_children X path (J \<union> K) (U \<union> V) s s2"
  unfolding grows_children_def by (metis UnI1 UnI2)

lemma grows_grows_children: "grows X (path @ [j]) U s s' \<Longrightarrow> grows_children X path {j} U s s'"
  unfolding grows_def grows_children_def by simp

lemma grows_children_grows: "grows_children X path J U s s' \<Longrightarrow> grows X path U s s'"
  unfolding grows_def grows_children_def by metis

lemma covered_grows_disjoint:
  assumes "covered X db (path @ [i]) U s" "grows_children X path J V s s'" "i \<notin> J"
  shows "covered X db (path @ [i]) U s'"
proof -
  have "map_of (Nodes s') (hex_encode ((path @ [i]) @ q)) = map_of (Nodes s) (hex_encode ((path @ [i]) @ q))" for q
    using assms(2) [unfolded grows_children_def, rule_format, of "hex_encode ((path @ [i]) @ q)"] assms(3) by auto
  then show ?thesis using assms(1) unfolding covered_def by simp
qed

lemma covered_AddNode_parent:
  assumes "covered X db (path @ p) U s" "p \<noteq> []"
  shows "covered X db (path @ p) U (AddNode path n s)"
proof -
  have "hex_encode ((path @ p) @ q) \<noteq> hex_encode path" for q
    using assms(2) by simp
  then show ?thesis using assms(1) unfolding covered_def map_of_AddNode by (metis fun_upd_other)
qed

lemma covered_Nodes: "Nodes s = Nodes s' \<Longrightarrow> covered X db path U s = covered X db path U s'"
  by (simp add: covered_def)

lemma grows_Nodes: "Nodes s1 = Nodes s2 \<Longrightarrow> grows X path U s s1 = grows X path U s s2"
  by (simp add: grows_def)

lemma covered_un: "covered X db path (U \<union> V) s \<longleftrightarrow> covered X db path U s \<and> covered X db path V s"
  by (auto simp: covered_def)

context trie_ext
begin

lemma is_branch_intros: "is_branch (AShort k c)" "is_branch (AFull cs)"
  by simp_all

lemma commit_store_spec:
  assumes "Cache n = Some (aref X u, d)" "is_branch u" "Marshal X n = Some (cblob X u)"
  shows "\<exists>s'. commit_store X cl tr path n s = Some (HashNode (aref X u), s')
    \<and> Nodes s' = Nodes (AddNode path (NewWrapper (aref X u) (cblob X u)) s)"
proof -
  have "BytesToHash X (aref X u) = aref X u" using assms(2) length_aref BytesToHash_id by blast
  then show ?thesis
    using assms aref_nonempty [OF assms(2)]
    by (auto simp: commit_store_def NodeToBytes_def Let_def split: node.splits)
qed

lemma grows_AddNode: "u \<in> U \<Longrightarrow> grows X path U s (AddNode path (NewWrapper (aref X u) (cblob X u)) s)"
  unfolding grows_def map_of_AddNode by (metis append_Nil2 fun_upd_other fun_upd_same)

lemma covered_AddNode_self: "covered X db path {u} (AddNode path (NewWrapper (aref X u) (cblob X u)) s)"
  unfolding covered_def map_of_AddNode by (metis append_Nil2 fun_upd_same singletonD)

lemma covered_stored: "stored X db a \<Longrightarrow> covered X db path (subs a) s"
  by (simp add: covered_def stored_subs)

text \<open>The contract of the committer on the node \<open>n\<close> that represents \<open>a\<close>.\<close>

definition commit_ok :: "db \<Rightarrow> bool \<Rightarrow> Tracer \<Rightarrow> node \<Rightarrow> atrie \<Rightarrow> bool" where
  "commit_ok db cl tr n a \<longleftrightarrow> (\<forall>path s. \<exists>s'. commit_node X cl tr path n s = Some (HashNode (aref X a), s')
     \<and> grows X path (subs a) s s' \<and> covered X db path (subs a) s')"

lemma commit_ok_hash: "rep X db (HashNode h) a \<Longrightarrow> commit_ok db cl tr (HashNode h) a"
  by (auto simp: commit_ok_def covered_stored)

lemma commit_ok_short:
  assumes "rep X db (ShortNode k n f) (AShort k a)" "hashed (ShortNode k n f)" "wft (AShort k a)"
    "is_full a \<Longrightarrow> commit_ok db cl tr n a"
  shows "commit_ok db cl tr (ShortNode k n f) (AShort k a)"
  unfolding commit_ok_def
proof (intro allI)
  fix path s
  have f: "Hash f = aref X (AShort k a)" "Hash f \<noteq> []" "\<not> Dirty f \<longrightarrow> stored X db (AShort k a)" "rep X db n a" "k \<noteq> []"
    using assms by (auto simp: flag_ok_def elim: wft_short_cases)
  show "\<exists>s'. commit_node X cl tr path (ShortNode k n f) s = Some (HashNode (aref X (AShort k a)), s')
     \<and> grows X path (subs (AShort k a)) s s' \<and> covered X db path (subs (AShort k a)) s'"
  proof (cases "Dirty f")
    case False
    then have "covered X db path (subs (AShort k a)) s" using f(3) covered_stored by blast
    then show ?thesis using False f by auto
  next
    case True
    obtain v' s1 where v: "(case n of FullNode _ _ \<Rightarrow> commit_node X cl tr (path @ k) n s | _ \<Rightarrow> Some (n, s)) = Some (v', s1)"
      "Marshal X v' = Some (aref X a)" "grows X (path @ k) (subs a) s s1" "covered X db (path @ k) (subs a) s1"
      using assms(3)
    proof (cases rule: wft_short_cases)
      case (leaf w)
      then show ?thesis using that [of n s] f(4) by (auto simp: covered_def)
    next
      case ext
      then show ?thesis
      proof (cases n)
        case (FullNode cs g)
        obtain s1 where "commit_node X cl tr (path @ k) n s = Some (HashNode (aref X a), s1)"
          "grows X (path @ k) (subs a) s s1" "covered X db (path @ k) (subs a) s1"
          using assms(4) [OF ext(3)] unfolding commit_ok_def by blast
        then show ?thesis using that [of "HashNode (aref X a)" s1] FullNode by simp
      next
        case (HashNode h)
        then show ?thesis using that [of n s] f(4) by (auto simp: covered_stored)
      qed (use f(4) ext in auto)
    qed
    have c: "Cache (ShortNode (the (HexToCompact k)) v' f) = Some (aref X (AShort k a), Dirty f)"
      using f(1) by (simp del: aref.simps)
    have m: "Marshal X (ShortNode (the (HexToCompact k)) v' f) = Some (cblob X (AShort k a))"
      using v(2) by simp
    obtain s' where s': "commit_store X cl tr path (ShortNode (the (HexToCompact k)) v' f) s1 =
        Some (HashNode (aref X (AShort k a)), s')"
      "Nodes s' = Nodes (AddNode path (NewWrapper (aref X (AShort k a)) (cblob X (AShort k a))) s1)"
      using commit_store_spec [OF c is_branch_intros(1) m] by blast
    have "grows X path (subs (AShort k a)) s s'"
      unfolding grows_Nodes [OF s'(2)]
      by (rule grows_trans [OF grows_mono [OF v(3)] grows_AddNode]) auto
    moreover have "covered X db path (subs a \<union> {AShort k a}) s'"
      unfolding covered_un covered_Nodes [OF s'(2)]
      using covered_AddNode_self covered_mono [OF covered_AddNode_parent [OF v(4) f(5)]] by blast
    moreover have "commit_node X cl tr path (ShortNode k n f) s = Some (HashNode (aref X (AShort k a)), s')"
      using v(1) s'(1) True by (simp del: aref.simps)
    ultimately show ?thesis by (auto simp del: aref.simps)
  qed
qed

lemma word_of_nat_eq_17: "i < 17 \<Longrightarrow> j < 17 \<Longrightarrow> (word_of_nat i :: byte) = word_of_nat j \<longleftrightarrow> i = j"
  by (metis unat_of_nat_17)

lemma commit_child_spec:
  assumes "rep X db n a" "i < 16 \<Longrightarrow> a \<noteq> ANil \<Longrightarrow> commit_ok db cl tr n a" "i \<ge> 16 \<Longrightarrow> \<not> is_branch a"
  obtains c s' where
    "(if i < 16 then (case n of NilNode \<Rightarrow> Some (n, s) | HashNode h \<Rightarrow> Some (n, s)
                      | _ \<Rightarrow> commit_node X cl tr (path @ [word_of_nat i]) n s) else Some (n, s)) = Some (c, s')"
    "(if c = NilNode then Some zero_hash else Marshal X c) = Some (if a = ANil then zero_hash else aref X a)"
    "grows_children X path {word_of_nat i} (subs a) s s'" "covered X db (path @ [word_of_nat i]) (subs a) s'"
proof (cases "i < 16 \<and> a \<noteq> ANil")
  case True
  obtain s' where s': "commit_node X cl tr (path @ [word_of_nat i]) n s = Some (HashNode (aref X a), s')"
    "grows X (path @ [word_of_nat i]) (subs a) s s'" "covered X db (path @ [word_of_nat i]) (subs a) s'"
    using assms(2) True unfolding commit_ok_def by blast
  show ?thesis
    using that [of "HashNode (aref X a)" s'] s' True assms(1) grows_grows_children [OF s'(2)]
    by (cases n) auto
next
  case False
  then have "\<not> is_branch a" using assms(3) by (cases a) auto
  then show ?thesis
    using that [of n s] assms(1) False by (cases a) (auto simp: covered_def)
qed

lemma commit_children_spec:
  assumes "list_all2 (rep X db) ns ts" "i + length ts = 17"
    "\<And>j. j < length ts \<Longrightarrow> i + j < 16 \<Longrightarrow> ts ! j \<noteq> ANil \<Longrightarrow> commit_ok db cl tr (ns ! j) (ts ! j)"
    "\<And>j. j < length ts \<Longrightarrow> i + j \<ge> 16 \<Longrightarrow> \<not> is_branch (ts ! j)"
  shows "\<exists>kids s'. commit_children X cl tr path i ns s = Some (kids, s')
    \<and> map (\<lambda>c. if c = NilNode then Some zero_hash else Marshal X c) kids
        = map (\<lambda>t. Some (if t = ANil then zero_hash else aref X t)) ts
    \<and> grows_children X path (word_of_nat ` {i..<17}) (\<Union>t \<in> set ts. subs t) s s'
    \<and> (\<forall>j < length ts. covered X db (path @ [word_of_nat (i + j)]) (subs (ts ! j)) s')"
  using assms
proof (induction ns ts arbitrary: i s rule: list_all2_induct)
  case Nil
  then show ?case by (simp add: covered_def)
next
  case (Cons n ns a ts)
  obtain c s1 where c: "(if i < 16 then (case n of NilNode \<Rightarrow> Some (n, s) | HashNode h \<Rightarrow> Some (n, s)
                      | _ \<Rightarrow> commit_node X cl tr (path @ [word_of_nat i]) n s) else Some (n, s)) = Some (c, s1)"
    "(if c = NilNode then Some zero_hash else Marshal X c) = Some (if a = ANil then zero_hash else aref X a)"
    "grows_children X path {word_of_nat i} (subs a) s s1" "covered X db (path @ [word_of_nat i]) (subs a) s1"
    using commit_child_spec [OF Cons.hyps(1), of i cl tr s path] Cons.prems(2) [of 0] Cons.prems(3) [of 0] by auto
  have IH: "\<exists>kids s'. commit_children X cl tr path (Suc i) ns s1 = Some (kids, s')
    \<and> map (\<lambda>c. if c = NilNode then Some zero_hash else Marshal X c) kids
        = map (\<lambda>t. Some (if t = ANil then zero_hash else aref X t)) ts
    \<and> grows_children X path (word_of_nat ` {Suc i..<17}) (\<Union>t \<in> set ts. subs t) s1 s'
    \<and> (\<forall>j < length ts. covered X db (path @ [word_of_nat (Suc i + j)]) (subs (ts ! j)) s')"
  proof (rule Cons.IH)
    show "Suc i + length ts = 17" using Cons.prems(1) by simp
    show "commit_ok db cl tr (ns ! j) (ts ! j)" if "j < length ts" "Suc i + j < 16" "ts ! j \<noteq> ANil" for j
      using Cons.prems(2) [of "Suc j"] that by simp
    show "\<not> is_branch (ts ! j)" if "j < length ts" "Suc i + j \<ge> 16" for j
      using Cons.prems(3) [of "Suc j"] that by simp
  qed
  then obtain kids s' where k: "commit_children X cl tr path (Suc i) ns s1 = Some (kids, s')"
    "map (\<lambda>c. if c = NilNode then Some zero_hash else Marshal X c) kids
        = map (\<lambda>t. Some (if t = ANil then zero_hash else aref X t)) ts"
    "grows_children X path (word_of_nat ` {Suc i..<17}) (\<Union>t \<in> set ts. subs t) s1 s'"
    "\<forall>j < length ts. covered X db (path @ [word_of_nat (Suc i + j)]) (subs (ts ! j)) s'" by blast
  have i: "i < 17" using Cons.prems(1) by simp
  have "(word_of_nat i :: byte) \<notin> word_of_nat ` {Suc i..<17}"
    using i by (auto simp: word_of_nat_eq_17)
  then have "covered X db (path @ [word_of_nat i]) (subs a) s'"
    using covered_grows_disjoint [OF c(4) k(3)] by blast
  then have "\<forall>j < length (a # ts). covered X db (path @ [word_of_nat (i + j)]) (subs ((a # ts) ! j)) s'"
    using k(4) by (auto simp: nth_Cons ac_simps split: nat.splits)
  moreover have "insert i {Suc i..<17} = {i..<17}" using i by auto
  then have "grows_children X path (word_of_nat ` {i..<17}) (subs a \<union> (\<Union>t \<in> set ts. subs t)) s s'"
    using grows_children_trans [OF c(3) k(3)] by (metis image_insert insert_is_Un)
  ultimately show ?case
    using c(1,2) k(1,2) by simp
qed

lemma commit_ok_full:
  assumes "rep X db (FullNode ns f) (AFull ts)" "hashed (FullNode ns f)" "wft (AFull ts)"
    "\<And>i. i < 16 \<Longrightarrow> ts ! i \<noteq> ANil \<Longrightarrow> commit_ok db cl tr (ns ! i) (ts ! i)"
  shows "commit_ok db cl tr (FullNode ns f) (AFull ts)"
  unfolding commit_ok_def
proof (intro allI)
  fix path s
  have f: "Hash f = aref X (AFull ts)" "Hash f \<noteq> []" "\<not> Dirty f \<longrightarrow> stored X db (AFull ts)"
    "list_all2 (rep X db) ns ts"
    using assms by (auto simp: flag_ok_def simp del: aref.simps)
  show "\<exists>s'. commit_node X cl tr path (FullNode ns f) s = Some (HashNode (aref X (AFull ts)), s')
     \<and> grows X path (subs (AFull ts)) s s' \<and> covered X db path (subs (AFull ts)) s'"
  proof (cases "Dirty f")
    case False
    then have "covered X db path (subs (AFull ts)) s" using f(3) covered_stored by blast
    then show ?thesis using False f(1,2) by (auto simp del: aref.simps)
  next
    case True
    have len: "length ts = 17" using assms(3) by (rule wft_AFull_child)
    have nb: "\<not> is_branch (ts ! j)" if "j < 17" "16 \<le> j" for j
      using wft_AFull_child(2) [OF assms(3)] that by (cases "j = 16") auto
    obtain kids s1 where k: "commit_children X cl tr path 0 ns s = Some (kids, s1)"
      "map (\<lambda>c. if c = NilNode then Some zero_hash else Marshal X c) kids
        = map (\<lambda>t. Some (if t = ANil then zero_hash else aref X t)) ts"
      "grows_children X path (word_of_nat ` {0..<17}) (\<Union>t \<in> set ts. subs t) s s1"
      "\<forall>j < 17. covered X db (path @ [word_of_nat j]) (subs (ts ! j)) s1"
      using commit_children_spec [OF f(4), of 0 cl tr path s] assms(4) nb len by auto
    have c: "Cache (FullNode kids f) = Some (aref X (AFull ts), Dirty f)"
      using f(1) by (simp del: aref.simps)
    have m: "Marshal X (FullNode kids f) = Some (cblob X (AFull ts))"
      unfolding Marshal.simps Let_def k(2) by (auto simp: comp_def)
    obtain s' where s': "commit_store X cl tr path (FullNode kids f) s1 = Some (HashNode (aref X (AFull ts)), s')"
      "Nodes s' = Nodes (AddNode path (NewWrapper (aref X (AFull ts)) (cblob X (AFull ts))) s1)"
      using commit_store_spec [OF c is_branch_intros(2) m] by blast
    have "grows X path (subs (AFull ts)) s s1"
      by (rule grows_weaken [OF grows_children_grows [OF k(3)]]) auto
    then have "grows X path (subs (AFull ts)) s s'"
      unfolding grows_Nodes [OF s'(2)] by (rule grows_trans [OF _ grows_AddNode]) simp
    moreover have "covered X db path (subs t) s'" if mem: "t \<in> set ts" for t
    proof -
      obtain j where "j < 17" "t = ts ! j" using mem len by (metis in_set_conv_nth)
      then show ?thesis
        unfolding covered_Nodes [OF s'(2)]
        using k(4) covered_mono [OF covered_AddNode_parent [of X db path "[word_of_nat j]"]] by blast
    qed
    then have "covered X db path (subs (AFull ts)) s'"
      using covered_AddNode_self [of db path "AFull ts" s1] unfolding covered_Nodes [OF s'(2)]
      by (simp add: covered_def del: aref.simps cblob.simps)
    moreover have "commit_node X cl tr path (FullNode ns f) s = Some (HashNode (aref X (AFull ts)), s')"
      using k(1) s'(1) True by (simp del: aref.simps)
    ultimately show ?thesis by (auto simp del: aref.simps)
  qed
qed

lemma commit_node_refines:
  assumes "rep X db n a" "hashed n" "wft a"
  shows "commit_ok db cl tr n a"
  using assms
proof (induction a arbitrary: n rule: wft.induct)
  case (3 k c)
  note rp = \<open>rep X db n (AShort k c)\<close>
  show ?case
  using rp proof (cases rule: rep.cases)
    case (rep_Short n0 f)
    have "commit_ok db cl tr n0 c" if "is_full c"
    proof -
      have "\<not> HasTerm k" "k \<noteq> []" "list_all is_nibble k" "wft c"
        using \<open>wft (AShort k c)\<close> that by (auto elim: wft_short_cases)
      then show ?thesis using 3 rep_Short that by auto
    qed
    then show ?thesis using commit_ok_short rp rep_Short 3 by metis
  next
    case (rep_Hash h)
    show ?thesis using commit_ok_hash rp unfolding rep_Hash(1) by blast
  qed
next
  case (4 cs)
  note rp = \<open>rep X db n (AFull cs)\<close>
  show ?case
  using rp proof (cases rule: rep.cases)
    case (rep_Full ns f)
    have len: "length cs = 17" using "4.prems"(3) by (rule wft_AFull_child)
    have "commit_ok db cl tr (ns ! i) (cs ! i)" if i: "i < 16" "cs ! i \<noteq> ANil" for i
    proof -
      have "cs ! i \<in> set (butlast cs)"
        using i len by (metis diff_Suc_1 length_butlast nth_butlast nth_mem numeral_eq_Suc pred_numeral_simps(3) eval_nat_numeral(3))
      moreover have "wfc i (cs ! i)" using "4.prems"(3) i len by (simp add: wft_AFull)
      then have "wft (cs ! i)" using i by (simp add: wfc_canon canon_def)
      moreover have "rep X db (ns ! i) (cs ! i)" using rep_Full(2) i len by (simp add: list_all2_conv_all_nth)
      moreover have "length ns = 17" using rep_Full(2) len list_all2_lengthD by metis
      then have "hashed (ns ! i)" using "4.prems"(2) rep_Full(1) i by simp
      ultimately show ?thesis using "4.IH" i(2) by blast
    qed
    then show ?thesis using commit_ok_full rp rep_Full 4 by metis
  next
    case (rep_Hash h)
    show ?thesis using commit_ok_hash rp unfolding rep_Hash(1) by blast
  qed
qed auto

end

subsection \<open>Writing the nodes of a commit\<close>

lemma distinct_AddNode:
  "distinct (map fst (Nodes s)) \<Longrightarrow> distinct (map fst (Nodes (AddNode p n s)))"
  by (simp add: AddNode_def Let_def distinct_update)

lemma distinct_commit_store:
  "commit_store X cl tr path n s = Some (n', s') \<Longrightarrow> distinct (map fst (Nodes s)) \<Longrightarrow>
   distinct (map fst (Nodes s'))"
  by (auto simp: commit_store_def Let_def distinct_AddNode split: option.splits if_splits node.splits)

lemma distinct_commit:
  "commit_node X cl tr path n s = Some (n', s') \<Longrightarrow> distinct (map fst (Nodes s)) \<Longrightarrow>
   distinct (map fst (Nodes s'))"
  "commit_children X cl tr path i cs s = Some (kids, s') \<Longrightarrow> distinct (map fst (Nodes s)) \<Longrightarrow>
   distinct (map fst (Nodes s'))"
  by (induction X cl tr path n s and X cl tr path i cs s arbitrary: n' s' and kids s'
        rule: commit_node_commit_children.induct)
     (auto split: option.splits if_splits node.splits dest: distinct_commit_store)

lemma put_all_lookup:
  assumes "\<And>k v v'. (k, v) \<in> set batch \<Longrightarrow> (k, v') \<in> set batch \<Longrightarrow> v = v'"
  shows "(k, v) \<in> set batch \<Longrightarrow> put_all batch db k = Some v"
    and "(\<And>v. (k, v) \<notin> set batch) \<Longrightarrow> put_all batch db k = db k"
proof -
  have "((k, v) \<in> set batch \<longrightarrow> put_all batch db k = Some v) \<and>
      ((\<forall>v. (k, v) \<notin> set batch) \<longrightarrow> put_all batch db k = db k)" for v
    using assms
  proof (induction batch rule: rev_induct)
    case (snoc x batch)
    obtain k' v' where x: "x = (k', v')" by force
    have IH: "((k, v) \<in> set batch \<longrightarrow> put_all batch db k = Some v) \<and>
      ((\<forall>v. (k, v) \<notin> set batch) \<longrightarrow> put_all batch db k = db k)"
      using snoc by (metis UnI1 set_append)
    show ?case
    proof (cases "k = k'")
      case True
      have "v = v'" if "(k, v) \<in> set batch" using snoc.prems [of k v v'] that True x by simp
      then show ?thesis using True x by (auto simp: put_all_def)
    next
      case False
      then show ?thesis using IH x by (auto simp: put_all_def)
    qed
  qed (simp add: put_all_def)
  then show "(k, v) \<in> set batch \<Longrightarrow> put_all batch db k = Some v"
    and "(\<And>v. (k, v) \<notin> set batch) \<Longrightarrow> put_all batch db k = db k" by blast+
qed

lemma deleted_nodes_wrappers:
  "\<forall>p. map_of (Nodes s) p = None \<or> map_of (Nodes s) p = Some NewDeleted \<Longrightarrow>
   \<forall>p. map_of (Nodes (fold (\<lambda>path s. AddNode path NewDeleted s) ps s)) p \<in> {None, Some NewDeleted}"
  by (induction ps arbitrary: s) (auto simp: map_of_AddNode)

lemma distinct_deleted:
  "distinct (map fst (Nodes s)) \<Longrightarrow>
   distinct (map fst (Nodes (fold (\<lambda>path s. AddNode path NewDeleted s) ps s)))"
  by (induction ps arbitrary: s) (auto simp: distinct_AddNode)

lemma subs_branch: "u \<in> subs a \<Longrightarrow> is_branch u"
  by (induction a) auto

text \<open>Once the new nodes are written, in any order, the whole trie is stored.\<close>

text \<open>Every entry of the batch is the blob of a subtrie under its hash.\<close>

lemma node_batch_entry:
  assumes "grows X [] (subs a) s0 s" "\<forall>p. map_of (Nodes s0) p \<in> {None, Some NewDeleted}"
    "distinct (map fst (Nodes s))" "(k, v) \<in> set (node_batch s)"
  shows "\<exists>u \<in> subs a. k = aref X u \<and> v = cblob X u"
proof -
  obtain p w where w: "(p, w) \<in> set (Nodes s)" "NHash w \<noteq> zero_hash" "k = NHash w" "v = Blob w"
    using assms(4) by (auto simp: node_batch_def)
  then have m: "map_of (Nodes s) p = Some w" using assms(3) by simp
  moreover have "w \<noteq> NewDeleted" using w(2) by (auto simp: NewDeleted_def NewWrapper_def)
  ultimately have "map_of (Nodes s) p \<noteq> map_of (Nodes s0) p"
    using assms(2) by (metis insertE option.distinct(1) option.inject singletonD)
  then obtain u where "u \<in> subs a" "w = NewWrapper (aref X u) (cblob X u)"
    using assms(1) m unfolding grows_def by (metis option.inject)
  then show ?thesis using w by (auto simp: NewWrapper_def)
qed

lemma stored_put_all:
  assumes "hash_good X a" "prefix_free a" "canon a"
    "covered X db [] (subs a) s" "grows X [] (subs a) s0 s"
    "\<forall>p. map_of (Nodes s0) p \<in> {None, Some NewDeleted}" "distinct (map fst (Nodes s))"
    "set batch = set (node_batch s)"
  shows "stored X (put_all batch db) a"
proof (rule stored_iff_subs, intro conjI ballI allI impI)
  have entry: "\<exists>u \<in> subs a. k = aref X u \<and> v = cblob X u" if "(k, v) \<in> set batch" for k v
    using node_batch_entry [OF assms(5-7)] that assms(8) by blast
  have fn: "v = v'" if "(k, v) \<in> set batch" "(k, v') \<in> set batch" for k v v'
    using entry [OF that(1)] entry [OF that(2)] assms(1) unfolding hash_good_def by metis
  fix u
  assume u: "u \<in> subs a"
  then show nz: "aref X u \<noteq> zero_hash" using assms(1) by (simp add: hash_good_def)
  show "put_all batch db (aref X u) = Some (cblob X u)"
  proof (cases "\<exists>v. (aref X u, v) \<in> set batch")
    case True
    then obtain v where v: "(aref X u, v) \<in> set batch" by blast
    then have "v = cblob X u" using entry [OF v] u assms(1) unfolding hash_good_def by metis
    then show ?thesis using put_all_lookup(1) [of batch] fn v by blast
  next
    case False
    have "map_of (Nodes s) (hex_encode q) \<noteq> Some (NewWrapper (aref X u) (cblob X u))" for q
    proof
      assume "map_of (Nodes s) (hex_encode q) = Some (NewWrapper (aref X u) (cblob X u))"
      then have "(aref X u, cblob X u) \<in> set (node_batch s)"
        using nz by (force simp: node_batch_def NewWrapper_def dest: map_of_SomeD)
      then show False using False assms(8) by blast
    qed
    then have "db (aref X u) = Some (cblob X u)" using assms(4) u unfolding covered_def by fastforce
    then show ?thesis using put_all_lookup(2) [of batch] fn False by metis
  qed
next
  fix cs c
  assume cs: "AFull cs \<in> subs a"
  show pf: "c \<in> set (drop 16 cs) \<Longrightarrow> c = ANil" for c using assms(2) cs by (simp add: prefix_free_def)
  show "c \<in> set cs \<Longrightarrow> is_branch c \<or> c = ANil"
    using wft_full_kids [of cs c] wft_subs [OF assms(3) cs] pf [of c] wft_is_branch by blast
qed

definition commit_batch :: "NodeSet option \<Rightarrow> (bytes \<times> bytes) list" where
  "commit_batch nodes = (case nodes of None \<Rightarrow> [] | Some s \<Rightarrow> node_batch s)"

lemma put_all_Nil [simp]: "put_all [] db = db"
  by (simp add: put_all_def)

context trie_ext
begin

lemma trie_Commit_spec:
  assumes "trie_inv X db t a" "hash_good X a" "prefix_free a"
  shows "\<exists>nodes. trie_Commit X cl t =
      Some ((if a = ANil then EmptyRootHash else aref X a, nodes, oldKeys (tracer t)),
            t\<lparr>tracer := Tracer_reset (tracer t)\<rparr>)
    \<and> (\<forall>batch. set batch = set (commit_batch nodes) \<longrightarrow> stored X (put_all batch db) a)
    \<and> (\<forall>k v. (k, v) \<in> set (commit_batch nodes) \<longrightarrow> (\<exists>u \<in> subs a. k = aref X u \<and> v = cblob X u))"
proof -
  let ?deleted = "fold (\<lambda>path s. AddNode path NewDeleted s) (deletedNodes (tracer t)) NewNodeSet"
  have dd: "distinct (map fst (Nodes ?deleted))" by (rule distinct_deleted) (simp add: NewNodeSet_def)
  have dw: "\<forall>p. map_of (Nodes ?deleted) p \<in> {None, Some NewDeleted}"
    by (rule deleted_nodes_wrappers) (simp add: NewNodeSet_def)
  show ?thesis
  proof (cases "a = ANil")
    case True
    then have "root t = NilNode" using assms(1) by (simp add: trie_inv_def)
    moreover have "node_batch ?deleted = []"
    proof (rule ccontr)
      assume "node_batch ?deleted \<noteq> []"
      then obtain p w where pw: "(p, w) \<in> set (Nodes ?deleted)" "NHash w \<noteq> zero_hash"
        by (auto simp: node_batch_def filter_empty_conv)
      then have "map_of (Nodes ?deleted) p = Some w" using dd by simp
      with dw have "w = NewDeleted" by (metis insertE option.distinct(1) option.inject singletonD)
      with pw(2) show False by (simp add: NewDeleted_def NewWrapper_def)
    qed
    ultimately show ?thesis using True by (simp add: trie_Commit_def Let_def commit_batch_def)
  next
    case False
    have a: "canon a" "wft a" "rep X db (root t) a" "root t \<noteq> NilNode"
      using assms(1) False rep_nil_iff by (auto simp: trie_inv_def canon_def)
    have "trie_inv X db (trie_Copy t) a" using assms(1) by (simp add: trie_inv_def trie_Copy_def)
    then obtain n where n: "trie_Hash X (trie_Copy t) = Some (aref X a, (trie_Copy t)\<lparr>root := n\<rparr>)" "rep X db n a" "hashed n"
      using trie_Hash_spec False by fastforce
    obtain h d where c: "Cache n = Some (h, d)" using n(2) False by (cases n) auto
    show ?thesis
    proof (cases d)
      case d: False
      then have "stored X db a" using n(2) c by (cases n) (auto simp: flag_ok_def)
      then show ?thesis using n(1) a(4) c d False by (simp add: trie_Commit_def Let_def commit_batch_def)
    next
      case d: True
      obtain s where s: "commit_node X cl (tracer t) [] n ?deleted = Some (HashNode (aref X a), s)"
        "grows X [] (subs a) ?deleted s" "covered X db [] (subs a) s"
        using commit_node_refines [OF n(2,3) a(2), of cl "tracer t"] unfolding commit_ok_def by blast
      have "stored X (put_all batch db) a" if "set batch = set (node_batch s)" for batch
        using stored_put_all [OF assms(2,3) a(1) s(3,2) dw distinct_commit(1) [OF s(1) dd] that] .
      moreover have "\<exists>u \<in> subs a. k = aref X u \<and> v = cblob X u" if "(k, v) \<in> set (node_batch s)" for k v
        using node_batch_entry [OF s(2) dw distinct_commit(1) [OF s(1) dd] that] .
      ultimately show ?thesis using n(1) a(4) c d s(1) False by (simp add: trie_Commit_def Let_def commit_batch_def)
    qed
  qed
qed

end

end
