(* ===== verification/Trie_Props.thy ===== *)
theory Trie_Props
  imports Trie_Commit "HOL-Library.Multiset"
begin

text \<open>
  The properties of the trie as a whole: the map it shows, the root hash as a function of that
  map, commit and reload, parallel reads, and the behaviours of the code at its edges (missing
  nodes, values at branch nodes, import).
\<close>

subsection \<open>Sequences of updates\<close>

text \<open>A keyed store with canonical states, as an interface: what the order of updates cannot
  change.\<close>

locale canonical_map =
  fixes upd :: "'s \<Rightarrow> 'k \<Rightarrow> 'v \<Rightarrow> 's" and look :: "'s \<Rightarrow> 'k \<Rightarrow> 'v" and ok :: "'s \<Rightarrow> bool"
  assumes upd_ok: "ok s \<Longrightarrow> ok (upd s k v)"
    and look_upd: "ok s \<Longrightarrow> look (upd s k v) k' = (if k' = k then v else look s k')"
    and canonical: "ok s \<Longrightarrow> ok s' \<Longrightarrow> (\<And>k. look s k = look s' k) \<Longrightarrow> s = s'"
begin

definition upds :: "'s \<Rightarrow> ('k \<times> 'v) list \<Rightarrow> 's" where
  "upds s kvs = foldl (\<lambda>s (k, v). upd s k v) s kvs"

lemma upds_ok: "ok s \<Longrightarrow> ok (upds s kvs)"
  by (induction kvs arbitrary: s) (auto simp: upds_def upd_ok)

lemma look_upds: "ok s \<Longrightarrow> look (upds s kvs) k = (case map_of (rev kvs) k of None \<Rightarrow> look s k | Some v \<Rightarrow> v)"
proof (induction kvs arbitrary: s)
  case (Cons kv kvs)
  obtain k' v' where kv: "kv = (k', v')" by force
  have "upds s (kv # kvs) = upds (upd s k' v') kvs" by (simp add: upds_def kv)
  then show ?case
    using Cons kv by (auto simp: upd_ok look_upd map_add_def split: option.splits)
qed (simp add: upds_def)

lemma map_of_rev_perm:
  assumes "distinct (map fst kvs)" "mset kvs = mset kvs'"
  shows "map_of (rev kvs) = map_of (rev kvs')"
proof -
  have "mset (map fst kvs) = mset (map fst kvs')" using assms(2) by (metis mset_map)
  then have "distinct (map fst kvs')" using assms(1) mset_eq_imp_distinct_iff by blast
  then show ?thesis
    using assms by (intro map_of_inject_set [THEN iffD2]) (auto simp: distinct_rev rev_map [symmetric] dest: mset_eq_setD)
qed

lemma upds_perm:
  assumes "ok s" "distinct (map fst kvs)" "mset kvs = mset kvs'"
  shows "upds s kvs = upds s kvs'"
  by (rule canonical) (use assms in \<open>simp_all add: upds_ok look_upds map_of_rev_perm [OF assms(2,3)]\<close>)

end

text \<open>The specification of the trie is such a store.\<close>

interpretation am: canonical_map aupdate "\<lambda>a key. alookup a (KeybytesToHex key)" "\<lambda>a. canon a \<and> byte_keys a"
proof
  show "canon (aupdate s k v) \<and> byte_keys (aupdate s k v)" if "canon s \<and> byte_keys s" for s k v
    using that aupdate_facts by blast
  show "alookup (aupdate s k v) (KeybytesToHex k') = (if k' = k then v else alookup s (KeybytesToHex k'))"
    if "canon s \<and> byte_keys s" for s k v k'
    using that KeybytesToHex_inj [of k' k] by (auto simp: alookup_aupdate)
  show "s = s'" if "canon s \<and> byte_keys s" "canon s' \<and> byte_keys s'"
    "\<And>k. alookup s (KeybytesToHex k) = alookup s' (KeybytesToHex k)" for s s'
    using that trie_inv_unique by blast
qed

lemma trie_Update_frame: "trie_Update X db fuel t k v = (e, t') \<Longrightarrow> committed t' = committed t \<and> isHash t' = isHash t"
  by (auto simp: trie_Update_def trie_update_def Let_def split: if_splits prod.splits sum.splits)

context trie_ext
begin

lemma update_all_spec:
  assumes "trie_inv X db t a" "\<not> committed t" "\<And>k v. (k, v) \<in> set kvs \<Longrightarrow> key_fuel (hashKey X t k) \<le> fuel"
  shows "trie_inv X db (update_all X db fuel t kvs) (am.upds a (map (\<lambda>(k, v). (hashKey X t k, v)) kvs))
    \<and> \<not> committed (update_all X db fuel t kvs) \<and> isHash (update_all X db fuel t kvs) = isHash t"
  using assms
proof (induction kvs arbitrary: t a)
  case (Cons kv kvs)
  obtain k v where kv: "kv = (k, v)" by force
  obtain n tr where u: "trie_Update X db fuel t k v = (None, t\<lparr>root := n, tracer := tr\<rparr>)"
    "trie_inv X db (t\<lparr>root := n, tracer := tr\<rparr>) (aupdate a (hashKey X t k) v)"
    using trie_Update_spec [OF Cons.prems(1,2), of k fuel v] Cons.prems(3) [of k v] kv by auto
  have h: "hashKey X (t\<lparr>root := n, tracer := tr\<rparr>) = hashKey X t" by (auto simp: hashKey_def)
  have "\<And>k' v'. (k', v') \<in> set kvs \<Longrightarrow> key_fuel (hashKey X (t\<lparr>root := n, tracer := tr\<rparr>) k') \<le> fuel"
    using Cons.prems(3) unfolding h by auto
  from Cons.IH [OF u(2) _ this] show ?case
    using Cons.prems(2) u(1) h kv by (simp add: am.upds_def)
qed (simp add: am.upds_def)

lemma trie_Hash_value:
  "trie_inv X db t a \<Longrightarrow> map_option fst (trie_Hash X t) = Some (if a = ANil then EmptyRootHash else aref X a)"
  using trie_Hash_spec by fastforce

end

subsection \<open>The map of a trie\<close>

text \<open>C1. A trie is a map: on every trie that satisfies the invariant and is not committed, \<^verbatim>\<open>Update\<close>
  succeeds and keeps the invariant, and afterwards \<^verbatim>\<open>Get\<close> returns the new value for the updated
  key (nothing when the value is empty, which deletes) and what it returned before for every
  other key; keys are compared after the optional hashing. Fuel linear in the key is enough.\<close>

theorem Update_Get:
  assumes "trie_ext X" "trie_ok X db t" "\<not> committed t"
    "key_fuel (hashKey X t key) \<le> fuel" "key_fuel (hashKey X t key') \<le> fuel"
  shows "fst (trie_Update X db fuel t key v) = None \<and> trie_ok X db (snd (trie_Update X db fuel t key v)) \<and>
    fst (trie_Get X db fuel (snd (trie_Update X db fuel t key v)) key') =
      (if hashKey X t key' = hashKey X t key then Inr v else fst (trie_Get X db fuel t key'))"
proof -
  obtain a where a: "trie_inv X db t a" using assms(2) by (auto simp: trie_ok_def)
  then have c: "canon a" by (simp add: trie_inv_def)
  obtain n tr where u: "trie_Update X db fuel t key v = (None, t\<lparr>root := n, tracer := tr\<rparr>)"
    "trie_inv X db (t\<lparr>root := n, tracer := tr\<rparr>) (aupdate a (hashKey X t key) v)"
    using trie_ext.trie_Update_spec [OF assms(1) a assms(3,4)] by blast
  have h: "hashKey X (t\<lparr>root := n, tracer := tr\<rparr>) key' = hashKey X t key'" by (simp add: hashKey_def)
  have "key_fuel (hashKey X (t\<lparr>root := n, tracer := tr\<rparr>) key') \<le> fuel" using assms(5) h by simp
  then have "fst (trie_Get X db fuel (t\<lparr>root := n, tracer := tr\<rparr>) key') =
      Inr (alookup (aupdate a (hashKey X t key) v) (KeybytesToHex (hashKey X t key')))"
    using trie_ext.trie_Get_spec [OF assms(1) u(2)] assms(3) h by fastforce
  moreover have "fst (trie_Get X db fuel t key') = Inr (alookup a (KeybytesToHex (hashKey X t key')))"
    using trie_ext.trie_Get_spec [OF assms(1) a assms(3,5)] by fastforce
  ultimately show ?thesis
    using u c KeybytesToHex_inj by (auto simp: alookup_aupdate trie_ok_def)
qed

theorem Update_Get_witness:
  "fst (trie_Get ref_ext Map.empty 20
     (snd (trie_Update ref_ext Map.empty 20 (empty_trie False) [1, 2] [7])) [1, 2]) = Inr [7]"
  using Update_Get [OF ref_ext_laws, of Map.empty "empty_trie False" "[1, 2]" 20 "[1, 2]" "[7]"]
  by (simp add: key_fuel_def)

lemma update_all_hash_perm:
  assumes "trie_ext X" "trie_ok X db t" "\<not> committed t"
    "\<forall>(k, v) \<in> set kvs. key_fuel (hashKey X t k) \<le> fuel"
    "distinct (map (\<lambda>(k, v). hashKey X t k) kvs)" "mset kvs = mset kvs'"
  shows "\<exists>h. map_option fst (trie_Hash X (update_all X db fuel t kvs)) = Some h \<and>
    map_option fst (trie_Hash X (update_all X db fuel t kvs')) = Some h"
proof -
  obtain a where a: "trie_inv X db t a" using assms(2) by (auto simp: trie_ok_def)
  let ?f = "map (\<lambda>(k, v). (hashKey X t k, v))"
  have "set kvs = set kvs'" using assms(6) by (rule mset_eq_setD)
  then have f: "key_fuel (hashKey X t k) \<le> fuel" if "(k, v) \<in> set kvs \<or> (k, v) \<in> set kvs'" for k v
    using that assms(4) by auto
  have i: "trie_inv X db (update_all X db fuel t kvs) (am.upds a (?f kvs))"
    using trie_ext.update_all_spec [OF assms(1) a assms(3), of kvs fuel] f by blast
  have i': "trie_inv X db (update_all X db fuel t kvs') (am.upds a (?f kvs'))"
    using trie_ext.update_all_spec [OF assms(1) a assms(3), of kvs' fuel] f by blast
  have eq: "am.upds a (?f kvs) = am.upds a (?f kvs')"
  proof (rule am.upds_perm)
    show "canon a \<and> byte_keys a" using a by (simp add: trie_inv_def)
    show "distinct (map fst (?f kvs))" using assms(5) by (simp add: comp_def case_prod_beta')
    show "mset (?f kvs) = mset (?f kvs')" using assms(6) by simp
  qed
  show ?thesis
    using trie_ext.trie_Hash_value [OF assms(1) i, unfolded eq] trie_ext.trie_Hash_value [OF assms(1) i'] by blast
qed

text \<open>C6. The root hash is a function of the contents: applying the same entries in two different
  orders (one a permutation of the other, keys distinct after hashing) to a trie gives the same
  root hash, whatever the tracer, the cached hashes and the resolved nodes are.\<close>

theorem Hash_order_independent:
  assumes "trie_ext X" "trie_ok X db t" "\<not> committed t"
    "\<forall>(k, v) \<in> set kvs. key_fuel (hashKey X t k) \<le> fuel"
    "distinct (map (\<lambda>(k, v). hashKey X t k) kvs)" "mset kvs = mset kvs'"
  shows "\<exists>h. map_option fst (trie_Hash X (update_all X db fuel t kvs)) = Some h \<and>
    map_option fst (trie_Hash X (update_all X db fuel t kvs')) = Some h"
  using update_all_hash_perm [OF assms] .

theorem Hash_order_independent_witness:
  "\<exists>h. map_option fst (trie_Hash ref_ext (update_all ref_ext Map.empty 20 (empty_trie False) [([1], [5]), ([2], [6])])) = Some h \<and>
    map_option fst (trie_Hash ref_ext (update_all ref_ext Map.empty 20 (empty_trie False) [([2], [6]), ([1], [5])])) = Some h"
  by (rule Hash_order_independent [OF ref_ext_laws]) (simp_all add: key_fuel_def)

text \<open>The map that a sequence of entries stands for: the last value of a decoded key, nothing for the others.\<close>

definition contents :: "('k \<Rightarrow> bytes) \<Rightarrow> ('k \<times> bytes) list \<Rightarrow> bytes \<Rightarrow> bytes" where
  "contents FromHex entries key =
     (case map_of (rev (map (\<lambda>(k, v). (FromHex k, v)) entries)) key of None \<Rightarrow> [] | Some v \<Rightarrow> v)"

lemma empty_trie_contents:
  assumes "trie_ext X" "\<forall>(k, v) \<in> set entries. key_fuel (FromHex k) \<le> fuel"
    "t = update_all X Map.empty fuel (empty_trie False) (map (\<lambda>(k, v). (FromHex k, v)) entries)"
  shows "\<exists>a. trie_inv X Map.empty t a \<and> \<not> committed t \<and> \<not> isHash t \<and>
    (\<forall>key. alookup a (KeybytesToHex key) = contents FromHex entries key)"
proof -
  let ?kvs = "map (\<lambda>(k, v). (FromHex k, v)) entries"
  have e: "trie_inv X Map.empty (empty_trie False) ANil"
    using trie_inv_empty by (simp add: empty_trie_def)
  have u: "trie_inv X Map.empty t (am.upds ANil ?kvs)" "\<not> committed t" "\<not> isHash t"
    using trie_ext.update_all_spec [OF assms(1) e, of ?kvs fuel] assms(2,3) by (auto simp: comp_def case_prod_beta')
  have "alookup (am.upds ANil ?kvs) (KeybytesToHex key) = contents FromHex entries key" for key
    using am.look_upds [of ANil ?kvs key] e by (simp add: contents_def trie_inv_def split: option.split)
  then show ?thesis using u by blast
qed

lemma GetRootHash_value:
  assumes "trie_ext X" "\<forall>(k, v) \<in> set entries. key_fuel (FromHex k) \<le> fuel"
    and "trie_inv X db t a" "\<And>key. alookup a (KeybytesToHex key) = contents FromHex entries key"
  shows "GetRootHash X fuel FromHex entries = Inr (if a = ANil then EmptyRootHash else aref X a)"
proof -
  define t0 where "t0 = update_all X Map.empty fuel (empty_trie False) (map (\<lambda>(k, v). (FromHex k, v)) entries)"
  obtain a0 where a0: "trie_inv X Map.empty t0 a0" "\<And>key. alookup a0 (KeybytesToHex key) = contents FromHex entries key"
    using empty_trie_contents [OF assms(1,2) t0_def] by blast
  have "a = a0" using assms(3,4) a0 by (intro trie_inv_unique) (auto simp: trie_inv_def)
  moreover have "trie_New X Map.empty zero_hash False = Inr (empty_trie False)"
    by (simp add: trie_New_def empty_trie_def)
  ultimately show ?thesis
    using trie_ext.trie_Hash_value [OF assms(1) a0(1)] unfolding GetRootHash_def by (auto simp: t0_def [symmetric])
qed

text \<open>C7. \<^verbatim>\<open>GetRootHash\<close> is the root hash of the contents: it returns the hash of every trie without key hashing
  that \<^verbatim>\<open>Get\<close> shows to hold exactly the given entries, over any database and with any history, cached hashes
  and unresolved nodes; and it returns the same hash for all entries with the same contents, in whatever
  order the Go map gives them. Of several keys with the same decoding the contents have the value of the last
  one, so these orders have the same contents when the decoded keys are distinct.\<close>

theorem GetRootHash_contents:
  assumes "trie_ext X" "\<forall>(k, v) \<in> set entries. key_fuel (FromHex k) \<le> fuel"
    and "trie_ok X db t" "\<not> committed t" "\<not> isHash t"
    and "\<forall>key. fst (trie_Get X db (key_fuel key) t key) = Inr (contents FromHex entries key)"
  shows "\<exists>h. map_option fst (trie_Hash X t) = Some h \<and> GetRootHash X fuel FromHex entries = Inr h \<and>
    (\<forall>entries'. (\<forall>(k, v) \<in> set entries'. key_fuel (FromHex k) \<le> fuel) \<and> contents FromHex entries' = contents FromHex entries \<longrightarrow>
       GetRootHash X fuel FromHex entries' = Inr h) \<and>
    (\<forall>entries'. distinct (map (FromHex \<circ> fst) entries) \<and> mset entries' = mset entries \<longrightarrow>
       GetRootHash X fuel FromHex entries' = Inr h)"
proof -
  obtain a where a: "trie_inv X db t a" using assms(3) by (auto simp: trie_ok_def)
  have c: "alookup a (KeybytesToHex key) = contents FromHex entries key" for key
  proof -
    have "hashKey X t key = key" using assms(5) by (simp add: hashKey_def)
    then show ?thesis
      using trie_ext.trie_Get_spec [OF assms(1) a assms(4), of key "key_fuel key"] spec [OF assms(6), of key] by auto
  qed
  have same: "GetRootHash X fuel FromHex entries' = Inr (if a = ANil then EmptyRootHash else aref X a)"
    if "\<forall>(k, v) \<in> set entries'. key_fuel (FromHex k) \<le> fuel" "contents FromHex entries' = contents FromHex entries" for entries'
    using GetRootHash_value [OF assms(1) that(1) a] c that(2) by simp
  have perm: "contents FromHex entries' = contents FromHex entries" "set entries' = set entries"
    if "distinct (map (FromHex \<circ> fst) entries)" "mset entries' = mset entries" for entries'
  proof -
    let ?f = "map (\<lambda>(k, v). (FromHex k, v))"
    have "distinct (map fst (?f entries))" using that(1) by (simp add: comp_def case_prod_beta')
    moreover have "mset (?f entries) = mset (?f entries')" using that(2) by simp
    ultimately have "map_of (rev (?f entries)) = map_of (rev (?f entries'))" by (rule am.map_of_rev_perm)
    then show "contents FromHex entries' = contents FromHex entries" by (intro ext) (simp add: contents_def)
    show "set entries' = set entries" using that(2) by (rule mset_eq_setD)
  qed
  have "GetRootHash X fuel FromHex entries' = Inr (if a = ANil then EmptyRootHash else aref X a)"
    if "distinct (map (FromHex \<circ> fst) entries)" "mset entries' = mset entries" for entries'
    using same [OF _ perm(1) [OF that]] assms(2) unfolding perm(2) [OF that] by blast
  then show ?thesis
    using trie_ext.trie_Hash_value [OF assms(1) a] same [OF assms(2) refl] same by blast
qed

text \<open>The same entries in another order, with a third key that was deleted again.\<close>

definition other_history :: "(bytes \<times> bytes) list" where
  "other_history = [([2], [6]), ([3], [7]), ([1], [5]), ([3], [])]"

theorem GetRootHash_contents_witness:
  "\<exists>h. GetRootHash ref_ext 20 (\<lambda>k. k) [([1], [5]), ([2], [6])] = Inr h \<and>
    map_option fst (trie_Hash ref_ext (update_all ref_ext Map.empty 20 (empty_trie False) other_history)) = Some h"
proof -
  let ?t = "update_all ref_ext Map.empty 20 (empty_trie False) other_history"
  obtain a where a: "trie_inv ref_ext Map.empty ?t a" "\<not> committed ?t" "\<not> isHash ?t"
    "\<And>key. alookup a (KeybytesToHex key) = contents (\<lambda>k. k) other_history key"
    using empty_trie_contents [OF ref_ext_laws, of other_history "\<lambda>k. k" 20 ?t] by (auto simp: other_history_def key_fuel_def)
  have "fst (trie_Get ref_ext Map.empty (key_fuel key) ?t key) = Inr (contents (\<lambda>k. k) [([1], [5]), ([2], [6])] key)" for key
  proof -
    have "hashKey ref_ext ?t key = key" using a(3) by (simp add: hashKey_def)
    then show ?thesis
      using trie_ext.trie_Get_spec [OF ref_ext_laws a(1,2), of key "key_fuel key"] a(4) [of key]
      by (auto simp: contents_def other_history_def split: if_splits)
  qed
  then show ?thesis
    using GetRootHash_contents [OF ref_ext_laws, of "[([1], [5]), ([2], [6])]" "\<lambda>k. k" 20 Map.empty ?t] a
    by (auto simp: trie_ok_def key_fuel_def)
qed

text \<open>Two keys of the Go map with the same decoding make the hash depend on the iteration order.\<close>

lemma GetRootHash_key_clash:
  assumes "trie_ext X" "key_fuel (FromHex k) \<le> fuel" "FromHex k' = FromHex k"
  shows "GetRootHash X fuel FromHex [(k', w), (k, v)] = GetRootHash X fuel FromHex [(k, v)]"
proof -
  obtain t a where a: "trie_inv X Map.empty t a" "\<And>key. alookup a (KeybytesToHex key) = contents FromHex [(k, v)] key"
    using empty_trie_contents [OF assms(1), of "[(k, v)]" FromHex fuel] assms(2) by auto
  moreover have "contents FromHex [(k', w), (k, v)] = contents FromHex [(k, v)]"
    using assms(3) by (auto simp: contents_def)
  ultimately show ?thesis
    using GetRootHash_value [OF assms(1) _ a(1), of "[(k, v)]" FromHex fuel]
      GetRootHash_value [OF assms(1) _ a(1), of "[(k', w), (k, v)]" FromHex fuel] assms(2,3) by simp
qed

subsection \<open>Commit and reload\<close>

text \<open>C2. Commit and reload: \<^verbatim>\<open>Commit\<close> returns the root hash and a node set, and after its nodes
  are written to the database in any order, a trie opened on the root hash satisfies the
  invariant and \<^verbatim>\<open>Get\<close> returns on it what it returned before, for every key. The hypotheses are
  that the hash sends the nodes of this trie to nonzero hashes and distinct blobs to distinct
  ones, and that no key is a prefix of another.\<close>

theorem Commit_reload:
  assumes "trie_ext X" "trie_inv X db t a" "a \<noteq> ANil" "hash_good X a" "prefix_free a" "\<not> committed t"
  shows "\<exists>h nodes ok t'. trie_Commit X cl t = Some ((h, nodes, ok), t') \<and> root t' = root t \<and>
    (\<forall>batch. set batch = set (commit_batch nodes) \<longrightarrow>
       (\<exists>t2. trie_New X (put_all batch db) h (isHash t) = Inr t2 \<and> trie_ok X (put_all batch db) t2 \<and>
         (\<forall>key fuel. key_fuel (hashKey X t key) \<le> fuel \<longrightarrow>
            fst (trie_Get X (put_all batch db) fuel t2 key) = fst (trie_Get X db fuel t key))))"
proof -
  have w: "wft a" "byte_keys a" using assms(2,3) by (auto simp: trie_inv_def canon_def)
  have "a \<in> subs a" using w(1) by (cases a) auto
  then have good: "aref X a \<noteq> zero_hash" "aref X a \<noteq> EmptyRootHash"
    using assms(4) unfolding hash_good_def by blast+
  obtain nodes where n: "trie_Commit X cl t = Some ((aref X a, nodes, oldKeys (tracer t)),
      t\<lparr>tracer := Tracer_reset (tracer t)\<rparr>)"
    "\<forall>batch. set batch = set (commit_batch nodes) \<longrightarrow> stored X (put_all batch db) a"
    using trie_ext.trie_Commit_spec [OF assms(1,2,4,5), of cl] unfolding if_not_P [OF assms(3)] by blast
  have "\<exists>t2. trie_New X (put_all batch db) (aref X a) (isHash t) = Inr t2 \<and> trie_ok X (put_all batch db) t2 \<and>
         (\<forall>key fuel. key_fuel (hashKey X t key) \<le> fuel \<longrightarrow>
            fst (trie_Get X (put_all batch db) fuel t2 key) = fst (trie_Get X db fuel t key))"
    if b: "set batch = set (commit_batch nodes)" for batch
  proof -
    have st: "stored X (put_all batch db) a" using n(2) b by blast
    obtain t2 where t2: "trie_New X (put_all batch db) (aref X a) (isHash t) = Inr t2"
      "trie_inv X (put_all batch db) t2 a" "\<not> committed t2" "isHash t2 = isHash t"
      using trie_ext.trie_New_stored [OF assms(1) w st good] by blast
    have "hashKey X t2 = hashKey X t" using t2(4) by (auto simp: hashKey_def)
    then have "fst (trie_Get X (put_all batch db) fuel t2 key) = fst (trie_Get X db fuel t key)"
      if "key_fuel (hashKey X t key) \<le> fuel" for key fuel
      using trie_ext.trie_Get_spec [OF assms(1) t2(2,3), of key fuel]
        trie_ext.trie_Get_spec [OF assms(1,2,6) that] that by fastforce
    then show ?thesis using t2 by (auto simp: trie_ok_def)
  qed
  then show ?thesis using n(1) by fastforce
qed

lemma leaf_hash: "hash_good ref_ext leaf_atrie" "prefix_free leaf_atrie"
proof -
  have "aref ref_ext leaf_atrie \<noteq> zero_hash" "aref ref_ext leaf_atrie \<noteq> EmptyRootHash"
    by (simp_all add: leaf_atrie_def ref_keccak_neq)
  then show "hash_good ref_ext leaf_atrie" by (simp add: hash_good_def leaf_atrie_def)
  show "prefix_free leaf_atrie" by (simp add: prefix_free_def leaf_atrie_def)
qed

theorem Commit_reload_witness:
  "\<exists>h nodes ok t'. trie_Commit ref_ext True leaf_trie = Some ((h, nodes, ok), t') \<and> root t' = root leaf_trie \<and>
    (\<forall>batch. set batch = set (commit_batch nodes) \<longrightarrow>
       (\<exists>t2. trie_New ref_ext (put_all batch Map.empty) h (isHash leaf_trie) = Inr t2 \<and>
         trie_ok ref_ext (put_all batch Map.empty) t2 \<and>
         (\<forall>key fuel. key_fuel (hashKey ref_ext leaf_trie key) \<le> fuel \<longrightarrow>
            fst (trie_Get ref_ext (put_all batch Map.empty) fuel t2 key) =
            fst (trie_Get ref_ext Map.empty fuel leaf_trie key))))"
  by (rule Commit_reload [OF ref_ext_laws leaf_inv _ leaf_hash]) (simp_all add: leaf_atrie_def leaf_trie_def)

subsection \<open>Parallel reads\<close>

lemma trie_get_tracer_independent:
  "fst (trie_get X db fuel n key pos tr) = fst (trie_get X db fuel n key pos tr')"
proof (induction fuel arbitrary: n pos tr tr')
  case (Suc fuel)
  have r: "fst (resolveAndTrack X db h p tr) = fst (resolveAndTrack X db h p tr')" for h p
    by (auto simp: resolveAndTrack_def split: sum.splits option.splits)
  show ?case
  proof (cases n)
    case (HashNode h)
    obtain e tr1 where e: "resolveAndTrack X db h (take pos key) tr = (e, tr1)" by force
    obtain e' tr2 where e': "resolveAndTrack X db h (take pos key) tr' = (e', tr2)" by force
    have "e' = e" using r [of h "take pos key"] e e' by simp
    then show ?thesis
      using Suc.IH [of "projr e" pos tr1 tr2] e e' by (cases e) (auto simp: HashNode split: sum.splits prod.splits)
  next
    case (ShortNode k v f)
    show ?thesis
      using Suc.IH [of v "pos + length k" tr tr']
      by (auto simp: ShortNode split: sum.splits prod.splits)
  next
    case (FullNode cs f)
    show ?thesis
      using Suc.IH [of "cs ! unat (key ! pos)" "pos + 1" tr tr']
      by (auto simp: FullNode split: sum.splits prod.splits)
  qed auto
qed simp

definition get_value :: "ext \<Rightarrow> db \<Rightarrow> nat \<Rightarrow> MerklePatriciaTrie \<Rightarrow> bytes \<Rightarrow> trie_error + bytes" where
  "get_value X db fuel t key =
     (case fst (trie_get X db fuel (root t) (KeybytesToHex (hashKey X t key)) 0 newTracer) of
        Inl e \<Rightarrow> Inl e | Inr (v, _, _) \<Rightarrow> Inr v)"

lemma parallel_loop_spec:
  assumes "distinct sched" "set sched \<subseteq> {..<length keys}" "length results = length keys" "length errors = length keys"
  shows "\<exists>rs es tr'. parallel_loop X db fuel t keys sched results errors tr = (rs, es, tr') \<and>
    length rs = length keys \<and> length es = length keys \<and>
    (\<forall>i < length keys. if i \<in> set sched
       then (case get_value X db fuel t (keys ! i) of Inl e \<Rightarrow> rs ! i = [] \<and> es ! i = Some e
             | Inr v \<Rightarrow> rs ! i = v \<and> es ! i = errors ! i)
       else rs ! i = results ! i \<and> es ! i = errors ! i)"
  using assms
proof (induction sched arbitrary: results errors tr)
  case (Cons idx sched)
  obtain r tr1 where r: "trie_get X db fuel (root t) (KeybytesToHex (hashKey X t (keys ! idx))) 0 tr = (r, tr1)" by force
  have g: "get_value X db fuel t (keys ! idx) = (case r of Inl e \<Rightarrow> Inl e | Inr (v, _, _) \<Rightarrow> Inr v)"
    using trie_get_tracer_independent [of X db fuel "root t" "KeybytesToHex (hashKey X t (keys ! idx))" 0 newTracer tr] r
    by (simp add: get_value_def)
  let ?res = "case r of Inl e \<Rightarrow> results[idx := []] | Inr (v, _, _) \<Rightarrow> results[idx := v]"
  let ?err = "case r of Inl e \<Rightarrow> errors[idx := Some e] | Inr (v, _, _) \<Rightarrow> errors"
  have "parallel_loop X db fuel t keys (idx # sched) results errors tr = parallel_loop X db fuel t keys sched ?res ?err tr1"
    using r by (auto split: sum.splits prod.splits)
  moreover have "length ?res = length keys" "length ?err = length keys"
    using Cons.prems by (auto split: sum.splits prod.splits)
  then obtain rs es tr' where "parallel_loop X db fuel t keys sched ?res ?err tr1 = (rs, es, tr')"
    "length rs = length keys" "length es = length keys"
    "\<forall>i < length keys. if i \<in> set sched
       then (case get_value X db fuel t (keys ! i) of Inl e \<Rightarrow> rs ! i = [] \<and> es ! i = Some e
             | Inr v \<Rightarrow> rs ! i = v \<and> es ! i = ?err ! i)
       else rs ! i = ?res ! i \<and> es ! i = ?err ! i"
    using Cons.IH [of ?res ?err tr1] Cons.prems by auto
  ultimately show ?case
    using g Cons.prems
    by (intro exI [of _ rs] exI [of _ es] exI [of _ tr'])
       (auto simp: nth_list_update split: sum.splits prod.splits if_splits)
qed simp

text \<open>C29. \<^verbatim>\<open>ParallelGet\<close> does not depend on the schedule: whatever order the goroutines run in (each
  index once), the call returns the values that \<^verbatim>\<open>Get\<close> returns for the keys, in the order of the
  keys, and the trie itself is unchanged up to its tracer.\<close>

theorem ParallelGet_schedule:
  assumes "trie_ext X" "trie_ok X db t" "\<not> committed t" "\<forall>k \<in> set keys. key_fuel (hashKey X t k) \<le> fuel"
    "distinct sched" "set sched = {..<length keys}"
  shows "\<exists>vs tr. trie_ParallelGet X db fuel t keys sched = (Inr vs, t\<lparr>tracer := tr\<rparr>) \<and>
    length vs = length keys \<and> (\<forall>i < length keys. fst (trie_Get X db fuel t (keys ! i)) = Inr (vs ! i))"
proof -
  obtain a where a: "trie_inv X db t a" using assms(2) by (auto simp: trie_ok_def)
  have g: "fst (trie_Get X db fuel t k) = get_value X db fuel t k" for k
    using trie_get_tracer_independent [of X db fuel "root t" "KeybytesToHex (hashKey X t k)" 0 newTracer "tracer t"] assms(3)
    by (auto simp: get_value_def trie_Get_def split: sum.splits prod.splits)
  have v: "\<exists>v. get_value X db fuel t (keys ! i) = Inr v" if "i < length keys" for i
    using trie_ext.trie_Get_spec [OF assms(1) a assms(3), of "keys ! i" fuel] assms(4) that g [of "keys ! i"] by (metis fst_conv nth_mem)
  obtain rs es tr' where p: "parallel_loop X db fuel t keys sched (replicate (length keys) [])
      (replicate (length keys) None) (tracer t) = (rs, es, tr')" "length rs = length keys" "length es = length keys"
    "\<forall>i < length keys. case get_value X db fuel t (keys ! i) of Inl e \<Rightarrow> rs ! i = [] \<and> es ! i = Some e
             | Inr v \<Rightarrow> rs ! i = v \<and> es ! i = replicate (length keys) None ! i"
    using parallel_loop_spec [OF assms(5), of keys "replicate (length keys) []" "replicate (length keys) None" X db fuel t "tracer t"]
      assms(6) by auto
  have "get_value X db fuel t (keys ! i) = Inr (rs ! i) \<and> es ! i = None" if "i < length keys" for i
    using p(4) v [OF that] that by fastforce
  then show ?thesis
    using p assms(3) g by (auto simp: trie_ParallelGet_def in_set_conv_nth)
qed

theorem ParallelGet_schedule_witness:
  "\<exists>vs tr. trie_ParallelGet ref_ext Map.empty 20 leaf_trie [[1], [2]] [1, 0] = (Inr vs, leaf_trie\<lparr>tracer := tr\<rparr>) \<and>
    length vs = length [[1 :: byte], [2]] \<and> (\<forall>i < length [[1 :: byte], [2]]. fst (trie_Get ref_ext Map.empty 20 leaf_trie ([[1], [2]] ! i)) = Inr (vs ! i))"
proof (rule ParallelGet_schedule [OF ref_ext_laws])
  show "trie_ok ref_ext Map.empty leaf_trie" using leaf_inv trie_ok_def by blast
qed (auto simp: leaf_trie_def key_fuel_def)

subsection \<open>Edges\<close>

text \<open>\<^verbatim>\<open>ImportTrie\<close> cannot restore any non-empty trie: it opens the exported root hash over a fresh
  memory store, so it returns a missing-node error for that root before a single exported entry
  is written, whatever the entries are.\<close>

theorem ImportTrie_fails:
  assumes "rootHash \<noteq> zero_hash" "rootHash \<noteq> EmptyRootHash"
  shows "ImportTrie X fuel rootHash keyValues = Inl (MissingNodeError (BytesToHash X rootHash) [])"
  using assms by (simp add: ImportTrie_def trie_New_def resolveAndTrack_def reader_node_def)

lemma ImportTrie_fails_example:
  "ImportTrie ref_ext 10 [1] [([1], [2])] = Inl (MissingNodeError (BytesToHash ref_ext [1]) [])"
  by (rule ImportTrie_fails) (auto simp: EmptyRootHash_def dest: arg_cong [where f = length])

text \<open>C39. \<^verbatim>\<open>insert\<close> does not report a missing node: where the path meets a hash whose blob the database
  does not have, it succeeds and puts a leaf with only the new key in place of the whole
  unloaded subtrie, which \<^verbatim>\<open>get\<close> and \<^verbatim>\<open>delete\<close> answer with an error.\<close>

theorem insert_missing_node:
  assumes "db (BytesToHash X h) = None" "key \<noteq> []" "take pos path = pre" "1 < fuel"
  shows "fst (trie_insert X db fuel (HashNode h) pre key v tr) = Inr (True, ShortNode key v NewFlag) \<and>
    fst (trie_get X db fuel (HashNode h) path pos tr) = Inl (MissingNodeError (BytesToHash X h) pre) \<and>
    fst (trie_delete X db fuel (HashNode h) pre key tr) = Inl (MissingNodeError (BytesToHash X h) pre)"
proof -
  have r: "resolveAndTrack X db h pre tr = (Inl (MissingNodeError (BytesToHash X h) pre), tr)"
    using assms(1) by (simp add: resolveAndTrack_def reader_node_def)
  obtain f where f: "fuel = Suc (Suc f)" using less_imp_Suc_add [OF assms(4)] by auto
  show ?thesis
    using r assms(2,3) unfolding f by (simp add: trie_insert.simps trie_delete.simps)
qed

theorem insert_missing_node_witness:
  "fst (trie_insert ref_ext Map.empty 9 (HashNode [9]) [3] [4, 16] (ValueNode [7]) newTracer) =
     Inr (True, ShortNode [4, 16] (ValueNode [7]) NewFlag)"
  using insert_missing_node [of Map.empty ref_ext "[9]" "[4, 16]" 1 "[3, 4, 16]" "[3]" 9 "ValueNode [7]" newTracer]
  by simp

lemma setChildren_nth:
  "i + length us \<le> length cs \<Longrightarrow> \<exists>kids. setChildren X i us cs = Some kids \<and> length kids = length cs \<and>
     (\<forall>j < length cs. kids ! j = (if i \<le> j \<and> j < i + length us \<and> BytesToHash X (us ! (j - i)) \<noteq> zero_hash
        then HashNode (us ! (j - i)) else cs ! j))"
proof (induction us arbitrary: i cs)
  case (Cons u us)
  let ?cs = "if BytesToHash X u = zero_hash then cs else cs[i := HashNode u]"
  have l: "length ?cs = length cs" by simp
  have "Suc i + length us \<le> length ?cs" using Cons.prems l by simp
  from Cons.IH [OF this] obtain kids where k: "setChildren X (Suc i) us ?cs = Some kids" "length kids = length cs"
    "\<forall>j < length cs. kids ! j = (if Suc i \<le> j \<and> j < Suc i + length us \<and> BytesToHash X (us ! (j - Suc i)) \<noteq> zero_hash
       then HashNode (us ! (j - Suc i)) else ?cs ! j)"
    unfolding l by blast
  have "setChildren X i (u # us) cs = setChildren X (Suc i) us ?cs" using Cons.prems by simp
  moreover have "kids ! j = (if i \<le> j \<and> j < i + length (u # us) \<and> BytesToHash X ((u # us) ! (j - i)) \<noteq> zero_hash
       then HashNode ((u # us) ! (j - i)) else cs ! j)" if "j < length cs" for j
    using k(3) [rule_format, OF that] that by (cases "j = i") (auto simp: nth_Cons')
  ultimately show ?case using k(1,2) by auto
qed auto

text \<open>A value at a branch node does not survive a reload: the decoder turns the 17th entry of a
  stored full node into a hash node like the others, so the value of a key that is a prefix of
  another key comes back as a reference to a node.\<close>

theorem branch_value_decoded_as_hash:
  assumes "trie_ext X" "length vs = 17" "BytesToHash X (vs ! 16) \<noteq> zero_hash"
  shows "\<exists>kids. DecodeNode X h (pbNode X MPTNODE_TYPE_FULL (pbFull X vs)) =
      Some (FullNode kids \<lparr>Hash = h, Dirty = False\<rparr>) \<and> kids ! 16 = HashNode (vs ! 16)"
proof -
  obtain kids where "setChildren X 0 vs (replicate 17 NilNode) = Some kids" "kids ! 16 = HashNode (vs ! 16)"
    using setChildren_nth [of 0 vs "replicate 17 NilNode" X] assms(2,3) by auto
  then show ?thesis
    by (simp add: DecodeNode_def trie_ext.unNode_pbNode [OF assms(1)] FullNode_Unmarshal_def
        trie_ext.unFull_pbFull [OF assms(1)] TOTAL_CHILD_NODE_def)
qed

lemma branch_value_decoded_as_hash_example:
  "\<exists>kids. DecodeNode ref_ext [5] (pbNode ref_ext MPTNODE_TYPE_FULL (pbFull ref_ext (replicate 16 [] @ [[7]]))) =
      Some (FullNode kids \<lparr>Hash = [5], Dirty = False\<rparr>) \<and> kids ! 16 = HashNode ((replicate 16 [] @ [[7]]) ! 16)"
proof (rule branch_value_decoded_as_hash [OF ref_ext_laws])
  have "last (BytesToHash ref_ext [7]) = 7" "last zero_hash = 0"
    by (simp_all add: ref_ext_def ref_BytesToHash_def zero_hash_def last_replicate)
  then show "BytesToHash ref_ext ((replicate 16 [] @ [[7]]) ! 16) \<noteq> zero_hash" by (auto simp: nth_append)
qed simp

text \<open>The blob stored for a full node with an empty slot among the first sixteen is not the
  message its hash was taken of (the hasher writes an empty entry there, the committer 32 zero
  bytes), so hashing what the database returns does not give the node's hash back unless the
  hash collides.\<close>

theorem stored_blob_not_preimage:
  assumes "trie_ext X" "length cs = 17" "i < 16" "cs ! i = ANil"
    "keccak X (cblob X (AFull cs)) = keccak X m0 \<longrightarrow> cblob X (AFull cs) = m0"
    "m0 = pbNode X MPTNODE_TYPE_FULL (pbFull X
       (map (aref X) (take 16 cs) @ map (\<lambda>c. if c = ANil then zero_hash else aref X c) (drop 16 cs)))"
  shows "aref X (AFull cs) = keccak X m0 \<and> keccak X (cblob X (AFull cs)) \<noteq> aref X (AFull cs)"
proof -
  have "m0 \<noteq> cblob X (AFull cs)"
  proof
    let ?A = "map (aref X) (take 16 cs) @ map (\<lambda>c. if c = ANil then zero_hash else aref X c) (drop 16 cs)"
    let ?B = "map (\<lambda>c. if c = ANil then zero_hash else aref X c) cs"
    assume "m0 = cblob X (AFull cs)"
    then have "unNode X (pbNode X MPTNODE_TYPE_FULL (pbFull X ?A)) = unNode X (pbNode X MPTNODE_TYPE_FULL (pbFull X ?B))"
      unfolding assms(6) cblob.simps by (rule arg_cong)
    then have "pbFull X ?A = pbFull X ?B"
      by (simp only: trie_ext.unNode_pbNode [OF assms(1)] option.inject prod.inject simp_thms)
    then have "unFull X (pbFull X ?A) = unFull X (pbFull X ?B)" by (rule arg_cong)
    then have "?A = ?B" by (simp only: trie_ext.unFull_pbFull [OF assms(1)] option.inject)
    then have "?A ! i = ?B ! i" by (rule arg_cong)
    then show False using assms(2,3,4) by (simp add: nth_append zero_hash_def)
  qed
  moreover have "aref X (AFull cs) = keccak X m0" unfolding assms(6) by simp
  ultimately show ?thesis using assms(5) by metis
qed

lemma len_hash_neq: "length a = 82 \<Longrightarrow> length b = 1106 \<Longrightarrow> len_hash a \<noteq> len_hash b"
proof
  assume "length a = 82" "length b = 1106" "len_hash a = len_hash b"
  then have "be_nat (be_bytes 32 82) = be_nat (be_bytes 32 1106)" by (simp add: len_hash_def)
  then show False by (simp add: be_nat_be_bytes)
qed

definition len_ext :: ext where
  "len_ext = ref_ext\<lparr>keccak := len_hash\<rparr>"

definition sparse_full :: "atrie list" where
  "sparse_full = replicate 17 ANil"

lemma stored_blob_not_preimage_example:
  "keccak len_ext (cblob len_ext (AFull sparse_full)) \<noteq> aref len_ext (AFull sparse_full)"
proof -
  let ?vs = "map (aref len_ext) (take 16 sparse_full) @
    map (\<lambda>c. if c = ANil then zero_hash else aref len_ext c) (drop 16 sparse_full)"
  define m0 where "m0 = pbNode len_ext MPTNODE_TYPE_FULL (pbFull len_ext ?vs)"
  have vs: "?vs = replicate 16 [] @ [zero_hash]" by (simp add: sparse_full_def map_replicate_const)
  have "length m0 = 82"
    unfolding m0_def vs
    by (simp add: len_ext_def ref_ext_def ref_pbNode_def length_concat sum_list_replicate)
  moreover have "length (cblob len_ext (AFull sparse_full)) = 1106"
    by (simp add: sparse_full_def len_ext_def ref_ext_def ref_pbNode_def length_concat sum_list_replicate
        map_replicate_const)
  ultimately have "keccak len_ext m0 \<noteq> keccak len_ext (cblob len_ext (AFull sparse_full))"
    using len_hash_neq by (simp add: len_ext_def del: cblob.simps)
  then have c: "keccak len_ext (cblob len_ext (AFull sparse_full)) = keccak len_ext m0 \<longrightarrow>
      cblob len_ext (AFull sparse_full) = m0"
    by (metis (no_types))
  have f: "length sparse_full = 17" "(0 :: nat) < 16" "sparse_full ! 0 = ANil" by (simp_all add: sparse_full_def)
  show ?thesis
    using stored_blob_not_preimage [OF len_ext_laws [folded len_ext_def] f c m0_def] by (rule conjunct2)
qed

end
