(* ===== verification/Trie_Walk.thy ===== *)
theory Trie_Walk
  imports Trie_API
begin

text \<open>
  The traversals of \<^verbatim>\<open>trie.go\<close> (\<^verbatim>\<open>GetAll\<close>, \<^verbatim>\<open>GetKeyValue\<close>, \<^verbatim>\<open>Count\<close>): on a trie that satisfies the
  invariant they visit every binding exactly once, in the order of the keys, with fuel linear
  in the height of the trie.
\<close>

fun abind :: "atrie \<Rightarrow> bytes \<Rightarrow> (bytes \<times> bytes) list" where
  "abind ANil pre = []"
| "abind (AVal v) pre = [(pre, v)]"
| "abind (AShort k c) pre = abind c (pre @ k)"
| "abind (AFull cs) pre = concat (map (\<lambda>i. abind (cs ! i) (pre @ [word_of_nat i])) [0..<length cs])"

fun aheight :: "atrie \<Rightarrow> nat" where
  "aheight ANil = 0"
| "aheight (AVal v) = 0"
| "aheight (AShort k c) = Suc (aheight c)"
| "aheight (AFull cs) = Suc (foldr max (map aheight cs) 0)"

lemma foldr_max_ge: "x \<in> set xs \<Longrightarrow> (x :: nat) \<le> foldr max xs 0"
  by (induction xs) auto

lemma aheight_child: "c \<in> set cs \<Longrightarrow> aheight c < aheight (AFull cs)"
  using foldr_max_ge [of "aheight c" "map aheight cs"] by (simp add: less_Suc_eq_le)

definition walk_fuel :: "atrie \<Rightarrow> nat" where
  "walk_fuel t = 2 * aheight t + 2"

context trie_ext
begin

definition walk_ok :: "db \<Rightarrow> (bytes \<Rightarrow> bytes \<Rightarrow> 's \<Rightarrow> 's) \<Rightarrow> nat \<Rightarrow> node \<Rightarrow> atrie \<Rightarrow> bool" where
  "walk_ok db visit fuel n t \<longleftrightarrow> (\<forall>pre s tr. \<exists>tr'. walk X db visit fuel n pre s tr =
     (Inr (fold (\<lambda>(k, v) s. visit k v s) (abind t pre) s), tr'))"

lemma walk_children_ok:
  assumes "list_all2 (\<lambda>n t. n = NilNode \<and> t = ANil \<or> n \<noteq> NilNode \<and> walk_ok db visit fuel n t) ns ts"
  shows "\<exists>tr'. walk_children X db visit fuel ns i pre s tr =
    (Inr (fold (\<lambda>(k, v) s. visit k v s)
       (concat (map (\<lambda>j. abind (ts ! j) (pre @ [word_of_nat (i + j)])) [0..<length ts])) s), tr')"
  using assms
proof (induction ns ts arbitrary: i s tr rule: list_all2_induct)
  case (Cons n ns t ts)
  have e: "concat (map (\<lambda>j. abind ((t # ts) ! j) (pre @ [word_of_nat (i + j)])) [0..<length (t # ts)]) =
     abind t (pre @ [word_of_nat i]) @
     concat (map (\<lambda>j. abind (ts ! j) (pre @ [word_of_nat (Suc i + j)])) [0..<length ts])"
    by (simp add: upt_conv_Cons comp_def ac_simps del: upt_Suc flip: map_Suc_upt)
  show ?case
  proof (cases "n = NilNode")
    case True
    then have "t = ANil" using Cons.hyps(1) by blast
    then show ?thesis using Cons.IH [of "Suc i" s tr] True unfolding e by simp
  next
    case False
    then obtain tr1 where w: "walk X db visit fuel n (pre @ [word_of_nat i]) s tr =
        (Inr (fold (\<lambda>(k, v) s. visit k v s) (abind t (pre @ [word_of_nat i])) s), tr1)"
      using Cons.hyps(1) unfolding walk_ok_def by blast
    show ?thesis
      using Cons.IH [of "Suc i" "fold (\<lambda>(k, v) s. visit k v s) (abind t (pre @ [word_of_nat i])) s" tr1] w False
      unfolding e by simp
  qed
qed simp

lemma walk_refines:
  assumes "rep X db n t" "canon t \<or> (\<exists>v. t = AVal v)" "2 * aheight t + 1 + (if is_hash_node n then 1 else 0) \<le> fuel"
  shows "walk_ok db visit fuel n t"
  using assms
proof (induction fuel arbitrary: n t)
  case (Suc fuel)
  from Suc.prems(1) show ?case
  proof (cases rule: rep.cases)
    case (rep_Hash h)
    then have w: "wft t" using Suc.prems(2) by (auto simp: canon_def)
    have "walk_ok db visit fuel (bnode X t) t"
      using Suc.IH rep_bnode [OF w rep_Hash(3)] Suc.prems rep_Hash bnode_not_hash by auto
    then show ?thesis
      using rep_Hash resolve_stored [OF w rep_Hash(3)] by (simp add: walk_ok_def)
  next
    case (rep_Short n0 t0 f k)
    then have "wft (AShort k t0)" using Suc.prems(2) by (auto simp: canon_def)
    then have "canon t0 \<or> (\<exists>v. t0 = AVal v)" by (auto elim: wft_short_cases)
    then have "walk_ok db visit fuel n0 t0"
      using Suc.IH [OF rep_Short(3)] Suc.prems(3) rep_Short by (auto split: if_splits)
    then show ?thesis using rep_Short by (simp add: walk_ok_def)
  next
    case (rep_Full ns ts f)
    then have w: "wft (AFull ts)" using Suc.prems(2) by (auto simp: canon_def)
    have len: "length ts = 17" using w by (rule wft_AFull_child)
    have "n = NilNode \<and> t = ANil \<or> n \<noteq> NilNode \<and> walk_ok db visit fuel n t"
      if i: "i < 17" "n = ns ! i" "t = ts ! i" for n t i
    proof -
      have r: "rep X db n t" using rep_Full(3) i len by (simp add: list_all2_conv_all_nth)
      have "wfc i t" using w i by (simp add: wft_AFull)
      then have c: "canon t \<or> (\<exists>v. t = AVal v)"
        using i(1) by (cases "i = 16") (auto simp: wfc_16 wfc_canon)
      have "aheight t < aheight (AFull ts)" using i len by (intro aheight_child) simp
      then have "2 * aheight t + 1 + (if is_hash_node n then 1 else 0) \<le> fuel"
        using Suc.prems(3) rep_Full(1,2) by auto
      then have "walk_ok db visit fuel n t" using Suc.IH r c by blast
      then show ?thesis using rep_nil_iff [OF r] by auto
    qed
    then have "list_all2 (\<lambda>n t. n = NilNode \<and> t = ANil \<or> n \<noteq> NilNode \<and> walk_ok db visit fuel n t) ns ts"
      using rep_Full(3) len by (simp add: list_all2_conv_all_nth)
    from walk_children_ok [OF this, of 0] show ?thesis
      unfolding walk_ok_def rep_Full(1,2) by simp
  qed (auto simp: walk_ok_def)
qed simp

end

subsection \<open>The bindings of a canonical trie\<close>

lemma abind_prefix: "(p, v) \<in> set (abind t pre) \<Longrightarrow> prefix pre p"
  by (induction t pre arbitrary: v rule: abind.induct) (auto simp: prefix_def, force+)

lemma abind_correct:
  assumes "canon t"
  shows "(pre @ k, v) \<in> set (abind t pre) \<longleftrightarrow> k \<in> akeys t \<and> v = alookup t k"
  using assms
proof (induction t pre arbitrary: k rule: abind.induct)
  case (3 sk c pre)
  then have "wft (AShort sk c)" by (simp add: canon_def)
  then show ?case
  proof (cases rule: wft_short_cases)
    case (leaf w)
    then show ?thesis by (auto simp: akeys_leaf)
  next
    case ext
    then have IH: "((pre @ sk) @ r, v) \<in> set (abind c (pre @ sk)) \<longleftrightarrow> r \<in> akeys c \<and> v = alookup c r" for r
      using 3 by simp
    show ?thesis
    proof (cases "prefix sk k")
      case True
      then obtain r where "k = sk @ r" by (auto simp: prefix_def)
      then show ?thesis using IH ext by (auto simp: akeys_ext)
    next
      case False
      then have "(pre @ k, v) \<notin> set (abind c (pre @ sk))" using abind_prefix by fastforce
      then show ?thesis using False ext by (auto simp: akeys_ext)
    qed
  qed
next
  case (4 cs pre)
  then have w: "wft (AFull cs)" by (simp add: canon_def)
  note ch = wft_AFull_child(2,3) [OF w]
  have mem: "(pre @ k, v) \<in> set (abind (cs ! i) (pre @ [word_of_nat i])) \<longleftrightarrow>
      (\<exists>ks. k = word_of_nat i # ks \<and> k \<in> akeys (AFull cs) \<and> v = alookup (AFull cs) k)" if i: "i < 17" for i
  proof (cases "\<exists>ks. k = word_of_nat i # ks")
    case False
    then have "(pre @ k, v) \<notin> set (abind (cs ! i) (pre @ [word_of_nat i]))"
      using abind_prefix [of "pre @ k" v "cs ! i" "pre @ [word_of_nat i]"] by (auto simp: prefix_def)
    then show ?thesis using False by auto
  next
    case True
    then obtain ks where k: "k = word_of_nat i # ks" by blast
    have u: "unat (word_of_nat i :: byte) = i" using i by (rule unat_of_nat_17)
    show ?thesis
    proof (cases "i = 16")
      case True
      then show ?thesis using k ch by (auto simp: akeys_full_Cons [OF w] is_nibble_def)
    next
      case False
      then have n: "is_nibble (word_of_nat i)" using i u by (simp add: nibble_unat)
      have "((pre @ [word_of_nat i]) @ ks, v) \<in> set (abind (cs ! i) (pre @ [word_of_nat i])) \<longleftrightarrow>
          ks \<in> akeys (cs ! i) \<and> v = alookup (cs ! i) ks"
        using "4.IH" [of i ks] wft_AFull_child(1) [OF w n] u i ch by simp
      then show ?thesis using k u i ch n False by (auto simp: akeys_full_Cons [OF w])
    qed
  qed
  show ?case
  proof
    assume "(pre @ k, v) \<in> set (abind (AFull cs) pre)"
    then obtain i where "i < 17" "(pre @ k, v) \<in> set (abind (cs ! i) (pre @ [word_of_nat i]))" using ch by auto
    then show "k \<in> akeys (AFull cs) \<and> v = alookup (AFull cs) k" using mem by blast
  next
    assume a: "k \<in> akeys (AFull cs) \<and> v = alookup (AFull cs) k"
    then obtain x ks where k: "k = x # ks" by (cases k) (auto simp: akeys_def)
    then have "unat x < 17" using a hexkey_head_less by (auto simp: akeys_def)
    then show "(pre @ k, v) \<in> set (abind (AFull cs) pre)" using mem [of "unat x"] a k ch by (auto intro!: bexI [of _ "unat x"])
  qed
qed (auto simp: canon_def)

lemma distinct_branches:
  assumes "distinct is" "set is \<subseteq> {..<17}" "\<And>i. i \<in> set is \<Longrightarrow> distinct (map fst (abind (cs ! i) (pre @ [word_of_nat i])))"
  shows "distinct (map fst (concat (map (\<lambda>i. abind (cs ! i) (pre @ [word_of_nat i])) is)))"
  using assms
proof (induction "is")
  case (Cons i "is")
  have "p \<noteq> q" if "(p, v) \<in> set (abind (cs ! i) (pre @ [word_of_nat i]))"
    "(q, w) \<in> set (abind (cs ! j) (pre @ [word_of_nat j]))" "j \<in> set is" for p v q w j
  proof -
    have "(word_of_nat i :: byte) \<noteq> word_of_nat j" using Cons.prems(1,2) that(3) by (metis distinct.simps(2) insert_subset lessThan_iff list.simps(15) subset_iff unat_of_nat_17)
    then show ?thesis
      using abind_prefix [OF that(1)] abind_prefix [OF that(2)] by (auto simp: prefix_def)
  qed
  then have "set (map fst (abind (cs ! i) (pre @ [word_of_nat i]))) \<inter>
      set (map fst (concat (map (\<lambda>i. abind (cs ! i) (pre @ [word_of_nat i])) is))) = {}"
    by fastforce
  moreover have "distinct (map fst (concat (map (\<lambda>i. abind (cs ! i) (pre @ [word_of_nat i])) is)))"
    using Cons.prems by (intro Cons.IH) auto
  ultimately show ?case using Cons.prems(3) [of i] by simp
qed simp

lemma distinct_abind: "canon t \<or> (\<exists>v. t = AVal v) \<Longrightarrow> distinct (map fst (abind t pre))"
proof (induction t pre rule: abind.induct)
  case (3 sk c pre)
  then have "wft (AShort sk c)" by (auto simp: canon_def)
  then show ?case using 3 by (auto elim!: wft_short_cases)
next
  case (4 cs pre)
  then have w: "wft (AFull cs)" by (auto simp: canon_def)
  have len: "length cs = 17" using w by (rule wft_AFull_child)
  have "canon (cs ! i) \<or> (\<exists>v. cs ! i = AVal v)" if "i < 17" for i
  proof -
    have "wfc i (cs ! i)" using w that by (simp add: wft_AFull)
    then show ?thesis using that by (cases "i = 16") (auto simp: wfc_16 wfc_canon)
  qed
  then show ?case
    using "4.IH" len by (auto intro!: distinct_branches)
qed auto

lemma card_akeys:
  assumes "canon t"
  shows "finite (akeys t)" "card (akeys t) = length (abind t [])"
proof -
  have e: "(k, v) \<in> set (abind t []) \<longleftrightarrow> k \<in> akeys t \<and> v = alookup t k" for k v
    using abind_correct [OF assms, of "[]" k v] by simp
  have s: "akeys t = set (map fst (abind t []))"
  proof (intro equalityI subsetI)
    fix k
    assume "k \<in> akeys t"
    then have "(k, alookup t k) \<in> set (abind t [])" using e by simp
    then show "k \<in> set (map fst (abind t []))" by (metis fst_conv image_eqI list.set_map)
  next
    fix k
    assume "k \<in> set (map fst (abind t []))"
    then obtain v where "(k, v) \<in> set (abind t [])" by auto
    then show "k \<in> akeys t" using e by simp
  qed
  show "finite (akeys t)" unfolding s by simp
  have "card (akeys t) = length (map fst (abind t []))"
    unfolding s using distinct_abind assms by (intro distinct_card) blast
  then show "card (akeys t) = length (abind t [])" by simp
qed

lemma fold_count: "fold (\<lambda>(k, v) s. Suc s) xs n = n + length xs"
  by (induction xs arbitrary: n) auto

text \<open>C30. \<^verbatim>\<open>Count\<close> returns the number of keys that have a value: on a trie that satisfies the invariant
  it returns (fuel twice the height of the trie is enough), and the number is the cardinality of
  the set of stored keys, which is finite.\<close>

theorem Count_correct:
  assumes "trie_ext X" "trie_inv X db t a" "\<not> committed t" "walk_fuel a \<le> fuel"
  shows "fst (trie_Count X db fuel t) = Inr (card {key. alookup a (KeybytesToHex key) \<noteq> []})"
proof -
  have a: "rep X db (root t) a" "canon a" "byte_keys a" using assms(2) by (auto simp: trie_inv_def)
  have "trie_ext.walk_ok X db (\<lambda>pre v count. Suc count) fuel (root t) a"
    by (rule trie_ext.walk_refines [OF assms(1) a(1)]) (use a(2) assms(4) in \<open>simp_all add: walk_fuel_def\<close>)
  from this [unfolded trie_ext.walk_ok_def [OF assms(1)], rule_format, of "[]" 0 "tracer t"]
  obtain tr where "walk X db (\<lambda>pre v count. Suc count) fuel (root t) [] 0 (tracer t) = (Inr (length (abind a [])), tr)"
    by (auto simp: fold_count)
  moreover have "akeys a = KeybytesToHex ` {key. alookup a (KeybytesToHex key) \<noteq> []}"
    using a(3) by (auto simp: byte_keys_def akeys_def)
  then have "card (akeys a) = card {key. alookup a (KeybytesToHex key) \<noteq> []}"
    by (simp add: card_image inj_on_def KeybytesToHex_inj)
  ultimately show ?thesis
    using assms(3) card_akeys(2) [OF a(2)] by (simp add: trie_Count_def countRecursive_def)
qed

theorem Count_correct_witness:
  "fst (trie_Count ref_ext Map.empty 10 leaf_trie) = Inr (card {key. alookup leaf_atrie (KeybytesToHex key) \<noteq> []})"
  by (rule Count_correct [OF ref_ext_laws leaf_inv])
     (simp_all add: leaf_trie_def leaf_atrie_def walk_fuel_def)

end
