(* ===== verification/Kv_Store.thy ===== *)
theory Kv_Store
  imports Go_Prelude
begin

text \<open>
  The contract of a key-value store, \<^verbatim>\<open>src/pkg/storage/storage.go\<close>, as a locale. A store state
  has a view, a map from key identities to values. A key names an identity or is refused; on a
  sound state every operation with an admissible key and value succeeds, keeps the state sound
  and changes the view as the map operation of its name. The lemmas of the locale are the
  facts that clients of a store use; \<^verbatim>\<open>MemoryDB\<close> and \<^verbatim>\<open>SimpleDB\<close> are its interpretations.
\<close>

text \<open>What a list of writes leaves under each identity: the last write wins.\<close>

definition writes :: "(bytes \<Rightarrow> bytes option) \<Rightarrow> (bytes \<times> bytes) list \<Rightarrow> bytes \<Rightarrow> bytes option" where
  "writes key_id kvs = map_of (rev (map (\<lambda>(k, v). (the (key_id k), v)) kvs))"

lemma writes_Nil [simp]: "writes key_id [] = Map.empty"
  by (simp add: writes_def)

lemma writes_Cons: "writes key_id ((k, v) # kvs) = [the (key_id k) \<mapsto> v] ++ writes key_id kvs"
  by (simp add: writes_def map_add_def fun_eq_iff split: option.splits)

lemma writes_None:
  "i \<notin> (\<lambda>(k, v). the (key_id k)) ` set kvs \<Longrightarrow> writes key_id kvs i = None"
  by (auto simp: writes_def map_of_eq_None_iff image_iff split: prod.splits)

lemma writes_consistent:
  assumes "(k, v) \<in> set kvs"
    and "\<And>k' v'. (k', v') \<in> set kvs \<Longrightarrow> the (key_id k') = the (key_id k) \<Longrightarrow> v' = v"
  shows "writes key_id kvs (the (key_id k)) = Some v"
proof -
  let ?l = "rev (map (\<lambda>(k, v). (the (key_id k), v)) kvs)"
  have "the (key_id k) \<in> fst ` set ?l" using assms(1) by force
  then obtain u where u: "map_of ?l (the (key_id k)) = Some u"
    by (metis map_of_eq_None_iff not_Some_eq)
  then have "(the (key_id k), u) \<in> set ?l" by (rule map_of_SomeD)
  with assms(2) have "u = v" by auto
  with u show ?thesis by (simp add: writes_def)
qed

locale kv_store =
  fixes ok :: "'s \<Rightarrow> bool"
    and key_id :: "bytes \<Rightarrow> bytes option"
    and val_ok :: "bytes \<Rightarrow> bool"
    and view :: "'s \<Rightarrow> bytes \<Rightarrow> bytes option"
    and get :: "'s \<Rightarrow> bytes \<Rightarrow> bytes option"
    and put :: "'s \<Rightarrow> bytes \<Rightarrow> bytes \<Rightarrow> 's option"
    and batch :: "'s \<Rightarrow> (bytes \<times> bytes) list \<Rightarrow> 's option"
  assumes get_view: "ok s \<Longrightarrow> get s k = Option.bind (key_id k) (view s)"
    and put_view: "ok s \<Longrightarrow> key_id k = Some i \<Longrightarrow> val_ok v \<Longrightarrow>
      \<exists>s'. put s k v = Some s' \<and> ok s' \<and> view s' = (view s)(i \<mapsto> v)"
    and batch_view: "ok s \<Longrightarrow> \<forall>(k, v) \<in> set kvs. key_id k \<noteq> None \<and> val_ok v \<Longrightarrow>
      \<exists>s'. batch s kvs = Some s' \<and> ok s' \<and> view s' = view s ++ writes key_id kvs"
begin

lemma get_after_put:
  assumes "ok s" "key_id k = Some i" "val_ok v"
  shows "\<exists>s'. put s k v = Some s' \<and> ok s' \<and>
    (\<forall>k'. get s' k' = (if key_id k' = Some i then Some v else get s k'))"
proof -
  obtain s' where s': "put s k v = Some s'" "ok s'" "view s' = (view s)(i \<mapsto> v)"
    using put_view [OF assms] by blast
  then have "get s' k' = (if key_id k' = Some i then Some v else get s k')" for k'
    using assms(1) by (cases "key_id k'") (auto simp: get_view)
  with s' show ?thesis by blast
qed

text \<open>A batch has the effect of its puts one after the other.\<close>

lemma batch_as_puts:
  assumes "ok s" "\<forall>(k, v) \<in> set kvs. key_id k \<noteq> None \<and> val_ok v"
  shows "\<exists>s1 s2. batch s kvs = Some s1 \<and>
    fold (\<lambda>(k, v) r. Option.bind r (\<lambda>s. put s k v)) kvs (Some s) = Some s2 \<and>
    ok s1 \<and> ok s2 \<and> view s1 = view s2"
proof -
  obtain s1 where s1: "batch s kvs = Some s1" "ok s1" "view s1 = view s ++ writes key_id kvs"
    using batch_view [OF assms] by blast
  have "\<exists>s2. fold (\<lambda>(k, v) r. Option.bind r (\<lambda>s. put s k v)) kvs (Some s) = Some s2 \<and> ok s2 \<and>
    view s2 = view s ++ writes key_id kvs"
    using assms
  proof (induction kvs arbitrary: s)
    case Nil
    then show ?case by simp
  next
    case (Cons kv kvs)
    obtain k v where kv: "kv = (k, v)" by force
    with Cons.prems obtain i where i: "key_id k = Some i" "val_ok v" by auto
    obtain s' where s': "put s k v = Some s'" "ok s'" "view s' = (view s)(i \<mapsto> v)"
      using put_view [OF Cons.prems(1) i] by blast
    from Cons.IH [OF s'(2)] Cons.prems(2) kv
    obtain s2 where s2: "fold (\<lambda>(k, v) r. Option.bind r (\<lambda>s. put s k v)) kvs (Some s') = Some s2"
      "ok s2" "view s2 = view s' ++ writes key_id kvs" by auto
    have "(view s)(i \<mapsto> v) ++ writes key_id kvs = view s ++ writes key_id (kv # kvs)"
      by (simp add: kv writes_Cons i map_add_def fun_eq_iff split: option.splits)
    with s2 s' kv show ?case by simp
  qed
  with s1 show ?thesis by metis
qed

lemma get_after_batch:
  assumes "ok s" "\<forall>(k, v) \<in> set kvs. key_id k \<noteq> None \<and> val_ok v"
  shows "\<exists>s'. batch s kvs = Some s' \<and> ok s' \<and>
    (\<forall>k i. key_id k = Some i \<longrightarrow> get s' k = (view s ++ writes key_id kvs) i)"
  using batch_view [OF assms] by (auto simp: get_view)

text \<open>A batch in which no identity has two values is read back entry by entry, and the
  other keys keep their values.\<close>

lemma get_after_consistent_batch:
  assumes "ok s" "\<forall>(k, v) \<in> set kvs. key_id k \<noteq> None \<and> val_ok v"
    and cons: "\<And>k v k' v'. (k, v) \<in> set kvs \<Longrightarrow> (k', v') \<in> set kvs \<Longrightarrow> key_id k = key_id k' \<Longrightarrow> v = v'"
  shows "\<exists>s'. batch s kvs = Some s' \<and> ok s' \<and>
    (\<forall>(k, v) \<in> set kvs. get s' k = Some v) \<and>
    (\<forall>k. (\<forall>(k', v) \<in> set kvs. key_id k' \<noteq> key_id k) \<longrightarrow> get s' k = get s k)"
proof -
  obtain s' where s': "batch s kvs = Some s'" "ok s'" "view s' = view s ++ writes key_id kvs"
    using batch_view [OF assms(1,2)] by blast
  have in_kvs: "get s' k = Some v" if kv: "(k, v) \<in> set kvs" for k v
  proof -
    obtain i where i: "key_id k = Some i" using kv assms(2) by auto
    have "writes key_id kvs (the (key_id k)) = Some v"
    proof (rule writes_consistent [OF kv])
      fix k' v'
      assume kv': "(k', v') \<in> set kvs" and "the (key_id k') = the (key_id k)"
      moreover have "key_id k' \<noteq> None" using kv' assms(2) by auto
      ultimately have "key_id k' = key_id k" using i by (metis option.collapse option.distinct(1))
      with cons [OF kv' kv] show "v' = v" by simp
    qed
    with i s' show ?thesis by (simp add: get_view map_add_def)
  qed
  have out: "get s' k = get s k" if "\<forall>(k', v) \<in> set kvs. key_id k' \<noteq> key_id k" for k
  proof (cases "key_id k")
    case None
    then show ?thesis using assms(1) s' by (simp add: get_view)
  next
    case (Some i)
    have "i \<notin> (\<lambda>(k, v). the (key_id k)) ` set kvs"
      using that assms(2) Some by (fastforce split: prod.splits)
    with Some s' assms(1) show ?thesis by (simp add: get_view writes_None map_add_def)
  qed
  show ?thesis using s' in_kvs out by blast
qed

end

end
