(* ===== verification/Memory_DB.thy ===== *)
theory Memory_DB
  imports Kv_Store "HOL-Library.AList" "HOL-Library.Char_ord" "HOL-Library.List_Lexorder"
begin

text \<open>
  The in-memory store, \<^verbatim>\<open>src/pkg/storage/memorydb.go\<close>: a Go map from 32-byte arrays to values,
  its iterator over the sorted hexadecimal keys, and its snapshot. The map is an association
  list with distinct keys. \<^verbatim>\<open>common.FromHex\<close> is a function of go-ethereum and a parameter; the
  code relies on it as the inverse of \<^verbatim>\<open>hex.EncodeToString\<close>.
\<close>

type_synonym memory_db = "(bytes \<times> bytes) list"

datatype mem_error = KeyNotFound string

record mem_iterator =
  it_db :: memory_db
  it_keys :: "string list"
  it_idx :: nat

definition NewMemoryDb :: memory_db where
  "NewMemoryDb = []"

definition mem_Get :: "memory_db \<Rightarrow> bytes \<Rightarrow> mem_error + bytes" where
  "mem_Get kv key =
     (case map_of kv (to_array 32 key) of
        Some v \<Rightarrow> Inr v
      | None \<Rightarrow> Inl (KeyNotFound (hex_encode key)))"

definition mem_Put :: "memory_db \<Rightarrow> bytes \<Rightarrow> bytes \<Rightarrow> memory_db" where
  "mem_Put kv key v = AList.update (to_array 32 key) v kv"

definition mem_Has :: "memory_db \<Rightarrow> bytes \<Rightarrow> bool" where
  "mem_Has kv key = (map_of kv (to_array 32 key) \<noteq> None)"

definition mem_Delete :: "memory_db \<Rightarrow> bytes \<Rightarrow> mem_error + memory_db" where
  "mem_Delete kv key =
     (if map_of kv (to_array 32 key) \<noteq> None then Inr (AList.delete (to_array 32 key) kv)
      else Inl (KeyNotFound (hex_encode key)))"

primrec mem_BatchPut :: "memory_db \<Rightarrow> (bytes \<times> bytes) list \<Rightarrow> memory_db" where
  "mem_BatchPut kv [] = kv"
| "mem_BatchPut kv (p # kvs) = mem_BatchPut (mem_Put kv (fst p) (snd p)) kvs"

definition mem_Size :: "memory_db \<Rightarrow> nat" where
  "mem_Size kv = length kv"

definition NewMemoryDbIterator :: "memory_db \<Rightarrow> mem_iterator" where
  "NewMemoryDbIterator db =
     \<lparr>it_db = db, it_keys = sort (map (\<lambda>p. hex_encode (fst p)) db), it_idx = 0\<rparr>"

definition mem_GetIterator :: "memory_db \<Rightarrow> mem_iterator" where
  "mem_GetIterator db = NewMemoryDbIterator db"

definition it_Next :: "mem_iterator \<Rightarrow> bool \<times> mem_iterator" where
  "it_Next it =
     (if length (it_keys it) = it_idx it then (False, it)
      else (True, it\<lparr>it_idx := it_idx it + 1\<rparr>))"

text \<open>\<^verbatim>\<open>Key\<close> and \<^verbatim>\<open>Value\<close> index the key list with \<^verbatim>\<open>idx - 1\<close> and panic (\<open>None\<close>) out of range.\<close>

definition it_Key :: "(string \<Rightarrow> bytes) \<Rightarrow> mem_iterator \<Rightarrow> bytes option" where
  "it_Key FromHex it =
     (if 1 \<le> it_idx it \<and> it_idx it \<le> length (it_keys it)
      then Some (FromHex (it_keys it ! (it_idx it - 1))) else None)"

definition it_Value :: "(string \<Rightarrow> bytes) \<Rightarrow> mem_iterator \<Rightarrow> bytes option" where
  "it_Value FromHex it =
     (if 1 \<le> it_idx it \<and> it_idx it \<le> length (it_keys it)
      then Some (case map_of (it_db it) (to_array 32 (FromHex (it_keys it ! (it_idx it - 1)))) of
                   Some v \<Rightarrow> v | None \<Rightarrow> [])
      else None)"

text \<open>The loop of \<^verbatim>\<open>GetSnapShot\<close>: one round per key that is left.\<close>

fun snapshot_loop :: "(string \<Rightarrow> bytes) \<Rightarrow> nat \<Rightarrow> mem_iterator \<Rightarrow> memory_db \<Rightarrow> memory_db option" where
  "snapshot_loop FromHex 0 it new = None"
| "snapshot_loop FromHex (Suc fuel) it new =
     (case it_Next it of
        (False, it') \<Rightarrow> Some new
      | (True, it') \<Rightarrow>
          (case (it_Key FromHex it', it_Value FromHex it') of
             (Some k, Some v) \<Rightarrow>
               snapshot_loop FromHex fuel it' (AList.update (to_array 32 k) v new)
           | _ \<Rightarrow> None))"

definition mem_GetSnapShot :: "(string \<Rightarrow> bytes) \<Rightarrow> memory_db \<Rightarrow> memory_db option" where
  "mem_GetSnapShot FromHex kv =
     snapshot_loop FromHex (Suc (length kv)) (mem_GetIterator kv) NewMemoryDb"

subsection \<open>The store contract\<close>

text \<open>The map's invariant: distinct keys, each of 32 bytes.\<close>

definition mem_ok :: "memory_db \<Rightarrow> bool" where
  "mem_ok kv \<longleftrightarrow> distinct (map fst kv) \<and> (\<forall>p \<in> set kv. length (fst p) = 32)"

lemma mem_ok_New [simp]: "mem_ok NewMemoryDb"
  by (simp add: mem_ok_def NewMemoryDb_def)

lemma mem_ok_keys: "mem_ok kv \<longleftrightarrow> distinct (map fst kv) \<and> (\<forall>k \<in> fst ` set kv. length k = 32)"
  by (simp add: mem_ok_def)

lemma mem_ok_update: "mem_ok kv \<Longrightarrow> length k = 32 \<Longrightarrow> mem_ok (AList.update k v kv)"
  by (simp add: mem_ok_keys distinct_update dom_update)

lemma mem_ok_Put [simp]: "mem_ok kv \<Longrightarrow> mem_ok (mem_Put kv key v)"
  by (simp add: mem_Put_def mem_ok_update)

lemma mem_ok_Delete: "mem_ok kv \<Longrightarrow> mem_Delete kv key = Inr kv' \<Longrightarrow> mem_ok kv'"
  by (auto simp: mem_Delete_def mem_ok_def AList.delete_eq split: if_splits intro: distinct_map_filter)

lemma map_of_Put [simp]: "map_of (mem_Put kv key v) = (map_of kv)(to_array 32 key \<mapsto> v)"
  by (simp add: mem_Put_def update_conv')

lemma mem_BatchPut_spec:
  "mem_ok kv \<Longrightarrow> mem_ok (mem_BatchPut kv kvs) \<and>
   map_of (mem_BatchPut kv kvs) = map_of kv ++ writes (\<lambda>k. Some (to_array 32 k)) kvs"
proof (induction kvs arbitrary: kv)
  case Nil
  then show ?case by simp
next
  case (Cons p kvs)
  obtain k v where p: "p = (k, v)" by force
  show ?case
    using Cons.IH [of "mem_Put kv k v"] Cons.prems
    by (simp add: p writes_Cons map_add_def fun_eq_iff split: option.splits)
qed

definition mem_get :: "memory_db \<Rightarrow> bytes \<Rightarrow> bytes option" where
  "mem_get kv k = (case mem_Get kv k of Inr v \<Rightarrow> Some v | Inl _ \<Rightarrow> None)"

interpretation mem: kv_store mem_ok "\<lambda>k. Some (to_array 32 k)" "\<lambda>_. True" map_of mem_get
  "\<lambda>kv k v. Some (mem_Put kv k v)" "\<lambda>kv kvs. Some (mem_BatchPut kv kvs)"
proof unfold_locales
  fix s :: memory_db and k
  show "mem_get s k = Option.bind (Some (to_array 32 k)) (map_of s)"
    by (simp add: mem_get_def mem_Get_def split: option.splits)
qed (use mem_BatchPut_spec in auto)

subsection \<open>The iterator and the snapshot\<close>

lemma inj_hex_encode: "inj hex_encode"
  by (simp add: inj_def)

lemma hex_sorted_keys:
  assumes "mem_ok kv"
  shows "distinct (it_keys (mem_GetIterator kv))"
    "set (it_keys (mem_GetIterator kv)) = hex_encode ` fst ` set kv"
    "length (it_keys (mem_GetIterator kv)) = length kv"
  using assms
  by (auto simp: mem_GetIterator_def NewMemoryDbIterator_def mem_ok_def distinct_map inj_on_def
      comp_def image_iff)

text \<open>After the loop, the snapshot holds what the store holds under the keys still to visit.\<close>

lemma snapshot_loop_spec:
  assumes inv: "\<And>b. FromHex (hex_encode b) = b"
    and "mem_ok (it_db it)" "it_keys it = map hex_encode ks" "set ks \<subseteq> fst ` set (it_db it)"
    and "it_idx it \<le> length ks" "length ks - it_idx it < fuel"
  shows "\<exists>r. snapshot_loop FromHex fuel it new = Some r \<and>
    map_of r = map_of new ++ (map_of (it_db it) |` set (drop (it_idx it) ks))"
  using assms(2-)
proof (induction fuel arbitrary: it new)
  case 0
  then show ?case by simp
next
  case (Suc fuel)
  show ?case
  proof (cases "it_idx it = length ks")
    case True
    with Suc.prems show ?thesis by (simp add: it_Next_def)
  next
    case False
    let ?i = "it_idx it" and ?it = "it\<lparr>it_idx := it_idx it + 1\<rparr>"
    from False Suc.prems have lt: "?i < length ks" by simp
    then have "ks ! ?i \<in> fst ` set (it_db it)" using Suc.prems(3) nth_mem by blast
    then obtain v where v: "map_of (it_db it) (ks ! ?i) = Some v"
      by (metis map_of_eq_None_iff not_Some_eq)
    then have "length (ks ! ?i) = 32"
      using Suc.prems(1) map_of_SomeD [OF v] by (auto simp: mem_ok_def)
    then have arr: "to_array 32 (ks ! ?i) = ks ! ?i" by (rule to_array_id)
    have "snapshot_loop FromHex (Suc fuel) it new =
      snapshot_loop FromHex fuel ?it (AList.update (ks ! ?i) v new)"
      using lt Suc.prems by (simp add: it_Next_def it_Key_def it_Value_def inv v arr)
    moreover have "length ks - (?i + 1) < fuel" using Suc.prems(5) lt by arith
    moreover from this obtain r where "snapshot_loop FromHex fuel ?it (AList.update (ks ! ?i) v new) = Some r"
      "map_of r = map_of (AList.update (ks ! ?i) v new) ++ (map_of (it_db ?it) |` set (drop (?i + 1) ks))"
      using Suc.IH [of ?it "AList.update (ks ! ?i) v new"] Suc.prems lt
      by (auto simp del: One_nat_def add_Suc_right)
    moreover have "(map_of new)(ks ! ?i \<mapsto> v) ++ (map_of (it_db it) |` set (drop (?i + 1) ks)) =
      map_of new ++ (map_of (it_db it) |` set (drop ?i ks))"
      using v by (auto simp: fun_eq_iff map_add_def restrict_map_def Cons_nth_drop_Suc [OF lt, symmetric]
          split: option.splits)
    ultimately show ?thesis by (simp add: update_conv')
  qed
qed

lemma snapshot_copy:
  assumes inv: "\<And>b. FromHex (hex_encode b) = b" and ok: "mem_ok kv"
  shows "\<exists>snap. mem_GetSnapShot FromHex kv = Some snap \<and> map_of snap = map_of kv"
proof -
  let ?it = "mem_GetIterator kv"
  obtain ks where ks: "it_keys ?it = map hex_encode ks"
    using hex_sorted_keys(2) [OF ok] by (metis ex_map_conv image_iff)
  have keys: "set ks = fst ` set kv"
    using hex_sorted_keys(2) [OF ok] by (simp add: ks inj_image_eq_iff [OF inj_hex_encode])
  have "length ks = length kv" using hex_sorted_keys(3) [OF ok] by (simp add: ks)
  moreover have "it_db ?it = kv" "it_idx ?it = 0"
    by (simp_all add: mem_GetIterator_def NewMemoryDbIterator_def)
  ultimately obtain r where r: "snapshot_loop FromHex (Suc (length kv)) ?it NewMemoryDb = Some r"
    "map_of r = Map.empty ++ (map_of kv |` set ks)"
    using snapshot_loop_spec [of FromHex ?it ks "Suc (length kv)" NewMemoryDb] inv ok ks keys
    by (auto simp: NewMemoryDb_def)
  have "map_of kv |` set ks = map_of kv"
    by (auto simp: keys restrict_map_def fun_eq_iff) (metis map_of_eq_None_iff)
  with r show ?thesis by (simp add: mem_GetSnapShot_def)
qed

text \<open>\<^verbatim>\<open>MemoryDB\<close> as a key-value store. On a store whose keys are distinct 32-byte arrays,
  \<^verbatim>\<open>Put\<close> keeps that invariant; afterwards \<^verbatim>\<open>Get\<close> gives the new value for every key that has
  the same first 32 bytes (zero-padded) and the old answer for every other key, and a snapshot
  terminates and answers every \<^verbatim>\<open>Get\<close> as the store does.\<close>

theorem MemoryDB_Put_Get:
  assumes "mem_ok kv" and "\<And>b. FromHex (hex_encode b) = b"
  shows "mem_ok (mem_Put kv k v) \<and>
    mem_Get (mem_Put kv k v) k' =
      (if to_array 32 k' = to_array 32 k then Inr v else mem_Get kv k') \<and>
    (\<exists>snap. mem_GetSnapShot FromHex (mem_Put kv k v) = Some snap \<and>
      mem_Get snap k' = mem_Get (mem_Put kv k v) k')"
proof -
  obtain snap where "mem_GetSnapShot FromHex (mem_Put kv k v) = Some snap"
    "map_of snap = map_of (mem_Put kv k v)"
    using snapshot_copy [OF assms(2)] assms(1) mem_ok_Put by blast
  then show ?thesis using assms(1) by (auto simp: mem_Get_def)
qed

lemma MemoryDB_Put_Get_example:
  "mem_ok NewMemoryDb \<and>
   mem_Get (mem_Put NewMemoryDb [7] [1, 2]) [7, 0] = Inr [1, 2] \<and>
   (\<exists>snap. mem_GetSnapShot hex_decode_ref (mem_Put NewMemoryDb [7] [1, 2]) = Some snap \<and>
     mem_Get snap [7, 0] = Inr [1, 2])"
proof -
  have eq: "to_array 32 [7, 0] = to_array 32 [7]" by code_simp
  show ?thesis
    using MemoryDB_Put_Get [OF mem_ok_New hex_decode_ref_inverse, of "[7]" "[1, 2]" "[7, 0]"] eq
    by (metis mem_ok_New)
qed

end
