(* ===== verification/Os_File.thy ===== *)
theory Os_File
  imports Go_Prelude
begin

text \<open>
  The part of Go's \<^verbatim>\<open>os\<close> and \<^verbatim>\<open>io\<close> packages that the file stores use: a file system that maps
  paths to contents, and file handles with a position. Every call to the operating system may
  fail: the world carries a list of faults, one entry for each call to come, where \<open>None\<close> is a
  call that succeeds and \<open>Some n\<close> one that fails, a write after its first \<open>n\<close> bytes. An empty
  list means that no call fails.
\<close>

record world =
  fs :: "string \<Rightarrow> bytes option"
  faults :: "nat option list"

record handle =
  hpath :: string
  hpos :: nat
  hopen :: bool

datatype read_result = RData bytes | REof | RErr

definition os_call :: "world \<Rightarrow> nat option \<times> world" where
  "os_call w = (case faults w of [] \<Rightarrow> (None, w) | f # r \<Rightarrow> (f, w\<lparr>faults := r\<rparr>))"

definition overwrite :: "bytes \<Rightarrow> nat \<Rightarrow> bytes \<Rightarrow> bytes" where
  "overwrite c p bs =
     (if bs = [] then c
      else take p c @ replicate (p - length c) 0 @ bs @ drop (p + length bs) c)"

definition os_write :: "world \<Rightarrow> handle \<Rightarrow> bytes \<Rightarrow> bool \<times> handle \<times> world" where
  "os_write w h bs =
     (case os_call w of (f, w) \<Rightarrow>
        if \<not> hopen h then (False, h, w)
        else case fs w (hpath h) of
          None \<Rightarrow> (False, h, w)
        | Some c \<Rightarrow>
            let out = (case f of None \<Rightarrow> bs | Some n \<Rightarrow> take n bs) in
            (f = None, h\<lparr>hpos := hpos h + length out\<rparr>,
             w\<lparr>fs := (fs w)(hpath h \<mapsto> overwrite c (hpos h) out)\<rparr>))"

text \<open>\<^verbatim>\<open>Seek(off, io.SeekStart)\<close> refuses a negative offset.\<close>

definition os_seek :: "world \<Rightarrow> handle \<Rightarrow> int \<Rightarrow> bool \<times> handle \<times> world" where
  "os_seek w h off =
     (case os_call w of (f, w) \<Rightarrow>
        if hopen h \<and> f = None \<and> 0 \<le> off then (True, h\<lparr>hpos := nat off\<rparr>, w)
        else (False, h, w))"

definition os_seek_end :: "world \<Rightarrow> handle \<Rightarrow> bool \<times> handle \<times> world" where
  "os_seek_end w h =
     (case os_call w of (f, w) \<Rightarrow>
        case fs w (hpath h) of
          None \<Rightarrow> (False, h, w)
        | Some c \<Rightarrow>
            if hopen h \<and> f = None then (True, h\<lparr>hpos := length c\<rparr>, w) else (False, h, w))"

definition os_truncate :: "world \<Rightarrow> handle \<Rightarrow> bool \<times> world" where
  "os_truncate w h =
     (case os_call w of (f, w) \<Rightarrow>
        if hopen h \<and> f = None \<and> fs w (hpath h) \<noteq> None
        then (True, w\<lparr>fs := (fs w)(hpath h \<mapsto> [])\<rparr>) else (False, w))"

definition os_sync :: "world \<Rightarrow> handle \<Rightarrow> bool \<times> world" where
  "os_sync w h = (case os_call w of (f, w) \<Rightarrow> (hopen h \<and> f = None, w))"

definition os_close :: "world \<Rightarrow> handle \<Rightarrow> bool \<times> handle \<times> world" where
  "os_close w h = (case os_call w of (f, w) \<Rightarrow> (hopen h \<and> f = None, h\<lparr>hopen := False\<rparr>, w))"

definition os_size :: "world \<Rightarrow> handle \<Rightarrow> nat option \<times> world" where
  "os_size w h =
     (case os_call w of (f, w) \<Rightarrow>
        (if hopen h \<and> f = None then map_option length (fs w (hpath h)) else None, w))"

text \<open>\<^verbatim>\<open>File.Read\<close> into a buffer of \<open>n\<close> bytes: an empty buffer reads nothing and never fails,
  the end of the file is reported as \<^verbatim>\<open>io.EOF\<close>, and fewer than \<open>n\<close> bytes are returned at the end of the file. The
  limit of 1 GiB that the runtime puts on one read is not modelled: a longer value, which the model reads
  whole, is outside it.\<close>

definition os_read :: "world \<Rightarrow> handle \<Rightarrow> nat \<Rightarrow> read_result \<times> handle \<times> world" where
  "os_read w h n =
     (if n = 0 then (if hopen h then RData [] else RErr, h, w)
      else case os_call w of (f, w) \<Rightarrow>
        if \<not> hopen h \<or> f \<noteq> None then (RErr, h, w)
        else case fs w (hpath h) of
          None \<Rightarrow> (RErr, h, w)
        | Some c \<Rightarrow>
            let d = take n (drop (hpos h) c) in
            if d = [] then (REof, h, w) else (RData d, h\<lparr>hpos := hpos h + length d\<rparr>, w))"

text \<open>\<^verbatim>\<open>binary.Read\<close> fills its buffer or fails, with \<^verbatim>\<open>io.EOF\<close> when there was nothing to read.\<close>

definition os_read_full :: "world \<Rightarrow> handle \<Rightarrow> nat \<Rightarrow> read_result \<times> handle \<times> world" where
  "os_read_full w h n =
     (case os_read w h n of
        (RData d, h, w) \<Rightarrow> (if length d = n then RData d else RErr, h, w)
      | r \<Rightarrow> r)"

text \<open>The buffer after a read that may be short: the rest keeps its zeros.\<close>

definition read_buffer :: "nat \<Rightarrow> bytes \<Rightarrow> bytes" where
  "read_buffer n d = d @ replicate (n - length d) 0"

definition os_open :: "world \<Rightarrow> string \<Rightarrow> handle option \<times> world" where
  "os_open w p =
     (case os_call w of (f, w) \<Rightarrow>
        if f \<noteq> None then (None, w)
        else (Some \<lparr>hpath = p, hpos = 0, hopen = True\<rparr>,
              case fs w p of None \<Rightarrow> w\<lparr>fs := (fs w)(p \<mapsto> [])\<rparr> | Some _ \<Rightarrow> w))"

definition os_create :: "world \<Rightarrow> string \<Rightarrow> handle option \<times> world" where
  "os_create w p =
     (case os_call w of (f, w) \<Rightarrow>
        if f \<noteq> None then (None, w)
        else (Some \<lparr>hpath = p, hpos = 0, hopen = True\<rparr>, w\<lparr>fs := (fs w)(p \<mapsto> [])\<rparr>))"

definition os_remove :: "world \<Rightarrow> string \<Rightarrow> bool \<times> world" where
  "os_remove w p =
     (case os_call w of (f, w) \<Rightarrow>
        if f = None \<and> fs w p \<noteq> None then (True, w\<lparr>fs := (fs w)(p := None)\<rparr>) else (False, w))"

definition os_rename :: "world \<Rightarrow> string \<Rightarrow> string \<Rightarrow> bool \<times> world" where
  "os_rename w p q =
     (case os_call w of (f, w) \<Rightarrow>
        if f = None \<and> fs w p \<noteq> None
        then (True, w\<lparr>fs := ((fs w)(q := fs w p))(p := None)\<rparr>) else (False, w))"

text \<open>\<^verbatim>\<open>os.MkdirAll\<close>: directories are not part of the model, only the failure of the call.\<close>

definition os_mkdir_all :: "world \<Rightarrow> bool \<times> world" where
  "os_mkdir_all w = (case os_call w of (f, w) \<Rightarrow> (f = None, w))"

text \<open>\<^verbatim>\<open>os.IsNotExist\<close> of the error of \<^verbatim>\<open>os.Stat\<close>; another failure of the call is not such an error.\<close>

definition os_not_exist :: "world \<Rightarrow> string \<Rightarrow> bool \<times> world" where
  "os_not_exist w p = (case os_call w of (f, w) \<Rightarrow> (f = None \<and> fs w p = None, w))"

subsection \<open>Calls that succeed\<close>

named_theorems os_simps \<open>what each call does in a world without faults\<close>

lemma overwrite_end [simp]: "overwrite c (length c) bs = c @ bs"
  by (simp add: overwrite_def)

lemma os_call_ok [os_simps]: "faults w = [] \<Longrightarrow> os_call w = (None, w)"
  by (simp add: os_call_def)

lemma os_call_fs [simp]: "os_call w = (f, w') \<Longrightarrow> fs w' = fs w"
  by (auto simp: os_call_def split: list.splits)

lemma os_write_ok [os_simps]:
  "faults w = [] \<Longrightarrow> hopen h \<Longrightarrow> fs w (hpath h) = Some c \<Longrightarrow>
   os_write w h bs = (True, h\<lparr>hpos := hpos h + length bs\<rparr>,
     w\<lparr>fs := (fs w)(hpath h \<mapsto> overwrite c (hpos h) bs)\<rparr>)"
  by (simp add: os_write_def os_call_ok)

lemma os_seek_ok [os_simps]:
  "faults w = [] \<Longrightarrow> hopen h \<Longrightarrow> 0 \<le> off \<Longrightarrow> os_seek w h off = (True, h\<lparr>hpos := nat off\<rparr>, w)"
  by (simp add: os_seek_def os_call_ok)

lemma os_seek_end_ok [os_simps]:
  "faults w = [] \<Longrightarrow> hopen h \<Longrightarrow> fs w (hpath h) = Some c \<Longrightarrow>
   os_seek_end w h = (True, h\<lparr>hpos := length c\<rparr>, w)"
  by (simp add: os_seek_end_def os_call_ok)

lemma os_truncate_ok [os_simps]:
  "faults w = [] \<Longrightarrow> hopen h \<Longrightarrow> fs w (hpath h) = Some c \<Longrightarrow>
   os_truncate w h = (True, w\<lparr>fs := (fs w)(hpath h \<mapsto> [])\<rparr>)"
  by (simp add: os_truncate_def os_call_ok)

lemma os_sync_ok [os_simps]: "faults w = [] \<Longrightarrow> hopen h \<Longrightarrow> os_sync w h = (True, w)"
  by (simp add: os_sync_def os_call_ok)

lemma os_close_ok [os_simps]:
  "faults w = [] \<Longrightarrow> hopen h \<Longrightarrow> os_close w h = (True, h\<lparr>hopen := False\<rparr>, w)"
  by (simp add: os_close_def os_call_ok)

lemma os_size_ok [os_simps]:
  "faults w = [] \<Longrightarrow> hopen h \<Longrightarrow> fs w (hpath h) = Some c \<Longrightarrow> os_size w h = (Some (length c), w)"
  by (simp add: os_size_def os_call_ok)

lemma os_read_ok [os_simps]:
  "faults w = [] \<Longrightarrow> hopen h \<Longrightarrow> fs w (hpath h) = Some c \<Longrightarrow> hpos h + n \<le> length c \<Longrightarrow>
   os_read w h n = (RData (take n (drop (hpos h) c)), h\<lparr>hpos := hpos h + n\<rparr>, w)"
  by (cases "n = 0") (auto simp: os_read_def os_call_ok Let_def)

lemma os_read_full_ok [os_simps]:
  "faults w = [] \<Longrightarrow> hopen h \<Longrightarrow> fs w (hpath h) = Some c \<Longrightarrow> hpos h + n \<le> length c \<Longrightarrow>
   os_read_full w h n = (RData (take n (drop (hpos h) c)), h\<lparr>hpos := hpos h + n\<rparr>, w)"
  by (simp add: os_read_full_def os_read_ok)

lemma os_open_ok [os_simps]:
  "faults w = [] \<Longrightarrow> fs w p = Some c \<Longrightarrow>
   os_open w p = (Some \<lparr>hpath = p, hpos = 0, hopen = True\<rparr>, w)"
  by (simp add: os_open_def os_call_ok)

lemma os_create_ok [os_simps]:
  "faults w = [] \<Longrightarrow>
   os_create w p = (Some \<lparr>hpath = p, hpos = 0, hopen = True\<rparr>, w\<lparr>fs := (fs w)(p \<mapsto> [])\<rparr>)"
  by (simp add: os_create_def os_call_ok)

lemma os_remove_ok [os_simps]:
  "faults w = [] \<Longrightarrow> fs w p = Some c \<Longrightarrow> os_remove w p = (True, w\<lparr>fs := (fs w)(p := None)\<rparr>)"
  by (simp add: os_remove_def os_call_ok)

lemma os_rename_ok [os_simps]:
  "faults w = [] \<Longrightarrow> fs w p = Some c \<Longrightarrow>
   os_rename w p q = (True, w\<lparr>fs := ((fs w)(q \<mapsto> c))(p := None)\<rparr>)"
  by (simp add: os_rename_def os_call_ok)

subsection \<open>Calls that may fail\<close>

text \<open>At the end of a file, a write appends a prefix of its bytes whatever happens.\<close>

lemma os_write_append:
  assumes "fs w (hpath h) = Some c" "hpos h = length c" "os_write w h bs = (b, h', w')"
  shows "hpath h' = hpath h" "hopen h' = hopen h"
    "\<exists>out. prefix out bs \<and> fs w' = (fs w)(hpath h \<mapsto> c @ out) \<and> hpos h' = length (c @ out)"
proof -
  obtain f w1 where oc: "os_call w = (f, w1)" by force
  then have fs1: "fs w1 = fs w" by simp
  show "hpath h' = hpath h" "hopen h' = hopen h"
    using assms oc fs1 by (auto simp: os_write_def Let_def split: if_splits)
  show "\<exists>out. prefix out bs \<and> fs w' = (fs w)(hpath h \<mapsto> c @ out) \<and> hpos h' = length (c @ out)"
  proof (cases "hopen h")
    case False
    with assms oc fs1 show ?thesis
      by (intro exI [of _ "[]"]) (auto simp: os_write_def fun_upd_idem)
  next
    case True
    with assms oc fs1 show ?thesis
      by (intro exI [of _ "case f of None \<Rightarrow> bs | Some n \<Rightarrow> take n bs"])
        (auto simp: os_write_def Let_def take_is_prefix split: option.splits)
  qed
qed

lemma os_seek_end_frame:
  assumes "os_seek_end w h = (b, h', w')"
  shows "fs w' = fs w" "hpath h' = hpath h" "hopen h' = hopen h"
    "b \<Longrightarrow> fs w (hpath h) = Some c \<Longrightarrow> hpos h' = length c"
  using assms by (auto simp: os_seek_end_def split: prod.splits option.splits if_splits)

lemma os_frames:
  "os_seek w h off = (b, h', w') \<Longrightarrow> fs w' = fs w \<and> hpath h' = hpath h \<and> hopen h' = hopen h"
  "os_sync w h = (b, w') \<Longrightarrow> fs w' = fs w"
  by (auto simp: os_seek_def os_sync_def split: prod.splits if_splits)

end
