(* ===== verification/Simple_DB.thy ===== *)
theory Simple_DB
  imports Kv_Store Os_File "HOL-Library.AList" "HOL-Library.Multiset"
begin

text \<open>
  The log-structured file store, \<^verbatim>\<open>src/pkg/storage/simpledb.go\<close>. A record of the data file is
  the length of the value in four little-endian bytes, the value and the 32-byte key; the
  index maps each key to the offset of its record and is written out as 40-byte entries. Go's
  map is an association list with distinct keys; the order in which \<^verbatim>\<open>range\<close> visits it is the
  parameter \<open>ord\<close>, a function that permutes the entries. A failing call of the operating
  system is a branch of every operation, with the state the code leaves behind.
\<close>

definition KeySize :: nat where
  "KeySize = 32"

definition IndexEntry :: nat where
  "IndexEntry = KeySize + 8"

type_synonym index = "(bytes \<times> int) list"

record SimpleDB =
  dbFile :: handle
  indexFile :: handle
  indexMap :: index
  dbPath :: string
  indexPath :: string

datatype sdb_error =
    ErrKeySize | ErrNotFound
  | ErrOpenDb | ErrOpenIndex | ErrMkdir | ErrCreate | ErrNoDatabase
  | ErrTruncateIndex | ErrSeekIndex | ErrWriteIndexKey | ErrWriteIndexOffset | ErrSyncIndex
  | ErrStatIndex | ErrReadIndexKey | ErrReadIndexOffset
  | ErrSeekEnd | ErrWriteSize | ErrWriteValue | ErrWriteKey
  | ErrSeek | ErrReadSize | ErrReadValue
  | ErrTemp | ErrCloseTemp | ErrCloseDb | ErrCloseIndex | ErrRemove | ErrRename | ErrReopen
  | ErrSaveIndex sdb_error | ErrLoadIndex sdb_error

subsection \<open>The index file\<close>

fun save_entries :: "world \<Rightarrow> handle \<Rightarrow> index \<Rightarrow> sdb_error option \<times> handle \<times> world" where
  "save_entries w h [] = (None, h, w)"
| "save_entries w h ((key, offset) # es) =
     (case os_write w h key of
        (False, h, w) \<Rightarrow> (Some ErrWriteIndexKey, h, w)
      | (True, h, w) \<Rightarrow>
          (case os_write w h (put_le64 (word_of_int offset)) of
             (False, h, w) \<Rightarrow> (Some ErrWriteIndexOffset, h, w)
           | (True, h, w) \<Rightarrow> save_entries w h es))"

definition saveIndex :: "(index \<Rightarrow> index) \<Rightarrow> SimpleDB \<Rightarrow> world \<Rightarrow> sdb_error option \<times> SimpleDB \<times> world" where
  "saveIndex ord db w =
     (case os_truncate w (indexFile db) of
        (False, w) \<Rightarrow> (Some ErrTruncateIndex, db, w)
      | (True, w) \<Rightarrow>
          (case os_seek w (indexFile db) 0 of
             (False, h, w) \<Rightarrow> (Some ErrSeekIndex, db\<lparr>indexFile := h\<rparr>, w)
           | (True, h, w) \<Rightarrow>
               (case save_entries w h (ord (indexMap db)) of
                  (Some e, h, w) \<Rightarrow> (Some e, db\<lparr>indexFile := h\<rparr>, w)
                | (None, h, w) \<Rightarrow>
                    (case os_sync w h of
                       (False, w) \<Rightarrow> (Some ErrSyncIndex, db\<lparr>indexFile := h\<rparr>, w)
                     | (True, w) \<Rightarrow> (None, db\<lparr>indexFile := h\<rparr>, w)))))"

text \<open>The loop of \<^verbatim>\<open>loadIndex\<close> runs once for each started block of 40 bytes.\<close>

fun load_entries :: "nat \<Rightarrow> world \<Rightarrow> handle \<Rightarrow> index \<Rightarrow> sdb_error option \<times> index \<times> handle \<times> world" where
  "load_entries 0 w h m = (None, m, h, w)"
| "load_entries (Suc n) w h m =
     (case os_read w h KeySize of
        (REof, h, w) \<Rightarrow> (None, m, h, w)
      | (RErr, h, w) \<Rightarrow> (Some ErrReadIndexKey, m, h, w)
      | (RData d, h, w) \<Rightarrow>
          (case os_read_full w h 8 of
             (RData o8, h, w) \<Rightarrow>
               load_entries n w h (AList.update (read_buffer KeySize d) (sint (get_le64 o8)) m)
           | (_, h, w) \<Rightarrow> (Some ErrReadIndexOffset, m, h, w)))"

definition loadIndex :: "SimpleDB \<Rightarrow> world \<Rightarrow> sdb_error option \<times> SimpleDB \<times> world" where
  "loadIndex db w =
     (case os_size w (indexFile db) of
        (None, w) \<Rightarrow> (Some ErrStatIndex, db, w)
      | (Some fileSize, w) \<Rightarrow>
          (case os_seek w (indexFile db) 0 of
             (False, h, w) \<Rightarrow> (Some ErrSeekIndex, db\<lparr>indexFile := h\<rparr>, w)
           | (True, h, w) \<Rightarrow>
               (case load_entries ((fileSize + IndexEntry - 1) div IndexEntry) w h (indexMap db) of
                  (e, m, h, w) \<Rightarrow> (e, db\<lparr>indexFile := h, indexMap := m\<rparr>, w))))"

subsection \<open>Opening and closing\<close>

definition sdb_Open :: "string \<Rightarrow> string \<Rightarrow> world \<Rightarrow> (sdb_error + SimpleDB) \<times> world" where
  "sdb_Open dbp ixp w =
     (case os_open w dbp of
        (None, w) \<Rightarrow> (Inl ErrOpenDb, w)
      | (Some f, w) \<Rightarrow>
          (case os_open w ixp of
             (None, w) \<Rightarrow> (Inl ErrOpenIndex, w)
           | (Some g, w) \<Rightarrow>
               (case loadIndex \<lparr>dbFile = f, indexFile = g, indexMap = [], dbPath = dbp, indexPath = ixp\<rparr> w of
                  (Some e, db, w) \<Rightarrow> (Inl (ErrLoadIndex e), w)
                | (None, db, w) \<Rightarrow> (Inr db, w))))"

definition sdb_Close :: "(index \<Rightarrow> index) \<Rightarrow> SimpleDB \<Rightarrow> world \<Rightarrow> sdb_error option \<times> SimpleDB \<times> world" where
  "sdb_Close ord db w =
     (case saveIndex ord db w of
        (Some e, db, w) \<Rightarrow> (Some (ErrSaveIndex e), db, w)
      | (None, db, w) \<Rightarrow>
          (case os_close w (dbFile db) of
             (False, f, w) \<Rightarrow> (Some ErrCloseDb, db\<lparr>dbFile := f\<rparr>, w)
           | (True, f, w) \<Rightarrow>
               (case os_close w (indexFile db) of
                  (False, g, w) \<Rightarrow> (Some ErrCloseIndex, db\<lparr>dbFile := f, indexFile := g\<rparr>, w)
                | (True, g, w) \<Rightarrow> (None, db\<lparr>dbFile := f, indexFile := g\<rparr>, w))))"

subsection \<open>Writing\<close>

text \<open>Seek to the end, then size, value and key: the same code in \<^verbatim>\<open>Put\<close> and in the loop of
  \<^verbatim>\<open>BatchPut\<close>. The result carries the offset of the record.\<close>

definition append_record ::
    "world \<Rightarrow> handle \<Rightarrow> bytes \<Rightarrow> bytes \<Rightarrow> (sdb_error + int) \<times> handle \<times> world" where
  "append_record w f key v =
     (case os_seek_end w f of
        (False, f, w) \<Rightarrow> (Inl ErrSeekEnd, f, w)
      | (True, f, w) \<Rightarrow>
          let offset = int (hpos f) in
          (case os_write w f (put_le32 (word_of_nat (length v))) of
             (False, f, w) \<Rightarrow> (Inl ErrWriteSize, f, w)
           | (True, f, w) \<Rightarrow>
               (case os_write w f v of
                  (False, f, w) \<Rightarrow> (Inl ErrWriteValue, f, w)
                | (True, f, w) \<Rightarrow>
                    (case os_write w f key of
                       (False, f, w) \<Rightarrow> (Inl ErrWriteKey, f, w)
                     | (True, f, w) \<Rightarrow> (Inr offset, f, w)))))"

definition sdb_Put ::
    "(index \<Rightarrow> index) \<Rightarrow> bytes \<Rightarrow> bytes \<Rightarrow> SimpleDB \<Rightarrow> world \<Rightarrow> sdb_error option \<times> SimpleDB \<times> world" where
  "sdb_Put ord key v db w =
     (if length key \<noteq> KeySize then (Some ErrKeySize, db, w)
      else
        let db = db\<lparr>indexMap := AList.delete key (indexMap db)\<rparr> in
        (case append_record w (dbFile db) key v of
           (Inl e, f, w) \<Rightarrow> (Some e, db\<lparr>dbFile := f\<rparr>, w)
         | (Inr offset, f, w) \<Rightarrow>
             (case saveIndex ord
                     (db\<lparr>dbFile := f, indexMap := AList.update key offset (indexMap db)\<rparr>) w of
                (Some e, db, w) \<Rightarrow> (Some (ErrSaveIndex e), db, w)
              | (None, db, w) \<Rightarrow> (None, db, w))))"

fun batch_loop ::
    "(bytes \<times> bytes) list \<Rightarrow> SimpleDB \<Rightarrow> world \<Rightarrow> sdb_error option \<times> SimpleDB \<times> world" where
  "batch_loop [] db w = (None, db, w)"
| "batch_loop ((key, v) # kvs) db w =
     (if length key \<noteq> KeySize then (Some ErrKeySize, db, w)
      else case append_record w (dbFile db) key v of
        (Inl e, f, w) \<Rightarrow> (Some e, db\<lparr>dbFile := f\<rparr>, w)
      | (Inr offset, f, w) \<Rightarrow>
          batch_loop kvs (db\<lparr>dbFile := f, indexMap := AList.update key offset (indexMap db)\<rparr>) w)"

text \<open>\<^verbatim>\<open>BatchPut\<close> ignores the error of \<^verbatim>\<open>saveIndex\<close>.\<close>

definition sdb_BatchPut ::
    "(index \<Rightarrow> index) \<Rightarrow> (bytes \<times> bytes) list \<Rightarrow> SimpleDB \<Rightarrow> world \<Rightarrow> sdb_error option \<times> SimpleDB \<times> world" where
  "sdb_BatchPut ord kvs db w =
     (case batch_loop kvs db w of
        (Some e, db, w) \<Rightarrow> (Some e, db, w)
      | (None, db, w) \<Rightarrow> (case saveIndex ord db w of (_, db, w) \<Rightarrow> (None, db, w)))"

definition sdb_Delete :: "bytes \<Rightarrow> SimpleDB \<Rightarrow> sdb_error option \<times> SimpleDB" where
  "sdb_Delete key db =
     (if length key \<noteq> KeySize then (Some ErrKeySize, db)
      else (None, db\<lparr>indexMap := AList.delete key (indexMap db)\<rparr>))"

subsection \<open>Reading\<close>

text \<open>The size and the value of the record at the current position of a file.\<close>

definition read_record :: "world \<Rightarrow> handle \<Rightarrow> (sdb_error + bytes) \<times> handle \<times> world" where
  "read_record w f =
     (case os_read_full w f 4 of
        (RData d, f, w) \<Rightarrow>
          let n = unat (get_le32 d) in
          (case os_read w f n of
             (RData v, f, w) \<Rightarrow> (Inr (read_buffer n v), f, w)
           | (_, f, w) \<Rightarrow> (Inl ErrReadValue, f, w))
      | (_, f, w) \<Rightarrow> (Inl ErrReadSize, f, w))"

definition sdb_Get :: "bytes \<Rightarrow> SimpleDB \<Rightarrow> world \<Rightarrow> (sdb_error + bytes) \<times> SimpleDB \<times> world" where
  "sdb_Get key db w =
     (if length key \<noteq> KeySize then (Inl ErrKeySize, db, w)
      else case map_of (indexMap db) key of
        None \<Rightarrow> (Inl ErrNotFound, db, w)
      | Some offset \<Rightarrow>
          (case os_seek w (dbFile db) offset of
             (False, f, w) \<Rightarrow> (Inl ErrSeek, db\<lparr>dbFile := f\<rparr>, w)
           | (True, f, w) \<Rightarrow>
               (case read_record w f of (r, f, w) \<Rightarrow> (r, db\<lparr>dbFile := f\<rparr>, w))))"

subsection \<open>Compaction\<close>

text \<open>The loop over the index: each live record is read from the old file and appended to the
  temporary file; the new index collects the new offsets.\<close>

fun compact_loop ::
    "index \<Rightarrow> handle \<Rightarrow> handle \<Rightarrow> index \<Rightarrow> world \<Rightarrow> (sdb_error + index) \<times> handle \<times> handle \<times> world" where
  "compact_loop [] f t m w = (Inr m, f, t, w)"
| "compact_loop ((key, offset) # es) f t m w =
     (case os_seek w f offset of
        (False, f, w) \<Rightarrow> (Inl ErrSeek, f, t, w)
      | (True, f, w) \<Rightarrow>
          (case read_record w f of
             (Inl e, f, w) \<Rightarrow> (Inl e, f, t, w)
           | (Inr v, f, w) \<Rightarrow>
               (case append_record w t key v of
                  (Inl e, t, w) \<Rightarrow> (Inl e, f, t, w)
                | (Inr newOffset, t, w) \<Rightarrow>
                    compact_loop es f t (AList.update key newOffset m) w)))"

text \<open>The temporary file takes the place of the data file: it is closed, the data file is closed
  and removed, the temporary file renamed and opened. A failure after the data file is closed
  leaves a database whose data file is closed.\<close>

definition swap_files :: "SimpleDB \<Rightarrow> handle \<Rightarrow> string \<Rightarrow> world \<Rightarrow> sdb_error option \<times> handle \<times> world" where
  "swap_files db t tmp w =
     (case os_close w t of
        (False, t, w) \<Rightarrow> (Some ErrCloseTemp, dbFile db, w)
      | (True, t, w) \<Rightarrow>
          (case os_close w (dbFile db) of
             (False, f, w) \<Rightarrow> (Some ErrCloseDb, f, w)
           | (True, f, w) \<Rightarrow>
               (case os_remove w (dbPath db) of
                  (False, w) \<Rightarrow> (Some ErrRemove, f, w)
                | (True, w) \<Rightarrow>
                    (case os_rename w tmp (dbPath db) of
                       (False, w) \<Rightarrow> (Some ErrRename, f, w)
                     | (True, w) \<Rightarrow>
                         (case os_open w (dbPath db) of
                            (None, w) \<Rightarrow> (Some ErrReopen, f, w)
                          | (Some f', w) \<Rightarrow> (None, f', w))))))"

definition sdb_Compact :: "(index \<Rightarrow> index) \<Rightarrow> SimpleDB \<Rightarrow> world \<Rightarrow> sdb_error option \<times> SimpleDB \<times> world" where
  "sdb_Compact ord db w =
     (let tmp = dbPath db @ ''.tmp'' in
      case os_create w tmp of
        (None, w) \<Rightarrow> (Some ErrTemp, db, w)
      | (Some t, w) \<Rightarrow>
          (case compact_loop (ord (indexMap db)) (dbFile db) t [] w of
             (Inl e, f, t, w) \<Rightarrow> (Some e, db\<lparr>dbFile := f\<rparr>, w)
           | (Inr m, f, t, w) \<Rightarrow>
               (case swap_files (db\<lparr>dbFile := f\<rparr>) t tmp w of
                  (Some e, f, w) \<Rightarrow> (Some e, db\<lparr>dbFile := f\<rparr>, w)
                | (None, f, w) \<Rightarrow>
                    (case saveIndex ord (db\<lparr>dbFile := f, indexMap := m\<rparr>) w of
                       (Some e, db, w) \<Rightarrow> (Some (ErrSaveIndex e), db, w)
                     | (None, db, w) \<Rightarrow> (None, db, w)))))"

subsection \<open>The manager\<close>

type_synonym manager = "(string \<times> SimpleDB) list"

definition NewSimpleDBManager :: manager where
  "NewSimpleDBManager = []"

definition ensure_file :: "string \<Rightarrow> world \<Rightarrow> sdb_error option \<times> world" where
  "ensure_file p w =
     (case os_not_exist w p of
        (False, w) \<Rightarrow> (None, w)
      | (True, w) \<Rightarrow>
          (case os_create w p of
             (None, w) \<Rightarrow> (Some ErrCreate, w)
           | (Some h, w) \<Rightarrow> (case os_close w h of (_, _, w) \<Rightarrow> (None, w))))"

definition GetOrCreate :: "string \<Rightarrow> manager \<Rightarrow> world \<Rightarrow> (sdb_error + SimpleDB) \<times> manager \<times> world" where
  "GetOrCreate basePath mgr w =
     (case map_of mgr basePath of
        Some db \<Rightarrow> (Inr db, mgr, w)
      | None \<Rightarrow>
          let ixp = basePath @ ''_index'' in
          (case os_mkdir_all w of
             (False, w) \<Rightarrow> (Inl ErrMkdir, mgr, w)
           | (True, w) \<Rightarrow>
               (case os_mkdir_all w of
                  (False, w) \<Rightarrow> (Inl ErrMkdir, mgr, w)
                | (True, w) \<Rightarrow>
                    (case ensure_file basePath w of
                       (Some e, w) \<Rightarrow> (Inl e, mgr, w)
                     | (None, w) \<Rightarrow>
                         (case ensure_file ixp w of
                            (Some e, w) \<Rightarrow> (Inl e, mgr, w)
                          | (None, w) \<Rightarrow>
                              (case sdb_Open basePath ixp w of
                                 (Inl e, w) \<Rightarrow> (Inl e, mgr, w)
                               | (Inr db, w) \<Rightarrow> (Inr db, AList.update basePath db mgr, w)))))))"

definition mgr_Close ::
    "(index \<Rightarrow> index) \<Rightarrow> string \<Rightarrow> manager \<Rightarrow> world \<Rightarrow> sdb_error option \<times> manager \<times> world" where
  "mgr_Close ord basePath mgr w =
     (case map_of mgr basePath of
        None \<Rightarrow> (Some ErrNoDatabase, mgr, w)
      | Some db \<Rightarrow>
          (case sdb_Close ord db w of
             (Some e, db, w) \<Rightarrow> (Some e, AList.update basePath db mgr, w)
           | (None, db, w) \<Rightarrow> (None, AList.delete basePath mgr, w)))"

text \<open>\<^verbatim>\<open>CloseAll\<close> visits the databases in the order \<open>todo\<close> and stops at the first error.\<close>

fun CloseAll ::
    "(index \<Rightarrow> index) \<Rightarrow> (string \<times> SimpleDB) list \<Rightarrow> manager \<Rightarrow> world \<Rightarrow> sdb_error option \<times> manager \<times> world" where
  "CloseAll ord [] mgr w = (None, [], w)"
| "CloseAll ord ((basePath, db) # todo) mgr w =
     (case sdb_Close ord db w of
        (Some e, db, w) \<Rightarrow> (Some e, AList.update basePath db mgr, w)
      | (None, db, w) \<Rightarrow> CloseAll ord todo (AList.update basePath db mgr) w)"

end
