(* ===== verification/Simple_DB_Proofs.thy ===== *)
theory Simple_DB_Proofs
  imports Simple_DB
begin

text \<open>
  Correctness of the file store: the invariant of the data file and the index, the map a
  database stands for, and that each operation keeps the invariant and changes the map as
  its name says, also when calls of the operating system fail.
\<close>

subsection \<open>Records in a file\<close>

definition rec_size :: "bytes \<Rightarrow> nat \<Rightarrow> nat" where
  "rec_size c off = unat (get_le32 (take 4 (drop off c)))"

definition rec_ok :: "bytes \<Rightarrow> int \<Rightarrow> bool" where
  "rec_ok c off \<longleftrightarrow> 0 \<le> off \<and> nat off + 4 \<le> length c \<and> nat off + 4 + rec_size c (nat off) \<le> length c"

definition rec_value :: "bytes \<Rightarrow> int \<Rightarrow> bytes" where
  "rec_value c off = take (rec_size c (nat off)) (drop (nat off + 4) c)"

definition record_bytes :: "bytes \<Rightarrow> bytes \<Rightarrow> bytes" where
  "record_bytes key v = put_le32 (word_of_nat (length v)) @ v @ key"

lemma rec_append:
  assumes "rec_ok c off"
  shows "rec_ok (c @ d) off" "rec_value (c @ d) off = rec_value c off"
proof -
  have "rec_size (c @ d) (nat off) = rec_size c (nat off)"
    using assms by (simp add: rec_size_def rec_ok_def)
  with assms show "rec_ok (c @ d) off" "rec_value (c @ d) off = rec_value c off"
    by (auto simp: rec_ok_def rec_value_def)
qed

lemma unat_length: "length v < 2 ^ 32 \<Longrightarrow> unat (word_of_nat (length v) :: u32) = length v"
  by (simp add: unat_of_nat)

lemma rec_new:
  assumes "length v < 2 ^ 32"
  shows "rec_ok (c @ record_bytes key v) (int (length c))"
    "rec_value (c @ record_bytes key v) (int (length c)) = v"
proof -
  have "rec_size (c @ record_bytes key v) (length c) = length v"
    using get_put_le32 [of "word_of_nat (length v)" "[]"] assms
    by (simp add: rec_size_def record_bytes_def unat_length)
  then show "rec_ok (c @ record_bytes key v) (int (length c))"
    "rec_value (c @ record_bytes key v) (int (length c)) = v"
    by (simp_all add: rec_ok_def rec_value_def record_bytes_def)
qed

subsection \<open>The invariant and the view\<close>

definition content :: "SimpleDB \<Rightarrow> world \<Rightarrow> bytes" where
  "content db w = the (fs w (dbPath db))"

definition files_ok :: "SimpleDB \<Rightarrow> world \<Rightarrow> bool" where
  "files_ok db w \<longleftrightarrow> hopen (dbFile db) \<and> hopen (indexFile db) \<and>
     hpath (dbFile db) = dbPath db \<and> hpath (indexFile db) = indexPath db \<and>
     dbPath db \<noteq> indexPath db \<and> dbPath db @ ''.tmp'' \<noteq> indexPath db \<and>
     fs w (dbPath db) \<noteq> None \<and> fs w (indexPath db) \<noteq> None"

definition index_ok :: "index \<Rightarrow> bytes \<Rightarrow> bool" where
  "index_ok m c \<longleftrightarrow> distinct (map fst m) \<and>
     (\<forall>k off. map_of m k = Some off \<longrightarrow> length k = KeySize \<and> rec_ok c off)"

definition sdb_inv :: "SimpleDB \<Rightarrow> world \<Rightarrow> bool" where
  "sdb_inv db w \<longleftrightarrow> files_ok db w \<and> index_ok (indexMap db) (content db w)"

definition sdb_view :: "SimpleDB \<Rightarrow> world \<Rightarrow> bytes \<Rightarrow> bytes option" where
  "sdb_view db w k = map_option (rec_value (content db w)) (map_of (indexMap db) k)"

lemma index_ok_append: "index_ok m c \<Longrightarrow> index_ok m (c @ d)"
  by (auto simp: index_ok_def rec_append)

lemma index_ok_delete: "index_ok m c \<Longrightarrow> index_ok (AList.delete k m) c"
  by (auto simp: index_ok_def AList.delete_conv' intro: distinct_delete split: if_splits)

lemma index_ok_update:
  "index_ok m c \<Longrightarrow> length k = KeySize \<Longrightarrow> rec_ok c off \<Longrightarrow> index_ok (AList.update k off m) c"
  by (auto simp: index_ok_def update_conv' intro: distinct_update split: if_splits)

subsection \<open>What the building blocks do, with and without faults\<close>

lemma save_entries_frame:
  "save_entries w h es = (e, h', w') \<Longrightarrow>
   hpath h' = hpath h \<and> hopen h' = hopen h \<and> (\<forall>p. p \<noteq> hpath h \<longrightarrow> fs w' p = fs w p) \<and>
   (fs w (hpath h) \<noteq> None \<longrightarrow> fs w' (hpath h) \<noteq> None)"
proof (induction w h es rule: save_entries.induct)
  case (2 w h key offset es)
  have wr: "hpath h2 = hpath h1 \<and> hopen h2 = hopen h1 \<and> (\<forall>p. p \<noteq> hpath h1 \<longrightarrow> fs w2 p = fs w1 p) \<and>
    (fs w1 (hpath h1) \<noteq> None \<longrightarrow> fs w2 (hpath h1) \<noteq> None)"
    if "os_write w1 h1 bs = (b, h2, w2)" for w1 h1 bs b h2 w2
    using that by (auto simp: os_write_def Let_def split: prod.splits if_splits option.splits)
  from 2 show ?case
    by (auto split: prod.splits bool.splits dest!: wr)
qed simp

lemma saveIndex_frame:
  assumes "saveIndex ord db w = (e, db', w')" "files_ok db w"
  shows "files_ok db' w'" "content db' w' = content db w" "indexMap db' = indexMap db"
    "dbFile db' = dbFile db" "dbPath db' = dbPath db" "indexPath db' = indexPath db"
proof -
  have "\<exists>h. db' = db\<lparr>indexFile := h\<rparr> \<and> hopen h = hopen (indexFile db) \<and>
      hpath h = hpath (indexFile db) \<and> (\<forall>p. p \<noteq> hpath (indexFile db) \<longrightarrow> fs w' p = fs w p) \<and>
      fs w' (hpath (indexFile db)) \<noteq> None"
  proof (cases "os_truncate w (indexFile db)")
    case (Pair b w1)
    then have tr: "\<forall>p. p \<noteq> hpath (indexFile db) \<longrightarrow> fs w1 p = fs w p"
      "fs w1 (hpath (indexFile db)) \<noteq> None"
      using assms(2) by (auto simp: os_truncate_def files_ok_def split: prod.splits if_splits)
    show ?thesis
    proof (cases b)
      case False
      with Pair tr assms(1) show ?thesis
        by (intro exI [of _ "indexFile db"]) (auto simp: saveIndex_def)
    next
      case True
      with Pair tr assms(1) show ?thesis
        by (auto simp: saveIndex_def split: prod.splits bool.splits option.splits
            dest!: os_frames save_entries_frame)
    qed
  qed
  with assms(2) show "files_ok db' w'" "content db' w' = content db w" "indexMap db' = indexMap db"
    "dbFile db' = dbFile db" "dbPath db' = dbPath db" "indexPath db' = indexPath db"
    by (auto simp: files_ok_def content_def)
qed

text \<open>An append adds a prefix of the record to the file, the whole of it when it succeeds.\<close>

lemma append_record_frame:
  assumes "append_record w f key v = (r, f', w')" "fs w (hpath f) = Some c"
  shows "hpath f' = hpath f \<and> hopen f' = hopen f \<and>
    (\<exists>out. fs w' = (fs w)(hpath f \<mapsto> c @ out) \<and>
      (\<forall>off. r = Inr off \<longrightarrow> off = int (length c) \<and> out = record_bytes key v))"
proof -
  obtain b0 f0 w0 where s: "os_seek_end w f = (b0, f0, w0)" by (metis prod_cases3)
  note s0 = os_seek_end_frame [OF s]
  show ?thesis
  proof (cases b0)
    case False
    with s s0 assms show ?thesis
      by (auto simp: append_record_def intro!: exI [of _ "[]"])
  next
    case True
    let ?sz = "put_le32 (word_of_nat (length v))"
    have at0: "fs w0 (hpath f0) = Some c" "hpos f0 = length c" using s0 True assms by auto
    obtain b1 f1 w1 where w1: "os_write w0 f0 ?sz = (b1, f1, w1)" by (metis prod_cases3)
    note a1 = os_write_append [OF at0 w1]
    then obtain o1 where o1: "fs w1 = (fs w0)(hpath f0 \<mapsto> c @ o1)" "hpos f1 = length (c @ o1)"
      by blast
    then have at1: "fs w1 (hpath f1) = Some (c @ o1)" using a1 by simp
    obtain b2 f2 w2 where w2: "os_write w1 f1 v = (b2, f2, w2)" by (metis prod_cases3)
    note a2 = os_write_append [OF at1 o1(2) w2]
    then obtain o2 where o2: "fs w2 = (fs w1)(hpath f1 \<mapsto> (c @ o1) @ o2)"
      "hpos f2 = length ((c @ o1) @ o2)" by blast
    then have at2: "fs w2 (hpath f2) = Some ((c @ o1) @ o2)" using a2 by simp
    obtain b3 f3 w3 where w3: "os_write w2 f2 key = (b3, f3, w3)" by (metis prod_cases3)
    note a3 = os_write_append [OF at2 o2(2) w3]
    then obtain o3 where o3: "fs w3 = (fs w2)(hpath f2 \<mapsto> ((c @ o1) @ o2) @ o3)" by blast
    have full: "b \<Longrightarrow> os_write u h bs = (b, h', u') \<Longrightarrow> fs u (hpath h) = Some d \<Longrightarrow>
      hpos h = length d \<Longrightarrow> fs u' (hpath h) = Some (d @ bs)" for b u h bs h' u' d
      by (auto simp: os_write_def Let_def split: prod.splits if_splits option.splits)
    have e1: "b1 \<Longrightarrow> o1 = ?sz" using full [OF _ w1 at0] o1 by simp
    have e2: "b2 \<Longrightarrow> o2 = v" using full [OF _ w2 at1 o1(2)] o2 a1 by simp
    have e3: "b3 \<Longrightarrow> o3 = key" using full [OF _ w3 at2 o2(2)] o3 a2 by simp
    consider "\<not> b1" | "b1" "\<not> b2" | "b1" "b2" by blast
    then show ?thesis
    proof cases
      case 1
      then show ?thesis
        using assms s s0 True w1 a1 o1 by (auto simp: append_record_def intro!: exI [of _ o1])
    next
      case 2
      then show ?thesis
        using assms s s0 True w1 a1 o1 w2 a2 o2
        by (auto simp: append_record_def intro!: exI [of _ "o1 @ o2"])
    next
      case 3
      then show ?thesis
        using assms s s0 True w1 a1 o1 w2 a2 o2 w3 a3 o3 e1 e2 e3
        by (cases b3) (auto simp: append_record_def record_bytes_def intro!: exI [of _ "o1 @ o2 @ o3"])
    qed
  qed
qed

lemma append_record_ok:
  assumes "faults w = []" "hopen f" "fs w (hpath f) = Some c"
  shows "append_record w f key v = (Inr (int (length c)),
    f\<lparr>hpos := length (c @ record_bytes key v)\<rparr>, w\<lparr>fs := (fs w)(hpath f \<mapsto> c @ record_bytes key v)\<rparr>)"
proof -
  have ow: "overwrite (c @ d) (length c + length d) bs = (c @ d) @ bs" for d bs
    using overwrite_end [of "c @ d" bs] by simp
  show ?thesis
    using assms ow [of "put_le32 (word_of_nat (length v))" v]
      ow [of "put_le32 (word_of_nat (length v)) @ v" key]
    by (simp add: append_record_def os_simps record_bytes_def add.assoc)
qed

lemma read_record_ok:
  assumes "faults w = []" "hopen f" "fs w (hpath f) = Some c" "rec_ok c (int (hpos f))"
  shows "\<exists>n. read_record w f = (Inr (rec_value c (int (hpos f))), f\<lparr>hpos := n\<rparr>, w)"
proof -
  let ?n = "rec_size c (hpos f)" and ?f = "f\<lparr>hpos := hpos f + 4\<rparr>"
  have bounds: "hpos f + 4 \<le> length c" "hpos f + 4 + ?n \<le> length c"
    using assms(4) by (simp_all add: rec_ok_def)
  then have r4: "os_read_full w f 4 = (RData (take 4 (drop (hpos f) c)), ?f, w)"
    using assms by (simp add: os_simps)
  have rv: "os_read w ?f ?n = (RData (take ?n (drop (hpos f + 4) c)), ?f\<lparr>hpos := hpos f + 4 + ?n\<rparr>, w)"
    using assms bounds os_read_ok [of w ?f c ?n] by simp
  have "length (take ?n (drop (hpos f + 4) c)) = ?n" using bounds by simp
  then show ?thesis
    using r4 rv by (intro exI [of _ "hpos f + 4 + ?n"])
      (simp add: read_record_def rec_size_def [symmetric] read_buffer_def rec_value_def Let_def)
qed

lemma sdb_Get_ok:
  assumes "sdb_inv db w" "faults w = []"
  shows "\<exists>n. sdb_Get key db w =
    (if length key \<noteq> KeySize then Inl ErrKeySize
     else case sdb_view db w key of None \<Rightarrow> Inl ErrNotFound | Some v \<Rightarrow> Inr v,
     db\<lparr>dbFile := dbFile db\<lparr>hpos := n\<rparr>\<rparr>, w)"
proof (cases "length key = KeySize")
  case False
  then show ?thesis by (intro exI [of _ "hpos (dbFile db)"]) (simp add: sdb_Get_def)
next
  case len: True
  show ?thesis
  proof (cases "map_of (indexMap db) key")
    case None
    with len show ?thesis
      by (intro exI [of _ "hpos (dbFile db)"]) (simp add: sdb_Get_def sdb_view_def)
  next
    case (Some off)
    let ?c = "content db w" and ?f = "dbFile db\<lparr>hpos := nat off\<rparr>"
    have ok: "hopen ?f" "fs w (hpath ?f) = Some ?c" "rec_ok ?c off"
      using assms(1) Some by (auto simp: sdb_inv_def files_ok_def index_ok_def content_def)
    then have "0 \<le> off" by (simp add: rec_ok_def)
    then have "os_seek w (dbFile db) off = (True, ?f, w)"
      using assms ok by (simp add: os_simps)
    moreover obtain n where "read_record w ?f = (Inr (rec_value ?c off), ?f\<lparr>hpos := n\<rparr>, w)"
      using read_record_ok [OF assms(2) ok(1,2)] ok(3) \<open>0 \<le> off\<close> by auto
    ultimately show ?thesis
      using len Some by (intro exI [of _ n]) (simp add: sdb_Get_def sdb_view_def)
  qed
qed

lemma sdb_inv_pos [simp]:
  "sdb_inv (db\<lparr>dbFile := dbFile db\<lparr>hpos := n\<rparr>\<rparr>) w = sdb_inv db w"
  "sdb_view (db\<lparr>dbFile := dbFile db\<lparr>hpos := n\<rparr>\<rparr>) w = sdb_view db w"
  by (simp_all add: sdb_inv_def files_ok_def content_def sdb_view_def fun_eq_iff)

subsection \<open>Put and BatchPut\<close>

text \<open>Appending to the data file keeps every record that the index knows.\<close>

lemma append_keeps:
  assumes inv: "sdb_inv db w"
    and f: "hpath f = hpath (dbFile db)" "hopen f = hopen (dbFile db)"
    and fs: "fs w' = (fs w)(hpath (dbFile db) \<mapsto> content db w @ out)"
  shows "sdb_inv (db\<lparr>dbFile := f\<rparr>) w'" "sdb_view (db\<lparr>dbFile := f\<rparr>) w' = sdb_view db w"
    "content (db\<lparr>dbFile := f\<rparr>) w' = content db w @ out"
proof -
  have path: "hpath (dbFile db) = dbPath db" using inv by (simp add: sdb_inv_def files_ok_def)
  show c: "content (db\<lparr>dbFile := f\<rparr>) w' = content db w @ out"
    using fs path by (simp add: content_def)
  show "sdb_inv (db\<lparr>dbFile := f\<rparr>) w'"
    using inv f fs c path by (auto simp: sdb_inv_def files_ok_def intro: index_ok_append)
  show "sdb_view (db\<lparr>dbFile := f\<rparr>) w' = sdb_view db w"
  proof
    fix k
    show "sdb_view (db\<lparr>dbFile := f\<rparr>) w' k = sdb_view db w k"
      using inv by (cases "map_of (indexMap db) k")
        (auto simp: sdb_view_def c sdb_inv_def index_ok_def rec_append)
  qed
qed

lemma update_keeps:
  assumes inv: "sdb_inv db w" and "length key = KeySize" "rec_ok (content db w) off"
  shows "sdb_inv (db\<lparr>indexMap := AList.update key off (indexMap db)\<rparr>) w"
    "sdb_view (db\<lparr>indexMap := AList.update key off (indexMap db)\<rparr>) w =
       (sdb_view db w)(key \<mapsto> rec_value (content db w) off)"
  using assms index_ok_update [of "indexMap db" "content db w" key off]
  by (simp_all add: sdb_inv_def files_ok_def content_def sdb_view_def update_conv' fun_eq_iff)

lemma delete_keeps:
  assumes "sdb_inv db w"
  shows "sdb_inv (db\<lparr>indexMap := AList.delete key (indexMap db)\<rparr>) w"
    "sdb_view (db\<lparr>indexMap := AList.delete key (indexMap db)\<rparr>) w = (sdb_view db w)(key := None)"
  using assms index_ok_delete [of "indexMap db" "content db w" key]
  by (simp_all add: sdb_inv_def files_ok_def content_def sdb_view_def AList.delete_conv' fun_eq_iff)

text \<open>One record of \<^verbatim>\<open>Put\<close> or \<^verbatim>\<open>BatchPut\<close>, in a world with or without faults.\<close>

lemma append_record_step:
  assumes inv: "sdb_inv db w" and len: "length key = KeySize" "length v < 2 ^ 32"
    and step: "append_record w (dbFile db) key v = (r, f, w')"
  shows "case r of
      Inl e \<Rightarrow> sdb_inv (db\<lparr>dbFile := f\<rparr>) w' \<and> sdb_view (db\<lparr>dbFile := f\<rparr>) w' = sdb_view db w
    | Inr off \<Rightarrow>
        let db' = db\<lparr>dbFile := f, indexMap := AList.update key off (indexMap db)\<rparr> in
        sdb_inv db' w' \<and> sdb_view db' w' = (sdb_view db w)(key \<mapsto> v)"
proof -
  have c: "fs w (hpath (dbFile db)) = Some (content db w)"
    using inv by (auto simp: sdb_inv_def files_ok_def content_def)
  obtain out where o: "hpath f = hpath (dbFile db)" "hopen f = hopen (dbFile db)"
    "fs w' = (fs w)(hpath (dbFile db) \<mapsto> content db w @ out)"
    "\<forall>off. r = Inr off \<longrightarrow> off = int (length (content db w)) \<and> out = record_bytes key v"
    using append_record_frame [OF step c] by blast
  note keep = append_keeps [OF inv o(1-3)]
  show ?thesis
  proof (cases r)
    case (Inl e)
    with keep show ?thesis by simp
  next
    case (Inr off)
    with o(4) have off: "off = int (length (content db w))" "out = record_bytes key v" by auto
    have "rec_ok (content (db\<lparr>dbFile := f\<rparr>) w') off" "rec_value (content (db\<lparr>dbFile := f\<rparr>) w') off = v"
      unfolding keep(3) off by (rule rec_new [OF len(2)])+
    with update_keeps [OF keep(1) len(1)] keep(2) Inr show ?thesis by simp
  qed
qed

lemma saveIndex_keeps:
  assumes "saveIndex ord db w = (e, db', w')" "sdb_inv db w"
  shows "sdb_inv db' w' \<and> sdb_view db' w' = sdb_view db w"
proof -
  have "files_ok db w" using assms(2) by (simp add: sdb_inv_def)
  note fr = saveIndex_frame [OF assms(1) this]
  from fr assms(2) show ?thesis by (simp add: sdb_inv_def sdb_view_def fun_eq_iff)
qed

lemma sdb_Put_spec:
  assumes inv: "sdb_inv db w" and len: "length key = KeySize" "length v < 2 ^ 32"
    and put: "sdb_Put ord key v db w = (e, db', w')"
  shows "sdb_inv db' w' \<and>
    (sdb_view db' w' = (sdb_view db w)(key \<mapsto> v) \<or> e \<noteq> None \<and> sdb_view db' w' = (sdb_view db w)(key := None))"
proof -
  let ?db = "db\<lparr>indexMap := AList.delete key (indexMap db)\<rparr>"
  note del = delete_keeps [OF inv, of key]
  obtain r f w1 where step: "append_record w (dbFile ?db) key v = (r, f, w1)" by (metis prod_cases3)
  note st = append_record_step [OF del(1) len step]
  show ?thesis
  proof (cases r)
    case (Inl x)
    with put step len have "e = Some x" "db' = ?db\<lparr>dbFile := f\<rparr>" "w' = w1"
      by (auto simp: sdb_Put_def)
    with st Inl del(2) show ?thesis by simp
  next
    case (Inr off)
    let ?db2 = "?db\<lparr>dbFile := f, indexMap := AList.update key off (indexMap ?db)\<rparr>"
    obtain e2 where "saveIndex ord ?db2 w1 = (e2, db', w')"
      using put step len Inr by (auto simp: sdb_Put_def split: prod.splits option.splits)
    from saveIndex_keeps [OF this] st Inr del(2) show ?thesis by (simp add: Let_def)
  qed
qed

lemma batch_loop_spec:
  assumes "sdb_inv db w" "\<forall>(k, v) \<in> set kvs. length k = KeySize \<and> length v < 2 ^ 32"
    "batch_loop kvs db w = (e, db', w')"
  shows "\<exists>done. prefix done kvs \<and> (e = None \<longrightarrow> done = kvs) \<and> sdb_inv db' w' \<and>
    sdb_view db' w' = sdb_view db w ++ writes Some done"
  using assms
proof (induction kvs arbitrary: db w)
  case Nil
  then show ?case by (intro exI [of _ "[]"]) simp
next
  case (Cons kv kvs)
  obtain key v where kv: "kv = (key, v)" by force
  have len: "length key = KeySize" "length v < 2 ^ 32" using Cons.prems(2) kv by auto
  obtain r f w1 where step: "append_record w (dbFile db) key v = (r, f, w1)" by (metis prod_cases3)
  note st = append_record_step [OF Cons.prems(1) len step]
  show ?case
  proof (cases r)
    case (Inl x)
    with Cons.prems(3) kv step len have "db' = db\<lparr>dbFile := f\<rparr>" "w' = w1" "e = Some x" by auto
    with st Inl show ?thesis by (intro exI [of _ "[]"]) simp
  next
    case (Inr off)
    let ?db = "db\<lparr>dbFile := f, indexMap := AList.update key off (indexMap db)\<rparr>"
    have "batch_loop kvs ?db w1 = (e, db', w')" using Cons.prems(3) kv step len Inr by simp
    with Cons.IH [of ?db w1] st Inr Cons.prems(2)
    obtain dn where dn: "prefix dn kvs" "e = None \<longrightarrow> dn = kvs" "sdb_inv db' w'"
      "sdb_view db' w' = (sdb_view db w)(key \<mapsto> v) ++ writes Some dn"
      by (auto simp: Let_def)
    have "(sdb_view db w)(key \<mapsto> v) ++ writes Some dn = sdb_view db w ++ writes Some (kv # dn)"
      by (simp add: kv writes_Cons map_add_def fun_eq_iff split: option.splits)
    with dn show ?thesis by (intro exI [of _ "kv # dn"]) simp
  qed
qed

lemma faults_append_record:
  "faults w = [] \<Longrightarrow> hopen f \<Longrightarrow> fs w (hpath f) \<noteq> None \<Longrightarrow> append_record w f key v = (r, f', w') \<Longrightarrow>
   faults w' = [] \<and> (\<exists>off. r = Inr off)"
  by (auto simp: append_record_ok)

lemma faults_batch_loop:
  assumes "sdb_inv db w" "faults w = []" "\<forall>(k, v) \<in> set kvs. length k = KeySize \<and> length v < 2 ^ 32"
    "batch_loop kvs db w = (e, db', w')"
  shows "e = None \<and> faults w' = []"
  using assms
proof (induction kvs arbitrary: db w)
  case (Cons kv kvs)
  obtain key v where kv: "kv = (key, v)" by force
  have len: "length key = KeySize" "length v < 2 ^ 32" using Cons.prems(3) kv by auto
  obtain r f w1 where step: "append_record w (dbFile db) key v = (r, f, w1)" by (metis prod_cases3)
  have "hopen (dbFile db)" "fs w (hpath (dbFile db)) \<noteq> None"
    using Cons.prems(1) by (auto simp: sdb_inv_def files_ok_def)
  then obtain off where r: "r = Inr off" and nf: "faults w1 = []"
    using faults_append_record [OF Cons.prems(2) _ _ step] by blast
  let ?db = "db\<lparr>dbFile := f, indexMap := AList.update key off (indexMap db)\<rparr>"
  have "sdb_inv ?db w1" using append_record_step [OF Cons.prems(1) len step] r by (simp add: Let_def)
  with Cons.IH [of ?db w1] Cons.prems(3,4) kv step len r nf show ?case by simp
qed simp

text \<open>The bytes of the index file.\<close>

definition index_bytes :: "index \<Rightarrow> bytes" where
  "index_bytes m = concat (map (\<lambda>(k, off). k @ put_le64 (word_of_int off)) m)"

lemma save_entries_ok:
  assumes "faults w = []" "hopen h" "fs w (hpath h) = Some c" "hpos h = length c"
  shows "save_entries w h m = (None, h\<lparr>hpos := length (c @ index_bytes m)\<rparr>,
    w\<lparr>fs := (fs w)(hpath h \<mapsto> c @ index_bytes m)\<rparr>)"
  using assms
proof (induction m arbitrary: w h c)
  case Nil
  then show ?case by (simp add: index_bytes_def fun_upd_idem)
next
  case (Cons e m)
  obtain k off where e: "e = (k, off)" by force
  let ?o = "put_le64 (word_of_int off)"
  let ?h = "h\<lparr>hpos := length c + length k + 8\<rparr>"
  let ?w = "w\<lparr>fs := (fs w)(hpath h \<mapsto> (c @ k) @ ?o)\<rparr>"
  have ow: "overwrite (c @ k) (length c + length k) ?o = (c @ k) @ ?o"
    using overwrite_end [of "c @ k" ?o] by simp
  have "save_entries w h (e # m) = save_entries ?w ?h m"
    using Cons.prems ow by (simp add: e os_simps)
  also have "\<dots> = (None, ?h\<lparr>hpos := length (((c @ k) @ ?o) @ index_bytes m)\<rparr>,
      ?w\<lparr>fs := (fs ?w)(hpath ?h \<mapsto> ((c @ k) @ ?o) @ index_bytes m)\<rparr>)"
    using Cons.prems by (intro Cons.IH) auto
  finally show ?case by (simp add: e index_bytes_def fun_upd_def cong: if_cong)
qed

lemma saveIndex_ok:
  assumes "files_ok db w" "faults w = []"
  shows "saveIndex ord db w =
    (None, db\<lparr>indexFile := (indexFile db)\<lparr>hpos := length (index_bytes (ord (indexMap db)))\<rparr>\<rparr>,
     w\<lparr>fs := (fs w)(indexPath db \<mapsto> index_bytes (ord (indexMap db)))\<rparr>)"
proof -
  let ?h = "indexFile db\<lparr>hpos := 0\<rparr>" and ?w = "w\<lparr>fs := (fs w)(indexPath db \<mapsto> [])\<rparr>"
  obtain c where c: "hopen (indexFile db)" "hpath (indexFile db) = indexPath db"
    "fs w (indexPath db) = Some c" using assms(1) by (auto simp: files_ok_def)
  have "save_entries ?w ?h (ord (indexMap db)) =
    (None, ?h\<lparr>hpos := length ([] @ index_bytes (ord (indexMap db)))\<rparr>,
     ?w\<lparr>fs := (fs ?w)(hpath ?h \<mapsto> [] @ index_bytes (ord (indexMap db)))\<rparr>)"
    by (rule save_entries_ok) (use assms c in simp_all)
  then show ?thesis using assms(2) c by (simp add: saveIndex_def os_simps)
qed

lemma sdb_Put_ok:
  assumes inv: "sdb_inv db w" "faults w = []" and len: "length key = KeySize" "length v < 2 ^ 32"
  shows "\<exists>db' w'. sdb_Put ord key v db w = (None, db', w') \<and> sdb_inv db' w' \<and> faults w' = [] \<and>
    sdb_view db' w' = (sdb_view db w)(key \<mapsto> v)"
proof -
  let ?db = "db\<lparr>indexMap := AList.delete key (indexMap db)\<rparr>"
  note del = delete_keeps [OF inv(1), of key]
  obtain r f w1 where step: "append_record w (dbFile ?db) key v = (r, f, w1)" by (metis prod_cases3)
  have "hopen (dbFile ?db)" "fs w (hpath (dbFile ?db)) \<noteq> None"
    using inv by (auto simp: sdb_inv_def files_ok_def)
  then obtain off where r: "r = Inr off" and nf: "faults w1 = []"
    using faults_append_record [OF inv(2) _ _ step] by blast
  let ?db2 = "?db\<lparr>dbFile := f, indexMap := AList.update key off (indexMap ?db)\<rparr>"
  have "sdb_inv ?db2 w1" using append_record_step [OF del(1) len step] r by (simp add: Let_def)
  then have "files_ok ?db2 w1" by (simp add: sdb_inv_def)
  from saveIndex_ok [OF this nf, of ord] step r len
  obtain db' w' where put: "sdb_Put ord key v db w = (None, db', w')" "faults w' = []"
    using nf by (simp add: sdb_Put_def)
  with sdb_Put_spec [OF inv(1) len put(1)] show ?thesis by auto
qed

lemma sdb_BatchPut_ok:
  assumes inv: "sdb_inv db w" "faults w = []"
    and len: "\<forall>(k, v) \<in> set kvs. length k = KeySize \<and> length v < 2 ^ 32"
  shows "\<exists>db' w'. sdb_BatchPut ord kvs db w = (None, db', w') \<and> sdb_inv db' w' \<and> faults w' = [] \<and>
    sdb_view db' w' = sdb_view db w ++ writes Some kvs"
proof -
  obtain e db1 w1 where lp: "batch_loop kvs db w = (e, db1, w1)" by (metis prod_cases3)
  have e: "e = None" "faults w1 = []" using faults_batch_loop [OF inv len lp] by auto
  with batch_loop_spec [OF inv(1) len lp]
  have b: "sdb_inv db1 w1" "sdb_view db1 w1 = sdb_view db w ++ writes Some kvs" by auto
  then have "files_ok db1 w1" by (simp add: sdb_inv_def)
  note sv = saveIndex_ok [OF this e(2), of ord]
  from saveIndex_keeps [OF sv b(1)] b(2) sv lp e show ?thesis
    by (simp add: sdb_BatchPut_def)
qed

subsection \<open>The store contract\<close>

definition sdb_ok :: "SimpleDB \<times> world \<Rightarrow> bool" where
  "sdb_ok s \<longleftrightarrow> sdb_inv (fst s) (snd s) \<and> faults (snd s) = []"

definition sdb_key :: "bytes \<Rightarrow> bytes option" where
  "sdb_key k = (if length k = KeySize then Some k else None)"

definition sdb_get :: "SimpleDB \<times> world \<Rightarrow> bytes \<Rightarrow> bytes option" where
  "sdb_get s k = (case sdb_Get k (fst s) (snd s) of (Inr v, _) \<Rightarrow> Some v | _ \<Rightarrow> None)"

definition sdb_result :: "sdb_error option \<times> 's \<Rightarrow> 's option" where
  "sdb_result r = (case r of (None, s) \<Rightarrow> Some s | (Some _, s) \<Rightarrow> None)"

lemma sdb_view_None: "sdb_inv db w \<Longrightarrow> length k \<noteq> KeySize \<Longrightarrow> sdb_view db w k = None"
  by (cases "map_of (indexMap db) k") (auto simp: sdb_inv_def index_ok_def sdb_view_def)

lemma sdb_get_view: "sdb_ok (db, w) \<Longrightarrow> sdb_get (db, w) k = sdb_view db w k"
  using sdb_Get_ok [of db w k] sdb_view_None [of db w k]
  by (cases "length k = KeySize") (auto simp: sdb_ok_def sdb_get_def split: option.splits)

lemma writes_sdb_key:
  "\<forall>(k, v) \<in> set kvs. length k = KeySize \<Longrightarrow> writes sdb_key kvs = writes Some kvs"
  by (induction kvs) (auto simp: writes_Cons sdb_key_def)

interpretation sdb: kv_store sdb_ok sdb_key "\<lambda>v. length v < 2 ^ 32" "\<lambda>s. sdb_view (fst s) (snd s)"
  sdb_get "\<lambda>s k v. sdb_result (sdb_Put ord k v (fst s) (snd s))"
  "\<lambda>s kvs. sdb_result (sdb_BatchPut ord kvs (fst s) (snd s))" for ord
proof unfold_locales
  fix s k
  show "sdb_ok s \<Longrightarrow> sdb_get s k = Option.bind (sdb_key k) (sdb_view (fst s) (snd s))"
    using sdb_get_view [of "fst s" "snd s" k] sdb_view_None [of "fst s" "snd s" k]
    by (auto simp: sdb_key_def sdb_ok_def)
next
  fix s :: "SimpleDB \<times> world" and k i v :: bytes
  assume "sdb_ok s" "sdb_key k = Some i" "length v < 2 ^ 32"
  then have "sdb_inv (fst s) (snd s)" "faults (snd s) = []" "length k = KeySize" "i = k"
    by (auto simp: sdb_ok_def sdb_key_def split: if_splits)
  from sdb_Put_ok [OF this(1-3) \<open>length v < 2 ^ 32\<close>, of ord] \<open>i = k\<close>
  show "\<exists>s'. sdb_result (sdb_Put ord k v (fst s) (snd s)) = Some s' \<and> sdb_ok s' \<and>
    sdb_view (fst s') (snd s') = (sdb_view (fst s) (snd s))(i \<mapsto> v)"
    by (auto simp: sdb_result_def sdb_ok_def)
next
  fix s :: "SimpleDB \<times> world" and kvs :: "(bytes \<times> bytes) list"
  assume s: "sdb_ok s" and kvs: "\<forall>(k, v) \<in> set kvs. sdb_key k \<noteq> None \<and> length v < 2 ^ 32"
  then have len: "\<forall>(k, v) \<in> set kvs. length k = KeySize \<and> length v < 2 ^ 32"
    by (auto simp: sdb_key_def split: if_splits)
  then have "writes sdb_key kvs = writes Some kvs" by (intro writes_sdb_key) auto
  with sdb_BatchPut_ok [OF _ _ len, of "fst s" "snd s" ord] s
  show "\<exists>s'. sdb_result (sdb_BatchPut ord kvs (fst s) (snd s)) = Some s' \<and> sdb_ok s' \<and>
    sdb_view (fst s') (snd s') = sdb_view (fst s) (snd s) ++ writes sdb_key kvs"
    by (auto simp: sdb_result_def sdb_ok_def)
qed

subsection \<open>The index survives a restart\<close>

lemma index_bytes_Nil [simp]: "index_bytes [] = []"
  by (simp add: index_bytes_def)

lemma length_index_bytes:
  "\<forall>e \<in> set m. length (fst e) = KeySize \<Longrightarrow> length (index_bytes m) = IndexEntry * length m"
  by (induction m) (auto simp: index_bytes_def IndexEntry_def KeySize_def)

lemma sint_word_of_int: "0 \<le> off \<Longrightarrow> off < 2 ^ 63 \<Longrightarrow> sint (word_of_int off :: u64) = off"
  by (simp add: signed_of_int signed_take_bit_int_eq_self)

lemma load_entries_ok:
  assumes "faults w = []" "hopen h" "fs w (hpath h) = Some (pre @ index_bytes es)" "hpos h = length pre"
    and "\<forall>(k, off) \<in> set es. length k = KeySize \<and> 0 \<le> off \<and> off < 2 ^ 63"
  shows "\<exists>n. load_entries (length es) w h m =
    (None, fold (\<lambda>(k, off). AList.update k off) es m, h\<lparr>hpos := n\<rparr>, w)"
  using assms
proof (induction es arbitrary: h pre m)
  case Nil
  then show ?case by (intro exI [of _ "hpos h"]) simp
next
  case (Cons e es)
  obtain k off where e: "e = (k, off)" by force
  have k: "length k = 32" "0 \<le> off" "off < 2 ^ 63" using Cons.prems(5) e by (auto simp: KeySize_def)
  let ?o = "put_le64 (word_of_int off)"
  let ?h1 = "h\<lparr>hpos := length pre + 32\<rparr>" and ?h2 = "h\<lparr>hpos := length pre + 32 + 8\<rparr>"
  let ?c = "pre @ k @ ?o @ index_bytes es"
  have c: "fs w (hpath h) = Some ?c" using Cons.prems(3) by (simp add: e index_bytes_def)
  have rk: "os_read w h KeySize = (RData k, ?h1, w)"
    using os_read_ok [OF Cons.prems(1,2) c, of 32] Cons.prems(4) k by (simp add: KeySize_def)
  have ro: "os_read_full w ?h1 8 = (RData ?o, ?h2, w)"
    using os_read_full_ok [OF Cons.prems(1), of ?h1 ?c 8] Cons.prems(2) c k by simp
  have buf: "read_buffer KeySize k = k" using k by (simp add: read_buffer_def KeySize_def)
  have off: "sint (get_le64 ?o) = off"
    using get_put_le64 [of "word_of_int off" "[]"] sint_word_of_int k by simp
  have "\<exists>n. load_entries (length es) w ?h2 (AList.update k off m) =
    (None, fold (\<lambda>(k, off). AList.update k off) es (AList.update k off m), ?h2\<lparr>hpos := n\<rparr>, w)"
    by (rule Cons.IH [of ?h2 "pre @ k @ ?o"]) (use Cons.prems c k in auto)
  then show ?case using rk ro buf off by (simp add: e)
qed

lemma map_of_fold_update:
  "map_of (fold (\<lambda>(k, off). AList.update k off) es m) = map_of m ++ map_of (rev es)"
  by (induction es arbitrary: m) (auto simp: update_conv' map_add_def fun_eq_iff split: option.splits)

lemma distinct_fold_update:
  "distinct (map fst m) \<Longrightarrow> distinct (map fst (fold (\<lambda>(k, off). AList.update k off) es m))"
  by (induction es arbitrary: m) (auto simp: distinct_update)

lemma map_of_mset_eq:
  assumes "mset xs = mset ys" "distinct (map fst ys)"
  shows "map_of xs = map_of ys"
proof -
  have "mset (map fst xs) = mset (map fst ys)" using assms(1) by simp
  then have "distinct (map fst xs)" using assms(2) by (metis mset_eq_imp_distinct_iff)
  moreover have "set xs = set ys" using assms(1) by (metis set_mset_mset)
  ultimately show ?thesis using assms(2) by (intro map_of_eqI) (auto simp: map_of_eq_Some_iff)
qed

lemma sdb_Open_ok:
  assumes nf: "faults w = []" and c: "fs w dbp = Some c" and ix: "fs w ixp = Some (index_bytes es)"
    and paths: "dbp \<noteq> ixp" "dbp @ ''.tmp'' \<noteq> ixp"
    and es: "mset es = mset m" and m: "index_ok m c" and small: "length c < 2 ^ 63"
  shows "\<exists>db. sdb_Open dbp ixp w = (Inr db, w) \<and> sdb_inv db w \<and> map_of (indexMap db) = map_of m \<and>
    dbPath db = dbp \<and> indexPath db = ixp"
proof -
  let ?g = "\<lparr>hpath = ixp, hpos = 0, hopen = True\<rparr>" and ?f = "\<lparr>hpath = dbp, hpos = 0, hopen = True\<rparr>"
  have set: "set es = set m" using es by (metis set_mset_mset)
  have entry: "length k = KeySize \<and> 0 \<le> off \<and> off < 2 ^ 63" if "(k, off) \<in> set es" for k off
  proof -
    have "map_of m k = Some off" using that m set by (auto simp: index_ok_def)
    then have "length k = KeySize" "rec_ok c off" using m by (auto simp: index_ok_def)
    then show ?thesis using small by (auto simp: rec_ok_def)
  qed
  then have "length (index_bytes es) = IndexEntry * length es"
    by (intro length_index_bytes) auto
  then have blocks: "(length (index_bytes es) + IndexEntry - 1) div IndexEntry = length es"
    by (simp add: IndexEntry_def KeySize_def)
  obtain n where ld: "load_entries (length es) w ?g [] =
      (None, fold (\<lambda>(k, off). AList.update k off) es [], ?g\<lparr>hpos := n\<rparr>, w)"
    using load_entries_ok [of w ?g "[]" es "[]"] nf ix entry by auto
  let ?m = "fold (\<lambda>(k, off). AList.update k off) es []"
  have "map_of ?m = map_of m"
    using map_of_mset_eq [of "rev es" m] es m by (simp add: map_of_fold_update index_ok_def)
  then have "index_ok ?m c" using m by (simp add: index_ok_def distinct_fold_update)
  then show ?thesis
    using nf c ix paths ld blocks \<open>map_of ?m = map_of m\<close>
    by (simp add: sdb_Open_def loadIndex_def os_simps sdb_inv_def files_ok_def content_def)
qed

end
