(* ===== verification/Simple_DB_Props.thy ===== *)
theory Simple_DB_Props
  imports Simple_DB_Proofs
begin

text \<open>
  The properties of the file store: writes under failing system calls, durability, compaction,
  and the behaviour of concurrent reads that share one file position.
\<close>

subsection \<open>Compaction\<close>

lemma rec_value_length: "rec_ok c off \<Longrightarrow> length (rec_value c off) < 2 ^ 32"
proof -
  assume "rec_ok c off"
  then have "length (rec_value c off) = rec_size c (nat off)" by (auto simp: rec_ok_def rec_value_def)
  then show ?thesis
    using unat_u32_less [of "get_le32 (take 4 (drop (nat off) c))"] by (simp add: rec_size_def)
qed

text \<open>The size of the records that an index refers to.\<close>

definition live_size :: "bytes \<Rightarrow> index \<Rightarrow> nat" where
  "live_size c es = sum_list (map (\<lambda>(k, off). 4 + length (rec_value c off) + length k) es)"

lemma live_size_perm: "mset es = mset es' \<Longrightarrow> live_size c es = live_size c es'"
  unfolding live_size_def by (simp flip: sum_mset_sum_list)

lemma compact_loop_ok:
  assumes "faults w = []" "hopen f" "hopen t" "hpath f \<noteq> hpath t"
    and "fs w (hpath f) = Some c" "fs w (hpath t) = Some tc"
    and "\<forall>(k, off) \<in> set es. length k = KeySize \<and> rec_ok c off"
    and "distinct (map fst es)" "index_ok m tc"
  shows "\<exists>m' n n' tc'. compact_loop es f t m w =
      (Inr m', f\<lparr>hpos := n\<rparr>, t\<lparr>hpos := n'\<rparr>, w\<lparr>fs := (fs w)(hpath t \<mapsto> tc')\<rparr>) \<and>
    index_ok m' tc' \<and> length tc' = length tc + live_size c es \<and>
    (\<forall>k. map_option (rec_value tc') (map_of m' k) =
      (case map_of es k of Some off \<Rightarrow> Some (rec_value c off)
       | None \<Rightarrow> map_option (rec_value tc) (map_of m k)))"
  using assms
proof (induction es arbitrary: f t m w tc)
  case Nil
  then show ?case
    by (intro exI [of _ m] exI [of _ "hpos f"] exI [of _ "hpos t"] exI [of _ tc])
      (simp add: fun_upd_idem live_size_def)
next
  case (Cons e es)
  obtain k off where e: "e = (k, off)" by force
  have k: "length k = KeySize" "rec_ok c off" using Cons.prems(7) e by auto
  let ?v = "rec_value c off"
  have v: "length ?v < 2 ^ 32" by (rule rec_value_length [OF k(2)])
  let ?f = "f\<lparr>hpos := nat off\<rparr>"
  have nn: "0 \<le> off" using k by (simp add: rec_ok_def)
  then have sk: "os_seek w f off = (True, ?f, w)" using Cons.prems by (simp add: os_simps)
  obtain n1 where rd: "read_record w ?f = (Inr ?v, ?f\<lparr>hpos := n1\<rparr>, w)"
    using read_record_ok [of w ?f c] Cons.prems k nn by auto
  let ?tc = "tc @ record_bytes k ?v" and ?t = "t\<lparr>hpos := length (tc @ record_bytes k ?v)\<rparr>"
  let ?w = "w\<lparr>fs := (fs w)(hpath t \<mapsto> tc @ record_bytes k ?v)\<rparr>"
  let ?m = "AList.update k (int (length tc)) m"
  have ap: "append_record w t k ?v = (Inr (int (length tc)), ?t, ?w)"
    using append_record_ok [OF Cons.prems(1,3,6)] .
  have ix: "index_ok ?m ?tc"
    by (rule index_ok_update [OF index_ok_append [OF Cons.prems(9)] k(1)]) (rule rec_new [OF v])
  have "\<exists>m' n n' tc'. compact_loop es (?f\<lparr>hpos := n1\<rparr>) ?t ?m ?w =
      (Inr m', ?f\<lparr>hpos := n1\<rparr>\<lparr>hpos := n\<rparr>, ?t\<lparr>hpos := n'\<rparr>, ?w\<lparr>fs := (fs ?w)(hpath ?t \<mapsto> tc')\<rparr>) \<and>
    index_ok m' tc' \<and> length tc' = length ?tc + live_size c es \<and>
    (\<forall>k. map_option (rec_value tc') (map_of m' k) =
      (case map_of es k of Some off \<Rightarrow> Some (rec_value c off)
       | None \<Rightarrow> map_option (rec_value ?tc) (map_of ?m k)))"
    by (rule Cons.IH) (use Cons.prems ix in \<open>auto simp: e\<close>)
  then obtain m' n n' tc' where r:
    "compact_loop es (?f\<lparr>hpos := n1\<rparr>) ?t ?m ?w =
      (Inr m', ?f\<lparr>hpos := n1\<rparr>\<lparr>hpos := n\<rparr>, ?t\<lparr>hpos := n'\<rparr>, ?w\<lparr>fs := (fs ?w)(hpath ?t \<mapsto> tc')\<rparr>)"
    "index_ok m' tc'" "length tc' = length ?tc + live_size c es"
    "\<And>k. map_option (rec_value tc') (map_of m' k) =
      (case map_of es k of Some off \<Rightarrow> Some (rec_value c off)
       | None \<Rightarrow> map_option (rec_value ?tc) (map_of ?m k))" by blast
  have "length tc' = length tc + live_size c (e # es)"
    using r(3) by (simp add: e live_size_def record_bytes_def)
  moreover have "map_option (rec_value tc') (map_of m' k') =
      (case map_of (e # es) k' of Some off \<Rightarrow> Some (rec_value c off)
       | None \<Rightarrow> map_option (rec_value tc) (map_of m k'))" for k'
  proof (cases "k' = k")
    case True
    then have "map_of es k' = None" using Cons.prems(8) by (simp add: e map_of_eq_None_iff)
    with True r(4) [of k'] rec_new [OF v, of tc k] show ?thesis by (simp add: e update_conv')
  next
    case False
    have "map_option (rec_value ?tc) (map_of m k') = map_option (rec_value tc) (map_of m k')"
      using Cons.prems(9) by (cases "map_of m k'") (auto simp: index_ok_def rec_append)
    with False r(4) [of k'] show ?thesis by (simp add: e update_conv' split: option.splits)
  qed
  moreover have "compact_loop (e # es) f t m w =
      (Inr m', f\<lparr>hpos := n\<rparr>, t\<lparr>hpos := n'\<rparr>, w\<lparr>fs := (fs w)(hpath t \<mapsto> tc')\<rparr>)"
    using sk rd ap r(1) by (simp add: e fun_upd_def cong: if_cong)
  ultimately show ?case using r(2) by blast
qed

lemma swap_files_ok:
  assumes "faults w = []" "hopen t" "files_ok db w" "fs w tmp = Some tc" "tmp \<noteq> dbPath db"
  shows "swap_files db t tmp w = (None, \<lparr>hpath = dbPath db, hpos = 0, hopen = True\<rparr>,
    w\<lparr>fs := (fs w)(dbPath db \<mapsto> tc, tmp := None)\<rparr>)"
  using assms by (auto simp: swap_files_def files_ok_def os_simps)

lemma sdb_Compact_ok:
  assumes inv: "sdb_inv db w" and nf: "faults w = []" and ord: "\<And>m. mset (ord m) = mset m"
  shows "\<exists>db' w'. sdb_Compact ord db w = (None, db', w') \<and> sdb_inv db' w' \<and> faults w' = [] \<and>
    sdb_view db' w' = sdb_view db w \<and> dbPath db' = dbPath db \<and> indexPath db' = indexPath db \<and>
    length (content db' w') = live_size (content db w) (indexMap db)"
proof -
  let ?tmp = "dbPath db @ ''.tmp''" and ?c = "content db w" and ?es = "ord (indexMap db)"
  let ?t = "\<lparr>hpath = ?tmp, hpos = 0, hopen = True\<rparr>" and ?w = "w\<lparr>fs := (fs w)(?tmp \<mapsto> [])\<rparr>"
  have files: "files_ok db w" and ix: "index_ok (indexMap db) ?c" using inv by (auto simp: sdb_inv_def)
  have perm: "map_of ?es = map_of (indexMap db)" "set ?es = set (indexMap db)"
    using map_of_mset_eq [OF ord] ix ord [of "indexMap db"] by (auto simp: index_ok_def dest: mset_eq_setD)
  have "mset (map fst ?es) = mset (map fst (indexMap db))" using ord by simp
  then have dist: "distinct (map fst ?es)"
    using ix by (metis index_ok_def mset_eq_imp_distinct_iff)
  have ents: "\<forall>(k, off) \<in> set ?es. length k = KeySize \<and> rec_ok ?c off"
    using ix perm(2) by (auto simp: index_ok_def)
  have "\<exists>m' n n' tc'. compact_loop ?es (dbFile db) ?t [] ?w =
      (Inr m', dbFile db\<lparr>hpos := n\<rparr>, ?t\<lparr>hpos := n'\<rparr>, ?w\<lparr>fs := (fs ?w)(hpath ?t \<mapsto> tc')\<rparr>) \<and>
    index_ok m' tc' \<and> length tc' = length ([] :: bytes) + live_size ?c ?es \<and>
    (\<forall>k. map_option (rec_value tc') (map_of m' k) =
      (case map_of ?es k of Some off \<Rightarrow> Some (rec_value ?c off)
       | None \<Rightarrow> map_option (rec_value []) (map_of [] k)))"
    by (rule compact_loop_ok)
      (use files nf ents dist in \<open>auto simp: files_ok_def content_def index_ok_def\<close>)
  then obtain m' n n' tc' where lp:
    "compact_loop ?es (dbFile db) ?t [] ?w =
      (Inr m', dbFile db\<lparr>hpos := n\<rparr>, ?t\<lparr>hpos := n'\<rparr>, ?w\<lparr>fs := (fs ?w)(?tmp \<mapsto> tc')\<rparr>)"
    "index_ok m' tc'" "length tc' = live_size ?c ?es"
    "\<And>k. map_option (rec_value tc') (map_of m' k) = map_option (rec_value ?c) (map_of (indexMap db) k)"
    unfolding perm(1) by (auto simp: option.case_eq_if map_option_case split: option.splits)
  let ?w2 = "?w\<lparr>fs := (fs ?w)(?tmp \<mapsto> tc')\<rparr>" and ?db2 = "db\<lparr>dbFile := dbFile db\<lparr>hpos := n\<rparr>\<rparr>"
  let ?f3 = "\<lparr>hpath = dbPath db, hpos = 0, hopen = True\<rparr>"
  let ?w3 = "?w2\<lparr>fs := (fs ?w2)(dbPath ?db2 \<mapsto> tc', ?tmp := None)\<rparr>"
  have "swap_files ?db2 (?t\<lparr>hpos := n'\<rparr>) ?tmp ?w2 = (None, ?f3, ?w3)"
    using swap_files_ok [of ?w2 "?t\<lparr>hpos := n'\<rparr>" ?db2 ?tmp tc'] files nf by (simp add: files_ok_def)
  moreover let ?db3 = "db\<lparr>dbFile := ?f3, indexMap := m'\<rparr>"
  have inv3: "sdb_inv ?db3 ?w3" "content ?db3 ?w3 = tc'"
    using files lp(2) by (auto simp: sdb_inv_def files_ok_def content_def)
  moreover from this have sv: "saveIndex ord ?db3 ?w3 = (None,
      ?db3\<lparr>indexFile := (indexFile ?db3)\<lparr>hpos := length (index_bytes (ord m'))\<rparr>\<rparr>,
      ?w3\<lparr>fs := (fs ?w3)(indexPath ?db3 \<mapsto> index_bytes (ord m'))\<rparr>)"
    using saveIndex_ok [of ?db3 ?w3 ord] nf by (simp add: sdb_inv_def)
  moreover have "sdb_view ?db3 ?w3 = sdb_view db w"
    using lp(4) inv3(2) by (simp add: sdb_view_def fun_eq_iff)
  moreover have "live_size ?c ?es = live_size ?c (indexMap db)"
    by (rule live_size_perm [OF ord])
  moreover have "files_ok ?db3 ?w3" using inv3(1) by (simp add: sdb_inv_def)
  note fr = saveIndex_frame [OF sv this]
  ultimately show ?thesis
    using saveIndex_keeps [OF sv inv3(1)] fr(2) lp(1,3) nf
    by (simp add: sdb_Compact_def os_simps)
qed

subsection \<open>Concurrent reads\<close>

text \<open>\<^verbatim>\<open>Get\<close> holds the lock only for the lookup in the index; the seek and the two reads are
  separate calls on the shared file. The steps of one call to \<^verbatim>\<open>Get\<close>:\<close>

datatype get_pc = GLookup | GSeek int | GSize | GValue nat | GDone "sdb_error + bytes"

fun get_step :: "bytes \<Rightarrow> get_pc \<Rightarrow> SimpleDB \<Rightarrow> world \<Rightarrow> get_pc \<times> SimpleDB \<times> world" where
  "get_step key GLookup db w =
     (if length key \<noteq> KeySize then (GDone (Inl ErrKeySize), db, w)
      else case map_of (indexMap db) key of
        None \<Rightarrow> (GDone (Inl ErrNotFound), db, w)
      | Some offset \<Rightarrow> (GSeek offset, db, w))"
| "get_step key (GSeek offset) db w =
     (case os_seek w (dbFile db) offset of
        (False, f, w) \<Rightarrow> (GDone (Inl ErrSeek), db\<lparr>dbFile := f\<rparr>, w)
      | (True, f, w) \<Rightarrow> (GSize, db\<lparr>dbFile := f\<rparr>, w))"
| "get_step key GSize db w =
     (case os_read_full w (dbFile db) 4 of
        (RData d, f, w) \<Rightarrow> (GValue (unat (get_le32 d)), db\<lparr>dbFile := f\<rparr>, w)
      | (_, f, w) \<Rightarrow> (GDone (Inl ErrReadSize), db\<lparr>dbFile := f\<rparr>, w))"
| "get_step key (GValue n) db w =
     (case os_read w (dbFile db) n of
        (RData v, f, w) \<Rightarrow> (GDone (Inr (read_buffer n v)), db\<lparr>dbFile := f\<rparr>, w)
      | (_, f, w) \<Rightarrow> (GDone (Inl ErrReadValue), db\<lparr>dbFile := f\<rparr>, w))"
| "get_step key (GDone r) db w = (GDone r, db, w)"

fun get_run :: "nat \<Rightarrow> bytes \<Rightarrow> get_pc \<Rightarrow> SimpleDB \<Rightarrow> world \<Rightarrow> get_pc \<times> SimpleDB \<times> world" where
  "get_run 0 key pc db w = (pc, db, w)"
| "get_run (Suc n) key pc db w = (case get_step key pc db w of (pc, db, w) \<Rightarrow> get_run n key pc db w)"

text \<open>Run without interruption, the steps are the sequential \<^verbatim>\<open>Get\<close>.\<close>

lemma get_run_Get:
  "get_run 4 key GLookup db w = (case sdb_Get key db w of (r, db, w) \<Rightarrow> (GDone r, db, w))"
  by (simp add: numeral_eq_Suc sdb_Get_def read_record_def Let_def
      split: option.splits prod.splits bool.splits read_result.splits)

text \<open>Two readers under a schedule: \<open>True\<close> is a step of the first one.\<close>

fun get_interleave ::
    "bool list \<Rightarrow> bytes \<Rightarrow> bytes \<Rightarrow> get_pc \<Rightarrow> get_pc \<Rightarrow> SimpleDB \<Rightarrow> world \<Rightarrow> get_pc \<times> get_pc" where
  "get_interleave [] k1 k2 p1 p2 db w = (p1, p2)"
| "get_interleave (True # s) k1 k2 p1 p2 db w =
     (case get_step k1 p1 db w of (p1, db, w) \<Rightarrow> get_interleave s k1 k2 p1 p2 db w)"
| "get_interleave (False # s) k1 k2 p1 p2 db w =
     (case get_step k2 p2 db w of (p2, db, w) \<Rightarrow> get_interleave s k1 k2 p1 p2 db w)"

lemma get_steps_ok:
  assumes inv: "sdb_inv db w" "faults w = []"
  shows "map_of (indexMap db) k = Some off \<Longrightarrow> get_step k GLookup db w = (GSeek off, db, w)"
    and "map_of (indexMap db) k = Some off \<Longrightarrow>
      get_step k' (GSeek off) db w = (GSize, db\<lparr>dbFile := dbFile db\<lparr>hpos := nat off\<rparr>\<rparr>, w)"
    and "map_of (indexMap db) k = Some off \<Longrightarrow> hpos (dbFile db) = nat off \<Longrightarrow>
      get_step k' GSize db w = (GValue (length (rec_value (content db w) off)),
        db\<lparr>dbFile := dbFile db\<lparr>hpos := nat off + 4\<rparr>\<rparr>, w)"
    and "map_of (indexMap db) k = Some off \<Longrightarrow> hpos (dbFile db) = nat off + 4 \<Longrightarrow>
      \<exists>db'. get_step k' (GValue (length (rec_value (content db w) off))) db w =
        (GDone (Inr (rec_value (content db w) off)), db', w)"
proof -
  assume off: "map_of (indexMap db) k = Some off"
  let ?c = "content db w"
  have ok: "length k = KeySize" "rec_ok ?c off" "hopen (dbFile db)" "fs w (hpath (dbFile db)) = Some ?c"
    using inv off by (auto simp: sdb_inv_def files_ok_def index_ok_def content_def)
  then have b: "0 \<le> off" "nat off + 4 \<le> length ?c" "nat off + 4 + rec_size ?c (nat off) \<le> length ?c"
    by (auto simp: rec_ok_def)
  then have len: "length (rec_value ?c off) = rec_size ?c (nat off)" by (simp add: rec_value_def)
  show "get_step k GLookup db w = (GSeek off, db, w)" using ok off by simp
  show "get_step k' (GSeek off) db w = (GSize, db\<lparr>dbFile := dbFile db\<lparr>hpos := nat off\<rparr>\<rparr>, w)"
    using ok b inv by (simp add: os_simps)
  show "get_step k' GSize db w = (GValue (length (rec_value ?c off)),
      db\<lparr>dbFile := dbFile db\<lparr>hpos := nat off + 4\<rparr>\<rparr>, w)" if "hpos (dbFile db) = nat off"
    using os_read_full_ok [OF inv(2) ok(3,4), of 4] that b len by (simp add: rec_size_def)
  show "\<exists>db'. get_step k' (GValue (length (rec_value ?c off))) db w =
      (GDone (Inr (rec_value ?c off)), db', w)" if "hpos (dbFile db) = nat off + 4"
    using os_read_ok [OF inv(2) ok(3,4), of "length (rec_value ?c off)"] that b len
    by (simp add: read_buffer_def rec_value_def)
qed

subsection \<open>The properties\<close>

lemma sdb_Get_fst:
  assumes "sdb_inv db w"
  shows "fst (sdb_Get k db (w\<lparr>faults := []\<rparr>)) =
    (if length k \<noteq> KeySize then Inl ErrKeySize
     else case sdb_view db w k of None \<Rightarrow> Inl ErrNotFound | Some v \<Rightarrow> Inr v)"
proof -
  have "sdb_inv db (w\<lparr>faults := []\<rparr>)" "sdb_view db (w\<lparr>faults := []\<rparr>) = sdb_view db w"
    using assms by (auto simp: sdb_inv_def files_ok_def content_def sdb_view_def)
  with sdb_Get_ok [of db "w\<lparr>faults := []\<rparr>" k] show ?thesis by auto
qed

lemma sdb_Get_fst_ok:
  assumes "sdb_inv db w" "faults w = []"
  shows "fst (sdb_Get k db w) =
    (if length k \<noteq> KeySize then Inl ErrKeySize
     else case sdb_view db w k of None \<Rightarrow> Inl ErrNotFound | Some v \<Rightarrow> Inr v)"
  using sdb_Get_ok [OF assms, of k] by auto

text \<open>After a successful \<^verbatim>\<open>Put\<close> the index file describes the index in memory.\<close>

lemma sdb_Put_sync:
  assumes inv: "sdb_inv db w" "faults w = []" and len: "length key = KeySize"
    and put: "sdb_Put ord key v db w = (None, db', w')"
  shows "fs w' (indexPath db) = Some (index_bytes (ord (indexMap db')))" "dbPath db' = dbPath db"
    "indexPath db' = indexPath db" "content db' w' = content db w @ record_bytes key v" "faults w' = []"
proof -
  let ?db = "db\<lparr>indexMap := AList.delete key (indexMap db)\<rparr>" and ?c = "content db w"
  have f: "hopen (dbFile ?db)" "fs w (hpath (dbFile ?db)) = Some ?c" "hpath (dbFile ?db) = dbPath db"
    using inv by (auto simp: sdb_inv_def files_ok_def content_def)
  let ?w = "w\<lparr>fs := (fs w)(hpath (dbFile ?db) \<mapsto> ?c @ record_bytes key v)\<rparr>"
  let ?f = "dbFile ?db\<lparr>hpos := length (?c @ record_bytes key v)\<rparr>"
  let ?db2 = "?db\<lparr>dbFile := ?f, indexMap := AList.update key (int (length ?c)) (indexMap ?db)\<rparr>"
  have "files_ok ?db2 ?w" using inv by (auto simp: sdb_inv_def files_ok_def)
  from saveIndex_ok [OF this, of ord] append_record_ok [OF inv(2) f(1,2), of key v] put len inv f
  have "w' = ?w\<lparr>fs := (fs ?w)(indexPath db \<mapsto> index_bytes (ord (indexMap ?db2)))\<rparr>"
    "db' = ?db2\<lparr>indexFile := (indexFile db)\<lparr>hpos := length (index_bytes (ord (indexMap ?db2)))\<rparr>\<rparr>"
    by (auto simp: sdb_Put_def)
  with inv f show "fs w' (indexPath db) = Some (index_bytes (ord (indexMap db')))" "dbPath db' = dbPath db"
    "indexPath db' = indexPath db" "content db' w' = ?c @ record_bytes key v" "faults w' = []"
    by (auto simp: content_def sdb_inv_def files_ok_def)
qed

lemma sdb_Put_reopen:
  assumes inv: "sdb_inv db w" "faults w = []" and len: "length key = KeySize" "length v < 2 ^ 32"
    and ord: "\<And>m. mset (ord m) = mset m" and small: "length (content db w) + length v + 36 < 2 ^ 63"
  shows "\<exists>db1 w1 db2. sdb_Put ord key v db w = (None, db1, w1) \<and> sdb_inv db1 w1 \<and> faults w1 = [] \<and>
    sdb_view db1 w1 = (sdb_view db w)(key \<mapsto> v) \<and>
    sdb_Open (dbPath db) (indexPath db) w1 = (Inr db2, w1) \<and> sdb_inv db2 w1 \<and>
    sdb_view db2 w1 = (sdb_view db w)(key \<mapsto> v)"
proof -
  obtain db1 w1 where put: "sdb_Put ord key v db w = (None, db1, w1)" "sdb_inv db1 w1"
    "sdb_view db1 w1 = (sdb_view db w)(key \<mapsto> v)"
    using sdb_Put_ok [OF inv len, of ord] by blast
  note sy = sdb_Put_sync [OF inv len(1) put(1)]
  have "length (content db1 w1) < 2 ^ 63"
    using small len by (simp add: sy record_bytes_def KeySize_def)
  moreover have "fs w1 (dbPath db) = Some (content db1 w1)" "index_ok (indexMap db1) (content db1 w1)"
    "dbPath db \<noteq> indexPath db" "dbPath db @ ''.tmp'' \<noteq> indexPath db"
    using put(2) sy by (auto simp: sdb_inv_def files_ok_def content_def)
  ultimately obtain db2 where "sdb_Open (dbPath db) (indexPath db) w1 = (Inr db2, w1)" "sdb_inv db2 w1"
    "map_of (indexMap db2) = map_of (indexMap db1)" "dbPath db2 = dbPath db"
    using sdb_Open_ok [OF sy(5) _ sy(1), of "dbPath db" "content db1 w1" "indexMap db1"] ord by auto
  moreover from this have "sdb_view db2 w1 = sdb_view db1 w1"
    by (simp add: sdb_view_def content_def fun_eq_iff sy)
  ultimately show ?thesis using put sy by auto
qed

text \<open>An empty database on an empty disk, and one with a key, for the concrete instances.\<close>

definition fresh_db :: SimpleDB where
  "fresh_db = \<lparr>dbFile = \<lparr>hpath = ''d'', hpos = 0, hopen = True\<rparr>,
     indexFile = \<lparr>hpath = ''i'', hpos = 0, hopen = True\<rparr>, indexMap = [], dbPath = ''d'', indexPath = ''i''\<rparr>"

definition fresh_world :: "nat option list \<Rightarrow> world" where
  "fresh_world fl = \<lparr>fs = [''d'' \<mapsto> [], ''i'' \<mapsto> []], faults = fl\<rparr>"

definition key1 :: bytes where "key1 = replicate 32 1"
definition key2 :: bytes where "key2 = replicate 32 2"

lemma fresh_inv: "sdb_inv fresh_db (fresh_world fl)"
  by (simp add: sdb_inv_def files_ok_def index_ok_def fresh_db_def fresh_world_def)

lemma fresh_paths: "dbPath fresh_db = ''d''" "indexPath fresh_db = ''i''"
  by (simp_all add: fresh_db_def)

lemma fresh_simps [simp]:
  "faults (fresh_world fl) = fl" "length key1 = KeySize" "length key2 = KeySize" "key1 \<noteq> key2"
  "content fresh_db (fresh_world fl) = []" "sdb_view fresh_db (fresh_world fl) = Map.empty"
  by (simp_all add: fresh_world_def fresh_db_def key1_def key2_def KeySize_def content_def
      sdb_view_def fun_eq_iff)

text \<open>C4. \<^verbatim>\<open>SimpleDB.Put\<close> under failures. Whichever calls of the operating system fail, and at
  whichever byte a write is cut, after \<^verbatim>\<open>Put\<close> the database satisfies its invariant, every other
  key reads as before, and the key itself reads as the new value or is absent, never as a torn
  or an old value; where \<^verbatim>\<open>Put\<close> reports success it reads as the new value.\<close>

theorem SimpleDB_Put_faults:
  assumes "sdb_inv db w" "length key = KeySize" "length v < 2 ^ 32"
    and "sdb_Put ord key v db w = (e, db', w')"
  shows "sdb_inv db' w' \<and>
    (\<forall>k. k \<noteq> key \<longrightarrow>
      fst (sdb_Get k db' (w'\<lparr>faults := []\<rparr>)) = fst (sdb_Get k db (w\<lparr>faults := []\<rparr>))) \<and>
    fst (sdb_Get key db' (w'\<lparr>faults := []\<rparr>)) \<in>
      (if e = None then {Inr v} else {Inr v, Inl ErrNotFound})"
proof -
  have inv': "sdb_inv db' w'" and
    "sdb_view db' w' = (sdb_view db w)(key \<mapsto> v) \<or>
     e \<noteq> None \<and> sdb_view db' w' = (sdb_view db w)(key := None)"
    using sdb_Put_spec [OF assms] by auto
  then show ?thesis
    using assms(2) by (auto simp: sdb_Get_fst [OF inv'] sdb_Get_fst [OF assms(1)])
qed

theorem SimpleDB_Put_faults_witness:
  "case sdb_Put id key1 [7, 8] fresh_db (fresh_world [None, None, Some 1]) of (e, db', w') \<Rightarrow>
     sdb_inv db' w' \<and> e = Some ErrWriteValue \<and>
     fst (sdb_Get key1 db' (w'\<lparr>faults := []\<rparr>)) \<in> {Inr [7, 8], Inl ErrNotFound}"
proof -
  obtain e db' w' where put:
    "sdb_Put id key1 [7, 8] fresh_db (fresh_world [None, None, Some 1]) = (e, db', w')"
    by (metis prod_cases3)
  have "e = Some ErrWriteValue"
    using put by (auto simp: sdb_Put_def append_record_def os_seek_end_def os_write_def os_call_def
        fresh_db_def fresh_world_def key1_def KeySize_def Let_def)
  with SimpleDB_Put_faults [OF fresh_inv _ _ put] put show ?thesis by simp
qed

text \<open>C5. \<^verbatim>\<open>SimpleDB.Put\<close> is durable. Without failing calls \<^verbatim>\<open>Put\<close> succeeds, and a database opened
  afterwards on the same two paths, without \<^verbatim>\<open>Close\<close> in between, reads the new value for the key
  and the old answer for every other key. It holds for every order in which Go visits the map,
  as long as the data file is shorter than \<open>2 ^ 63\<close> bytes.\<close>

theorem SimpleDB_Put_durable:
  assumes "sdb_inv db w" "faults w = []" "length key = KeySize" "length v < 2 ^ 32"
    and "\<And>m. mset (ord m) = mset m" "length (content db w) + length v + 36 < 2 ^ 63"
  shows "\<exists>db1 w1 db2. sdb_Put ord key v db w = (None, db1, w1) \<and>
    sdb_Open (dbPath db) (indexPath db) w1 = (Inr db2, w1) \<and>
    (\<forall>k. fst (sdb_Get k db2 w1) = (if k = key then Inr v else fst (sdb_Get k db w)))"
proof -
  obtain db1 w1 db2 where r: "sdb_Put ord key v db w = (None, db1, w1)" "faults w1 = []"
    "sdb_Open (dbPath db) (indexPath db) w1 = (Inr db2, w1)" "sdb_inv db2 w1"
    "sdb_view db2 w1 = (sdb_view db w)(key \<mapsto> v)"
    using sdb_Put_reopen [OF assms] by blast
  then have "\<forall>k. fst (sdb_Get k db2 w1) = (if k = key then Inr v else fst (sdb_Get k db w))"
    using assms(3) by (simp add: sdb_Get_fst_ok [OF r(4,2)] sdb_Get_fst_ok [OF assms(1,2)])
  with r show ?thesis by blast
qed

theorem SimpleDB_Put_durable_witness:
  "\<exists>db1 w1 db2. sdb_Put rev key1 [7, 8] fresh_db (fresh_world []) = (None, db1, w1) \<and>
    sdb_Open ''d'' ''i'' w1 = (Inr db2, w1) \<and>
    fst (sdb_Get key1 db2 w1) = Inr [7, 8] \<and>
    fst (sdb_Get key2 db2 w1) = fst (sdb_Get key2 fresh_db (fresh_world []))"
proof -
  from SimpleDB_Put_durable [OF fresh_inv, of "[]" key1 "[7, 8]" rev] fresh_paths
  obtain db1 w1 db2 where
    "sdb_Put rev key1 [7, 8] fresh_db (fresh_world []) = (None, db1, w1)"
    "sdb_Open ''d'' ''i'' w1 = (Inr db2, w1)"
    "\<And>k. fst (sdb_Get k db2 w1) = (if k = key1 then Inr [7, 8] else fst (sdb_Get k fresh_db (fresh_world [])))"
    by auto
  moreover have "key2 \<noteq> key1" by (simp add: key1_def key2_def)
  ultimately have "fst (sdb_Get key1 db2 w1) = Inr [7, 8]"
    "fst (sdb_Get key2 db2 w1) = fst (sdb_Get key2 fresh_db (fresh_world []))" by simp_all
  with \<open>sdb_Put rev key1 [7, 8] fresh_db (fresh_world []) = (None, db1, w1)\<close>
    \<open>sdb_Open ''d'' ''i'' w1 = (Inr db2, w1)\<close> show ?thesis by blast
qed

text \<open>\<^verbatim>\<open>SimpleDB.Delete\<close> is not durable. It removes the key from the index in memory only: the
  database no longer finds the key, but one opened afterwards on the same paths reads the value
  again.\<close>

theorem SimpleDB_Delete_not_durable:
  assumes "sdb_inv db w" "faults w = []" "length key = KeySize" "length v < 2 ^ 32"
    and "\<And>m. mset (ord m) = mset m" "length (content db w) + length v + 36 < 2 ^ 63"
  shows "\<exists>db1 w1 db2 db3. sdb_Put ord key v db w = (None, db1, w1) \<and>
    sdb_Delete key db1 = (None, db2) \<and> fst (sdb_Get key db2 w1) = Inl ErrNotFound \<and>
    sdb_Open (dbPath db) (indexPath db) w1 = (Inr db3, w1) \<and> fst (sdb_Get key db3 w1) = Inr v"
proof -
  obtain db1 w1 db3 where r: "sdb_Put ord key v db w = (None, db1, w1)" "faults w1 = []" "sdb_inv db1 w1"
    "sdb_Open (dbPath db) (indexPath db) w1 = (Inr db3, w1)" "sdb_inv db3 w1"
    "sdb_view db3 w1 = (sdb_view db w)(key \<mapsto> v)"
    using sdb_Put_reopen [OF assms] by blast
  let ?db2 = "db1\<lparr>indexMap := AList.delete key (indexMap db1)\<rparr>"
  note del = delete_keeps [OF r(3), of key]
  have "sdb_Delete key db1 = (None, ?db2)" using assms(3) by (simp add: sdb_Delete_def)
  moreover have "fst (sdb_Get key ?db2 w1) = Inl ErrNotFound"
    using assms(3) del(2) by (simp add: sdb_Get_fst_ok [OF del(1) r(2)])
  moreover have "fst (sdb_Get key db3 w1) = Inr v"
    using assms(3) r(6) by (simp add: sdb_Get_fst_ok [OF r(5,2)])
  ultimately show ?thesis using r by blast
qed

lemma SimpleDB_Delete_not_durable_example:
  "\<exists>db1 w1 db2 db3. sdb_Put id key1 [7, 8] fresh_db (fresh_world []) = (None, db1, w1) \<and>
    sdb_Delete key1 db1 = (None, db2) \<and> fst (sdb_Get key1 db2 w1) = Inl ErrNotFound \<and>
    sdb_Open ''d'' ''i'' w1 = (Inr db3, w1) \<and> fst (sdb_Get key1 db3 w1) = Inr [7, 8]"
  using SimpleDB_Delete_not_durable [OF fresh_inv, of "[]" key1 "[7, 8]" id]
  by (simp add: fresh_paths)

text \<open>C31. \<^verbatim>\<open>SimpleDB.Compact\<close> loses nothing and keeps nothing dead. Without failing calls it
  succeeds for every order in which Go visits the map, every key reads as before, and the new
  data file consists of the records of the keys in the index alone.\<close>

theorem SimpleDB_Compact_correct:
  assumes "sdb_inv db w" "faults w = []" "\<And>m. mset (ord m) = mset m"
  shows "\<exists>db' w'. sdb_Compact ord db w = (None, db', w') \<and> sdb_inv db' w' \<and>
    (\<forall>k. fst (sdb_Get k db' w') = fst (sdb_Get k db w)) \<and>
    length (content db' w') = live_size (content db w) (indexMap db)"
proof -
  obtain db' w' where r: "sdb_Compact ord db w = (None, db', w')" "sdb_inv db' w'" "faults w' = []"
    "sdb_view db' w' = sdb_view db w" "length (content db' w') = live_size (content db w) (indexMap db)"
    using sdb_Compact_ok [OF assms] by blast
  then have "\<forall>k. fst (sdb_Get k db' w') = fst (sdb_Get k db w)"
    by (simp add: sdb_Get_fst_ok [OF r(2,3)] sdb_Get_fst_ok [OF assms(1,2)])
  with r show ?thesis by blast
qed

theorem SimpleDB_Compact_correct_witness:
  "\<exists>db1 w1 db2 w2. sdb_Put id key1 [7, 8] fresh_db (fresh_world []) = (None, db1, w1) \<and>
    sdb_Compact rev db1 w1 = (None, db2, w2) \<and> fst (sdb_Get key1 db2 w2) = Inr [7, 8]"
proof -
  obtain db1 w1 where p: "sdb_Put id key1 [7, 8] fresh_db (fresh_world []) = (None, db1, w1)"
    "sdb_inv db1 w1" "faults w1 = []" "sdb_view db1 w1 = [key1 \<mapsto> [7, 8]]"
    using sdb_Put_ok [OF fresh_inv, of "[]" key1 "[7, 8]" id] by auto
  obtain db2 w2 where c: "sdb_Compact rev db1 w1 = (None, db2, w2)"
    "\<And>k. fst (sdb_Get k db2 w2) = fst (sdb_Get k db1 w1)"
    using SimpleDB_Compact_correct [OF p(2,3), of rev] by auto
  have "fst (sdb_Get key1 db1 w1) = Inr [7, 8]" using p by (simp add: sdb_Get_fst_ok [OF p(2,3)])
  with p c show ?thesis by auto
qed

text \<open>Concurrent reads of \<^verbatim>\<open>SimpleDB\<close> can return the value of another key. \<^verbatim>\<open>Get\<close> releases the
  lock before it positions the shared file, so for any two keys there is a schedule of two
  readers in which the reader of the first key returns the value of the second.\<close>

theorem SimpleDB_Get_race:
  assumes "sdb_inv db w" "faults w = []" "sdb_view db w k1 = Some v1" "sdb_view db w k2 = Some v2"
  shows "\<exists>sched. fst (get_interleave sched k1 k2 GLookup GLookup db w) = GDone (Inr v2)"
proof -
  obtain o1 o2 where o1: "map_of (indexMap db) k1 = Some o1" and o2: "map_of (indexMap db) k2 = Some o2"
    and v2: "v2 = rec_value (content db w) o2"
    using assms(3,4) by (auto simp: sdb_view_def)
  let ?at = "\<lambda>n. db\<lparr>dbFile := dbFile db\<lparr>hpos := n\<rparr>\<rparr>"
  have inv: "sdb_inv (?at n) w" for n using assms(1) by simp
  have c: "content (?at n) w = content db w" for n by (simp add: content_def)
  obtain db' where last: "get_step k1 (GValue (length v2)) (?at (nat o2 + 4)) w = (GDone (Inr v2), db', w)"
    using get_steps_ok(4) [OF inv assms(2), of "nat o2 + 4" k2 o2 k1] o2 by (auto simp: c v2)
  have "fst (get_interleave [True, True, False, False, True, True] k1 k2 GLookup GLookup db w) =
    GDone (Inr v2)"
    using get_steps_ok(1,2) [OF assms(1,2) o1] get_steps_ok(1) [OF inv assms(2), of "nat o1" k2 o2] o2
      get_steps_ok(2) [OF inv assms(2), of "nat o1" k2 o2 k2]
      get_steps_ok(3) [OF inv assms(2), of "nat o2" k2 o2 k1] last
    by (simp add: c v2 del: get_step.simps)
  then show ?thesis by blast
qed

lemma SimpleDB_Get_race_example:
  "\<exists>db w sched. sdb_view db w key1 = Some [7] \<and> sdb_view db w key2 = Some [8] \<and>
    fst (get_interleave sched key1 key2 GLookup GLookup db w) = GDone (Inr [8])"
proof -
  obtain db1 w1 where p: "sdb_inv db1 w1" "faults w1 = []" "sdb_view db1 w1 = [key1 \<mapsto> [7]]"
    using sdb_Put_ok [OF fresh_inv, of "[]" key1 "[7]" id] by auto
  obtain db2 w2 where q: "sdb_inv db2 w2" "faults w2 = []" "sdb_view db2 w2 = [key1 \<mapsto> [7], key2 \<mapsto> [8]]"
    using sdb_Put_ok [OF p(1,2), of key2 "[8]" id] p(3) by auto
  then have v: "sdb_view db2 w2 key1 = Some [7]" "sdb_view db2 w2 key2 = Some [8]" by simp_all
  from SimpleDB_Get_race [OF q(1,2) v] v show ?thesis by blast
qed

end
