(* ===== verification/Arg_Encode.thy ===== *)
theory Arg_Encode
  imports Go_Prelude
begin

text \<open>
  The ABI helpers of \<^verbatim>\<open>src/pkg/smart_contract/argument_encode\<close>. Go strings are byte lists, a
  panic is \<open>None\<close>, and \<^verbatim>\<open>int\<close> and \<^verbatim>\<open>uint64\<close> arithmetic wraps at 64 bits. The package
  \<^verbatim>\<open>holiman/uint256\<close> is a parameter: \<open>u_bytes n\<close> is \<^verbatim>\<open>NewInt(n).Bytes()\<close>, \<open>u_bytes32 n\<close> is
  \<^verbatim>\<open>NewInt(n).Bytes32()\<close> and \<open>u_uint64 b\<close> is \<^verbatim>\<open>NewInt(0).SetBytes(b).Uint64()\<close>.
\<close>

record uint256 =
  u_bytes :: "u64 \<Rightarrow> bytes"
  u_bytes32 :: "u64 \<Rightarrow> bytes"
  u_uint64 :: "bytes \<Rightarrow> u64"

text \<open>What the package documents: the minimal and the 32-byte big-endian form, and the low 64 bits of
  a big-endian number of at most 32 bytes.\<close>

definition uint256_laws :: "uint256 \<Rightarrow> bool" where
  "uint256_laws U \<longleftrightarrow>
     (\<forall>n. u_bytes U n = big_bytes (uint n)) \<and>
     (\<forall>n. u_bytes32 U n = be_bytes 32 (unat n)) \<and>
     (\<forall>b. length b \<le> 32 \<longrightarrow> u_uint64 U b = word_of_nat (be_nat b))"

definition wordSize :: nat where
  "wordSize = 32"

text \<open>\<^verbatim>\<open>s[lo:hi]\<close> for indices inside the slice; \<open>None\<close> is the panic.\<close>

definition go_slice :: "bytes \<Rightarrow> int \<Rightarrow> int \<Rightarrow> bytes option" where
  "go_slice s lo hi =
     (if 0 \<le> lo \<and> lo \<le> hi \<and> hi \<le> int (length s)
      then Some (take (nat (hi - lo)) (drop (nat lo) s)) else None)"

text \<open>\<^verbatim>\<open>copy(buf[lo:hi], src)\<close> for \<open>lo \<le> hi \<le> length buf\<close>.\<close>

definition copy_into :: "bytes \<Rightarrow> nat \<Rightarrow> nat \<Rightarrow> bytes \<Rightarrow> bytes" where
  "copy_into buf lo hi src = take lo buf @ go_copy (take (hi - lo) (drop lo buf)) src @ drop hi buf"

definition DecodeFuncHash :: "bytes \<Rightarrow> (bytes \<times> bytes) option" where
  "DecodeFuncHash input = (if length input < 4 then None else Some (take 4 input, drop 4 input))"

definition DecodeStringInput :: "uint256 \<Rightarrow> bytes \<Rightarrow> int \<Rightarrow> bytes option" where
  "DecodeStringInput U input idx =
     (let w = int wordSize in
      if idx < 0 \<or> int64 (int64 (idx + 1) * w) > int (length input) then Some []
      else case go_slice input (int64 (idx * w)) (int64 (int64 (idx + 1) * w)) of
        None \<Rightarrow> None
      | Some word \<Rightarrow>
          let start = u_uint64 U word in
          if uint (start + 32) > int (length input) then Some []
          else case go_slice input (uint start) (uint (start + 32)) of
            None \<Rightarrow> None
          | Some lenWord \<Rightarrow>
              let strLen = u_uint64 U lenWord in
              if uint (start + 32 + strLen) > int (length input) then Some []
              else go_slice input (uint (start + 32)) (uint (start + 32 + strLen)))"

definition EncodeStringInput :: "uint256 \<Rightarrow> bytes \<Rightarrow> bytes" where
  "EncodeStringInput U input =
     (let strLen = length input;
          dataOffset = wordSize * 1;
          d0 = replicate (dataOffset + wordSize + strLen) 0;
          d1 = copy_into d0 0 wordSize (u_bytes U (word_of_nat dataOffset));
          d2 = copy_into d1 dataOffset (dataOffset + wordSize) (u_bytes U (word_of_nat strLen));
          d3 = copy_into d2 (dataOffset + wordSize) (length d2) input;
          paddingSize = wordSize - strLen mod wordSize
      in if paddingSize < wordSize
         then copy_into d3 (dataOffset + wordSize + strLen) (length d3) (replicate paddingSize 0)
         else d3)"

text \<open>\<^verbatim>\<open>math.Ceil(len/32) * 32\<close>, computed in floating point in the code, is exact below \<open>2 ^ 53\<close>.\<close>

definition EncodeSingleString :: "uint256 \<Rightarrow> bytes \<Rightarrow> bytes" where
  "EncodeSingleString U input =
     (let start = u_bytes32 U 32;
          len = u_bytes32 U (word_of_nat (length input));
          allocateLen = ((length input + 31) div 32) * 32;
          r0 = replicate (64 + allocateLen) 0;
          r1 = copy_into r0 0 (length r0) start;
          r2 = copy_into r1 32 (length r1) len
      in copy_into r2 64 (length r2) input)"

subsection \<open>Proofs\<close>

lemma copy_into_middle:
  "length (src @ rest) = length old \<Longrightarrow>
   copy_into (pre @ old) (length pre) (length (pre @ old)) src = pre @ src @ drop (length src) old"
  by (simp add: copy_into_def go_copy_def)

lemma copy_into_word:
  "length old = n \<Longrightarrow> length src \<le> n \<Longrightarrow>
   copy_into (pre @ old @ post) (length pre) (length pre + n) src =
     pre @ (src @ drop (length src) old) @ post"
  by (simp add: copy_into_def go_copy_def)

lemma be_nat_append: "be_nat (a @ b) = be_nat a * 256 ^ length b + be_nat b"
proof -
  have "le_nat (x @ y) = le_nat x + 256 ^ length x * le_nat y" for x y
    by (induction x) (auto simp: algebra_simps)
  then show ?thesis by (simp add: be_nat_def)
qed

lemma be_nat_zeros: "be_nat (replicate n 0) = 0"
proof -
  have "le_nat (replicate n 0) = 0" by (induction n) auto
  then show ?thesis by (simp add: be_nat_def)
qed

lemma length_big_bytes_small:
  assumes "0 \<le> i" "i < 256 ^ n" shows "length (big_bytes i) \<le> n"
proof -
  have "x < 256 ^ n \<Longrightarrow> length (min_le x) \<le> n" for x
  proof (induction n arbitrary: x)
    case 0
    then show ?case by (simp add: min_le.simps)
  next
    case (Suc n)
    then have "x div 256 < 256 ^ n" by (simp add: less_mult_imp_div_less mult.commute)
    with Suc.IH show ?case by (subst min_le.simps) auto
  qed
  moreover have "nat \<bar>i\<bar> < 256 ^ n" using assms by (simp add: nat_less_iff)
  ultimately show ?thesis by (simp add: big_bytes_def)
qed

lemma u_bytes_length: "uint256_laws U \<Longrightarrow> length (u_bytes U n) \<le> 8"
  using length_big_bytes_small [of "uint n" 8] uint_lt2p [of n] by (simp add: uint256_laws_def)

text \<open>A number in the left bytes of a 32-byte word is a multiple of \<open>2 ^ 64\<close>.\<close>

lemma left_aligned_zero:
  assumes "uint256_laws U" "length b \<le> 8"
  shows "u_uint64 U (b @ replicate (32 - length b) 0) = 0"
proof -
  define m where "m = 24 - length b"
  have m: "32 - length b = m + 8" using assms(2) by (simp add: m_def)
  have "be_nat (b @ replicate (m + 8) 0) = be_nat b * 256 ^ m * 2 ^ 64"
    by (simp add: be_nat_append be_nat_zeros power_add)
  then have "2 ^ LENGTH(64) dvd be_nat (b @ replicate (m + 8) 0)" by (simp add: dvd_def)
  then have "(word_of_nat (be_nat (b @ replicate (m + 8) 0)) :: u64) = 0"
    by (simp only: word_of_nat_eq_0_iff)
  moreover have "length (b @ replicate (m + 8) (0 :: byte)) \<le> 32" using assms(2) m by simp
  ultimately show ?thesis using assms(1) m unfolding uint256_laws_def by metis
qed

lemma EncodeSingleString_form:
  assumes "uint256_laws U"
  shows "EncodeSingleString U s =
    be_bytes 32 32 @ be_bytes 32 (unat (word_of_nat (length s) :: u64)) @ s @
      replicate (((length s + 31) div 32) * 32 - length s) 0"
proof -
  let ?a = "((length s + 31) div 32) * 32"
  let ?w = "be_bytes 32 32" and ?l = "be_bytes 32 (unat (word_of_nat (length s) :: u64))"
  have le: "length s \<le> ?a" by presburger
  have u: "u_bytes32 U n = be_bytes 32 (unat n)" for n using assms by (simp add: uint256_laws_def)
  have r0: "copy_into (replicate (64 + ?a) 0) 0 (64 + ?a) ?w = ?w @ replicate (32 + ?a) 0"
    by (simp add: copy_into_def go_copy_def)
  have r1: "copy_into (?w @ replicate (32 + ?a) 0) 32 (64 + ?a) ?l = ?w @ ?l @ replicate ?a 0"
    by (simp add: copy_into_def go_copy_def)
  have r2: "copy_into (?w @ ?l @ replicate ?a 0) 64 (64 + ?a) s = ?w @ ?l @ s @ replicate (?a - length s) 0"
    using le by (simp add: copy_into_def go_copy_def)
  show ?thesis using r0 r1 r2 by (simp add: EncodeSingleString_def u Let_def)
qed

lemma go_slice_middle:
  "lo = int (length a) \<Longrightarrow> hi = int (length a + length b) \<Longrightarrow> go_slice (a @ b @ c) lo hi = Some b"
  by (simp add: go_slice_def)

lemma uint_add_small:
  assumes "n < 2 ^ 63"
  shows "uint (64 + word_of_nat n :: u64) = 64 + int n"
proof -
  have "uint (word_of_nat n :: u64) = int n"
    using assms by (simp add: unsigned_of_nat take_bit_nat_eq_self)
  then have "uint (64 + word_of_nat n :: u64) = (64 + int n) mod 2 ^ 64"
    by (simp add: uint_word_ariths(1))
  also have "\<dots> = 64 + int n" using assms by (intro mod_pos_pos_trivial) auto
  finally show ?thesis .
qed

text \<open>ABI strings. For a string shorter than \<open>2 ^ 63\<close> bytes, \<^verbatim>\<open>DecodeStringInput\<close> at index 0 reads
  back what \<^verbatim>\<open>EncodeSingleString\<close> wrote, but reads the empty string from what \<^verbatim>\<open>EncodeStringInput\<close>
  wrote, whatever the string: that encoder puts the offset and the length in the left bytes of
  their words.\<close>

theorem EncodeString_roundtrip:
  assumes "uint256_laws U" "length s < 2 ^ 63"
  shows "DecodeStringInput U (EncodeSingleString U s) 0 = Some s \<and>
    DecodeStringInput U (EncodeStringInput U s) 0 = Some []"
proof
  let ?w = "be_bytes 32 32" and ?l = "be_bytes 32 (length s)"
  let ?z = "replicate (((length s + 31) div 32) * 32 - length s) (0 :: byte)"
  have len: "unat (word_of_nat (length s) :: u64) = length s" using assms(2) by (simp add: unat_of_nat)
  have form: "EncodeSingleString U s = ?w @ ?l @ s @ ?z"
    using EncodeSingleString_form [OF assms(1), of s] len by simp
  have u: "u_uint64 U (be_bytes 32 n) = word_of_nat n" if "n < 2 ^ 64" for n
    using assms(1) that by (simp add: uint256_laws_def be_nat_be_bytes)
  have s1: "go_slice (EncodeSingleString U s) 0 32 = Some ?w"
    using go_slice_middle [of 0 "[]" 32 ?w "?l @ s @ ?z"] by (simp add: form)
  have s2: "go_slice (EncodeSingleString U s) 32 64 = Some ?l"
    using go_slice_middle [of 32 ?w 64 ?l "s @ ?z"] by (simp add: form)
  have hi: "uint (64 + word_of_nat (length s) :: u64) = 64 + int (length s)"
    by (rule uint_add_small) (use assms(2) in simp)
  have s3: "go_slice (EncodeSingleString U s) 64 (64 + int (length s)) = Some s"
    using go_slice_middle [of 64 "?w @ ?l" "64 + int (length s)" s ?z] by (simp add: form)
  have total: "64 + int (length s) \<le> int (length (EncodeSingleString U s))" by (simp add: form)
  show "DecodeStringInput U (EncodeSingleString U s) 0 = Some s"
    using s1 s2 s3 total hi assms(2)
    by (simp add: DecodeStringInput_def wordSize_def int64_small u Let_def)
next
  let ?o = "u_bytes U 32" and ?n = "u_bytes U (word_of_nat (length s))"
  let ?p = "\<lambda>b. b @ replicate (32 - length b) (0 :: byte)"
  have o8: "length ?o \<le> 8" "length ?n \<le> 8" using u_bytes_length [OF assms(1)] by auto
  have d1: "copy_into (replicate (64 + length s) 0) 0 32 ?o = ?p ?o @ replicate (32 + length s) 0"
    using o8 by (simp add: copy_into_def go_copy_def)
  have d2: "copy_into (?p ?o @ replicate (32 + length s) 0) 32 64 ?n = ?p ?o @ ?p ?n @ replicate (length s) 0"
    using o8 by (simp add: copy_into_def go_copy_def)
  have d3: "copy_into (?p ?o @ ?p ?n @ replicate (length s) 0) 64 (64 + length s) s = ?p ?o @ ?p ?n @ s"
    using o8 by (simp add: copy_into_def go_copy_def)
  have d4: "copy_into (?p ?o @ ?p ?n @ s) (64 + length s) (64 + length s) x = ?p ?o @ ?p ?n @ s" for x
    using o8 by (simp add: copy_into_def go_copy_def)
  have form: "EncodeStringInput U s = ?p ?o @ ?p ?n @ s"
    using d1 d2 d3 d4 o8 by (simp add: EncodeStringInput_def wordSize_def Let_def)
  have s1: "go_slice (EncodeStringInput U s) 0 32 = Some (?p ?o)"
    using go_slice_middle [of 0 "[]" 32 "?p ?o" "?p ?n @ s"] o8 by (simp add: form)
  have s2: "go_slice (EncodeStringInput U s) 32 32 = Some []"
    using o8 by (simp add: form go_slice_def)
  show "DecodeStringInput U (EncodeStringInput U s) 0 = Some []"
    using s1 s2 left_aligned_zero [OF assms(1) o8(1)] o8 assms(2)
    by (simp add: DecodeStringInput_def wordSize_def int64_small Let_def form)
qed

text \<open>The package's functions as documented, for the parameter.\<close>

definition ref_uint256 :: uint256 where
  "ref_uint256 = \<lparr>u_bytes = \<lambda>n. big_bytes (uint n), u_bytes32 = \<lambda>n. be_bytes 32 (unat n),
     u_uint64 = \<lambda>b. word_of_nat (be_nat b)\<rparr>"

lemma ref_uint256_laws: "uint256_laws ref_uint256"
  by (simp add: uint256_laws_def ref_uint256_def)

lemma EncodeString_roundtrip_example:
  "DecodeStringInput ref_uint256 (EncodeSingleString ref_uint256 [104, 105]) 0 = Some [104, 105] \<and>
   DecodeStringInput ref_uint256 (EncodeStringInput ref_uint256 [104, 105]) 0 = Some []"
  using EncodeString_roundtrip [OF ref_uint256_laws, of "[104, 105]"] by simp

text \<open>\<^verbatim>\<open>DecodeStringInput\<close> panics on crafted input: when the first word holds an offset within 32
  of \<open>2 ^ 64\<close>, the bounds check on \<^verbatim>\<open>start+wordSize\<close> wraps around and passes, and the slice
  expression that follows panics.\<close>

theorem DecodeStringInput_panics:
  assumes "uint256_laws U" "length w = 32" "2 ^ 64 - 32 \<le> be_nat w" "be_nat w < 2 ^ 64"
    "length rest < 2 ^ 32" "32 \<le> length rest"
  shows "DecodeStringInput U (w @ rest) 0 = None"
proof -
  let ?s = "word_of_nat (be_nat w) :: u64"
  have u: "u_uint64 U w = ?s" using assms(1,2) by (simp add: uint256_laws_def)
  have us: "uint ?s = int (be_nat w)" using assms(4) by (simp add: unsigned_of_nat take_bit_nat_eq_self)
  have "uint (?s + 32) = (int (be_nat w) + 32) mod 2 ^ 64" using us by (simp add: uint_word_ariths(1))
  also have "\<dots> = int (be_nat w) + 32 - 2 ^ 64" using assms(3,4)
    by (subst minus_mod_self2 [symmetric]) (simp add: mod_pos_pos_trivial)
  finally have hi: "uint (?s + 32) = int (be_nat w) + 32 - 2 ^ 64" .
  have s1: "go_slice (w @ rest) 0 32 = Some w"
    using go_slice_middle [of 0 "[]" 32 w rest] assms(2) by simp
  have "go_slice (w @ rest) (uint ?s) (uint (?s + 32)) = None"
    using us hi assms(3,4) by (simp add: go_slice_def)
  then show ?thesis
    using s1 u hi assms by (simp add: DecodeStringInput_def wordSize_def int64_small Let_def)
qed

lemma DecodeStringInput_panics_example:
  "DecodeStringInput ref_uint256 (be_bytes 32 (2 ^ 64 - 1) @ replicate 32 0) 0 = None"
  using DecodeStringInput_panics [OF ref_uint256_laws, of "be_bytes 32 (2 ^ 64 - 1)" "replicate 32 0"]
  by (simp add: be_nat_be_bytes)

end
