(* ===== verification/Receipts.thy ===== *)
theory Receipts
  imports Trie_Props Kv_Store Arg_Encode "HOL-Library.AList"
begin

text \<open>
  Receipts, \<^verbatim>\<open>src/pkg/receipt\<close>: one receipt as the protobuf message it wraps, and the collection
  that keeps changed receipts in a map, writes them into a trie and commits the trie to a
  store. Marshalling, the address conversion and the serialization of a batch are parameters;
  the store is a parameter given by its \<^verbatim>\<open>Get\<close> and \<^verbatim>\<open>BatchPut\<close>. The trie of the collection is
  set by both constructors, so the branch of \<^verbatim>\<open>commitInternal\<close> for a nil trie is unreachable.
\<close>

subsection \<open>One receipt\<close>

definition RECEIPT_STATUS_RETURNED :: int where "RECEIPT_STATUS_RETURNED = 0"
definition RECEIPT_STATUS_HALTED :: int where "RECEIPT_STATUS_HALTED = 1"
definition RECEIPT_STATUS_THREW :: int where "RECEIPT_STATUS_THREW = 2"
definition RECEIPT_STATUS_TRANSACTION_ERROR :: int where "RECEIPT_STATUS_TRANSACTION_ERROR = -1"
definition EXCEPTION_ERR_INVALID_CODE :: int where "EXCEPTION_ERR_INVALID_CODE = 11"

record EventLog =
  el_TransactionHash :: bytes
  el_Address :: bytes
  el_Data :: bytes
  el_Topics :: "bytes list"

record Receipt =
  TransactionHash_pb :: bytes
  FromAddress_pb :: bytes
  ToAddress_pb :: bytes
  Amount_pb :: bytes
  Status :: int
  Return :: bytes
  Exception :: int
  GasUsed :: u64
  GasFee :: u64
  EventLogs :: "EventLog list"
  TransactionIndex :: u64
  ProcessingType :: int
  RHash_pb :: bytes

definition zero_Receipt :: Receipt where
  "zero_Receipt =
     \<lparr>TransactionHash_pb = [], FromAddress_pb = [], ToAddress_pb = [], Amount_pb = [], Status = 0,
      Return = [], Exception = 0, GasUsed = 0, GasFee = 0, EventLogs = [], TransactionIndex = 0,
      ProcessingType = 0, RHash_pb = []\<rparr>"

definition ascii_bytes :: "string \<Rightarrow> bytes" where
  "ascii_bytes s = map (\<lambda>c. word_of_nat (of_char c)) s"

text \<open>The status and the return value that are saved: every status but \<^verbatim>\<open>RETURNED\<close> becomes
  \<^verbatim>\<open>TRANSACTION_ERROR\<close>, a halted transaction and an invalid code get a message.\<close>

definition save_result :: "uint256 \<Rightarrow> int \<Rightarrow> bytes \<Rightarrow> int \<Rightarrow> int \<times> bytes" where
  "save_result U status returnValue exc =
     (if status \<noteq> RECEIPT_STATUS_RETURNED then
        let r1 = (if status = RECEIPT_STATUS_HALTED
                  then EncodeStringInput U (ascii_bytes ''transaction halted'') else returnValue);
            r2 = (if exc = EXCEPTION_ERR_INVALID_CODE
                  then EncodeStringInput U (ascii_bytes ''transaction error invalid code'') else r1)
        in (RECEIPT_STATUS_TRANSACTION_ERROR, r2)
      else (status, returnValue))"

text \<open>The arguments \<^verbatim>\<open>blockHash\<close> and \<^verbatim>\<open>blockNumber\<close> of \<^verbatim>\<open>NewReceipt\<close> are not used.\<close>

definition NewReceipt ::
    "uint256 \<Rightarrow> bytes \<Rightarrow> bytes \<Rightarrow> bytes \<Rightarrow> int \<Rightarrow> int \<Rightarrow> bytes \<Rightarrow> int \<Rightarrow> u64 \<Rightarrow> u64 \<Rightarrow> EventLog list \<Rightarrow> u64 \<Rightarrow> Receipt" where
  "NewReceipt U txHash fromA toA amount status returnValue exc gasFee gasUsed logs txIndex =
     (case save_result U status returnValue exc of (st, ret) \<Rightarrow>
        zero_Receipt\<lparr>TransactionHash_pb := txHash, FromAddress_pb := fromA, ToAddress_pb := toA,
          Amount_pb := big_bytes amount, Status := st, Return := ret, Exception := exc,
          GasUsed := gasUsed, GasFee := gasFee, EventLogs := logs, TransactionIndex := txIndex\<rparr>)"

definition UpdateExecuteResult ::
    "uint256 \<Rightarrow> Receipt \<Rightarrow> int \<Rightarrow> bytes \<Rightarrow> int \<Rightarrow> u64 \<Rightarrow> EventLog list \<Rightarrow> Receipt" where
  "UpdateExecuteResult U r status returnValue exc gasUsed logs =
     (case save_result U status returnValue exc of (st, ret) \<Rightarrow>
        r\<lparr>Status := st, Return := ret, Exception := exc, GasUsed := gasUsed, EventLogs := logs\<rparr>)"

definition Amount :: "Receipt \<Rightarrow> int" where
  "Amount r = big_set_bytes (Amount_pb r)"

definition TransactionHash :: "ext \<Rightarrow> Receipt \<Rightarrow> bytes" where
  "TransactionHash X r = BytesToHash X (TransactionHash_pb r)"

definition RHash :: "ext \<Rightarrow> Receipt \<Rightarrow> bytes" where
  "RHash X r = BytesToHash X (RHash_pb r)"

definition SetRHash :: "Receipt \<Rightarrow> bytes \<Rightarrow> Receipt" where
  "SetRHash r h = r\<lparr>RHash_pb := h\<rparr>"

definition SetToAddress :: "Receipt \<Rightarrow> bytes \<Rightarrow> Receipt" where
  "SetToAddress r a = r\<lparr>ToAddress_pb := a\<rparr>"

definition SetReturn :: "Receipt \<Rightarrow> bytes \<Rightarrow> Receipt" where
  "SetReturn r d = r\<lparr>Return := d\<rparr>"

definition SetProcessingType :: "Receipt \<Rightarrow> int \<Rightarrow> Receipt" where
  "SetProcessingType r p = r\<lparr>ProcessingType := p\<rparr>"

text \<open>Marshalling of receipts and of lists of receipts, and \<^verbatim>\<open>storage.SerializeBatch\<close> (gob);
  \<open>None\<close> is an error.\<close>

record receipt_ext =
  mar :: "Receipt \<Rightarrow> bytes option"
  unm :: "bytes \<Rightarrow> Receipt option"
  mar_list :: "Receipt list \<Rightarrow> bytes option"
  unm_list :: "bytes \<Rightarrow> Receipt list option"
  ser_batch :: "(bytes \<times> bytes) list \<Rightarrow> bytes option"

definition Receipt_Marshal :: "receipt_ext \<Rightarrow> Receipt \<Rightarrow> bytes option" where
  "Receipt_Marshal E r = mar E r"

definition Receipt_Unmarshal :: "receipt_ext \<Rightarrow> bytes \<Rightarrow> Receipt option" where
  "Receipt_Unmarshal E b = unm E b"

definition MarshalReceipts :: "receipt_ext \<Rightarrow> Receipt list \<Rightarrow> bytes option" where
  "MarshalReceipts E rs = mar_list E rs"

definition UnmarshalReceipts :: "receipt_ext \<Rightarrow> bytes \<Rightarrow> Receipt list option" where
  "UnmarshalReceipts E b = unm_list E b"

subsection \<open>The collection\<close>

record 's storage =
  st_Get :: "'s \<Rightarrow> bytes \<Rightarrow> bytes option"
  st_BatchPut :: "'s \<Rightarrow> (bytes \<times> bytes) list \<Rightarrow> bool \<times> 's"

record 's Receipts =
  r_trie :: MerklePatriciaTrie
  r_db :: 's
  originRootHash :: bytes
  dirtyReceipts :: "(bytes \<times> Receipt) list"
  receiptBatchPut :: "bytes option"

datatype receipts_error =
    ErrorReceiptNotFound | ErrUnmarshalReceipt | ErrMarshalReceipt | ErrTrie trie_error
  | ErrRootMismatch | ErrBatchPut | ErrReload trie_error

definition SetReceiptBatchPut :: "'s Receipts \<Rightarrow> bytes \<Rightarrow> 's Receipts" where
  "SetReceiptBatchPut r batch = r\<lparr>receiptBatchPut := Some batch\<rparr>"

definition GetReceiptBatchPut :: "'s Receipts \<Rightarrow> bytes option \<times> 's Receipts" where
  "GetReceiptBatchPut r = (receiptBatchPut r, r\<lparr>receiptBatchPut := None\<rparr>)"

text \<open>\<^verbatim>\<open>NewReceipts\<close> panics when the trie cannot be opened or hashed; \<open>None\<close> is the panic.\<close>

definition NewReceipts :: "ext \<Rightarrow> 's storage \<Rightarrow> 's \<Rightarrow> 's Receipts option" where
  "NewReceipts X S db =
     (case trie_New X (st_Get S db) EmptyRootHash True of
        Inl e \<Rightarrow> None
      | Inr t \<Rightarrow>
          (case trie_Hash X t of
             None \<Rightarrow> None
           | Some (h, t) \<Rightarrow>
               Some \<lparr>r_trie = t, r_db = db, originRootHash = h, dirtyReceipts = [], receiptBatchPut = None\<rparr>))"

definition NewReceiptsFromRoot :: "ext \<Rightarrow> 's storage \<Rightarrow> bytes \<Rightarrow> 's \<Rightarrow> receipts_error + 's Receipts" where
  "NewReceiptsFromRoot X S rt db =
     (case trie_New X (st_Get S db) rt True of
        Inl e \<Rightarrow> Inl (ErrTrie e)
      | Inr t \<Rightarrow>
          Inr \<lparr>r_trie = t, r_db = db, originRootHash = rt, dirtyReceipts = [], receiptBatchPut = None\<rparr>)"

definition ReceiptsRoot :: "ext \<Rightarrow> 's Receipts \<Rightarrow> (bytes \<times> 's Receipts) option" where
  "ReceiptsRoot X r =
     (case trie_Hash X (r_trie r) of None \<Rightarrow> None | Some (h, t) \<Rightarrow> Some (h, r\<lparr>r_trie := t\<rparr>))"

definition setDirtyReceipt :: "ext \<Rightarrow> 's Receipts \<Rightarrow> Receipt \<Rightarrow> 's Receipts" where
  "setDirtyReceipt X r rc = r\<lparr>dirtyReceipts := AList.update (TransactionHash X rc) rc (dirtyReceipts r)\<rparr>"

definition AddReceipt :: "ext \<Rightarrow> 's Receipts \<Rightarrow> Receipt \<Rightarrow> 's Receipts" where
  "AddReceipt X r rc = setDirtyReceipt X r rc"

definition AddReceipts :: "ext \<Rightarrow> 's Receipts \<Rightarrow> Receipt list \<Rightarrow> 's Receipts" where
  "AddReceipts X r rcs = foldl (setDirtyReceipt X) r rcs"

text \<open>The receipt in the map is updated in place and then stored under its own hash.\<close>

definition UpdateExecuteResultToReceipt ::
    "uint256 \<Rightarrow> ext \<Rightarrow> 's Receipts \<Rightarrow> bytes \<Rightarrow> int \<Rightarrow> bytes \<Rightarrow> int \<Rightarrow> u64 \<Rightarrow> EventLog list \<Rightarrow>
     receipts_error option \<times> 's Receipts" where
  "UpdateExecuteResultToReceipt U X r hash status returnValue exc gasUsed logs =
     (case map_of (dirtyReceipts r) hash of
        None \<Rightarrow> (Some ErrorReceiptNotFound, r)
      | Some rc \<Rightarrow>
          let rc' = UpdateExecuteResult U rc status returnValue exc gasUsed logs in
          (None, setDirtyReceipt X (r\<lparr>dirtyReceipts := AList.update hash rc' (dirtyReceipts r)\<rparr>) rc'))"

text \<open>The sum wraps at 64 bits.\<close>

definition Receipts_GasUsed :: "'s Receipts \<Rightarrow> u64" where
  "Receipts_GasUsed r = sum_list (map (\<lambda>p. GasUsed (snd p)) (dirtyReceipts r))"

definition GetReceipt ::
    "ext \<Rightarrow> receipt_ext \<Rightarrow> 's storage \<Rightarrow> nat \<Rightarrow> 's Receipts \<Rightarrow> bytes \<Rightarrow> (receipts_error + Receipt) \<times> 's Receipts" where
  "GetReceipt X E S fuel r hash =
     (case map_of (dirtyReceipts r) hash of
        Some rc \<Rightarrow> (Inr rc, r)
      | None \<Rightarrow>
          (case trie_Get X (st_Get S (r_db r)) fuel (r_trie r) hash of
             (Inl e, t) \<Rightarrow> (Inl ErrorReceiptNotFound, r\<lparr>r_trie := t\<rparr>)
           | (Inr data, t) \<Rightarrow>
               (case Receipt_Unmarshal E data of
                  None \<Rightarrow> (Inl ErrUnmarshalReceipt, r\<lparr>r_trie := t\<rparr>)
                | Some rc \<Rightarrow> (Inr rc, r\<lparr>r_trie := t\<rparr>))))"

definition Discard :: "ext \<Rightarrow> 's storage \<Rightarrow> 's Receipts \<Rightarrow> receipts_error option \<times> 's Receipts" where
  "Discard X S r =
     (let r = r\<lparr>dirtyReceipts := []\<rparr> in
      case trie_New X (st_Get S (r_db r)) (originRootHash r) True of
        Inl e \<Rightarrow> (Some (ErrTrie e), r)
      | Inr t \<Rightarrow> (None, r\<lparr>r_trie := t\<rparr>))"

text \<open>The loop of \<^verbatim>\<open>IntermediateRoot\<close> over the changed receipts, in the order Go visits the map.\<close>

fun apply_receipts ::
    "ext \<Rightarrow> receipt_ext \<Rightarrow> db \<Rightarrow> nat \<Rightarrow> MerklePatriciaTrie \<Rightarrow> (bytes \<times> Receipt) list \<Rightarrow>
     receipts_error option \<times> MerklePatriciaTrie" where
  "apply_receipts X E db fuel t [] = (None, t)"
| "apply_receipts X E db fuel t ((h, rc) # rcs) =
     (case Receipt_Marshal E rc of
        None \<Rightarrow> (Some ErrMarshalReceipt, t)
      | Some b \<Rightarrow>
          (case trie_Update X db fuel t (TransactionHash X rc) b of
             (Some e, t) \<Rightarrow> (Some (ErrTrie e), t)
           | (None, t) \<Rightarrow> apply_receipts X E db fuel t rcs))"

text \<open>\<open>None\<close> is a panic of the hasher. \<open>ord\<close> is the order in which Go visits the map.\<close>

definition IntermediateRoot ::
    "ext \<Rightarrow> receipt_ext \<Rightarrow> 's storage \<Rightarrow> nat \<Rightarrow> ((bytes \<times> Receipt) list \<Rightarrow> (bytes \<times> Receipt) list) \<Rightarrow>
     's Receipts \<Rightarrow> ((receipts_error + bytes) \<times> 's Receipts) option" where
  "IntermediateRoot X E S fuel ord r =
     (if length (dirtyReceipts r) = 0 then
        (case trie_Hash X (r_trie r) of None \<Rightarrow> None | Some (h, t) \<Rightarrow> Some (Inr h, r\<lparr>r_trie := t\<rparr>))
      else
        (case apply_receipts X E (st_Get S (r_db r)) fuel (r_trie r) (ord (dirtyReceipts r)) of
           (Some e, t) \<Rightarrow> Some (Inl e, r\<lparr>r_trie := t\<rparr>)
         | (None, t) \<Rightarrow>
             (case trie_Hash X t of
                None \<Rightarrow> None
              | Some (h, t) \<Rightarrow> Some (Inr h, r\<lparr>r_trie := t, dirtyReceipts := []\<rparr>))))"

text \<open>The third phase of \<^verbatim>\<open>commitInternal\<close>: the nodes with a nonzero hash go through the workers and
  come out in the order \<open>sched\<close>; they are written to the store and kept in serialized form.\<close>

definition write_nodes ::
    "receipt_ext \<Rightarrow> 's storage \<Rightarrow> ((bytes \<times> bytes) list \<Rightarrow> (bytes \<times> bytes) list) \<Rightarrow> NodeSet option \<Rightarrow>
     's Receipts \<Rightarrow> receipts_error option \<times> 's Receipts" where
  "write_nodes E S sched nodeSet r =
     (let batch = sched (commit_batch nodeSet) in
      if length batch > 0 then
        (case st_BatchPut S (r_db r) batch of
           (False, db) \<Rightarrow> (Some ErrBatchPut, r\<lparr>r_db := db\<rparr>)
         | (True, db) \<Rightarrow>
             (case ser_batch E batch of
                None \<Rightarrow> (None, r\<lparr>r_db := db\<rparr>)
              | Some b \<Rightarrow> (None, SetReceiptBatchPut (r\<lparr>r_db := db\<rparr>) b)))
      else (None, r))"

definition commitInternal ::
    "ext \<Rightarrow> receipt_ext \<Rightarrow> 's storage \<Rightarrow> nat \<Rightarrow> ((bytes \<times> Receipt) list \<Rightarrow> (bytes \<times> Receipt) list) \<Rightarrow>
     ((bytes \<times> bytes) list \<Rightarrow> (bytes \<times> bytes) list) \<Rightarrow> 's Receipts \<Rightarrow>
     ((receipts_error + bytes) \<times> 's Receipts) option" where
  "commitInternal X E S fuel ord sched r =
     (case IntermediateRoot X E S fuel ord r of
        None \<Rightarrow> None
      | Some (Inl e, r) \<Rightarrow> Some (Inl e, r)
      | Some (Inr intermediateHash, r) \<Rightarrow>
          (case trie_Commit X True (r_trie r) of
             None \<Rightarrow> None
           | Some ((committedHash, nodeSet, _), t) \<Rightarrow>
               let r = r\<lparr>r_trie := t\<rparr> in
               if intermediateHash \<noteq> committedHash then Some (Inl ErrRootMismatch, r)
               else
                 (case write_nodes E S sched nodeSet r of
                    (Some e, r) \<Rightarrow> Some (Inl e, r)
                  | (None, r) \<Rightarrow>
                      (case trie_New X (st_Get S (r_db r)) committedHash True of
                         Inl e \<Rightarrow> Some (Inl (ErrReload e), r)
                       | Inr newTrie \<Rightarrow>
                           Some (Inr committedHash,
                             r\<lparr>r_trie := newTrie, originRootHash := committedHash\<rparr>)))))"

definition Receipts_Commit where
  "Receipts_Commit = commitInternal"

definition CommitPipeline where
  "CommitPipeline = commitInternal"

end
