(* ===== verification/Receipts_Props.thy ===== *)
theory Receipts_Props
  imports Receipts Memory_DB Simple_DB_Props
begin

text \<open>
  Properties of the receipts collection. The main one composes the components: changed receipts
  go through the trie, the commit and a key-value store, and are read back from the root hash;
  it is instantiated with the memory store and with the file store.
\<close>

subsection \<open>Keys of one length\<close>

text \<open>Below every subtrie there are keys of the trie, with a common prefix taken off.\<close>

lemma subs_keys: "wft a \<Longrightarrow> u \<in> subs a \<Longrightarrow> \<exists>p. \<forall>k \<in> akeys u. p @ k \<in> akeys a"
proof (induction a)
  case (AShort sk c)
  show ?case
  proof (cases "u = AShort sk c")
    case True
    then show ?thesis by (intro exI [of _ "[]"]) simp
  next
    case False
    from AShort.prems(1) show ?thesis
    proof (cases rule: wft_short_cases)
      case (leaf v)
      with False AShort.prems(2) show ?thesis by simp
    next
      case ext
      with AShort False obtain p where "\<forall>k \<in> akeys u. p @ k \<in> akeys c" by auto
      with ext show ?thesis by (intro exI [of _ "sk @ p"]) (simp add: akeys_ext)
    qed
  qed
next
  case (AFull cs)
  show ?case
  proof (cases "u = AFull cs")
    case True
    then show ?thesis by (intro exI [of _ "[]"]) simp
  next
    case False
    with AFull.prems(2) obtain c where c: "c \<in> set cs" "u \<in> subs c" by auto
    then have "wft c" using wft_full_kids [OF AFull.prems(1) c(1)] by auto
    with AFull.IH [OF c(1)] c(2) obtain p where p: "\<forall>k \<in> akeys u. p @ k \<in> akeys c" by blast
    have len: "length cs = 17" by (rule wft_AFull_child [OF AFull.prems(1)])
    then obtain i where i: "i < 17" "c = cs ! i" using c(1) by (metis in_set_conv_nth)
    moreover have "i \<noteq> 16"
      using wft_AFull_child(2) [OF AFull.prems(1)] \<open>wft c\<close> i by auto
    ultimately have "i < 16" by simp
    then have "word_of_nat i # k \<in> akeys (AFull cs)" if "k \<in> akeys c" for k
      using that i AFull.prems(1) by (simp add: akeys_full_Cons nibble_unat unat_of_nat)
    with p show ?thesis by (intro exI [of _ "word_of_nat i # p"]) simp
  qed
qed auto

lemma equal_length_prefix_free:
  assumes "canon a" and len: "\<And>k. k \<in> akeys a \<Longrightarrow> length k = n"
  shows "prefix_free a"
  unfolding prefix_free_def
proof (intro allI impI ballI)
  fix cs c
  assume cs: "AFull cs \<in> subs a" and c: "c \<in> set (drop 16 cs)"
  have "wft a" using assms(1) cs by (auto simp: canon_def)
  have w: "wft (AFull cs)" using wft_subs [OF assms(1) cs] .
  have l: "length cs = 17" by (rule wft_AFull_child [OF w])
  obtain p where p: "\<forall>k \<in> akeys (AFull cs). p @ k \<in> akeys a" using subs_keys [OF \<open>wft a\<close> cs] by blast
  have c16: "c = cs ! 16" using c drop_16 [OF l] by simp
  show "c = ANil"
  proof (rule ccontr)
    assume "c \<noteq> ANil"
    then have "[16] \<in> akeys (AFull cs)" using w c16 by (simp add: akeys_full_Cons)
    then have n: "length p + 1 = n" using p len by fastforce
    obtain k ks where k: "k # ks \<in> akeys (AFull cs)" "k \<noteq> 16"
      using akeys_full_heads [OF w] by auto
    then have "ks \<in> akeys (cs ! unat k)" using w by (simp add: akeys_full_Cons)
    then have "hexkey ks" by (simp add: akeys_def)
    then have "ks \<noteq> []" by auto
    moreover have "length p + Suc (length ks) = n" using p k(1) len by fastforce
    ultimately show False using n by (cases ks) auto
  qed
qed

text \<open>All keys have 32 bytes.\<close>

definition keys32 :: "atrie \<Rightarrow> bool" where
  "keys32 a \<longleftrightarrow> (\<forall>k \<in> akeys a. length k = 65)"

lemma keys32_aupdate:
  assumes "canon a" "keys32 a" "length k = 32"
  shows "keys32 (aupdate a k v)"
  unfolding keys32_def
proof
  fix x
  assume "x \<in> akeys (aupdate a k v)"
  then have "hexkey x" "alookup (aupdate a k v) x \<noteq> []" by (auto simp: akeys_def)
  then have "x = KeybytesToHex k \<or> x \<in> akeys a"
    using assms(1) by (auto simp: alookup_aupdate akeys_def split: if_splits)
  then show "length x = 65" using assms(2,3) by (auto simp: keys32_def)
qed

subsection \<open>Stores for trie nodes\<close>

text \<open>What the collection needs of a store: reads and batch writes of 32-byte keys.\<close>

locale node_store =
  fixes S :: "'s storage" and ok :: "'s \<Rightarrow> bool" and val_ok :: "bytes \<Rightarrow> bool"
    and view :: "'s \<Rightarrow> bytes \<Rightarrow> bytes option"
  assumes nodes_get: "ok s \<Longrightarrow> length k = 32 \<Longrightarrow> st_Get S s k = view s k"
    and nodes_put: "ok s \<Longrightarrow> \<forall>(k, v) \<in> set kvs. length k = 32 \<and> val_ok v \<Longrightarrow>
      \<exists>s'. st_BatchPut S s kvs = (True, s') \<and> ok s' \<and>
        (\<forall>k. length k = 32 \<longrightarrow> view s' k = (view s ++ map_of (rev kvs)) k)"

text \<open>A key-value store whose identities of 32-byte keys are the keys is such a store.\<close>

lemma writes_32:
  assumes "\<And>k. length k = 32 \<Longrightarrow> key_id k = Some k" "\<forall>(k, v) \<in> set kvs. length k = 32"
  shows "writes key_id kvs = map_of (rev kvs)"
proof -
  have "map (\<lambda>(k, v). (the (key_id k), v)) kvs = kvs"
    using assms by (intro map_idI) auto
  then show ?thesis by (simp add: writes_def)
qed

lemma kv_store_node_store:
  assumes kv: "kv_store ok key_id val_ok view (st_Get S) put
      (\<lambda>s kvs. case st_BatchPut S s kvs of (True, s') \<Rightarrow> Some s' | (False, s') \<Rightarrow> None)"
    and id: "\<And>k. length k = 32 \<Longrightarrow> key_id k = Some k"
  shows "node_store S ok val_ok view"
proof
  fix s k
  show "ok s \<Longrightarrow> length k = 32 \<Longrightarrow> st_Get S s k = view s k"
    using kv_store.get_view [OF kv, of s k] id [of k] by simp
next
  fix s and kvs :: "(bytes \<times> bytes) list"
  assume "ok s" and kvs: "\<forall>(k, v) \<in> set kvs. length k = 32 \<and> val_ok v"
  then have "\<forall>(k, v) \<in> set kvs. key_id k \<noteq> None \<and> val_ok v" using id by fastforce
  from kv_store.batch_view [OF kv \<open>ok s\<close> this]
  obtain s' where "(case st_BatchPut S s kvs of (True, s') \<Rightarrow> Some s' | (False, s') \<Rightarrow> None) = Some s'"
    "ok s'" "view s' = view s ++ writes key_id kvs" by blast
  moreover have "writes key_id kvs = map_of (rev kvs)" using writes_32 [of key_id kvs] id kvs by auto
  ultimately show "\<exists>s'. st_BatchPut S s kvs = (True, s') \<and> ok s' \<and>
      (\<forall>k. length k = 32 \<longrightarrow> view s' k = (view s ++ map_of (rev kvs)) k)"
    by (auto split: prod.splits bool.splits)
qed

definition mem_storage :: "memory_db storage" where
  "mem_storage = \<lparr>st_Get = mem_get, st_BatchPut = \<lambda>kv kvs. (True, mem_BatchPut kv kvs)\<rparr>"

definition sdb_storage :: "(index \<Rightarrow> index) \<Rightarrow> (SimpleDB \<times> world) storage" where
  "sdb_storage ord = \<lparr>st_Get = sdb_get,
     st_BatchPut = \<lambda>s kvs. case sdb_BatchPut ord kvs (fst s) (snd s) of (e, s') \<Rightarrow> (e = None, s')\<rparr>"

interpretation mem_nodes: node_store mem_storage mem_ok "\<lambda>_. True" map_of
  by (rule kv_store_node_store [where key_id = "\<lambda>k. Some (to_array 32 k)" and put = "\<lambda>kv k v. Some (mem_Put kv k v)"])
    (use mem.kv_store_axioms in \<open>simp_all add: mem_storage_def to_array_id\<close>)

lemma sdb_batch_result:
  "(case st_BatchPut (sdb_storage ord) s kvs of (True, s') \<Rightarrow> Some s' | (False, s') \<Rightarrow> None) =
   sdb_result (sdb_BatchPut ord kvs (fst s) (snd s))"
  by (auto simp: sdb_storage_def sdb_result_def split: prod.splits option.splits bool.splits)

interpretation sdb_nodes: node_store "sdb_storage ord" sdb_ok "\<lambda>v. length v < 2 ^ 32" "\<lambda>s. sdb_view (fst s) (snd s)" for ord
  by (rule kv_store_node_store [where key_id = sdb_key and
        put = "\<lambda>s k v. sdb_result (sdb_Put ord k v (fst s) (snd s))"])
    (use sdb.kv_store_axioms [of ord] in \<open>simp_all add: sdb_batch_result sdb_key_def KeySize_def\<close>,
     simp add: sdb_storage_def)

lemma put_all_map_of: "put_all batch db = db ++ map_of (rev batch)"
proof (induction batch arbitrary: db)
  case (Cons kv batch)
  obtain k v where kv: "kv = (k, v)" by force
  have "put_all (kv # batch) db = put_all batch (db(k \<mapsto> v))" by (simp add: put_all_def kv)
  also have "\<dots> = db ++ map_of (rev (kv # batch))"
    unfolding Cons by (simp add: kv map_add_def fun_eq_iff split: option.splits)
  finally show ?case .
qed simp
subsection \<open>Commit and load\<close>

context trie_ext
begin

lemma stored_cong:
  "stored X db a \<Longrightarrow> (\<And>k. length k = 32 \<Longrightarrow> db' k = db k) \<Longrightarrow> stored X db' a"
proof (induction a)
  case (AShort k c)
  then show ?case using length_aref [of "AShort k c"] by simp
next
  case (AFull cs)
  then show ?case using length_aref [of "AFull cs"] by (auto dest: in_set_takeD)
qed auto

text \<open>The node set of a commit, written to a store in any order, stores the trie there.\<close>

lemma commit_to_store:
  assumes store: "node_store S ok val_ok view" "ok s"
    and batch: "\<forall>b. set b = set kvs \<longrightarrow> stored X (put_all b (st_Get S s)) a"
    and entries: "\<And>k v. (k, v) \<in> set kvs \<Longrightarrow> \<exists>u \<in> subs a. k = aref X u \<and> v = cblob X u"
    and vals: "\<And>u. u \<in> subs a \<Longrightarrow> val_ok (cblob X u)"
    and wf: "canon a" and perm: "set b = set kvs"
  shows "\<exists>s'. st_BatchPut S s b = (True, s') \<and> ok s' \<and> stored X (st_Get S s') a"
proof -
  have "length k = 32 \<and> val_ok v" if "(k, v) \<in> set b" for k v
  proof -
    have "(k, v) \<in> set kvs" using that perm by simp
    from entries [OF this] obtain u where u: "u \<in> subs a" "k = aref X u" "v = cblob X u" by auto
    have "is_branch u" using wft_is_branch [OF wft_subs [OF wf u(1)]] .
    then show ?thesis using length_aref [of u] vals [OF u(1)] u by simp
  qed
  then have "\<forall>(k, v) \<in> set b. length k = 32 \<and> val_ok v" by auto
  from node_store.nodes_put [OF store this] obtain s' where s': "st_BatchPut S s b = (True, s')" "ok s'"
    "\<And>k. length k = 32 \<Longrightarrow> view s' k = (view s ++ map_of (rev b)) k" by auto
  have "stored X (put_all b (st_Get S s)) a" using batch perm by blast
  then have "stored X (st_Get S s') a"
  proof (rule stored_cong)
    fix k :: bytes
    assume k: "length k = 32"
    then show "st_Get S s' k = put_all b (st_Get S s) k"
      using s'(3) [OF k] node_store.nodes_get [OF store k] node_store.nodes_get [OF store(1) s'(2) k]
      by (simp add: put_all_map_of map_add_def split: option.splits)
  qed
  with s' show ?thesis by blast
qed

lemma trie_New_any:
  assumes "canon a" "byte_keys a" "stored X db a" "hash_good X a"
  shows "\<exists>t. trie_New X db (if a = ANil then EmptyRootHash else aref X a) ih = Inr t \<and>
    trie_inv X db t a \<and> \<not> committed t \<and> isHash t = ih"
proof (cases "a = ANil")
  case True
  then show ?thesis by (simp add: trie_New_def trie_inv_empty)
next
  case False
  then have w: "wft a" using assms(1) by (simp add: canon_def)
  then have "a \<in> subs a" by (cases a) auto
  then have "aref X a \<noteq> zero_hash" "aref X a \<noteq> EmptyRootHash"
    using assms(4) unfolding hash_good_def by blast+
  with trie_New_stored [OF w assms(2,3)] False show ?thesis by simp
qed

end

definition receipt_entries :: "ext \<Rightarrow> receipt_ext \<Rightarrow> (bytes \<times> Receipt) list \<Rightarrow> (bytes \<times> bytes) list" where
  "receipt_entries X E rcs = map (\<lambda>(h, rc). (TransactionHash X rc, the (mar E rc))) rcs"

definition receipts_inv :: "ext \<Rightarrow> 's storage \<Rightarrow> 's Receipts \<Rightarrow> atrie \<Rightarrow> bool" where
  "receipts_inv X S r a \<longleftrightarrow> trie_inv X (st_Get S (r_db r)) (r_trie r) a \<and> \<not> committed (r_trie r) \<and>
     isHash (r_trie r) \<and> keys32 a \<and> distinct (map fst (dirtyReceipts r)) \<and>
     (\<forall>(h, rc) \<in> set (dirtyReceipts r). h = TransactionHash X rc)"

text \<open>The trie after the changed receipts are written into it.\<close>

definition receipts_trie :: "ext \<Rightarrow> receipt_ext \<Rightarrow> 's Receipts \<Rightarrow> atrie \<Rightarrow> atrie" where
  "receipts_trie X E r a = am.upds a (receipt_entries X E (dirtyReceipts r))"

lemma length_TransactionHash: "trie_ext X \<Longrightarrow> length (TransactionHash X rc) = 32"
  by (simp add: TransactionHash_def trie_ext.length_BytesToHash)

lemma hashKey_32 [simp]: "length k = 32 \<Longrightarrow> hashKey X t k = k"
  by (simp add: hashKey_def)

lemma upds_Cons: "am.upds a ((k, v) # kvs) = am.upds (aupdate a k v) kvs"
  by (simp add: am.upds_def)

lemma apply_receipts_spec:
  assumes X: "trie_ext X" and "trie_inv X db t a" "\<not> committed t" "keys32 a" "132 \<le> fuel"
    and "\<forall>p \<in> set rcs. mar E (snd p) \<noteq> None"
  shows "\<exists>n tr. apply_receipts X E db fuel t rcs = (None, t\<lparr>root := n, tracer := tr\<rparr>) \<and>
    trie_inv X db (t\<lparr>root := n, tracer := tr\<rparr>) (am.upds a (receipt_entries X E rcs)) \<and>
    keys32 (am.upds a (receipt_entries X E rcs))"
  using assms(2-)
proof (induction rcs arbitrary: t a)
  case Nil
  then show ?case
    by (intro exI [of _ "root t"] exI [of _ "tracer t"]) (simp add: receipt_entries_def am.upds_def)
next
  case (Cons p rcs)
  obtain h rc where p: "p = (h, rc)" by force
  obtain b where b: "mar E rc = Some b" using Cons.prems(5) p by auto
  let ?k = "TransactionHash X rc"
  have len: "length ?k = 32" by (rule length_TransactionHash [OF X])
  then have "key_fuel (hashKey X t ?k) \<le> fuel" using Cons.prems(4) by (simp add: key_fuel_def)
  from trie_ext.trie_Update_spec [OF X Cons.prems(1,2) this, of b] len
  obtain n tr where u: "trie_Update X db fuel t ?k b = (None, t\<lparr>root := n, tracer := tr\<rparr>)"
    "trie_inv X db (t\<lparr>root := n, tracer := tr\<rparr>) (aupdate a ?k b)" by auto
  have "canon a" using Cons.prems(1) by (simp add: trie_inv_def)
  then have "keys32 (aupdate a ?k b)" using Cons.prems(3) len by (rule keys32_aupdate)
  with Cons.IH [OF u(2)] Cons.prems u(1) b show ?case
    by (fastforce simp: p Receipt_Marshal_def receipt_entries_def upds_Cons)
qed
definition trie_root :: "ext \<Rightarrow> atrie \<Rightarrow> bytes" where
  "trie_root X a = (if a = ANil then EmptyRootHash else aref X a)"

lemma receipts_trie_perm:
  assumes X: "trie_ext X" and inv: "receipts_inv X S r a" and "mset rcs = mset (dirtyReceipts r)"
  shows "am.upds a (receipt_entries X E rcs) = receipts_trie X E r a"
  unfolding receipts_trie_def
proof (rule sym, rule am.upds_perm)
  show "canon a \<and> byte_keys a" using inv by (simp add: receipts_inv_def trie_inv_def)
  have "map fst (receipt_entries X E (dirtyReceipts r)) = map fst (dirtyReceipts r)"
    using inv by (auto simp: receipts_inv_def receipt_entries_def)
  then show "distinct (map fst (receipt_entries X E (dirtyReceipts r)))"
    using inv by (simp add: receipts_inv_def)
  show "mset (receipt_entries X E (dirtyReceipts r)) = mset (receipt_entries X E rcs)"
    using assms(3) by (simp add: receipt_entries_def)
qed

lemma IntermediateRoot_spec:
  assumes X: "trie_ext X" and inv: "receipts_inv X S r a" and fuel: "132 \<le> fuel"
    and mar: "\<forall>p \<in> set (dirtyReceipts r). mar E (snd p) \<noteq> None"
    and ord: "\<And>l. mset (ord l) = mset l"
  shows "\<exists>t. IntermediateRoot X E S fuel ord r =
      Some (Inr (trie_root X (receipts_trie X E r a)), r\<lparr>r_trie := t, dirtyReceipts := []\<rparr>) \<and>
    trie_inv X (st_Get S (r_db r)) t (receipts_trie X E r a) \<and> \<not> committed t \<and> isHash t \<and>
    keys32 (receipts_trie X E r a)"
proof (cases "dirtyReceipts r = []")
  case True
  then have a: "receipts_trie X E r a = a" by (simp add: receipts_trie_def receipt_entries_def am.upds_def)
  have i: "trie_inv X (st_Get S (r_db r)) (r_trie r) a" using inv by (simp add: receipts_inv_def)
  obtain n where "trie_Hash X (r_trie r) = Some (trie_root X a, (r_trie r)\<lparr>root := n\<rparr>)"
    "rep X (st_Get S (r_db r)) n a"
    using trie_ext.trie_Hash_spec [OF X i] by (auto simp: trie_root_def)
  moreover have clean: "r\<lparr>r_trie := t, dirtyReceipts := []\<rparr> = r\<lparr>r_trie := t\<rparr>" for t
    using True by (cases r) simp
  ultimately show ?thesis
    unfolding clean a using True i inv
    by (intro exI [of _ "(r_trie r)\<lparr>root := n\<rparr>"]) (simp add: IntermediateRoot_def receipts_inv_def trie_inv_def)
next
  case False
  let ?db = "st_Get S (r_db r)" and ?a = "receipts_trie X E r a"
  have set: "set (ord (dirtyReceipts r)) = set (dirtyReceipts r)" using ord by (metis set_mset_mset)
  have i: "trie_inv X ?db (r_trie r) a" "\<not> committed (r_trie r)" "keys32 a" "isHash (r_trie r)"
    using inv by (auto simp: receipts_inv_def)
  obtain n tr where ap: "apply_receipts X E ?db fuel (r_trie r) (ord (dirtyReceipts r)) =
      (None, (r_trie r)\<lparr>root := n, tracer := tr\<rparr>)"
    "trie_inv X ?db ((r_trie r)\<lparr>root := n, tracer := tr\<rparr>) ?a" "keys32 ?a"
    using apply_receipts_spec [OF X i(1-3) fuel, of "ord (dirtyReceipts r)" E] mar set
      receipts_trie_perm [OF X inv ord] by metis
  obtain m where "trie_Hash X ((r_trie r)\<lparr>root := n, tracer := tr\<rparr>) =
      Some (trie_root X ?a, (r_trie r)\<lparr>root := n, tracer := tr\<rparr>\<lparr>root := m\<rparr>)" "rep X ?db m ?a"
    using trie_ext.trie_Hash_spec [OF X ap(2)] by (auto simp: trie_root_def)
  with False ap i show ?thesis by (auto simp: IntermediateRoot_def trie_inv_def)
qed

lemma commitInternal_spec:
  assumes X: "trie_ext X" and store: "node_store S ok val_ok view" "ok (r_db r)"
    and inv: "receipts_inv X S r a" and fuel: "132 \<le> fuel"
    and mar: "\<forall>p \<in> set (dirtyReceipts r). mar E (snd p) \<noteq> None"
    and ord: "\<And>l. mset (ord l) = mset l" and sched: "\<And>l. mset (sched l) = mset l"
    and good: "hash_good X (receipts_trie X E r a)"
    and vals: "\<And>u. u \<in> subs (receipts_trie X E r a) \<Longrightarrow> val_ok (cblob X u)"
  shows "\<exists>r'. commitInternal X E S fuel ord sched r = Some (Inr (trie_root X (receipts_trie X E r a)), r') \<and>
    receipts_inv X S r' (receipts_trie X E r a) \<and> ok (r_db r') \<and> dirtyReceipts r' = [] \<and>
    originRootHash r' = trie_root X (receipts_trie X E r a) \<and>
    stored X (st_Get S (r_db r')) (receipts_trie X E r a)"
proof -
  let ?db = "st_Get S (r_db r)" and ?a = "receipts_trie X E r a"
  obtain t where ir: "IntermediateRoot X E S fuel ord r = Some (Inr (trie_root X ?a), r\<lparr>r_trie := t, dirtyReceipts := []\<rparr>)"
    "trie_inv X ?db t ?a" "\<not> committed t" "isHash t" "keys32 ?a"
    using IntermediateRoot_spec [OF X inv fuel mar ord] by blast
  have c: "canon ?a" "byte_keys ?a" using ir(2) by (auto simp: trie_inv_def)
  have pf: "prefix_free ?a" using equal_length_prefix_free [OF c(1)] ir(5) by (auto simp: keys32_def)
  let ?t = "t\<lparr>tracer := Tracer_reset (tracer t)\<rparr>"
  obtain nodes where cm: "trie_Commit X True t = Some ((trie_root X ?a, nodes, oldKeys (tracer t)), ?t)"
    and st: "\<forall>b. set b = set (commit_batch nodes) \<longrightarrow> stored X (put_all b ?db) ?a"
    and en: "\<And>k v. (k, v) \<in> set (commit_batch nodes) \<Longrightarrow> \<exists>u \<in> subs ?a. k = aref X u \<and> v = cblob X u"
    using trie_ext.trie_Commit_spec [OF X ir(2) good pf, of True] unfolding trie_root_def by blast
  let ?b = "sched (commit_batch nodes)" and ?r = "r\<lparr>dirtyReceipts := [], r_trie := ?t\<rparr>"
  have b: "set ?b = set (commit_batch nodes)" using sched by (metis set_mset_mset)
  have "\<exists>s bp. write_nodes E S sched nodes ?r = (None, ?r\<lparr>r_db := s, receiptBatchPut := bp\<rparr>) \<and> ok s \<and>
      stored X (st_Get S s) ?a"
  proof (cases "?b = []")
    case True
    with st b have "stored X ?db ?a" by (metis put_all_Nil)
    with True store show ?thesis
      by (intro exI [of _ "r_db r"] exI [of _ "receiptBatchPut r"]) (simp add: write_nodes_def Let_def)
  next
    case False
    obtain s' where s': "st_BatchPut S (r_db r) ?b = (True, s')" "ok s'" "stored X (st_Get S s') ?a"
      using trie_ext.commit_to_store [OF X store st en vals c(1) b] by blast
    with False show ?thesis
      by (intro exI [of _ s'] exI [of _ "case ser_batch E ?b of None \<Rightarrow> receiptBatchPut r | Some x \<Rightarrow> Some x"])
        (simp add: write_nodes_def Let_def SetReceiptBatchPut_def split: option.splits)
  qed
  then obtain s bp where wr: "write_nodes E S sched nodes ?r = (None, ?r\<lparr>r_db := s, receiptBatchPut := bp\<rparr>)"
    "ok s" "stored X (st_Get S s) ?a" by blast
  obtain t2 where t2: "trie_New X (st_Get S s) (trie_root X ?a) True = Inr t2" "trie_inv X (st_Get S s) t2 ?a"
    "\<not> committed t2" "isHash t2"
    using trie_ext.trie_New_any [OF X c wr(3) good, of True] unfolding trie_root_def by auto
  show ?thesis
    using ir(1,5) cm wr t2 by (simp add: commitInternal_def receipts_inv_def Let_def)
qed

lemma GetReceipt_clean:
  assumes X: "trie_ext X" and inv: "receipts_inv X S r a" and fuel: "132 \<le> fuel"
    and hash: "length hash = 32" "map_of (dirtyReceipts r) hash = None"
  shows "fst (GetReceipt X E S fuel r hash) =
    (case unm E (alookup a (KeybytesToHex hash)) of None \<Rightarrow> Inl ErrUnmarshalReceipt | Some rc \<Rightarrow> Inr rc)"
proof -
  have i: "trie_inv X (st_Get S (r_db r)) (r_trie r) a" "\<not> committed (r_trie r)"
    using inv by (auto simp: receipts_inv_def)
  have "key_fuel (hashKey X (r_trie r) hash) \<le> fuel" using fuel hash by (simp add: key_fuel_def)
  from trie_ext.trie_Get_spec [OF X i this] hash show ?thesis
    by (auto simp: GetReceipt_def Receipt_Unmarshal_def split: option.splits)
qed

lemma map_of_entries:
  assumes "receipts_inv X S r a"
  shows "map_of (rev (receipt_entries X E (dirtyReceipts r))) hash =
    map_option (\<lambda>rc. the (mar E rc)) (map_of (dirtyReceipts r) hash)"
proof -
  have e: "receipt_entries X E (dirtyReceipts r) = map (\<lambda>(h, rc). (h, the (mar E rc))) (dirtyReceipts r)"
    using assms by (auto simp: receipts_inv_def receipt_entries_def)
  have d: "distinct (map fst (map (\<lambda>(h, rc). (h, the (mar E rc))) (dirtyReceipts r)))"
    using assms by (simp add: receipts_inv_def comp_def case_prod_beta')
  have "map_of (rev (receipt_entries X E (dirtyReceipts r))) =
      map_of (map (\<lambda>(h, rc). (h, the (mar E rc))) (dirtyReceipts r))"
    unfolding e by (rule map_of_mset_eq [OF _ d]) simp
  then show ?thesis by (simp add: map_of_map)
qed
text \<open>C3. Committed receipts can be loaded from the root hash. Over any store that reads back a
  batch of 32-byte keys, \<^verbatim>\<open>Commit\<close> succeeds and leaves no changed receipt behind, and a collection
  opened with \<^verbatim>\<open>NewReceiptsFromRoot\<close> on the returned hash answers \<^verbatim>\<open>GetReceipt\<close> for every hash as
  the collection answered before the commit, for changed and for older receipts. It holds for
  every order in which Go visits the map of changed receipts and in which the workers deliver
  the nodes. The hypotheses are the round trip of protobuf on receipts and that the hash sends
  the nodes of this trie to nonzero hashes and distinct blobs to distinct ones.\<close>

theorem Receipts_commit_load:
  assumes "trie_ext X" "node_store S ok val_ok view" "ok (r_db r)" "receipts_inv X S r a" "132 \<le> fuel"
    and "\<And>h rc. (h, rc) \<in> set (dirtyReceipts r) \<Longrightarrow> \<exists>b. mar E rc = Some b \<and> unm E b = Some rc"
    and "\<And>l. mset (ord l) = mset l" "\<And>l. mset (sched l) = mset l"
    and "hash_good X (receipts_trie X E r a)"
    and "\<And>u. u \<in> subs (receipts_trie X E r a) \<Longrightarrow> val_ok (cblob X u)"
  shows "\<exists>h r' r2. Receipts_Commit X E S fuel ord sched r = Some (Inr h, r') \<and> dirtyReceipts r' = [] \<and>
    NewReceiptsFromRoot X S h (r_db r') = Inr r2 \<and>
    (\<forall>hash. length hash = 32 \<longrightarrow>
      fst (GetReceipt X E S fuel r2 hash) = fst (GetReceipt X E S fuel r hash))"
proof -
  let ?a = "receipts_trie X E r a"
  have mar: "\<forall>p \<in> set (dirtyReceipts r). mar E (snd p) \<noteq> None" using assms(6) by force
  obtain r' where r': "commitInternal X E S fuel ord sched r = Some (Inr (trie_root X ?a), r')"
    "receipts_inv X S r' ?a" "dirtyReceipts r' = []" "stored X (st_Get S (r_db r')) ?a"
    using commitInternal_spec [OF assms(1-5) mar assms(7-10)] by blast
  have c: "canon ?a" "byte_keys ?a" "keys32 ?a"
    using r'(2) by (auto simp: receipts_inv_def trie_inv_def)
  obtain t2 where t2: "trie_New X (st_Get S (r_db r')) (trie_root X ?a) True = Inr t2"
    "trie_inv X (st_Get S (r_db r')) t2 ?a" "\<not> committed t2" "isHash t2"
    using trie_ext.trie_New_any [OF assms(1) c(1,2) r'(4) assms(9), of True] unfolding trie_root_def by auto
  let ?r2 = "\<lparr>r_trie = t2, r_db = r_db r', originRootHash = trie_root X ?a, dirtyReceipts = [],
    receiptBatchPut = None\<rparr>"
  have inv2: "receipts_inv X S ?r2 ?a" using t2 c by (simp add: receipts_inv_def)
  have ca: "canon a \<and> byte_keys a" using assms(4) by (simp add: receipts_inv_def trie_inv_def)
  have "fst (GetReceipt X E S fuel ?r2 hash) = fst (GetReceipt X E S fuel r hash)" if "length hash = 32" for hash
  proof -
    note g2 = GetReceipt_clean [OF assms(1) inv2 assms(5) that, of E]
    have look: "alookup ?a (KeybytesToHex hash) =
      (case map_of (dirtyReceipts r) hash of None \<Rightarrow> alookup a (KeybytesToHex hash) | Some rc \<Rightarrow> the (mar E rc))"
      using am.look_upds [OF ca] map_of_entries [OF assms(4)]
      by (simp add: receipts_trie_def split: option.splits)
    show ?thesis
    proof (cases "map_of (dirtyReceipts r) hash")
      case None
      then show ?thesis using g2 look GetReceipt_clean [OF assms(1,4,5) that None, of E] by simp
    next
      case (Some rc)
      from assms(6) [OF map_of_SomeD [OF Some]] look Some g2 show ?thesis
        by (auto simp: GetReceipt_def)
    qed
  qed
  then show ?thesis
    using r'(1,3) t2(1) by (simp add: Receipts_Commit_def NewReceiptsFromRoot_def)
qed

text \<open>A collection over the empty memory store with one receipt, for the instance.\<close>

definition ex_receipt :: Receipt where
  "ex_receipt = zero_Receipt\<lparr>TransactionHash_pb := replicate 32 3\<rparr>"

definition ex_ext :: receipt_ext where
  "ex_ext = \<lparr>mar = \<lambda>rc. if rc = ex_receipt then Some [9] else None,
     unm = \<lambda>b. if b = [9] then Some ex_receipt else if b = [] then Some zero_Receipt else None,
     mar_list = \<lambda>rcs. None, unm_list = \<lambda>b. None, ser_batch = \<lambda>b. None\<rparr>"

definition ex_receipts :: "memory_db Receipts" where
  "ex_receipts = \<lparr>r_trie = empty_trie True, r_db = NewMemoryDb, originRootHash = EmptyRootHash,
     dirtyReceipts = [(replicate 32 3, ex_receipt)], receiptBatchPut = None\<rparr>"

lemma ex_hash: "TransactionHash ref_ext ex_receipt = replicate 32 3"
  using trie_ext.BytesToHash_id [OF ref_ext_laws] by (simp add: TransactionHash_def ex_receipt_def)

lemma ex_inv: "receipts_inv ref_ext mem_storage ex_receipts ANil"
  by (simp add: receipts_inv_def ex_receipts_def ex_hash trie_inv_def empty_trie_def byte_keys_def keys32_def)

lemma ex_trie: "receipts_trie ref_ext ex_ext ex_receipts ANil = AShort (KeybytesToHex (replicate 32 3)) (AVal [9])"
proof -
  have "KeybytesToHex k \<noteq> []" for k by (metis Zero_not_Suc add.right_neutral add_Suc_right One_nat_def
        length_KeybytesToHex list.size(3))
  then show ?thesis
    by (simp add: receipts_trie_def receipt_entries_def ex_receipts_def ex_hash ex_ext_def am.upds_def
        aupdate_def mkshort_def)
qed

theorem Receipts_commit_load_witness:
  "\<exists>h r' r2. Receipts_Commit ref_ext ex_ext mem_storage 200 rev id ex_receipts = Some (Inr h, r') \<and>
    dirtyReceipts r' = [] \<and> NewReceiptsFromRoot ref_ext mem_storage h (r_db r') = Inr r2 \<and>
    (\<forall>hash. length hash = 32 \<longrightarrow>
      fst (GetReceipt ref_ext ex_ext mem_storage 200 r2 hash) =
      fst (GetReceipt ref_ext ex_ext mem_storage 200 ex_receipts hash))"
proof (rule Receipts_commit_load [OF ref_ext_laws mem_nodes.node_store_axioms _ ex_inv])
  show "mem_ok (r_db ex_receipts)" by (simp add: ex_receipts_def)
  show "hash_good ref_ext (receipts_trie ref_ext ex_ext ex_receipts ANil)"
    by (simp add: ex_trie hash_good_def ref_keccak_neq)
qed (auto simp: ex_receipts_def ex_ext_def)

text \<open>\<^verbatim>\<open>GetReceipt\<close> of an unknown hash. \<^verbatim>\<open>ErrorReceiptNotFound\<close> is not returned for a hash that is
  neither among the changed receipts nor in the trie: the trie gives an empty value without an
  error, protobuf decodes it as a message with default fields, and the caller gets an empty
  receipt.\<close>

theorem GetReceipt_unknown:
  assumes "trie_ext X" "receipts_inv X S r a" "132 \<le> fuel" "length hash = 32"
    and "map_of (dirtyReceipts r) hash = None" "alookup a (KeybytesToHex hash) = []"
    and "unm E [] = Some zero_Receipt"
  shows "fst (GetReceipt X E S fuel r hash) = Inr zero_Receipt"
  using GetReceipt_clean [OF assms(1-5), of E] assms(6,7) by simp

lemma GetReceipt_unknown_example:
  "fst (GetReceipt ref_ext ex_ext mem_storage 200 ex_receipts (replicate 32 4)) = Inr zero_Receipt"
  by (rule GetReceipt_unknown [OF ref_ext_laws ex_inv]) (simp_all add: ex_receipts_def ex_ext_def)

end
