(* ===== verification/Circuit_Breaker.thy ===== *)
theory Circuit_Breaker
  imports Go_Prelude
begin

text \<open>
  The circuit breaker, \<^verbatim>\<open>src/pkg/network/circuit_breaker.go\<close>, as a state machine: every method
  takes the mutex, so a concurrent run is a sequence of method calls. The clock is an argument
  of the methods that read it; times and durations are integers in nanoseconds.
\<close>

datatype CircuitBreakerState = StateClosed | StateOpen | StateHalfOpen

fun CircuitBreakerState_String :: "CircuitBreakerState \<Rightarrow> string" where
  "CircuitBreakerState_String StateClosed = ''CLOSED''"
| "CircuitBreakerState_String StateOpen = ''OPEN''"
| "CircuitBreakerState_String StateHalfOpen = ''HALF_OPEN''"

record CircuitBreaker =
  maxFailures :: int
  maxRequests :: int
  interval :: int
  timeout :: int
  cstate :: CircuitBreakerState
  failures :: int
  requests :: int
  lastFailureTime :: int
  lastSuccessTime :: int
  totalRequests :: int
  totalFailures :: int
  totalSuccesses :: int
  totalRejected :: int

record CircuitBreakerConfig =
  MaxFailures :: int
  MaxRequests :: int
  Interval :: int
  Timeout :: int

definition DefaultCircuitBreakerConfig :: CircuitBreakerConfig where
  "DefaultCircuitBreakerConfig =
     \<lparr>MaxFailures = 10, MaxRequests = 5, Interval = 10 * 1000000000, Timeout = 60 * 1000000000\<rparr>"

text \<open>A nil configuration is \<open>None\<close>; the zero time is \<open>0\<close>.\<close>

definition NewCircuitBreaker :: "CircuitBreakerConfig option \<Rightarrow> CircuitBreaker" where
  "NewCircuitBreaker config =
     (let c = (case config of None \<Rightarrow> DefaultCircuitBreakerConfig | Some c \<Rightarrow> c) in
      \<lparr>maxFailures = MaxFailures c, maxRequests = MaxRequests c, interval = Interval c,
       timeout = Timeout c, cstate = StateClosed, failures = 0, requests = 0, lastFailureTime = 0,
       lastSuccessTime = 0, totalRequests = 0, totalFailures = 0, totalSuccesses = 0, totalRejected = 0\<rparr>)"

definition CanExecute :: "int \<Rightarrow> CircuitBreaker \<Rightarrow> bool \<times> CircuitBreaker" where
  "CanExecute now cb0 =
     (let cb = cb0\<lparr>totalRequests := int64 (totalRequests cb0 + 1)\<rparr> in
      case cstate cb of
        StateClosed \<Rightarrow> (True, cb)
      | StateOpen \<Rightarrow>
          if now - lastFailureTime cb > timeout cb
          then (True, cb\<lparr>cstate := StateHalfOpen, requests := 0\<rparr>)
          else (False, cb\<lparr>totalRejected := int64 (totalRejected cb + 1)\<rparr>)
      | StateHalfOpen \<Rightarrow>
          if requests cb \<ge> maxRequests cb
          then (False, cb\<lparr>totalRejected := int64 (totalRejected cb + 1)\<rparr>)
          else (True, cb\<lparr>requests := int64 (requests cb + 1)\<rparr>))"

definition RecordSuccess :: "int \<Rightarrow> CircuitBreaker \<Rightarrow> CircuitBreaker" where
  "RecordSuccess now cb0 =
     (let cb = cb0\<lparr>totalSuccesses := int64 (totalSuccesses cb0 + 1), lastSuccessTime := now\<rparr> in
      case cstate cb of
        StateHalfOpen \<Rightarrow>
          if requests cb \<ge> maxRequests cb
          then cb\<lparr>cstate := StateClosed, failures := 0, requests := 0\<rparr> else cb
      | StateClosed \<Rightarrow> cb\<lparr>failures := 0\<rparr>
      | StateOpen \<Rightarrow> cb)"

definition RecordFailure :: "int \<Rightarrow> CircuitBreaker \<Rightarrow> CircuitBreaker" where
  "RecordFailure now cb0 =
     (let cb = cb0\<lparr>totalFailures := int64 (totalFailures cb0 + 1),
                   failures := int64 (failures cb0 + 1), lastFailureTime := now\<rparr> in
      case cstate cb of
        StateClosed \<Rightarrow> if failures cb \<ge> maxFailures cb then cb\<lparr>cstate := StateOpen\<rparr> else cb
      | StateHalfOpen \<Rightarrow> cb\<lparr>cstate := StateOpen, requests := 0\<rparr>
      | StateOpen \<Rightarrow> cb)"

definition GetState :: "CircuitBreaker \<Rightarrow> CircuitBreakerState" where
  "GetState cb = cstate cb"

definition cb_Reset :: "CircuitBreaker \<Rightarrow> CircuitBreaker" where
  "cb_Reset cb = cb\<lparr>cstate := StateClosed, failures := 0, requests := 0\<rparr>"

record cb_stats =
  stat_state :: string
  stat_failures :: int
  stat_requests :: int
  stat_total_requests :: int
  stat_total_failures :: int
  stat_total_successes :: int
  stat_total_rejected :: int
  stat_last_failure :: int
  stat_last_success :: int

definition GetStats :: "CircuitBreaker \<Rightarrow> cb_stats" where
  "GetStats cb =
     \<lparr>stat_state = CircuitBreakerState_String (cstate cb), stat_failures = failures cb,
      stat_requests = requests cb, stat_total_requests = totalRequests cb,
      stat_total_failures = totalFailures cb, stat_total_successes = totalSuccesses cb,
      stat_total_rejected = totalRejected cb, stat_last_failure = lastFailureTime cb,
      stat_last_success = lastSuccessTime cb\<rparr>"

subsection \<open>Reachable states\<close>

inductive cb_step :: "CircuitBreaker \<Rightarrow> CircuitBreaker \<Rightarrow> bool" where
  step_can: "cb_step cb (snd (CanExecute now cb))"
| step_success: "cb_step cb (RecordSuccess now cb)"
| step_failure: "cb_step cb (RecordFailure now cb)"
| step_reset: "cb_step cb (cb_Reset cb)"

inductive cb_reachable :: "CircuitBreakerConfig \<Rightarrow> CircuitBreaker \<Rightarrow> bool" for c where
  reach_new: "cb_reachable c (NewCircuitBreaker (Some c))"
| reach_step: "cb_reachable c cb \<Longrightarrow> cb_step cb cb' \<Longrightarrow> cb_reachable c cb'"

lemmas cb_defs = CanExecute_def RecordSuccess_def RecordFailure_def cb_Reset_def Let_def

text \<open>Closed means fewer failures than the limit since the last success, half-open at most
  \<open>maxRequests\<close> counted requests.\<close>

definition cb_inv :: "CircuitBreakerConfig \<Rightarrow> CircuitBreaker \<Rightarrow> bool" where
  "cb_inv c cb \<longleftrightarrow> maxFailures cb = MaxFailures c \<and> maxRequests cb = MaxRequests c \<and> timeout cb = Timeout c \<and>
     (cstate cb = StateClosed \<longrightarrow> 0 \<le> failures cb \<and> failures cb < MaxFailures c) \<and>
     (cstate cb = StateHalfOpen \<longrightarrow> 0 \<le> requests cb \<and> requests cb \<le> MaxRequests c)"

lemma cb_inv_step:
  assumes "cb_inv c cb" "cb_step cb cb'" "0 < MaxFailures c" "MaxFailures c < 2 ^ 63"
    "0 \<le> MaxRequests c" "MaxRequests c < 2 ^ 63"
  shows "cb_inv c cb'"
  using assms(2)
proof (cases rule: cb_step.cases)
  case (step_can now)
  have "int64 (requests cb + 1) = requests cb + 1"
    if "cstate cb = StateHalfOpen" "requests cb < MaxRequests c"
    using that assms by (intro int64_small) (auto simp: cb_inv_def)
  then show ?thesis
    using step_can assms by (auto simp: cb_inv_def cb_defs split: CircuitBreakerState.splits)
next
  case (step_failure now)
  have "int64 (failures cb + 1) = failures cb + 1" if "cstate cb = StateClosed"
    using that assms by (intro int64_small) (auto simp: cb_inv_def)
  then show ?thesis
    using step_failure assms by (auto simp: cb_inv_def cb_defs split: CircuitBreakerState.splits)
qed (use assms in \<open>auto simp: cb_inv_def cb_defs split: CircuitBreakerState.splits\<close>)

text \<open>C32. The circuit breaker's invariant. In every state that calls of its methods in any order and
  at any times can reach, a closed breaker has counted fewer than \<^verbatim>\<open>MaxFailures\<close> failures since the
  last success or reset, and a half-open breaker at most \<^verbatim>\<open>MaxRequests\<close> requests.\<close>

theorem CircuitBreaker_invariant:
  assumes "cb_reachable c cb" "0 < MaxFailures c" "MaxFailures c < 2 ^ 63"
    "0 \<le> MaxRequests c" "MaxRequests c < 2 ^ 63"
  shows "cb_inv c cb"
  using assms(1)
proof (induction rule: cb_reachable.induct)
  case reach_new
  then show ?case using assms by (simp add: cb_inv_def NewCircuitBreaker_def Let_def)
next
  case (reach_step cb cb')
  then show ?case using cb_inv_step assms by blast
qed

theorem CircuitBreaker_invariant_witness:
  "cb_inv DefaultCircuitBreakerConfig
     (RecordFailure 5 (NewCircuitBreaker (Some DefaultCircuitBreakerConfig)))"
  by (rule CircuitBreaker_invariant) (auto intro: cb_reachable.intros cb_step.intros
      simp: DefaultCircuitBreakerConfig_def)

subsection \<open>Probing and recovery\<close>

text \<open>Requests at the times \<open>ts\<close> whose outcome is never recorded: how many are admitted.\<close>

fun admitted :: "int list \<Rightarrow> CircuitBreaker \<Rightarrow> nat \<times> CircuitBreaker" where
  "admitted [] cb = (0, cb)"
| "admitted (t # ts) cb =
     (case CanExecute t cb of (b, cb) \<Rightarrow>
        case admitted ts cb of (n, cb) \<Rightarrow> ((if b then 1 else 0) + n, cb))"

lemma half_open_admitted:
  assumes "cstate cb = StateHalfOpen" "0 \<le> requests cb" "requests cb \<le> maxRequests cb" "maxRequests cb < 2 ^ 63"
  shows "fst (admitted ts cb) = min (length ts) (nat (maxRequests cb - requests cb)) \<and>
    cstate (snd (admitted ts cb)) = StateHalfOpen"
  using assms
proof (induction ts arbitrary: cb)
  case (Cons t ts)
  show ?case
  proof (cases "requests cb < maxRequests cb")
    case True
    let ?cb = "cb\<lparr>totalRequests := int64 (totalRequests cb + 1), requests := requests cb + 1\<rparr>"
    have "int64 (requests cb + 1) = requests cb + 1" using True Cons.prems by (intro int64_small) auto
    then have "CanExecute t cb = (True, ?cb)" using True Cons.prems by (simp add: CanExecute_def Let_def)
    moreover have "fst (admitted ts ?cb) = min (length ts) (nat (maxRequests cb - (requests cb + 1))) \<and>
      cstate (snd (admitted ts ?cb)) = StateHalfOpen"
      using Cons.IH [of ?cb] True Cons.prems by simp
    moreover have "Suc (nat (maxRequests cb - (requests cb + 1))) = nat (maxRequests cb - requests cb)"
      using True by simp
    ultimately show ?thesis by (auto split: prod.splits)
  next
    case False
    let ?cb = "cb\<lparr>totalRequests := int64 (totalRequests cb + 1), totalRejected := int64 (totalRejected cb + 1)\<rparr>"
    have "CanExecute t cb = (False, ?cb)" using False Cons.prems by (simp add: CanExecute_def Let_def)
    with Cons.IH [of ?cb] False Cons.prems show ?thesis by (auto split: prod.splits)
  qed
qed simp

text \<open>C40. How many requests a recovering breaker admits. Once the timeout of an open breaker has
  elapsed, requests whose outcome is not recorded are admitted exactly up to \<^verbatim>\<open>maxRequests\<close> + 1, one
  more than the documented limit of the half-open state; the breaker is then half-open and
  rejects every later request however much time passes.\<close>

theorem CircuitBreaker_half_open_limit:
  assumes "cstate cb = StateOpen" "t - lastFailureTime cb > timeout cb"
    "0 \<le> maxRequests cb" "maxRequests cb < 2 ^ 63"
  shows "fst (admitted (t # ts) cb) = min (length (t # ts)) (nat (maxRequests cb) + 1) \<and>
    GetState (snd (admitted (t # ts) cb)) = StateHalfOpen"
proof -
  let ?cb = "cb\<lparr>totalRequests := int64 (totalRequests cb + 1), cstate := StateHalfOpen, requests := 0\<rparr>"
  have "CanExecute t cb = (True, ?cb)" using assms by (simp add: CanExecute_def Let_def)
  with half_open_admitted [of ?cb ts] assms show ?thesis by (auto simp: GetState_def split: prod.splits)
qed

definition open_breaker :: CircuitBreaker where
  "open_breaker = (NewCircuitBreaker None)\<lparr>cstate := StateOpen, failures := 10, lastFailureTime := 100\<rparr>"

lemma open_breaker_simps:
  "cstate open_breaker = StateOpen" "lastFailureTime open_breaker = 100"
  "timeout open_breaker = 60 * 1000000000" "maxRequests open_breaker = 5" "requests open_breaker = 0"
  by (simp_all add: open_breaker_def NewCircuitBreaker_def DefaultCircuitBreakerConfig_def Let_def)

theorem CircuitBreaker_half_open_limit_witness:
  "fst (admitted ((60 * 1000000000 + 101) # [1..9]) open_breaker) = 6"
  using CircuitBreaker_half_open_limit [of open_breaker "60 * 1000000000 + 101" "[1..9]"]
  by (simp add: open_breaker_simps)

text \<open>Rounds of an admitted request followed by its success, at the times \<open>ts\<close>.\<close>

fun healthy :: "int list \<Rightarrow> CircuitBreaker \<Rightarrow> bool \<times> CircuitBreaker" where
  "healthy [] cb = (True, cb)"
| "healthy (t # ts) cb =
     (case CanExecute t cb of (b, cb) \<Rightarrow>
        case healthy ts (RecordSuccess t cb) of (bs, cb) \<Rightarrow> (b \<and> bs, cb))"

lemma half_open_healthy:
  assumes "cstate cb = StateHalfOpen" "0 \<le> requests cb" "maxRequests cb = requests cb + int (length ts)"
    "ts \<noteq> []" "maxRequests cb < 2 ^ 63"
  shows "fst (healthy ts cb) \<and> cstate (snd (healthy ts cb)) = StateClosed \<and> failures (snd (healthy ts cb)) = 0"
  using assms
proof (induction ts arbitrary: cb)
  case (Cons t ts)
  let ?cb = "cb\<lparr>totalRequests := int64 (totalRequests cb + 1), requests := requests cb + 1\<rparr>"
  have "int64 (requests cb + 1) = requests cb + 1" using Cons.prems by (intro int64_small) auto
  then have can: "CanExecute t cb = (True, ?cb)" using Cons.prems by (simp add: CanExecute_def Let_def)
  show ?case
  proof (cases "ts = []")
    case True
    then show ?thesis using can Cons.prems by (simp add: RecordSuccess_def Let_def)
  next
    case False
    then have rec: "RecordSuccess t ?cb = ?cb\<lparr>totalSuccesses := int64 (totalSuccesses cb + 1), lastSuccessTime := t\<rparr>"
      using Cons.prems by (cases ts) (simp_all add: RecordSuccess_def Let_def)
    from Cons.IH [of "RecordSuccess t ?cb"] Cons.prems False can show ?thesis
      by (auto simp: rec split: prod.splits)
  qed
qed simp

text \<open>Recovery. Once the timeout of an open breaker has elapsed, \<^verbatim>\<open>maxRequests\<close> + 1 consecutive
  requests that succeed are all admitted and close the breaker with its failure count reset.\<close>

theorem CircuitBreaker_recovers:
  assumes "cstate cb = StateOpen" "t - lastFailureTime cb > timeout cb"
    "0 < maxRequests cb" "maxRequests cb < 2 ^ 63" "int (length ts) = maxRequests cb"
  shows "fst (healthy (t # ts) cb) \<and> GetState (snd (healthy (t # ts) cb)) = StateClosed \<and>
    failures (snd (healthy (t # ts) cb)) = 0"
proof -
  let ?cb = "cb\<lparr>totalRequests := int64 (totalRequests cb + 1), cstate := StateHalfOpen, requests := 0\<rparr>"
  let ?cb2 = "?cb\<lparr>totalSuccesses := int64 (totalSuccesses cb + 1), lastSuccessTime := t\<rparr>"
  have "CanExecute t cb = (True, ?cb)" using assms by (simp add: CanExecute_def Let_def)
  moreover have "RecordSuccess t ?cb = ?cb2" using assms by (simp add: RecordSuccess_def Let_def)
  moreover have "ts \<noteq> []" using assms by auto
  ultimately show ?thesis
    using half_open_healthy [of ?cb2 ts] assms by (auto simp: GetState_def split: prod.splits)
qed

lemma CircuitBreaker_recovers_example:
  "GetState (snd (healthy [60 * 1000000000 + 101, 1, 2, 3, 4, 5] open_breaker)) = StateClosed"
  using CircuitBreaker_recovers [of open_breaker "60 * 1000000000 + 101" "[1, 2, 3, 4, 5]"]
  by (simp add: open_breaker_simps)

end
