(* ===== verification/Connections.thy ===== *)
theory Connections
  imports Go_Prelude "HOL-Library.AList"
begin

text \<open>
  Connection types, \<^verbatim>\<open>src/pkg/common/connection_type.go\<close>, and the table of connections,
  \<^verbatim>\<open>src/pkg/network/connections_manager.go\<close>: for each of 20 types, 32 shards that map the
  hexadecimal form of an address to a connection. A connection is an identifier; what its
  methods \<^verbatim>\<open>Address\<close>, \<^verbatim>\<open>Type\<close> and \<^verbatim>\<open>IsConnect\<close> answer at the time of a call is an argument, and so is
  go-ethereum's \<^verbatim>\<open>Address.Hex\<close>. Each method is one step, so the results
  are about calls that do not overlap: \<^verbatim>\<open>AddConnectionWithAddress\<close> loads and later stores, and of two
  overlapping calls for one address both may store although neither is asked to replace.
\<close>

subsection \<open>Connection types\<close>

definition MapConnectionTypeToIndex :: "string \<Rightarrow> int" where
  "MapConnectionTypeToIndex cSType =
     (if cSType = ''validator'' then 1
      else if cSType = ''node'' then 2
      else if cSType = ''child_node'' then 3
      else if cSType = ''execute_miner'' then 4
      else if cSType = ''verify_miner'' then 5
      else if cSType = ''client'' then 6
      else if cSType = ''storage'' then 7
      else if cSType = ''explorer'' then 8
      else if cSType = ''state_channel_validator'' then 9
      else if cSType = ''backup'' then 10
      else if cSType = ''master_read_only'' then 11
      else 0)"

definition MapIndexToConnectionType :: "int \<Rightarrow> string" where
  "MapIndexToConnectionType index =
     (if index = 1 then ''validator''
      else if index = 2 then ''node''
      else if index = 3 then ''child_node''
      else if index = 4 then ''execute_miner''
      else if index = 5 then ''verify_miner''
      else if index = 6 then ''client''
      else if index = 7 then ''storage''
      else if index = 8 then ''explorer''
      else if index = 9 then ''state_channel_validator''
      else if index = 10 then ''backup''
      else ''none'')"

subsection \<open>The table\<close>

definition MaxConnectionTypes :: nat where "MaxConnectionTypes = 20"
definition numConnectionShards :: nat where "numConnectionShards = 32"

definition calculateDynamicShards :: "int \<Rightarrow> nat" where
  "calculateDynamicShards connectionCount =
     (if connectionCount < 1000 then 32
      else if connectionCount < 10000 then 64
      else if connectionCount < 100000 then 128
      else 256)"

type_synonym conn = nat

record connectionRecord =
  cr_address :: bytes
  cr_conn :: "conn option"

type_synonym connectionShard = "(string \<times> connectionRecord) list"

record ConnectionsManager =
  parentConnection :: "conn option"
  typeToShards :: "connectionShard list list"

text \<open>What the connections answer, and the printed form of an address.\<close>

record conn_env =
  conn_Address :: "conn \<Rightarrow> bytes"
  conn_Type :: "conn \<Rightarrow> string"
  conn_IsConnect :: "conn \<Rightarrow> bool"
  address_Hex :: "bytes \<Rightarrow> string"

definition NewConnectionsManager :: ConnectionsManager where
  "NewConnectionsManager =
     \<lparr>parentConnection = None,
      typeToShards = replicate MaxConnectionTypes (replicate numConnectionShards [])\<rparr>"

text \<open>An address is an array of 20 bytes.\<close>

definition calculateShardIndex :: "bytes \<Rightarrow> nat" where
  "calculateShardIndex address = unat ((address ! 19) AND word_of_nat (numConnectionShards - 1))"

definition getShard :: "ConnectionsManager \<Rightarrow> int \<Rightarrow> bytes \<Rightarrow> (nat \<times> nat) option" where
  "getShard cm cType address =
     (if cType < 0 \<or> cType \<ge> int (length (typeToShards cm)) then None
      else Some (nat cType, calculateShardIndex address))"

definition shard_at :: "ConnectionsManager \<Rightarrow> nat \<times> nat \<Rightarrow> connectionShard" where
  "shard_at cm ij = typeToShards cm ! fst ij ! snd ij"

definition set_shard :: "ConnectionsManager \<Rightarrow> nat \<times> nat \<Rightarrow> connectionShard \<Rightarrow> ConnectionsManager" where
  "set_shard cm ij sh =
     cm\<lparr>typeToShards := (typeToShards cm)[fst ij := (typeToShards cm ! fst ij)[snd ij := sh]]\<rparr>"

definition addressKey :: "conn_env \<Rightarrow> bytes \<Rightarrow> string" where
  "addressKey E address = address_Hex E address"

definition ConnectionByTypeAndAddress :: "conn_env \<Rightarrow> ConnectionsManager \<Rightarrow> int \<Rightarrow> bytes \<Rightarrow> conn option" where
  "ConnectionByTypeAndAddress E cm cType address =
     (case getShard cm cType address of
        None \<Rightarrow> None
      | Some ij \<Rightarrow>
          (case map_of (shard_at cm ij) (addressKey E address) of
             Some record \<Rightarrow> cr_conn record
           | None \<Rightarrow> None))"

text \<open>The map that \<^verbatim>\<open>ConnectionsByType\<close> builds, shard after shard.\<close>

definition shard_entries :: "connectionShard \<Rightarrow> (bytes \<times> conn) list" where
  "shard_entries sh = List.map_filter (\<lambda>(k, r). map_option (\<lambda>c. (cr_address r, c)) (cr_conn r)) sh"

definition ConnectionsByType :: "ConnectionsManager \<Rightarrow> int \<Rightarrow> bytes \<Rightarrow> conn option" where
  "ConnectionsByType cm cType =
     (if cType < 0 \<or> cType \<ge> int (length (typeToShards cm)) then Map.empty
      else map_of (rev (concat (map shard_entries (typeToShards cm ! nat cType)))))"

fun ConnectionsByTypeAndAddresses ::
    "conn_env \<Rightarrow> ConnectionsManager \<Rightarrow> int \<Rightarrow> bytes list \<Rightarrow> (bytes \<Rightarrow> conn option) \<Rightarrow> bytes \<Rightarrow> conn option" where
  "ConnectionsByTypeAndAddresses E cm cType [] result = result"
| "ConnectionsByTypeAndAddresses E cm cType (addr # addresses) result =
     (case ConnectionByTypeAndAddress E cm cType addr of
        Some c \<Rightarrow> ConnectionsByTypeAndAddresses E cm cType addresses (result(addr \<mapsto> c))
      | None \<Rightarrow> ConnectionsByTypeAndAddresses E cm cType addresses result)"

definition FilterAddressAvailable ::
    "conn_env \<Rightarrow> ConnectionsManager \<Rightarrow> int \<Rightarrow> (bytes \<Rightarrow> 'v option) \<Rightarrow> bytes \<Rightarrow> 'v option" where
  "FilterAddressAvailable E cm cType addresses =
     (\<lambda>address. case ConnectionByTypeAndAddress E cm cType address of
        Some c \<Rightarrow> if conn_IsConnect E c then addresses address else None
      | None \<Rightarrow> None)"

definition ParentConnection :: "ConnectionsManager \<Rightarrow> conn option" where
  "ParentConnection cm = parentConnection cm"

definition AddParentConnection :: "ConnectionsManager \<Rightarrow> conn option \<Rightarrow> ConnectionsManager" where
  "AddParentConnection cm c = (case c of None \<Rightarrow> cm | Some _ \<Rightarrow> cm\<lparr>parentConnection := c\<rparr>)"

definition RemoveConnection :: "conn_env \<Rightarrow> ConnectionsManager \<Rightarrow> conn option \<Rightarrow> ConnectionsManager" where
  "RemoveConnection E cm co =
     (case co of
        None \<Rightarrow> cm
      | Some c \<Rightarrow>
          let address = conn_Address E c;
              cType = MapConnectionTypeToIndex (conn_Type E c)
          in case getShard cm cType address of
               None \<Rightarrow> cm
             | Some ij \<Rightarrow>
                 let key = addressKey E address;
                     cm1 = (case map_of (shard_at cm ij) key of
                              Some record \<Rightarrow>
                                if cr_conn record = Some c
                                then set_shard cm ij (AList.delete key (shard_at cm ij)) else cm
                            | None \<Rightarrow> cm)
                 in if parentConnection cm1 = Some c then cm1\<lparr>parentConnection := None\<rparr> else cm1)"

text \<open>The second component is the list of connections whose \<^verbatim>\<open>Disconnect\<close> is started.\<close>

definition AddConnectionWithAddress ::
    "conn_env \<Rightarrow> ConnectionsManager \<Rightarrow> conn option \<Rightarrow> bytes \<Rightarrow> bool \<Rightarrow> string \<Rightarrow> ConnectionsManager \<times> conn list" where
  "AddConnectionWithAddress E cm co address replace cTypeOverride =
     (case co of
        None \<Rightarrow> (cm, [])
      | Some c \<Rightarrow>
          let cTypeStr = (if cTypeOverride = [] then conn_Type E c else cTypeOverride);
              cType = MapConnectionTypeToIndex cTypeStr
          in case getShard cm cType address of
               None \<Rightarrow> (cm, [])
             | Some ij \<Rightarrow>
                 let key = addressKey E address;
                     record = \<lparr>cr_address = address, cr_conn = Some c\<rparr>;
                     existing = map_of (shard_at cm ij) key
                 in if existing \<noteq> None \<and> \<not> replace then (cm, [])
                    else
                      let closing = (case existing of
                            Some old \<Rightarrow>
                              (case cr_conn old of
                                 Some d \<Rightarrow> if d \<noteq> c \<and> conn_IsConnect E d then [d] else []
                               | None \<Rightarrow> [])
                          | None \<Rightarrow> [])
                      in (set_shard cm ij (AList.update key record (shard_at cm ij)), closing))"

definition AddConnection ::
    "conn_env \<Rightarrow> ConnectionsManager \<Rightarrow> conn option \<Rightarrow> bool \<Rightarrow> string \<Rightarrow> ConnectionsManager \<times> conn list" where
  "AddConnection E cm co replace cTypeOverride =
     (case co of
        None \<Rightarrow> (cm, [])
      | Some c \<Rightarrow> AddConnectionWithAddress E cm co (conn_Address E c) replace cTypeOverride)"

definition countConnectionsByType :: "ConnectionsManager \<Rightarrow> int \<Rightarrow> nat" where
  "countConnectionsByType cm cType =
     (if cType < 0 \<or> cType \<ge> int (length (typeToShards cm)) then 0
      else sum_list (map length (typeToShards cm ! nat cType)))"

text \<open>\<^verbatim>\<open>Stats\<close> visits the types in order and writes \<^verbatim>\<open>int32(total)\<close> under the name of each type that
  has connections.\<close>

fun stats_loop :: "ConnectionsManager \<Rightarrow> nat list \<Rightarrow> (string \<Rightarrow> 32 word option) \<Rightarrow> string \<Rightarrow> 32 word option" where
  "stats_loop cm [] m = m"
| "stats_loop cm (i # is) m =
     (let total = countConnectionsByType cm (int i) in
      if total > 0
      then stats_loop cm is (m(MapIndexToConnectionType (int i) \<mapsto> word_of_nat total))
      else stats_loop cm is m)"

definition Stats :: "ConnectionsManager \<Rightarrow> string \<Rightarrow> 32 word option" where
  "Stats cm = stats_loop cm [0..<length (typeToShards cm)] Map.empty"

text \<open>One tick of \<^verbatim>\<open>HealthCheck\<close>.\<close>

definition HealthCheck :: "conn_env \<Rightarrow> ConnectionsManager \<Rightarrow> ConnectionsManager" where
  "HealthCheck E cm =
     cm\<lparr>typeToShards := map (map (filter (\<lambda>(k, r). case cr_conn r of
            Some c \<Rightarrow> conn_IsConnect E c | None \<Rightarrow> False))) (typeToShards cm)\<rparr>"

subsection \<open>The invariant\<close>

definition shard_ok :: "conn_env \<Rightarrow> nat \<Rightarrow> connectionShard \<Rightarrow> bool" where
  "shard_ok E j sh \<longleftrightarrow> distinct (map fst sh) \<and>
     (\<forall>(k, r) \<in> set sh. length (cr_address r) = 20 \<and> k = address_Hex E (cr_address r) \<and>
        calculateShardIndex (cr_address r) = j \<and> cr_conn r \<noteq> None)"

definition cm_inv :: "conn_env \<Rightarrow> ConnectionsManager \<Rightarrow> bool" where
  "cm_inv E cm \<longleftrightarrow> length (typeToShards cm) = MaxConnectionTypes \<and>
     (\<forall>i < MaxConnectionTypes. length (typeToShards cm ! i) = numConnectionShards \<and>
        (\<forall>j < numConnectionShards. shard_ok E j (typeToShards cm ! i ! j)))"

lemma calculateShardIndex_less: "calculateShardIndex a < numConnectionShards"
proof -
  have "(a ! 19) AND (31 :: byte) \<le> 31" by (rule word_and_le1)
  then show ?thesis
    by (simp add: calculateShardIndex_def numConnectionShards_def word_le_nat_alt)
qed

lemma MapConnectionTypeToIndex_range: "0 \<le> MapConnectionTypeToIndex s" "MapConnectionTypeToIndex s < 20"
  by (simp_all add: MapConnectionTypeToIndex_def)

lemma cm_inv_New: "cm_inv E NewConnectionsManager"
  by (simp add: cm_inv_def NewConnectionsManager_def shard_ok_def)

lemma shard_ok_at:
  "cm_inv E cm \<Longrightarrow> i < MaxConnectionTypes \<Longrightarrow> j < numConnectionShards \<Longrightarrow> shard_ok E j (shard_at cm (i, j))"
  by (simp add: cm_inv_def shard_at_def)

lemma cm_inv_set_shard:
  "cm_inv E cm \<Longrightarrow> i < MaxConnectionTypes \<Longrightarrow> j < numConnectionShards \<Longrightarrow> shard_ok E j sh \<Longrightarrow>
   cm_inv E (set_shard cm (i, j) sh)"
  by (auto simp: cm_inv_def set_shard_def nth_list_update)

lemma shard_at_set_shard:
  assumes "cm_inv E cm" "i < MaxConnectionTypes" "j < numConnectionShards"
  shows "shard_at (set_shard cm (i, j) sh) ij =
    (if ij = (i, j) then sh else shard_at cm ij)"
  using assms by (cases ij) (auto simp: cm_inv_def shard_at_def set_shard_def nth_list_update)

lemma shard_ok_update:
  assumes "shard_ok E j sh" "length a = 20" "calculateShardIndex a = j"
  shows "shard_ok E j (AList.update (address_Hex E a) \<lparr>cr_address = a, cr_conn = Some c\<rparr> sh)"
proof -
  let ?k = "address_Hex E a" and ?r = "\<lparr>cr_address = a, cr_conn = Some c\<rparr>"
  let ?P = "\<lambda>(k, r). length (cr_address r) = 20 \<and> k = address_Hex E (cr_address r) \<and>
    calculateShardIndex (cr_address r) = j \<and> cr_conn r \<noteq> None"
  have sub: "set (AList.update k r sh) \<subseteq> insert (k, r) (set sh)" for k :: string and r
    by (induction sh) (auto split: if_splits)
  have "?P e" if "e \<in> set (AList.update ?k ?r sh)" for e
  proof -
    have "e = (?k, ?r) \<or> e \<in> set sh" using sub that by blast
    then show ?thesis using assms by (auto simp: shard_ok_def)
  qed
  moreover have "distinct (map fst (AList.update ?k ?r sh))"
    using assms(1) by (simp add: shard_ok_def distinct_update)
  ultimately show ?thesis unfolding shard_ok_def by blast
qed

lemma shard_ok_delete: "shard_ok E j sh \<Longrightarrow> shard_ok E j (AList.delete k sh)"
  by (auto simp: shard_ok_def AList.delete_eq intro: distinct_map_filter)

text \<open>Printed addresses of 20 bytes are distinct.\<close>

definition hex_inj :: "conn_env \<Rightarrow> bool" where
  "hex_inj E \<longleftrightarrow> (\<forall>a b. length a = 20 \<longrightarrow> length b = 20 \<longrightarrow> address_Hex E a = address_Hex E b \<longrightarrow> a = b)"

lemma getShard_ok:
  assumes "cm_inv E cm" "0 \<le> t" "t < 20"
  shows "getShard cm t a = Some (nat t, calculateShardIndex a)" "nat t < MaxConnectionTypes"
  using assms by (auto simp: getShard_def cm_inv_def MaxConnectionTypes_def)

lemma lookup_eq:
  assumes "cm_inv E cm" "0 \<le> t" "t < 20"
  shows "ConnectionByTypeAndAddress E cm t a =
    Option.bind (map_of (shard_at cm (nat t, calculateShardIndex a)) (address_Hex E a)) cr_conn"
  using assms by (simp add: ConnectionByTypeAndAddress_def getShard_ok addressKey_def split: option.splits)

lemma lookup_range: "cm_inv E cm \<Longrightarrow> \<not> (0 \<le> t \<and> t < 20) \<Longrightarrow> ConnectionByTypeAndAddress E cm t a = None"
  by (auto simp: ConnectionByTypeAndAddress_def getShard_def cm_inv_def MaxConnectionTypes_def)

text \<open>Storing and deleting in a shard, seen through lookups.\<close>

lemma lookup_store:
  assumes inv: "cm_inv E cm" "hex_inj E" and t: "0 \<le> t" "t < 20" and len: "length a = 20" "length b = 20"
  defines "ij \<equiv> (nat t, calculateShardIndex a)"
  shows "cm_inv E (set_shard cm ij (AList.update (address_Hex E a) \<lparr>cr_address = a, cr_conn = Some c\<rparr> (shard_at cm ij)))"
    and "ConnectionByTypeAndAddress E
      (set_shard cm ij (AList.update (address_Hex E a) \<lparr>cr_address = a, cr_conn = Some c\<rparr> (shard_at cm ij))) u b =
      (if u = t \<and> b = a then Some c else ConnectionByTypeAndAddress E cm u b)"
proof -
  let ?cm = "set_shard cm ij (AList.update (address_Hex E a) \<lparr>cr_address = a, cr_conn = Some c\<rparr> (shard_at cm ij))"
  have i: "nat t < MaxConnectionTypes" using t by (simp add: MaxConnectionTypes_def)
  note j = calculateShardIndex_less [of a]
  have "shard_ok E (calculateShardIndex a) (shard_at cm ij)" using shard_ok_at [OF inv(1) i j] by (simp add: ij_def)
  from cm_inv_set_shard [OF inv(1) i j shard_ok_update [OF this len(1) refl]]
  show inv': "cm_inv E ?cm" by (simp add: ij_def)
  show "ConnectionByTypeAndAddress E ?cm u b = (if u = t \<and> b = a then Some c else ConnectionByTypeAndAddress E cm u b)"
  proof (cases "0 \<le> u \<and> u < 20")
    case False
    then have "u \<noteq> t" using t by auto
    then show ?thesis using lookup_range [OF inv' False, of b] lookup_range [OF inv(1) False, of b] by simp
  next
    case True
    note sh = shard_at_set_shard [OF inv(1) i j, folded ij_def]
    have "address_Hex E b = address_Hex E a \<longleftrightarrow> b = a" using inv(2) len by (auto simp: hex_inj_def)
    then show ?thesis
      using True t unfolding lookup_eq [OF inv' True [THEN conjunct1] True [THEN conjunct2]]
        lookup_eq [OF inv(1) True [THEN conjunct1] True [THEN conjunct2]] sh
      by (auto simp: ij_def update_conv')
  qed
qed

lemma lookup_delete:
  assumes inv: "cm_inv E cm" "hex_inj E" and t: "0 \<le> t" "t < 20" and len: "length a = 20" "length b = 20"
  defines "ij \<equiv> (nat t, calculateShardIndex a)"
  shows "cm_inv E (set_shard cm ij (AList.delete (address_Hex E a) (shard_at cm ij)))"
    and "ConnectionByTypeAndAddress E (set_shard cm ij (AList.delete (address_Hex E a) (shard_at cm ij))) u b =
      (if u = t \<and> b = a then None else ConnectionByTypeAndAddress E cm u b)"
proof -
  let ?cm = "set_shard cm ij (AList.delete (address_Hex E a) (shard_at cm ij))"
  have i: "nat t < MaxConnectionTypes" using t by (simp add: MaxConnectionTypes_def)
  note j = calculateShardIndex_less [of a]
  have "shard_ok E (calculateShardIndex a) (shard_at cm ij)" using shard_ok_at [OF inv(1) i j] by (simp add: ij_def)
  from cm_inv_set_shard [OF inv(1) i j shard_ok_delete [OF this]]
  show inv': "cm_inv E ?cm" by (simp add: ij_def)
  show "ConnectionByTypeAndAddress E ?cm u b = (if u = t \<and> b = a then None else ConnectionByTypeAndAddress E cm u b)"
  proof (cases "0 \<le> u \<and> u < 20")
    case False
    then have "u \<noteq> t" using t by auto
    then show ?thesis using lookup_range [OF inv' False, of b] lookup_range [OF inv(1) False, of b] by simp
  next
    case True
    note sh = shard_at_set_shard [OF inv(1) i j, folded ij_def]
    have "address_Hex E b = address_Hex E a \<longleftrightarrow> b = a" using inv(2) len by (auto simp: hex_inj_def)
    then show ?thesis
      using True t unfolding lookup_eq [OF inv' True [THEN conjunct1] True [THEN conjunct2]]
        lookup_eq [OF inv(1) True [THEN conjunct1] True [THEN conjunct2]] sh
      by (auto simp: ij_def AList.delete_conv')
  qed
qed

lemma cm_inv_parent [simp]:
  "cm_inv E (cm\<lparr>parentConnection := p\<rparr>) = cm_inv E cm"
  "ConnectionByTypeAndAddress E (cm\<lparr>parentConnection := p\<rparr>) t a = ConnectionByTypeAndAddress E cm t a"
  by (simp_all add: cm_inv_def ConnectionByTypeAndAddress_def getShard_def shard_at_def)

lemma record_conn_some:
  assumes "cm_inv E cm" "0 \<le> t" "t < 20" "map_of (shard_at cm (nat t, calculateShardIndex a)) k = Some r"
  shows "\<exists>d. cr_conn r = Some d"
proof -
  have "shard_ok E (calculateShardIndex a) (shard_at cm (nat t, calculateShardIndex a))"
    using shard_ok_at [OF assms(1) _ calculateShardIndex_less] assms(2,3) by (simp add: MaxConnectionTypes_def)
  then show ?thesis using map_of_SomeD [OF assms(4)] by (auto simp: shard_ok_def)
qed

lemma AddConnection_spec:
  assumes "cm_inv E cm" "hex_inj E" "length a = 20" "length b = 20"
  shows "(case AddConnectionWithAddress E cm (Some c) a replace ov of (cm', closing) \<Rightarrow>
    let t = MapConnectionTypeToIndex (if ov = [] then conn_Type E c else ov);
        old = ConnectionByTypeAndAddress E cm t a
    in cm_inv E cm' \<and>
       ConnectionByTypeAndAddress E cm' u b =
         (if u = t \<and> b = a \<and> (old = None \<or> replace) then Some c
          else ConnectionByTypeAndAddress E cm u b) \<and>
       (d \<in> set closing \<longleftrightarrow> replace \<and> old = Some d \<and> d \<noteq> c \<and> conn_IsConnect E d))"
proof -
  define t where "t = MapConnectionTypeToIndex (if ov = [] then conn_Type E c else ov)"
  have t: "0 \<le> t" "t < 20" by (simp_all add: t_def MapConnectionTypeToIndex_range)
  let ?ij = "(nat t, calculateShardIndex a)"
  have g: "getShard cm t a = Some ?ij" by (rule getShard_ok [OF assms(1) t])
  have old: "ConnectionByTypeAndAddress E cm t a = Option.bind (map_of (shard_at cm ?ij) (address_Hex E a)) cr_conn"
    by (rule lookup_eq [OF assms(1) t])
  note st = lookup_store(1) [OF assms(1,2) t assms(3,4), of c] lookup_store(2) [OF assms(1,2) t assms(3,4), of c u]
  show ?thesis
  proof (cases "map_of (shard_at cm ?ij) (address_Hex E a)")
    case None
    then show ?thesis
      using g old st by (simp add: AddConnectionWithAddress_def t_def [symmetric] addressKey_def Let_def)
  next
    case (Some r)
    obtain e where "cr_conn r = Some e" using record_conn_some [OF assms(1) t Some] by blast
    with Some show ?thesis
      using g old st assms(1) by (auto simp: AddConnectionWithAddress_def t_def [symmetric] addressKey_def Let_def)
  qed
qed


lemma cm_inv_AddConnection:
  assumes "cm_inv E cm" "hex_inj E" "length (conn_Address E c) = 20"
  shows "cm_inv E (fst (AddConnection E cm (Some c) replace ov))"
proof -
  obtain cm' cl where add: "AddConnectionWithAddress E cm (Some c) (conn_Address E c) replace ov = (cm', cl)" by force
  have "cm_inv E cm'" using AddConnection_spec [OF assms(1,2,3,3), where c = c and replace = replace and ov = ov]
    by (simp add: add Let_def)
  then show ?thesis by (simp add: AddConnection_def add)
qed

lemma lookup_New [simp]: "ConnectionByTypeAndAddress E NewConnectionsManager t a = None"
proof (cases "0 \<le> t \<and> t < 20")
  case True
  then have "shard_at NewConnectionsManager (nat t, calculateShardIndex a) = []"
    using calculateShardIndex_less [of a] nat_less_iff [of t 20]
    by (simp add: NewConnectionsManager_def shard_at_def MaxConnectionTypes_def)
  then show ?thesis using True by (simp add: lookup_eq [OF cm_inv_New])
next
  case False
  then show ?thesis by (rule lookup_range [OF cm_inv_New])
qed

text \<open>C34. The connection table is a map from a type and an address to a connection. On every
  table that satisfies the invariant, adding keeps the invariant and changes the answer of
  \<^verbatim>\<open>ConnectionByTypeAndAddress\<close> for the one type and address only, where an existing connection
  is kept unless \<^verbatim>\<open>replace\<close> is set; a connection is told to disconnect exactly when it is replaced
  by a different one and still connected.\<close>

theorem AddConnection_refines:
  assumes "cm_inv E cm" "hex_inj E" "length a = 20" "length b = 20"
  shows "(case AddConnectionWithAddress E cm (Some c) a replace ov of (cm', closing) \<Rightarrow>
    let t = MapConnectionTypeToIndex (if ov = [] then conn_Type E c else ov);
        old = ConnectionByTypeAndAddress E cm t a
    in cm_inv E cm' \<and>
       ConnectionByTypeAndAddress E cm' u b =
         (if u = t \<and> b = a \<and> (old = None \<or> replace) then Some c
          else ConnectionByTypeAndAddress E cm u b) \<and>
       (d \<in> set closing \<longleftrightarrow> replace \<and> old = Some d \<and> d \<noteq> c \<and> conn_IsConnect E d))"
  by (rule AddConnection_spec [OF assms])

lemma RemoveConnection_lookup:
  assumes "cm_inv E cm" "hex_inj E" "length (conn_Address E c) = 20" "length b = 20"
  shows "cm_inv E (RemoveConnection E cm (Some c)) \<and>
    ConnectionByTypeAndAddress E (RemoveConnection E cm (Some c)) u b =
      (if u = MapConnectionTypeToIndex (conn_Type E c) \<and> b = conn_Address E c \<and>
          ConnectionByTypeAndAddress E cm u b = Some c
       then None else ConnectionByTypeAndAddress E cm u b)"
proof -
  define t where "t = MapConnectionTypeToIndex (conn_Type E c)"
  have t: "0 \<le> t" "t < 20" by (simp_all add: t_def MapConnectionTypeToIndex_range)
  let ?a = "conn_Address E c" and ?ij = "(nat t, calculateShardIndex (conn_Address E c))"
  have g: "getShard cm t ?a = Some ?ij" by (rule getShard_ok [OF assms(1) t])
  have old: "ConnectionByTypeAndAddress E cm t ?a =
      Option.bind (map_of (shard_at cm ?ij) (address_Hex E ?a)) cr_conn"
    by (rule lookup_eq [OF assms(1) t])
  note dl = lookup_delete(1) [OF assms(1,2) t assms(3,4)] lookup_delete(2) [OF assms(1,2) t assms(3,4), of u]
  show ?thesis
  proof (cases "map_of (shard_at cm ?ij) (address_Hex E ?a)")
    case None
    then show ?thesis
      using g old assms(1) by (auto simp: RemoveConnection_def t_def [symmetric] addressKey_def Let_def)
  next
    case (Some r)
    then show ?thesis
      using g old dl assms(1)
      by (cases "cr_conn r = Some c") (auto simp: RemoveConnection_def t_def [symmetric] addressKey_def Let_def)
  qed
qed

text \<open>A connection added under an override type is not removed. \<^verbatim>\<open>AddConnectionWithAddress\<close> files a
  connection under the override when there is one, \<^verbatim>\<open>RemoveConnection\<close> looks it up under the
  connection's own type; where the two types have different indices the closed connection stays
  in the table.\<close>

theorem RemoveConnection_override_leak:
  assumes "cm_inv E cm" "hex_inj E" "length (conn_Address E c) = 20" "ov \<noteq> []"
    and "MapConnectionTypeToIndex ov \<noteq> MapConnectionTypeToIndex (conn_Type E c)"
  shows "ConnectionByTypeAndAddress E
    (RemoveConnection E (fst (AddConnection E cm (Some c) True ov)) (Some c))
    (MapConnectionTypeToIndex ov) (conn_Address E c) = Some c"
proof -
  define t where "t = MapConnectionTypeToIndex ov"
  have t: "0 \<le> t" "t < 20" by (simp_all add: t_def MapConnectionTypeToIndex_range)
  let ?a = "conn_Address E c" and ?ij = "(nat t, calculateShardIndex (conn_Address E c))"
  let ?cm = "set_shard cm ?ij (AList.update (address_Hex E ?a) \<lparr>cr_address = ?a, cr_conn = Some c\<rparr> (shard_at cm ?ij))"
  have "fst (AddConnection E cm (Some c) True ov) = ?cm"
    using assms(4) getShard_ok(1) [OF assms(1) t, of ?a]
    by (simp add: AddConnection_def AddConnectionWithAddress_def t_def [symmetric] addressKey_def Let_def)
  moreover note st = lookup_store(1) [OF assms(1,2) t assms(3,3), of c] lookup_store(2) [OF assms(1,2) t assms(3,3), of c t]
  ultimately show ?thesis
    using RemoveConnection_lookup [OF st(1) assms(2,3,3), of t] assms(5) by (simp add: t_def)
qed

subsection \<open>Statistics\<close>

lemma stats_loop_other:
  "(\<And>i. i \<in> set is \<Longrightarrow> MapIndexToConnectionType (int i) = s \<Longrightarrow> countConnectionsByType cm (int i) = 0) \<Longrightarrow>
   stats_loop cm is m s = m s"
  by (induction "is" arbitrary: m) (auto simp: Let_def)

lemma stats_loop_append: "stats_loop cm (xs @ ys) m = stats_loop cm ys (stats_loop cm xs m)"
  by (induction xs arbitrary: m) (auto simp: Let_def)

text \<open>\<^verbatim>\<open>Stats\<close> loses counts. The indices 0 and 11 (\<^verbatim>\<open>master_read_only\<close>) are both printed as
  \<^verbatim>\<open>none\<close>, so when there are connections of type 11 the entry for \<^verbatim>\<open>none\<close> is their number, whatever
  the number of connections without a type; the name of type 11 never appears.\<close>

lemma Stats_overwrites:
  assumes "cm_inv E cm" "countConnectionsByType cm 11 > 0"
    and "\<forall>i \<in> {12..19}. countConnectionsByType cm i = 0"
  shows "Stats cm ''none'' = Some (word_of_nat (countConnectionsByType cm 11)) \<and>
    Stats cm ''master_read_only'' = None"
proof
  have len: "length (typeToShards cm) = 20" using assms(1) by (simp add: cm_inv_def MaxConnectionTypes_def)
  have split: "[0..<20] = [0..<11] @ [11] @ [12..<20]" by (simp add: upt_rec)
  have name: "MapIndexToConnectionType (int 11) = ''none''" by (simp add: MapIndexToConnectionType_def)
  have "stats_loop cm [12..<20] m ''none'' = m ''none''" for m
    using assms(3) by (intro stats_loop_other) force
  then show "Stats cm ''none'' = Some (word_of_nat (countConnectionsByType cm 11))"
    unfolding Stats_def len split using name assms(2) by (simp add: stats_loop_append Let_def)
  have "MapIndexToConnectionType i \<noteq> ''master_read_only''" for i
    by (simp add: MapIndexToConnectionType_def)
  then show "Stats cm ''master_read_only'' = None"
    unfolding Stats_def by (subst stats_loop_other) auto
qed

text \<open>Two types, printed by their bytes, for the instances.\<close>

definition ex_env :: conn_env where
  "ex_env = \<lparr>conn_Address = \<lambda>c. replicate 20 (word_of_nat c),
     conn_Type = \<lambda>c. if c = 1 then ''master_read_only'' else ''temp'',
     conn_IsConnect = \<lambda>c. True, address_Hex = hex_encode\<rparr>"

lemma ex_env_hex: "hex_inj ex_env"
  by (simp add: hex_inj_def ex_env_def)

theorem AddConnection_refines_witness:
  "ConnectionByTypeAndAddress ex_env
     (fst (AddConnectionWithAddress ex_env NewConnectionsManager (Some 7) (replicate 20 3) False ''node''))
     2 (replicate 20 3) = Some 7"
  using AddConnection_refines [OF cm_inv_New ex_env_hex, where a = "replicate 20 3" and b = "replicate 20 3"
      and c = 7 and replace = False and ov = "''node''" and u = 2 and d = 0]
  by (simp add: Let_def MapConnectionTypeToIndex_def case_prod_beta)

lemma RemoveConnection_override_leak_example:
  "ConnectionByTypeAndAddress ex_env
     (RemoveConnection ex_env (fst (AddConnection ex_env NewConnectionsManager (Some 7) True ''client'')) (Some 7))
     (MapConnectionTypeToIndex ''client'') (conn_Address ex_env 7) = Some 7"
  by (rule RemoveConnection_override_leak [OF cm_inv_New ex_env_hex])
    (simp_all add: ex_env_def MapConnectionTypeToIndex_def)

definition ex_table :: ConnectionsManager where
  "ex_table = fst (AddConnection ex_env (fst (AddConnection ex_env NewConnectionsManager (Some 2) True [])) (Some 1) True [])"

lemma Stats_overwrites_example:
  "countConnectionsByType ex_table 0 = 1 \<and> Stats ex_table ''none'' = Some 1"
proof -
  let ?cm1 = "fst (AddConnection ex_env NewConnectionsManager (Some 2) True [])"
  have l: "length (conn_Address ex_env c) = 20" for c by (simp add: ex_env_def)
  have "cm_inv ex_env ?cm1" by (rule cm_inv_AddConnection [OF cm_inv_New ex_env_hex l])
  then have inv: "cm_inv ex_env ex_table"
    unfolding ex_table_def by (rule cm_inv_AddConnection [OF _ ex_env_hex l])
  have c0: "countConnectionsByType ex_table 0 = 1" by code_simp
  have c11: "countConnectionsByType ex_table 11 = 1" by code_simp
  have "list_all (\<lambda>i. countConnectionsByType ex_table i = 0) [12, 13, 14, 15, 16, 17, 18, 19]" by code_simp
  moreover have "{12..19 :: int} = set [12, 13, 14, 15, 16, 17, 18, 19]" by auto
  ultimately have "\<forall>i \<in> {12..19}. countConnectionsByType ex_table i = 0" by simp
  with Stats_overwrites [OF inv] c0 c11 show ?thesis by simp
qed

end
