(* ===== verification/Wire.thy ===== *)
theory Wire
  imports Go_Prelude
begin

text \<open>
  Messages and their framing on a TCP stream: \<^verbatim>\<open>message.go\<close>, \<^verbatim>\<open>message_sender.go\<close>, \<^verbatim>\<open>request.go\<close>,
  \<^verbatim>\<open>config.go\<close> and the read and write loops of \<^verbatim>\<open>connection.go\<close> in \<^verbatim>\<open>src/pkg/network\<close>, and the
  fixed-size keys of \<^verbatim>\<open>src/pkg/common/common.go\<close>. A frame is the length in eight
  little-endian bytes and the marshalled message. Protobuf is a parameter, \<open>None\<close> is an error;
  so are go-ethereum's \<^verbatim>\<open>BytesToAddress\<close> and the fresh UUID of a header.
\<close>

subsection \<open>Keys\<close>

definition PubkeyFromBytes :: "bytes \<Rightarrow> bytes" where
  "PubkeyFromBytes b = to_array 48 b"

definition SignFromBytes :: "bytes \<Rightarrow> bytes" where
  "SignFromBytes b = to_array 96 b"

definition PrivateKeyFromBytes :: "bytes \<Rightarrow> bytes" where
  "PrivateKeyFromBytes b = to_array 32 b"

definition AddressFromPubkey :: "(bytes \<Rightarrow> bytes) \<Rightarrow> (bytes \<Rightarrow> bytes) \<Rightarrow> bytes \<Rightarrow> bytes" where
  "AddressFromPubkey keccak256 BytesToAddress pk = BytesToAddress (drop 12 (keccak256 pk))"

subsection \<open>Configuration\<close>

record Config =
  MaxMessageLength :: u64
  RequestChanSize :: int
  ErrorChanSize :: int
  WriteTimeout :: int
  RequestChanWaitTimeout :: int
  DialTimeout :: int
  RetryParentInterval :: int
  HandlerWorkerPoolSize :: int
  SendChanSize :: int

text \<open>Durations in nanoseconds; \<open>numCPU\<close> is what the runtime reports.\<close>

definition DefaultConfig :: "int \<Rightarrow> Config" where
  "DefaultConfig numCPU =
     (let numWorkers = (if numCPU < 4 then 8 else if numCPU < 8 then 16 else if numCPU < 16 then 32
                        else if (124 :: int) > 256 then 256 else 124)
      in \<lparr>MaxMessageLength = 1024 * 1024 * 1024, RequestChanSize = numWorkers * 10, ErrorChanSize = 2000,
          WriteTimeout = 10 * 1000000000, RequestChanWaitTimeout = 30 * 1000000000,
          DialTimeout = 10 * 1000000000, RetryParentInterval = 5 * 1000000000,
          HandlerWorkerPoolSize = numWorkers, SendChanSize = 65536\<rparr>)"

subsection \<open>Messages\<close>

record Header =
  h_Command :: string
  h_Version :: string
  h_ToAddress :: bytes
  h_ID :: string
  h_Pubkey :: bytes
  h_Sign :: bytes

record pbMessage =
  m_Header :: "Header option"
  m_Body :: bytes

definition empty_Header :: Header where
  "empty_Header = \<lparr>h_Command = [], h_Version = [], h_ToAddress = [], h_ID = [], h_Pubkey = [], h_Sign = []\<rparr>"

text \<open>\<open>None\<close> is a nil pointer, both in the argument of \<^verbatim>\<open>NewMessage\<close> and as a receiver.\<close>

definition NewMessage :: "pbMessage option \<Rightarrow> pbMessage" where
  "NewMessage pbm =
     (case pbm of
        None \<Rightarrow> \<lparr>m_Header = Some empty_Header, m_Body = []\<rparr>
      | Some m \<Rightarrow> (case m_Header m of None \<Rightarrow> m\<lparr>m_Header := Some empty_Header\<rparr> | Some _ \<Rightarrow> m))"

definition Message_Marshal :: "(pbMessage \<Rightarrow> bytes option) \<Rightarrow> pbMessage option \<Rightarrow> bytes option" where
  "Message_Marshal marsh m = (case m of None \<Rightarrow> None | Some p \<Rightarrow> marsh p)"

definition Message_Unmarshal :: "(bytes \<Rightarrow> 'a option) \<Rightarrow> pbMessage option \<Rightarrow> 'a option" where
  "Message_Unmarshal unmarsh m = (case m of None \<Rightarrow> None | Some p \<Rightarrow> unmarsh (m_Body p))"

definition msg_header :: "pbMessage option \<Rightarrow> Header option" where
  "msg_header m = (case m of None \<Rightarrow> None | Some p \<Rightarrow> m_Header p)"

definition Command :: "pbMessage option \<Rightarrow> string" where
  "Command m = (case msg_header m of None \<Rightarrow> [] | Some h \<Rightarrow> h_Command h)"

definition Version :: "pbMessage option \<Rightarrow> string" where
  "Version m = (case msg_header m of None \<Rightarrow> [] | Some h \<Rightarrow> h_Version h)"

definition Body :: "pbMessage option \<Rightarrow> bytes" where
  "Body m = (case m of None \<Rightarrow> [] | Some p \<Rightarrow> m_Body p)"

definition Pubkey :: "pbMessage option \<Rightarrow> bytes" where
  "Pubkey m = (case msg_header m of None \<Rightarrow> replicate 48 0 | Some h \<Rightarrow>
     if h_Pubkey h = [] then replicate 48 0 else PubkeyFromBytes (h_Pubkey h))"

definition Message_Sign :: "pbMessage option \<Rightarrow> bytes" where
  "Message_Sign m = (case msg_header m of None \<Rightarrow> replicate 96 0 | Some h \<Rightarrow>
     if h_Sign h = [] then replicate 96 0 else SignFromBytes (h_Sign h))"

definition ToAddress :: "(bytes \<Rightarrow> bytes) \<Rightarrow> pbMessage option \<Rightarrow> bytes" where
  "ToAddress BytesToAddress m = (case msg_header m of None \<Rightarrow> replicate 20 0 | Some h \<Rightarrow>
     if h_ToAddress h = [] then replicate 20 0 else BytesToAddress (h_ToAddress h))"

definition ID :: "pbMessage option \<Rightarrow> string" where
  "ID m = (case msg_header m of None \<Rightarrow> [] | Some h \<Rightarrow> h_ID h)"

record Request =
  req_connection :: nat
  req_message :: pbMessage

definition NewRequest :: "nat \<Rightarrow> pbMessage \<Rightarrow> Request" where
  "NewRequest c m = \<lparr>req_connection = c, req_message = m\<rparr>"

definition Request_Reset :: "Request \<Rightarrow> nat \<Rightarrow> pbMessage \<Rightarrow> Request" where
  "Request_Reset r c m = r\<lparr>req_connection := c, req_message := m\<rparr>"

subsection \<open>Sending\<close>

text \<open>A connection here is its address and the answer of its \<^verbatim>\<open>SendMessage\<close>; the result of sending is
  that answer and the messages handed to the connection.\<close>

record send_conn =
  sc_Address :: bytes
  sc_Send :: "pbMessage \<Rightarrow> string option"

definition getHeaderForCommand :: "string \<Rightarrow> string \<Rightarrow> bytes \<Rightarrow> string \<Rightarrow> Header" where
  "getHeaderForCommand uuid command toAddress version =
     empty_Header\<lparr>h_Command := command, h_Version := version, h_ToAddress := toAddress, h_ID := uuid\<rparr>"

definition generateMessage :: "string \<Rightarrow> bytes \<Rightarrow> string \<Rightarrow> bytes \<Rightarrow> string \<Rightarrow> pbMessage" where
  "generateMessage uuid toAddress command body version =
     NewMessage (Some \<lparr>m_Header = Some (getHeaderForCommand uuid command toAddress version), m_Body = body\<rparr>)"

definition SendBytes ::
    "string \<Rightarrow> send_conn option \<Rightarrow> string \<Rightarrow> bytes \<Rightarrow> string \<Rightarrow> string option \<times> pbMessage list" where
  "SendBytes uuid connection command bs version =
     (case connection of
        None \<Rightarrow> (Some (''SendBytes (utility): nil connection for '' @ command), [])
      | Some c \<Rightarrow>
          let message = generateMessage uuid (sc_Address c) command bs version
          in (sc_Send c message, [message]))"

text \<open>\<open>pbm\<close> is the marshalled argument: \<open>None\<close> for a nil message, \<open>Some None\<close> for a marshalling error.\<close>

definition SendMessage_util ::
    "string \<Rightarrow> send_conn option \<Rightarrow> string \<Rightarrow> bytes option option \<Rightarrow> string \<Rightarrow> string option \<times> pbMessage list" where
  "SendMessage_util uuid connection command pbm version =
     (case pbm of
        None \<Rightarrow> SendBytes uuid connection command [] version
      | Some None \<Rightarrow> (Some ''marshal'', [])
      | Some (Some body) \<Rightarrow> SendBytes uuid connection command body version)"

text \<open>\<^verbatim>\<open>MessageSender.SendMessage\<close> logs the address of the connection first and panics (\<open>None\<close>) on nil.\<close>

definition MessageSender_SendMessage ::
    "string \<Rightarrow> string \<Rightarrow> send_conn option \<Rightarrow> string \<Rightarrow> bytes option option \<Rightarrow> (string option \<times> pbMessage list) option" where
  "MessageSender_SendMessage version uuid connection command pbm =
     (case connection of None \<Rightarrow> None | Some c \<Rightarrow> Some (SendMessage_util uuid connection command pbm version))"

definition SendMessage2 ::
    "string \<Rightarrow> string \<Rightarrow> send_conn option \<Rightarrow> string \<Rightarrow> bytes option option \<Rightarrow> string option \<times> pbMessage list" where
  "SendMessage2 version uuid connection command pbm =
     (case connection of
        None \<Rightarrow> (Some ''SendMessage: connection is nil'', [])
      | Some c \<Rightarrow>
          (case pbm of
             Some None \<Rightarrow> (Some ''marshal'', [])
           | _ \<Rightarrow>
               let body = (case pbm of Some (Some b) \<Rightarrow> b | _ \<Rightarrow> []);
                   message = NewMessage (Some \<lparr>m_Header = Some (empty_Header\<lparr>h_Command := command,
                     h_Version := version, h_ToAddress := sc_Address c, h_ID := uuid\<rparr>), m_Body = body\<rparr>)
               in (sc_Send c message, [message])))"

definition MessageSender_SendBytes ::
    "string \<Rightarrow> string \<Rightarrow> send_conn option \<Rightarrow> string \<Rightarrow> bytes \<Rightarrow> string option \<times> pbMessage list" where
  "MessageSender_SendBytes version uuid connection command b = SendBytes uuid connection command b version"

text \<open>\<^verbatim>\<open>BroadcastMessage\<close>: the goroutines send in any order (\<open>sched\<close>); their errors are only logged.\<close>

definition BroadcastMessage ::
    "string \<Rightarrow> (bytes \<Rightarrow> string) \<Rightarrow> ((bytes \<times> send_conn option) list \<Rightarrow> (bytes \<times> send_conn option) list) \<Rightarrow>
     (bytes \<times> send_conn option) list \<Rightarrow> string \<Rightarrow> bytes option \<Rightarrow> string option \<times> (bytes \<times> pbMessage) list" where
  "BroadcastMessage version uuid sched conns command marshalled =
     (case marshalled of
        None \<Rightarrow> (Some ''marshal'', [])
      | Some b \<Rightarrow>
          (None, concat (map (\<lambda>(addr, con). case con of
              None \<Rightarrow> []
            | Some c \<Rightarrow> map (\<lambda>m. (addr, m)) (snd (MessageSender_SendBytes version (uuid addr) con command b)))
            (sched conns))))"

subsection \<open>The write loop\<close>

definition frame :: "bytes \<Rightarrow> bytes" where
  "frame b = put_le64 (word_of_nat (length b)) @ b"

text \<open>The bytes that reach the stream. A message that cannot be marshalled is skipped; the entry
  \<open>Some n\<close> of \<open>fl\<close> stands for a frame whose write fails after \<open>n\<close> bytes, which ends the loop.\<close>

fun writeLoop :: "(pbMessage \<Rightarrow> bytes option) \<Rightarrow> pbMessage list \<Rightarrow> nat option list \<Rightarrow> bytes" where
  "writeLoop marsh [] fl = []"
| "writeLoop marsh (message # sendChan) fl =
     (case Message_Marshal marsh (Some message) of
        None \<Rightarrow> writeLoop marsh sendChan fl
      | Some b \<Rightarrow>
          (case fl of
             Some n # fl' \<Rightarrow> take n (frame b)
           | None # fl' \<Rightarrow> frame b @ writeLoop marsh sendChan fl'
           | [] \<Rightarrow> frame b @ writeLoop marsh sendChan []))"

subsection \<open>The read loop\<close>

datatype read_error = ErrEOF | ErrUnexpectedEOF | ErrExceedMessageLength u64 | ErrUnmarshal

text \<open>What happens to a request that was read: it is put into the channel, the quit signal comes
  first, or the channel stays full until the timeout and the request is dropped.\<close>

datatype chan_outcome = Sent | QuitSignal | Dropped

datatype read_end = Terminal read_error | Quit

text \<open>\<^verbatim>\<open>io.CopyN\<close> of \<open>n\<close> bytes; a negative \<open>n\<close> copies nothing.\<close>

definition copyN :: "bytes \<Rightarrow> int \<Rightarrow> (bytes \<times> bytes) option" where
  "copyN s n =
     (if n < 0 then Some ([], s)
      else if int (length s) < n then None
      else Some (take (nat n) s, drop (nat n) s))"

lemma copyN_length: "copyN s n = Some (a, b) \<Longrightarrow> length b \<le> length s"
  by (auto simp: copyN_def split: if_splits)

text \<open>The stream holds all bytes the peer sends before it closes. The result is the requests that
  were put into the channel and the way the loop ended.\<close>

function (sequential) readLoop ::
    "(bytes \<Rightarrow> pbMessage option) \<Rightarrow> u64 \<Rightarrow> chan_outcome list \<Rightarrow> bytes \<Rightarrow> pbMessage list \<times> read_end" where
  "readLoop unmarsh maxLen sched s =
     (if length s < 8 then ([], Terminal (if s = [] then ErrEOF else ErrUnexpectedEOF))
      else
        let messageLength = get_le64 s; rest = drop 8 s in
        if messageLength = 0 then readLoop unmarsh maxLen sched rest
        else if messageLength > maxLen then ([], Terminal (ErrExceedMessageLength messageLength))
        else
          (case copyN rest (sint messageLength) of
             None \<Rightarrow> ([], Terminal ErrEOF)
           | Some (buf, rest') \<Rightarrow>
               (case unmarsh buf of
                  None \<Rightarrow> ([], Terminal ErrUnmarshal)
                | Some msgProto \<Rightarrow>
                    let req = NewMessage (Some msgProto) in
                    (case sched of
                       QuitSignal # sched' \<Rightarrow> ([], Quit)
                     | Dropped # sched' \<Rightarrow> readLoop unmarsh maxLen sched' rest'
                     | _ \<Rightarrow>
                         (case readLoop unmarsh maxLen (drop 1 sched) rest' of
                            (reqs, e) \<Rightarrow> (req # reqs, e))))))"
  by pat_completeness auto
termination
proof (relation "measure (\<lambda>(u, m, sched, s). length s)", goal_cases)
  case 1
  then show ?case by simp
qed (auto simp: Let_def dest!: copyN_length)

declare readLoop.simps [simp del]

subsection \<open>What the reader makes of what the writer sent\<close>

text \<open>A message that protobuf reads back, with a header, and whose encoding is within the limit.\<close>

definition sendable :: "(pbMessage \<Rightarrow> bytes option) \<Rightarrow> (bytes \<Rightarrow> pbMessage option) \<Rightarrow> u64 \<Rightarrow> pbMessage \<Rightarrow> bool" where
  "sendable marsh unmarsh maxLen m \<longleftrightarrow>
     m_Header m \<noteq> None \<and> (\<exists>b. marsh m = Some b \<and> unmarsh b = Some m \<and> length b \<le> unat maxLen)"

lemma frame_length:
  assumes "length b \<le> unat (maxLen :: u64)"
  shows "unat (word_of_nat (length b) :: u64) = length b"
  using assms unsigned_less [where 'a = nat, of maxLen] by (simp add: unat_of_nat)

lemma get_le64_frame: "get_le64 (frame b @ rest) = word_of_nat (length b)"
  by (simp add: frame_def)

lemma drop_frame [simp]: "drop 8 (frame b) = b"
  by (simp add: frame_def)

lemma length_frame [simp]: "length (frame b) = 8 + length b"
  by (simp add: frame_def)

lemma read_empty_frame: "readLoop unmarsh maxLen sched (frame [] @ rest) = readLoop unmarsh maxLen sched rest"
  by (subst readLoop.simps) (simp add: get_le64_frame)

lemma sint_length:
  assumes "length b \<le> unat (maxLen :: u64)" "unat maxLen < 2 ^ 63"
  shows "sint (word_of_nat (length b) :: u64) = int (length b)"
proof -
  have "(word_of_nat (length b) :: u64) = word_of_int (int (length b))" by simp
  moreover have "int64 (int (length b)) = int (length b)" using assms by (intro int64_small) auto
  ultimately show ?thesis by (simp add: int64_def)
qed

lemma read_frame_checks:
  assumes "length b \<le> unat (maxLen :: u64)" "b \<noteq> []"
  shows "(word_of_nat (length b) :: u64) \<noteq> 0" "\<not> (word_of_nat (length b) > maxLen)"
  using assms frame_length [OF assms(1)] by (auto simp: word_less_nat_alt unat_eq_zero [symmetric])

lemma read_frame:
  assumes "sendable marsh unmarsh maxLen m" "marsh m = Some b" "b \<noteq> []" "unat maxLen < 2 ^ 63"
  shows "readLoop unmarsh maxLen [] (frame b @ rest) =
    (m # fst (readLoop unmarsh maxLen [] rest), snd (readLoop unmarsh maxLen [] rest))"
proof -
  have b: "length b \<le> unat maxLen" "unmarsh b = Some m" "m_Header m \<noteq> None"
    using assms(1,2) by (auto simp: sendable_def)
  have n: "NewMessage (Some m) = m" using b(3) by (auto simp: NewMessage_def)
  have c: "copyN (b @ rest) (int (length b)) = Some (b, rest)" by (simp add: copyN_def)
  show ?thesis
    using read_frame_checks [OF b(1) assms(3)]
    by (subst readLoop.simps)
      (simp add: get_le64_frame sint_length [OF b(1) assms(4)] c b(2) n Let_def split: prod.splits)
qed

lemma read_cut_frame:
  assumes "length b \<le> unat (maxLen :: u64)" "unat maxLen < 2 ^ 63" "k < length (frame b)"
  shows "fst (readLoop unmarsh maxLen sched (take k (frame b))) = []"
proof (cases "k < 8")
  case True
  then show ?thesis by (subst readLoop.simps) (auto simp: min_def)
next
  case False
  then have t: "take k (frame b) = put_le64 (word_of_nat (length b)) @ take (k - 8) b"
    by (simp add: frame_def)
  have "b \<noteq> []" using False assms(3) by auto
  note ch = read_frame_checks [OF assms(1) this]
  have "copyN (take (k - 8) b) (int (length b)) = None"
    using False assms(3) by (simp add: copyN_def)
  then show ?thesis
    unfolding t using ch by (subst readLoop.simps) (simp add: sint_length [OF assms(1,2)] Let_def)
qed

abbreviation visible :: "(pbMessage \<Rightarrow> bytes option) \<Rightarrow> pbMessage list \<Rightarrow> pbMessage list" where
  "visible marsh ms \<equiv> filter (\<lambda>m. marsh m \<noteq> Some []) ms"

lemma read_all:
  assumes "\<And>m. m \<in> set ms \<Longrightarrow> sendable marsh unmarsh maxLen m" "unat maxLen < 2 ^ 63"
  shows "readLoop unmarsh maxLen [] (writeLoop marsh ms []) = (visible marsh ms, Terminal ErrEOF)"
  using assms(1)
proof (induction ms)
  case Nil
  show ?case by (subst readLoop.simps) simp
next
  case (Cons m ms)
  have sm: "sendable marsh unmarsh maxLen m" using Cons.prems by simp
  then obtain b where b: "marsh m = Some b" by (auto simp: sendable_def)
  show ?case
  proof (cases "b = []")
    case True
    then show ?thesis using Cons b by (simp add: Message_Marshal_def read_empty_frame)
  next
    case False
    then show ?thesis using Cons b read_frame [OF sm b False assms(2)] by (simp add: Message_Marshal_def)
  qed
qed

lemma read_prefix:
  assumes "\<And>m. m \<in> set ms \<Longrightarrow> sendable marsh unmarsh maxLen m" "unat maxLen < 2 ^ 63"
  shows "prefix (fst (readLoop unmarsh maxLen [] (take k (writeLoop marsh ms [])))) (visible marsh ms)"
  using assms(1)
proof (induction ms arbitrary: k)
  case Nil
  show ?case by (subst readLoop.simps) simp
next
  case (Cons m ms)
  have sm: "sendable marsh unmarsh maxLen m" using Cons.prems by simp
  then obtain b where b: "marsh m = Some b" "length b \<le> unat maxLen" by (auto simp: sendable_def)
  show ?case
  proof (cases "k < length (frame b)")
    case True
    then show ?thesis
      using read_cut_frame [OF b(2) assms(2) True, of unmarsh "[]"] b(1) by (simp add: Message_Marshal_def)
  next
    case False
    then obtain k' where k: "k = length (frame b) + k'" using le_Suc_ex not_less by blast
    then have t: "take k (writeLoop marsh (m # ms) []) = frame b @ take k' (writeLoop marsh ms [])"
      using b(1) by (simp add: Message_Marshal_def)
    have IH: "prefix (fst (readLoop unmarsh maxLen [] (take k' (writeLoop marsh ms [])))) (visible marsh ms)"
      using Cons by simp
    show ?thesis
    proof (cases "b = []")
      case True
      then show ?thesis unfolding t using IH b(1) by (simp add: read_empty_frame)
    next
      case False
      then show ?thesis unfolding t using IH b(1) read_frame [OF sm b(1) False assms(2)] by simp
    qed
  qed
qed

lemma writeLoop_cut: "\<exists>k. writeLoop marsh ms fl = take k (writeLoop marsh ms [])"
proof (induction ms arbitrary: fl)
  case (Cons m ms)
  show ?case
  proof (cases "marsh m")
    case None
    then show ?thesis using Cons [of fl] by (simp add: Message_Marshal_def)
  next
    case (Some b)
    note mb = Message_Marshal_def Some
    show ?thesis
    proof (cases fl)
      case Nil
      then show ?thesis by (intro exI [of _ "length (writeLoop marsh (m # ms) [])"]) simp
    next
      case (Cons f fl')
      show ?thesis
      proof (cases f)
        case None
        obtain k where "writeLoop marsh ms fl' = take k (writeLoop marsh ms [])" using Cons.IH by blast
        then show ?thesis
          using Cons None by (intro exI [of _ "length (frame b) + k"]) (simp add: mb)
      next
        case (Some n)
        then show ?thesis
          using Cons by (intro exI [of _ "min n (length (frame b))"]) (simp add: mb min_def)
      qed
    qed
  qed
qed simp

text \<open>C13. Framing. When every message can be marshalled, read back and is within the length limit,
  the reader of an unbroken stream delivers exactly the messages sent, in order, except those
  whose encoding is empty, and ends with EOF. When writing fails at any byte of any frame, what
  is delivered is a prefix of them: no message is torn, reordered, duplicated or made up.\<close>

theorem framing_roundtrip:
  assumes "\<And>m. m \<in> set ms \<Longrightarrow> sendable marsh unmarsh maxLen m" "unat maxLen < 2 ^ 63"
  shows "readLoop unmarsh maxLen [] (writeLoop marsh ms []) = (visible marsh ms, Terminal ErrEOF) \<and>
    prefix (fst (readLoop unmarsh maxLen [] (writeLoop marsh ms fl))) (visible marsh ms)"
proof
  show "readLoop unmarsh maxLen [] (writeLoop marsh ms []) = (visible marsh ms, Terminal ErrEOF)"
    by (rule read_all [OF assms])
  obtain k where "writeLoop marsh ms fl = take k (writeLoop marsh ms [])" using writeLoop_cut by blast
  then show "prefix (fst (readLoop unmarsh maxLen [] (writeLoop marsh ms fl))) (visible marsh ms)"
    using read_prefix [OF assms] by simp
qed

definition ping :: pbMessage where
  "ping = \<lparr>m_Header = Some empty_Header, m_Body = [1, 2]\<rparr>"

theorem framing_roundtrip_witness:
  "readLoop (\<lambda>b. if b = [5] then Some ping else None) 1024 [] (writeLoop (\<lambda>m. Some [5]) [ping, ping] []) =
     ([ping, ping], Terminal ErrEOF)"
  using framing_roundtrip [of "[ping, ping]" "\<lambda>m. Some [5]" "\<lambda>b. if b = [5] then Some ping else None" 1024]
  by (simp add: sendable_def ping_def)

text \<open>The read loop rejects oversized frames. For every stream that starts with a frame header
  whose length is above \<^verbatim>\<open>MaxMessageLength\<close>, nothing is delivered and the loop ends with
  \<^verbatim>\<open>ErrExceedMessageLength\<close> without reading the body; the loop ends on every stream, since it is
  a total function.\<close>

lemma readLoop_rejects_oversized:
  assumes "maxLen < n"
  shows "readLoop unmarsh maxLen sched (put_le64 n @ body) = ([], Terminal (ErrExceedMessageLength n))"
proof -
  have "n \<noteq> 0" using assms by auto
  then show ?thesis using assms by (subst readLoop.simps) (simp add: Let_def)
qed

lemma readLoop_rejects_oversized_example:
  "readLoop (\<lambda>b. None) 1024 [] (put_le64 2000 @ [7]) = ([], Terminal (ErrExceedMessageLength 2000))"
  by (rule readLoop_rejects_oversized) (simp add: word_less_nat_alt)

end
