(* ===== verification/Connection_Run.thy ===== *)
theory Connection_Run
  imports Wire
begin

text \<open>
  The connection object of \<^verbatim>\<open>src/pkg/network/connection.go\<close>: the goroutine \<^verbatim>\<open>run\<close>, which owns the
  state of a connection and handles one command at a time, and the methods that read the caches
  it keeps. Channels and TCP connections are identifiers; the model records which channels are
  closed, and closing or sending on a closed channel is a panic, \<open>None\<close>. The outcome of a dial,
  of a select with a timeout and the clock are arguments.
\<close>

text \<open>A dialled or accepted TCP connection: its identifier, remote and local address.\<close>

type_synonym tcp = "nat \<times> string \<times> string"

datatype cmd =
    CmdInit bytes string string
  | CmdAccept tcp
  | CmdConnect string "tcp option"
  | CmdSendMessage bool
  | CmdDisconnect
  | CmdClone
  | GetIsConnect
  | GetAddress
  | GetChannels
  | GetType
  | GetRemoteAddr
  | GetTCPAddr bool
  | TimerFires

datatype conn_error = ErrDisconnected | SendTimeout | DialError | ConnectTimeout | CmdChanFull | NoRealConnAddr

record conn_state =
  \<comment> \<open>the local variables of \<^verbatim>\<open>run\<close>\<close>
  address :: bytes
  cType :: string
  tcpConn :: "tcp option"
  connect :: bool
  realConnAddr :: string
  requestChan :: "nat option"
  errorChan :: "nat option"
  sendChan :: "nat option"
  quitChan :: "nat option"
  shutdownTimer :: bool
  running :: bool
  \<comment> \<open>the fields of \<^verbatim>\<open>Connection\<close>\<close>
  exposedSendChan :: "nat option"
  cachedAddr :: bytes
  cachedType :: string
  cachedAddrStr :: string
  cachedConnected :: bool
  cachedTcpRemoteAddr :: "string option"
  cachedTcpLocalAddr :: "string option"
  metaLastUpdate :: int
  \<comment> \<open>the channels made so far, and the closed ones\<close>
  nextChan :: nat
  closedChans :: "nat list"
  \<comment> \<open>the commands that goroutines started by a timeout will queue\<close>
  asyncCmds :: "cmd list"

text \<open>The zero value of an address is 20 zero bytes.\<close>

definition newConnectionBase :: "int \<Rightarrow> conn_state" where
  "newConnectionBase now =
     \<lparr>address = replicate 20 0, cType = [], tcpConn = None, connect = False, realConnAddr = [],
      requestChan = None, errorChan = None, sendChan = None, quitChan = None, shutdownTimer = False,
      running = True, exposedSendChan = None, cachedAddr = replicate 20 0, cachedType = [],
      cachedAddrStr = [], cachedConnected = False, cachedTcpRemoteAddr = None,
      cachedTcpLocalAddr = None, metaLastUpdate = now, nextChan = 0, closedChans = [],
      asyncCmds = []\<rparr>"

datatype reply =
    NoReply
  | ConnectReply "conn_error option"
  | SendReply "conn_error option"
  | CloneReply bytes string string
  | IsConnectReply bool
  | AddressReply bytes
  | ChannelsReply "nat option" "nat option"
  | TypeReply string
  | RemoteAddrReply string
  | TCPAddrReply "string option"

definition close_chan :: "nat option \<Rightarrow> conn_state \<Rightarrow> conn_state option" where
  "close_chan ch s =
     (case ch of
        None \<Rightarrow> Some s
      | Some c \<Rightarrow> if c \<in> set (closedChans s) then None else Some (s\<lparr>closedChans := c # closedChans s\<rparr>))"

text \<open>A send in a select with a timeout: a panic on a closed channel, else accepted or not.\<close>

definition send_on :: "nat \<Rightarrow> bool \<Rightarrow> conn_state \<Rightarrow> bool option" where
  "send_on ch accepted s = (if ch \<in> set (closedChans s) then None else Some accepted)"

text \<open>\<^verbatim>\<open>cleanup\<close>: the quit channel, the TCP connection and the send channel are closed, the loops end,
  then the request and the error channel are closed.\<close>

definition cleanup :: "conn_state \<Rightarrow> conn_state option" where
  "cleanup s =
     (if \<not> connect s then Some s
      else Option.bind (close_chan (quitChan s) (s\<lparr>connect := False\<rparr>)) (\<lambda>s.
           Option.bind (close_chan (sendChan s) s) (\<lambda>s.
           Option.bind (close_chan (requestChan s) s) (\<lambda>s.
           close_chan (errorChan s) s))))"

definition startIO :: "conn_state \<Rightarrow> conn_state" where
  "startIO s =
     (let n = nextChan s in
      s\<lparr>requestChan := Some n, errorChan := Some (n + 1), sendChan := Some (n + 2),
        quitChan := Some (n + 3), exposedSendChan := Some (n + 2), nextChan := n + 4\<rparr>)"

definition set_connected :: "int \<Rightarrow> tcp \<Rightarrow> string \<Rightarrow> conn_state \<Rightarrow> conn_state" where
  "set_connected now t addr s =
     (case t of (_, raddr, laddr) \<Rightarrow>
        startIO (s\<lparr>tcpConn := Some t, realConnAddr := addr, connect := True, cachedAddrStr := addr,
          cachedConnected := True, cachedTcpRemoteAddr := Some raddr, cachedTcpLocalAddr := Some laddr,
          metaLastUpdate := now\<rparr>))"

text \<open>One turn of the loop of \<^verbatim>\<open>run\<close>. It is one step here; a caller that reads the send channel and sends on
  it after a later turn is modelled with \<open>load_sendChan\<close> and \<open>send_on\<close>. A command other than \<^verbatim>\<open>cmdDisconnect\<close>
  stops the shutdown timer; the timer can fire only while it is armed, and ends the goroutine.\<close>

definition stop_timer :: "cmd \<Rightarrow> conn_state \<Rightarrow> conn_state" where
  "stop_timer c s = (if c = CmdDisconnect \<or> c = TimerFires then s else s\<lparr>shutdownTimer := False\<rparr>)"

definition run_step :: "int \<Rightarrow> cmd \<Rightarrow> conn_state \<Rightarrow> (reply \<times> conn_state) option" where
  "run_step now c s0 =
     (let s = stop_timer c s0 in
      case c of
        CmdInit a t r \<Rightarrow>
          Some (NoReply, s\<lparr>address := a, cType := t, realConnAddr := r, cachedAddr := a, cachedType := t,
                  cachedAddrStr := r, metaLastUpdate := now\<rparr>)
      | CmdAccept t \<Rightarrow>
          if connect s then Some (NoReply, s)
          else Some (NoReply, set_connected now t (fst (snd t)) s)
      | CmdConnect addr dialled \<Rightarrow>
          if connect s then Some (ConnectReply None, s)
          else (case dialled of
                  None \<Rightarrow> Some (ConnectReply (Some DialError), s)
                | Some t \<Rightarrow> Some (ConnectReply None, set_connected now t addr s))
      | CmdSendMessage accepted \<Rightarrow>
          if \<not> connect s then Some (SendReply (Some ErrDisconnected), s)
          else (case Option.bind (sendChan s) (\<lambda>ch. send_on ch accepted s) of
                  None \<Rightarrow> None
                | Some True \<Rightarrow> Some (SendReply None, s)
                | Some False \<Rightarrow>
                    Some (SendReply (Some SendTimeout), s\<lparr>asyncCmds := CmdDisconnect # asyncCmds s\<rparr>))
      | CmdDisconnect \<Rightarrow>
          Option.bind (cleanup (s\<lparr>cachedConnected := False, metaLastUpdate := now, exposedSendChan := None\<rparr>))
            (\<lambda>s. Some (NoReply, s\<lparr>shutdownTimer := True\<rparr>))
      | CmdClone \<Rightarrow> Some (CloneReply (address s) (cType s) (realConnAddr s), s)
      | GetIsConnect \<Rightarrow> Some (IsConnectReply (connect s), s)
      | GetAddress \<Rightarrow> Some (AddressReply (address s), s)
      | GetChannels \<Rightarrow> Some (ChannelsReply (requestChan s) (errorChan s), s)
      | GetType \<Rightarrow> Some (TypeReply (cType s), s)
      | GetRemoteAddr \<Rightarrow> Some (RemoteAddrReply (realConnAddr s), s)
      | GetTCPAddr isLocal \<Rightarrow>
          Some (TCPAddrReply (map_option (\<lambda>(_, raddr, laddr). if isLocal then laddr else raddr) (tcpConn s)), s)
      | TimerFires \<Rightarrow>
          if shutdownTimer s then Some (NoReply, s\<lparr>running := False, shutdownTimer := False\<rparr>)
          else Some (NoReply, s))"

subsection \<open>The methods\<close>

text \<open>What a method gets back from \<^verbatim>\<open>run\<close>: the command channel is full, no answer in time, or an answer.\<close>

datatype 'a ask = ChanFull | AskTimeout | Answer 'a

definition IsConnect :: "conn_state \<Rightarrow> bool" where
  "IsConnect s = cachedConnected s"

text \<open>The refresh that \<^verbatim>\<open>IsConnect\<close> starts when the cache is older than 500 ms, once it has its answer.\<close>

definition IsConnect_refresh :: "int \<Rightarrow> bool ask \<Rightarrow> conn_state \<Rightarrow> conn_state" where
  "IsConnect_refresh now a s =
     (case a of
        Answer b \<Rightarrow>
          if now - metaLastUpdate s > 500 * 1000000
          then s\<lparr>cachedConnected := b, metaLastUpdate := now\<rparr> else s
      | _ \<Rightarrow> s)"

definition Address :: "int \<Rightarrow> int \<Rightarrow> bytes ask \<Rightarrow> conn_state \<Rightarrow> bytes \<times> conn_state" where
  "Address now later a s =
     (if now - metaLastUpdate s < 100 * 1000000 then (cachedAddr s, s)
      else case a of
        Answer newAddr \<Rightarrow>
          (newAddr, if later - metaLastUpdate s \<ge> 100 * 1000000
                    then s\<lparr>cachedAddr := newAddr, metaLastUpdate := later\<rparr> else s)
      | _ \<Rightarrow> (cachedAddr s, s))"

definition RemoteAddrSafe :: "string ask \<Rightarrow> conn_state \<Rightarrow> string \<times> conn_state" where
  "RemoteAddrSafe a s =
     (if cachedAddrStr s \<noteq> [] then (cachedAddrStr s, s)
      else case a of
        Answer addr \<Rightarrow> (addr, s\<lparr>cachedAddrStr := addr\<rparr>)
      | _ \<Rightarrow> ([], s))"

definition Connection_Type :: "string ask \<Rightarrow> conn_state \<Rightarrow> string \<times> conn_state" where
  "Connection_Type a s =
     (if cachedType s \<noteq> [] then (cachedType s, s)
      else case a of
        Answer t \<Rightarrow> (t, s\<lparr>cachedType := t\<rparr>)
      | _ \<Rightarrow> ([], s))"

definition TcpLocalAddr :: "string option ask \<Rightarrow> conn_state \<Rightarrow> string option \<times> conn_state" where
  "TcpLocalAddr a s =
     (if cachedTcpLocalAddr s \<noteq> None then (cachedTcpLocalAddr s, s)
      else case a of
        Answer t \<Rightarrow> (t, s\<lparr>cachedTcpLocalAddr := t\<rparr>)
      | _ \<Rightarrow> (None, s))"

definition TcpRemoteAddr :: "string option ask \<Rightarrow> conn_state \<Rightarrow> string option \<times> conn_state" where
  "TcpRemoteAddr a s =
     (if cachedTcpRemoteAddr s \<noteq> None then (cachedTcpRemoteAddr s, s)
      else case a of
        Answer t \<Rightarrow> (t, s\<lparr>cachedTcpRemoteAddr := t\<rparr>)
      | _ \<Rightarrow> (None, s))"

text \<open>\<^verbatim>\<open>Init\<close> and \<^verbatim>\<open>SetRealConnAddr\<close> update the cache and queue a command, unless the queue is full.\<close>

definition Init :: "int \<Rightarrow> bytes \<Rightarrow> string \<Rightarrow> conn_state \<Rightarrow> conn_state \<times> cmd" where
  "Init now a t s = (s\<lparr>cachedAddr := a, cachedType := t, metaLastUpdate := now\<rparr>, CmdInit a t [])"

definition SetRealConnAddr ::
  "int \<Rightarrow> int \<Rightarrow> bytes ask \<Rightarrow> string ask \<Rightarrow> string \<Rightarrow> conn_state \<Rightarrow> conn_state \<times> cmd" where
  "SetRealConnAddr now later aa at r s =
     (let (a, s) = Address now later aa s; (t, s) = Connection_Type at s in
      (s\<lparr>cachedAddrStr := r, metaLastUpdate := later\<rparr>, CmdInit a t r))"

definition NewConnection :: "int \<Rightarrow> bytes \<Rightarrow> string \<Rightarrow> conn_state \<times> cmd" where
  "NewConnection now a t = Init now a t (newConnectionBase now)"

definition ConnectionFromTcpConnection :: "int \<Rightarrow> tcp option \<Rightarrow> (conn_state \<times> cmd) option" where
  "ConnectionFromTcpConnection now t = map_option (\<lambda>t. (newConnectionBase now, CmdAccept t)) t"

text \<open>\<^verbatim>\<open>Connect\<close> asks \<^verbatim>\<open>run\<close> to dial the address it has; the answer is the error of \<^verbatim>\<open>cmdConnect\<close>.\<close>

definition Connect :: "string ask \<Rightarrow> conn_error option ask \<Rightarrow> conn_state \<Rightarrow> conn_error option \<times> conn_state" where
  "Connect ar ac s =
     (let (addr, s) = RemoteAddrSafe ar s in
      if addr = [] then (Some NoRealConnAddr, s)
      else case ac of
        Answer err \<Rightarrow> (err, s)
      | AskTimeout \<Rightarrow> (Some ConnectTimeout, s)
      | ChanFull \<Rightarrow> (Some CmdChanFull, s))"

definition ConnectionAddress :: "string ask \<Rightarrow> conn_state \<Rightarrow> string option \<times> conn_state" where
  "ConnectionAddress ar s =
     (let (addr, s) = RemoteAddrSafe ar s in (if addr = [] then None else Some addr, s))"

text \<open>\<^verbatim>\<open>SendMessage\<close> reads the exposed channel and then sends on it; the two are separate steps. The first
  gives the channel, the second panics when that channel has been closed meanwhile.\<close>

definition load_sendChan :: "conn_state \<Rightarrow> nat option" where
  "load_sendChan s = exposedSendChan s"

text \<open>The attempts of \<^verbatim>\<open>SendMessage\<close>: per attempt, no channel yet (\<open>None\<close>, also when the list is
  exhausted), or a send that is accepted or times out. The third failed attempt marks the
  connection as disconnected; after a timeout a goroutine also asks for a disconnect.\<close>

fun send_attempts :: "int \<Rightarrow> nat \<Rightarrow> bool option list \<Rightarrow> conn_state \<Rightarrow> conn_error option \<times> conn_state" where
  "send_attempts now 0 obs s = (Some ErrDisconnected, s)"
| "send_attempts now (Suc left) obs s =
     (case obs of
        Some True # _ \<Rightarrow> (None, s)
      | Some False # r \<Rightarrow>
          if left > 0 then send_attempts now left r s
          else (Some SendTimeout, s\<lparr>cachedConnected := False, metaLastUpdate := now,
                                   asyncCmds := CmdDisconnect # asyncCmds s\<rparr>)
      | _ \<Rightarrow>
          if left > 0 then send_attempts now left (drop 1 obs) s
          else (Some ErrDisconnected, s\<lparr>cachedConnected := False, metaLastUpdate := now\<rparr>))"

definition Connection_SendMessage ::
  "int \<Rightarrow> bool option list \<Rightarrow> conn_state \<Rightarrow> conn_error option \<times> conn_state" where
  "Connection_SendMessage now obs s =
     (if \<not> IsConnect s then (Some ErrDisconnected, s) else send_attempts now 3 obs s)"

subsection \<open>Safety of the command loop\<close>

definition chans :: "conn_state \<Rightarrow> nat option list" where
  "chans s = [requestChan s, errorChan s, sendChan s, quitChan s]"

definition run_inv :: "conn_state \<Rightarrow> bool" where
  "run_inv s \<longleftrightarrow>
     (\<forall>c \<in> set (closedChans s). c < nextChan s) \<and>
     (connect s \<longrightarrow> tcpConn s \<noteq> None \<and> distinct (chans s) \<and>
        (\<forall>ch \<in> set (chans s). \<exists>c. ch = Some c \<and> c < nextChan s \<and> c \<notin> set (closedChans s))) \<and>
     exposedSendChan s = (if connect s then sendChan s else None)"

inductive run_reachable :: "conn_state \<Rightarrow> bool" where
  run_init: "run_reachable (newConnectionBase now)"
| run_cmd: "run_reachable s \<Longrightarrow> running s \<Longrightarrow> run_step now c s = Some (r, s') \<Longrightarrow> run_reachable s'"

lemma run_inv_startIO:
  "run_inv s \<Longrightarrow> \<not> connect s \<Longrightarrow> run_inv (set_connected now t addr s)"
  by (auto simp: run_inv_def set_connected_def startIO_def chans_def Let_def split: prod.splits)

lemma cleanup_inv:
  assumes "run_inv s"
  shows "\<exists>s'. cleanup (s\<lparr>exposedSendChan := None\<rparr>) = Some s' \<and> run_inv s' \<and> \<not> connect s' \<and>
    (connect s \<longrightarrow> (\<forall>ch. sendChan s = Some ch \<longrightarrow> ch \<in> set (closedChans s')))"
proof (cases "connect s")
  case False
  with assms show ?thesis by (auto simp: cleanup_def run_inv_def)
next
  case True
  with assms obtain a b c d where "requestChan s = Some a" "errorChan s = Some b" "sendChan s = Some c"
    "quitChan s = Some d" "{a, b, c, d} \<inter> set (closedChans s) = {}" "distinct [a, b, c, d]"
    "a < nextChan s" "b < nextChan s" "c < nextChan s" "d < nextChan s"
    by (auto simp: run_inv_def chans_def)
  with True assms show ?thesis by (auto simp: cleanup_def close_chan_def run_inv_def)
qed

lemma run_inv_irrelevant [simp]:
  "run_inv (s\<lparr>cachedConnected := b\<rparr>) = run_inv s" "run_inv (s\<lparr>metaLastUpdate := m\<rparr>) = run_inv s"
  "run_inv (s\<lparr>shutdownTimer := b\<rparr>) = run_inv s" "run_inv (s\<lparr>running := b\<rparr>) = run_inv s"
  "run_inv (s\<lparr>address := a, cType := t, realConnAddr := r, cachedAddr := a, cachedType := t,
     cachedAddrStr := r\<rparr>) = run_inv s"
  "run_inv (s\<lparr>asyncCmds := cs\<rparr>) = run_inv s"
  by (simp_all add: run_inv_def chans_def)

lemma stop_timer_simps [simp]:
  "run_inv (stop_timer c s) = run_inv s" "connect (stop_timer c s) = connect s"
  "sendChan (stop_timer c s) = sendChan s" "stop_timer CmdDisconnect s = s"
  by (simp_all add: stop_timer_def)

lemma run_step_inv:
  assumes "run_inv s"
  shows "\<exists>r s'. run_step now c s = Some (r, s') \<and> run_inv s'"
proof (cases c)
  case CmdDisconnect
  obtain s' where "cleanup ((s\<lparr>cachedConnected := False, metaLastUpdate := now\<rparr>)\<lparr>exposedSendChan := None\<rparr>) = Some s'"
    "run_inv s'"
    using cleanup_inv [of "s\<lparr>cachedConnected := False, metaLastUpdate := now\<rparr>"] assms by auto
  with CmdDisconnect show ?thesis by (simp add: run_step_def)
next
  case (CmdSendMessage accepted)
  have "send_on ch accepted (stop_timer c s) = Some accepted" if "connect s" "sendChan s = Some ch" for ch
    using assms that by (auto simp: send_on_def run_inv_def chans_def stop_timer_def)
  moreover have "sendChan s \<noteq> None" if "connect s"
    using assms that by (auto simp: run_inv_def chans_def)
  ultimately show ?thesis
    using CmdSendMessage assms by (cases accepted) (auto simp: run_step_def Let_def)
qed (use assms run_inv_startIO [of "stop_timer c s"] in \<open>auto simp: run_step_def Let_def split: option.splits\<close>)

lemma run_reachable_inv: "run_reachable s \<Longrightarrow> run_inv s"
proof (induction rule: run_reachable.induct)
  case (run_init now)
  show ?case by (simp add: run_inv_def newConnectionBase_def)
next
  case (run_cmd s now c r s')
  with run_step_inv [of s now c] show ?case by auto
qed

text \<open>C26. The goroutine \<^verbatim>\<open>run\<close> never closes a channel twice. In every state that a sequence of commands
  can reach, every command is handled without a panic, and the channel that \<^verbatim>\<open>SendMessage\<close> finds is
  the open send channel of a live connection or none.\<close>

theorem Connection_run_safe:
  assumes "run_reachable s"
  shows "(\<exists>r s'. run_step now c s = Some (r, s')) \<and>
    (\<forall>ch. load_sendChan s = Some ch \<longrightarrow> connect s \<and> send_on ch b s = Some b)"
proof
  have inv: "run_inv s" using assms by (rule run_reachable_inv)
  then show "\<exists>r s'. run_step now c s = Some (r, s')" using run_step_inv by blast
  from inv show "\<forall>ch. load_sendChan s = Some ch \<longrightarrow> connect s \<and> send_on ch b s = Some b"
    by (auto simp: run_inv_def load_sendChan_def send_on_def chans_def split: if_splits)
qed

definition live_conn :: conn_state where
  "live_conn = set_connected 5 (0, ''r'', ''l'') ''r'' (newConnectionBase 0)"

lemma live_conn_reachable: "run_reachable live_conn"
proof -
  have "run_step 5 (CmdAccept (0, ''r'', ''l'')) (newConnectionBase 0) = Some (NoReply, live_conn)"
    by (simp add: run_step_def stop_timer_def newConnectionBase_def live_conn_def)
  moreover have "running (newConnectionBase 0)" by (simp add: newConnectionBase_def)
  ultimately show ?thesis using run_cmd [OF run_init] by blast
qed

lemma live_conn_simps: "connect live_conn" "load_sendChan live_conn = Some 2"
  by (simp_all add: live_conn_def set_connected_def startIO_def newConnectionBase_def load_sendChan_def Let_def)

theorem Connection_run_safe_witness:
  "send_on 2 True live_conn = Some True"
  using Connection_run_safe [OF live_conn_reachable, of 0 CmdDisconnect True] live_conn_simps by simp

text \<open>\<^verbatim>\<open>SendMessage\<close> can panic. It reads the exposed channel and sends on it later; when the connection
  is disconnected in between, the channel is closed by then and the send panics. Clearing the
  exposed channel before the cleanup does not help a caller that has already read it.\<close>

theorem SendMessage_race_panics:
  assumes "run_reachable s" "load_sendChan s = Some ch"
  shows "\<exists>r s'. run_step now CmdDisconnect s = Some (r, s') \<and> send_on ch b s' = None"
proof -
  have inv: "run_inv s" using assms(1) by (rule run_reachable_inv)
  with assms(2) have c: "connect s" "sendChan s = Some ch"
    by (auto simp: run_inv_def load_sendChan_def split: if_splits)
  let ?s = "s\<lparr>cachedConnected := False, metaLastUpdate := now\<rparr>"
  obtain s' where "cleanup (?s\<lparr>exposedSendChan := None\<rparr>) = Some s'" "ch \<in> set (closedChans s')"
    using cleanup_inv [of ?s] inv c by auto
  then show ?thesis by (simp add: run_step_def send_on_def)
qed

lemma SendMessage_race_panics_example:
  "\<exists>r s'. run_step 9 CmdDisconnect live_conn = Some (r, s') \<and> send_on 2 True s' = None"
  by (rule SendMessage_race_panics [OF live_conn_reachable live_conn_simps(2)])

subsection \<open>The caches and the state\<close>

text \<open>A connection forgets its peer address when it is initialised. \<^verbatim>\<open>Init\<close> queues a \<^verbatim>\<open>cmdInit\<close> whose
  real address is empty, and the handler of that command stores it. \<^verbatim>\<open>handleInitConnection\<close> calls \<^verbatim>\<open>Init\<close> on a connected
  peer, so from then on, while the connection is still up, \<^verbatim>\<open>RemoteAddrSafe\<close> gives
  the empty string, whether \<^verbatim>\<open>run\<close> answers or not, and \<^verbatim>\<open>ConnectionAddress\<close> fails.\<close>

theorem Init_forgets_address:
  assumes "Init now a t s = (s1, c)" "run_step now' c s1 = Some (r, s2)"
    and "run_step now'' GetRemoteAddr s2 = Some (RemoteAddrReply x, s3)"
  shows "connect s2 = connect s \<and> fst (RemoteAddrSafe (Answer x) s3) = [] \<and>
    fst (RemoteAddrSafe AskTimeout s3) = [] \<and> fst (ConnectionAddress (Answer x) s3) = None"
  using assms
  by (auto simp: Init_def run_step_def stop_timer_def RemoteAddrSafe_def ConnectionAddress_def Let_def)

lemma Init_forgets_address_example:
  "fst (RemoteAddrSafe AskTimeout live_conn) = ''r'' \<and>
   (case run_step 8 (CmdInit [] ''c'' []) (fst (Init 7 [] ''c'' live_conn)) of
      Some (_, s2) \<Rightarrow> connect s2 = connect live_conn \<and> fst (ConnectionAddress (Answer []) s2) = None
    | None \<Rightarrow> False)"
proof -
  let ?s1 = "fst (Init 7 [] ''c'' live_conn)"
  obtain s2 where 1: "run_step 8 (CmdInit [] ''c'' []) ?s1 = Some (NoReply, s2)"
    and 2: "run_step 9 GetRemoteAddr s2 = Some (RemoteAddrReply [], s2)"
    by (simp add: run_step_def stop_timer_def Init_def live_conn_def set_connected_def startIO_def
          newConnectionBase_def Let_def)
  have "Init 7 [] ''c'' live_conn = (?s1, CmdInit [] ''c'' [])" by (simp add: Init_def)
  from Init_forgets_address [OF this 1 2] 1 show ?thesis
    by (simp add: RemoteAddrSafe_def live_conn_def set_connected_def startIO_def newConnectionBase_def Let_def)
qed

end
