(* ===== verification/Account_State.thy ===== *)
theory Account_State
  imports Wire
begin

text \<open>
  Accounts: \<^verbatim>\<open>src/pkg/state/account_state.go\<close> and \<^verbatim>\<open>src/pkg/state/smart_contract_state.go\<close>. A \<^verbatim>\<open>*big.Int\<close> is an
  unbounded integer whose bytes do not carry the sign; addresses, hashes and keys are byte
  strings of 20, 32 and 48 bytes; a nil map or slice is identified with an empty one. The
  functions of go-ethereum and protobuf are parameters.
\<close>

subsection \<open>Functions of go-ethereum\<close>

record eth_lib =
  BytesToAddress :: "bytes \<Rightarrow> bytes"
  BytesToHash32 :: "bytes \<Rightarrow> bytes"
  FromHex :: "string \<Rightarrow> bytes"
  Address_Hex :: "bytes \<Rightarrow> string"
  Hash_Hex :: "bytes \<Rightarrow> string"
  HexToAddress :: "string \<Rightarrow> bytes"
  HexToHash :: "string \<Rightarrow> bytes"
  Keccak256Hash :: "bytes \<Rightarrow> bytes"

text \<open>Documented behaviour: the conversions keep byte strings of the right length, and parsing
  inverts printing.\<close>

definition eth_laws :: "eth_lib \<Rightarrow> bool" where
  "eth_laws E \<longleftrightarrow>
     (\<forall>b. length b = 20 \<longrightarrow> BytesToAddress E b = b \<and> HexToAddress E (Address_Hex E b) = b) \<and>
     (\<forall>b. length b = 32 \<longrightarrow> BytesToHash32 E b = b \<and> HexToHash E (Hash_Hex E b) = b) \<and>
     (\<forall>b. FromHex E (hex_encode b) = b)"

subsection \<open>Decimal numbers of \<^verbatim>\<open>math/big\<close>\<close>

definition dec_digit :: "nat \<Rightarrow> char" where
  "dec_digit d = ''0123456789'' ! d"

fun dec_nat :: "nat \<Rightarrow> string" where
  "dec_nat n = (if n < 10 then [dec_digit n] else dec_nat (n div 10) @ [dec_digit (n mod 10)])"

declare dec_nat.simps [simp del]

definition big_String :: "int \<Rightarrow> string" where
  "big_String i = (if i < 0 then CHR ''-'' # dec_nat (nat (- i)) else dec_nat (nat i))"

definition digit_value :: "char \<Rightarrow> nat option" where
  "digit_value c = List.find (\<lambda>d. dec_digit d = c) [0..<10]"

fun dec_digits :: "nat \<Rightarrow> string \<Rightarrow> nat option" where
  "dec_digits acc [] = Some acc"
| "dec_digits acc (c # cs) = Option.bind (digit_value c) (\<lambda>d. dec_digits (10 * acc + d) cs)"

definition dec_parse :: "string \<Rightarrow> nat option" where
  "dec_parse s = (if s = [] then None else dec_digits 0 s)"

definition big_SetString :: "string \<Rightarrow> int option" where
  "big_SetString s =
     (if s \<noteq> [] \<and> hd s = CHR ''-'' then map_option (\<lambda>n. - int n) (dec_parse (tl s))
      else if s \<noteq> [] \<and> hd s = CHR ''+'' then map_option int (dec_parse (tl s))
      else map_option int (dec_parse s))"

lemma digit_value_digit: "d < 10 \<Longrightarrow> digit_value (dec_digit d) = Some d"
proof -
  assume "d < 10"
  then have "d \<in> set [0, 1, 2, 3, 4, 5, 6, 7, 8, 9]" by auto
  moreover have "list_all (\<lambda>d. digit_value (dec_digit d) = Some d) [0, 1, 2, 3, 4, 5, 6, 7, 8, 9]" by code_simp
  ultimately show ?thesis by (auto simp: list_all_iff)
qed

lemma digit_not_sign: "d < 10 \<Longrightarrow> dec_digit d \<noteq> CHR ''-'' \<and> dec_digit d \<noteq> CHR ''+''"
proof -
  assume "d < 10"
  then have "d \<in> set [0, 1, 2, 3, 4, 5, 6, 7, 8, 9]" by auto
  moreover have "list_all (\<lambda>d. dec_digit d \<noteq> CHR ''-'' \<and> dec_digit d \<noteq> CHR ''+'') [0, 1, 2, 3, 4, 5, 6, 7, 8, 9]"
    by code_simp
  ultimately show ?thesis by (auto simp: list_all_iff)
qed

lemma dec_digits_append:
  "dec_digits acc (s @ [c]) =
     Option.bind (dec_digits acc s) (\<lambda>n. Option.bind (digit_value c) (\<lambda>d. Some (10 * n + d)))"
  by (induction s arbitrary: acc) (simp_all add: Option.bind_assoc)

lemma dec_digits_nat: "dec_digits 0 (dec_nat n) = Some n"
proof (induction n rule: dec_nat.induct)
  case (1 n)
  then show ?case
    by (subst dec_nat.simps) (auto simp: dec_digits_append digit_value_digit)
qed

lemma dec_nat_hd: "\<exists>d r. dec_nat n = dec_digit d # r \<and> d < 10"
proof (induction n rule: dec_nat.induct)
  case (1 n)
  show ?case
  proof (cases "n < 10")
    case True
    then show ?thesis by (subst dec_nat.simps) auto
  next
    case False
    with 1 show ?thesis by (subst dec_nat.simps) auto
  qed
qed

lemma big_SetString_String [codec_simps]: "big_SetString (big_String i) = Some i"
proof -
  obtain d r where "dec_nat (nat \<bar>i\<bar>) = dec_digit d # r" "d < 10" using dec_nat_hd by blast
  moreover from this have "dec_parse (dec_nat (nat \<bar>i\<bar>)) = Some (nat \<bar>i\<bar>)"
    by (metis dec_digits_nat dec_parse_def list.distinct(1))
  ultimately show ?thesis
    using digit_not_sign [of d] by (cases "i < 0") (auto simp: big_String_def big_SetString_def)
qed

subsection \<open>Smart contract states\<close>

record SmartContractState =
  createPublicKey :: bytes
  storageAddress :: bytes
  codeHash :: bytes
  storageRoot :: bytes
  mapFullDbHash :: bytes
  simpleDbHash :: bytes
  logsHash :: bytes
  trieDatabaseMap :: "string \<rightharpoonup> bytes"

record pb_SmartContractState =
  pb_CreatorPublicKey :: bytes
  pb_StorageAddress :: bytes
  pb_CodeHash :: bytes
  pb_StorageRoot :: bytes
  pb_LogsHash :: bytes
  pb_MapFullDbHash :: bytes
  pb_SimpleDbHash :: bytes
  pb_TrieDatabaseMap :: "string \<rightharpoonup> bytes"

definition zero_hash32 :: bytes where
  "zero_hash32 = replicate 32 0"

definition NewEmptySmartContractState :: SmartContractState where
  "NewEmptySmartContractState =
     \<lparr>createPublicKey = replicate 48 0, storageAddress = replicate 20 0, codeHash = zero_hash32,
      storageRoot = zero_hash32, mapFullDbHash = zero_hash32, simpleDbHash = zero_hash32,
      logsHash = zero_hash32, trieDatabaseMap = Map.empty\<rparr>"

definition NewSmartContractState :: "bytes \<Rightarrow> bytes \<Rightarrow> bytes \<Rightarrow> bytes \<Rightarrow> bytes \<Rightarrow> SmartContractState" where
  "NewSmartContractState pk sa ch sr lh =
     NewEmptySmartContractState\<lparr>createPublicKey := pk, storageAddress := sa, codeHash := ch,
       storageRoot := sr, logsHash := lh\<rparr>"

definition GetTrieDatabaseMapValue :: "SmartContractState \<Rightarrow> string \<Rightarrow> bytes" where
  "GetTrieDatabaseMapValue ss key = (case trieDatabaseMap ss key of None \<Rightarrow> [] | Some v \<Rightarrow> v)"

definition SetTrieDatabaseMapValue :: "string \<Rightarrow> bytes \<Rightarrow> SmartContractState \<Rightarrow> SmartContractState" where
  "SetTrieDatabaseMapValue key v ss = ss\<lparr>trieDatabaseMap := (trieDatabaseMap ss)(key \<mapsto> v)\<rparr>"

definition DeleteTrieDatabaseMapValue :: "string \<Rightarrow> SmartContractState \<Rightarrow> SmartContractState" where
  "DeleteTrieDatabaseMapValue key ss = ss\<lparr>trieDatabaseMap := (trieDatabaseMap ss)(key := None)\<rparr>"

definition ss_Proto :: "SmartContractState \<Rightarrow> pb_SmartContractState" where
  "ss_Proto ss =
     \<lparr>pb_CreatorPublicKey = createPublicKey ss, pb_StorageAddress = storageAddress ss,
      pb_CodeHash = codeHash ss, pb_StorageRoot = storageRoot ss, pb_LogsHash = logsHash ss,
      pb_MapFullDbHash = mapFullDbHash ss, pb_SimpleDbHash = simpleDbHash ss,
      pb_TrieDatabaseMap = trieDatabaseMap ss\<rparr>"

definition ss_FromProto :: "eth_lib \<Rightarrow> pb_SmartContractState \<Rightarrow> SmartContractState" where
  "ss_FromProto E p =
     \<lparr>createPublicKey = PubkeyFromBytes (pb_CreatorPublicKey p),
      storageAddress = BytesToAddress E (pb_StorageAddress p), codeHash = BytesToHash32 E (pb_CodeHash p),
      storageRoot = BytesToHash32 E (pb_StorageRoot p), mapFullDbHash = BytesToHash32 E (pb_MapFullDbHash p),
      simpleDbHash = BytesToHash32 E (pb_SimpleDbHash p), logsHash = BytesToHash32 E (pb_LogsHash p),
      trieDatabaseMap = pb_TrieDatabaseMap p\<rparr>"

definition CreatorAddress :: "eth_lib \<Rightarrow> SmartContractState \<Rightarrow> bytes" where
  "CreatorAddress E ss = AddressFromPubkey (Keccak256Hash E) (BytesToAddress E) (createPublicKey ss)"

definition ss_Copy :: "SmartContractState \<Rightarrow> SmartContractState" where
  "ss_Copy ss =
     \<lparr>createPublicKey = createPublicKey ss, storageAddress = storageAddress ss, codeHash = codeHash ss,
      storageRoot = storageRoot ss, mapFullDbHash = mapFullDbHash ss, simpleDbHash = simpleDbHash ss,
      logsHash = logsHash ss, trieDatabaseMap = (\<lambda>k. trieDatabaseMap ss k)\<rparr>"

record JsonSmartContractState =
  j_CreatorPublicKey :: string
  j_StorageAddress :: string
  j_CodeHash :: string
  j_StorageRoot :: string
  j_LogsHash :: string
  j_MapFullDbHash :: string
  j_TrieDatabaseMap :: "string \<rightharpoonup> bytes"

definition FromSmartContractState :: "eth_lib \<Rightarrow> SmartContractState \<Rightarrow> JsonSmartContractState" where
  "FromSmartContractState E ss =
     \<lparr>j_CreatorPublicKey = hex_encode (createPublicKey ss),
      j_StorageAddress = Address_Hex E (storageAddress ss), j_CodeHash = Hash_Hex E (codeHash ss),
      j_StorageRoot = Hash_Hex E (storageRoot ss), j_LogsHash = Hash_Hex E (logsHash ss),
      j_MapFullDbHash = Hash_Hex E (mapFullDbHash ss), j_TrieDatabaseMap = trieDatabaseMap ss\<rparr>"

definition ToSmartContractState :: "eth_lib \<Rightarrow> JsonSmartContractState \<Rightarrow> SmartContractState" where
  "ToSmartContractState E j =
     (NewSmartContractState (PubkeyFromBytes (FromHex E (j_CreatorPublicKey j)))
        (HexToAddress E (j_StorageAddress j)) (HexToHash E (j_CodeHash j)) (HexToHash E (j_StorageRoot j))
        (HexToHash E (j_LogsHash j)))
     \<lparr>trieDatabaseMap := j_TrieDatabaseMap j, mapFullDbHash := HexToHash E (j_MapFullDbHash j)\<rparr>"

subsection \<open>Account states\<close>

datatype state_error =
    ErrorInvalidSubPendingAmount
  | ErrorInvalidSubBalanceAmount
  | InvalidPublicKeyBlsLength
  | PublicKeyBlsAlreadySet
  | InvalidAccountType

record AccountState =
  as_address :: bytes
  lastHash :: bytes
  balance :: int
  pendingBalance :: int
  deviceKey :: bytes
  smartContractState :: "SmartContractState option"
  nonce :: u64
  publicKeyBls :: bytes
  accountType :: int
  isDirty :: bool

record pb_AccountState =
  pb_Address :: bytes
  pb_LastHash :: bytes
  pb_Balance :: bytes
  pb_PendingBalance :: bytes
  pb_DeviceKey :: bytes
  pb_Nonce :: bytes
  pb_PublicKeyBls :: bytes
  pb_AccountType :: int
  pb_SmartContractState_field :: "pb_SmartContractState option"

definition NewAccountState :: "bytes \<Rightarrow> AccountState" where
  "NewAccountState a =
     \<lparr>as_address = a, lastHash = zero_hash32, balance = 0, pendingBalance = 0, deviceKey = zero_hash32,
      smartContractState = None, nonce = 0, publicKeyBls = [], accountType = 0, isDirty = False\<rparr>"

definition as_Proto :: "AccountState \<Rightarrow> pb_AccountState" where
  "as_Proto s =
     \<lparr>pb_Address = as_address s, pb_LastHash = lastHash s, pb_Balance = big_bytes (balance s),
      pb_PendingBalance = big_bytes (pendingBalance s), pb_DeviceKey = deviceKey s,
      pb_Nonce = put_be64 (nonce s), pb_PublicKeyBls = publicKeyBls s, pb_AccountType = accountType s,
      pb_SmartContractState_field = map_option ss_Proto (smartContractState s)\<rparr>"

text \<open>\<^verbatim>\<open>FromProto\<close> writes into an existing account and keeps its contract state when the message has none.\<close>

definition as_FromProto :: "eth_lib \<Rightarrow> pb_AccountState \<Rightarrow> AccountState \<Rightarrow> AccountState" where
  "as_FromProto E p s =
     s\<lparr>as_address := BytesToAddress E (pb_Address p), lastHash := BytesToHash32 E (pb_LastHash p),
       balance := big_set_bytes (pb_Balance p), pendingBalance := big_set_bytes (pb_PendingBalance p),
       deviceKey := BytesToHash32 E (pb_DeviceKey p),
       smartContractState :=
         (case pb_SmartContractState_field p of
            None \<Rightarrow> smartContractState s
          | Some q \<Rightarrow> Some (ss_FromProto E q)),
       nonce := (if length (pb_Nonce p) = 8 then get_be64 (pb_Nonce p) else 0),
       publicKeyBls := pb_PublicKeyBls p, accountType := pb_AccountType p\<rparr>"

text \<open>The zero value of the struct, \<^verbatim>\<open>&AccountState{}\<close> (its nil balances are written before they are read).\<close>

definition zero_AccountState :: AccountState where
  "zero_AccountState = NewAccountState (replicate 20 0)"

definition as_Marshal :: "(pb_AccountState \<Rightarrow> bytes option) \<Rightarrow> AccountState \<Rightarrow> bytes option" where
  "as_Marshal mar s = mar (as_Proto s)"

definition as_Unmarshal ::
  "eth_lib \<Rightarrow> (bytes \<Rightarrow> pb_AccountState option) \<Rightarrow> bytes \<Rightarrow> AccountState \<Rightarrow> AccountState option" where
  "as_Unmarshal E unm b s = map_option (\<lambda>p. as_FromProto E p s) (unm b)"

text \<open>\<^verbatim>\<open>Copy\<close>: the last \<^verbatim>\<open>copy\<close> copies into the nil slice of the new account.\<close>

definition as_Copy :: "AccountState \<Rightarrow> AccountState" where
  "as_Copy s =
     zero_AccountState\<lparr>as_address := go_copy (replicate 20 0) (as_address s),
       lastHash := go_copy zero_hash32 (lastHash s), balance := balance s,
       pendingBalance := pendingBalance s, deviceKey := go_copy zero_hash32 (deviceKey s),
       smartContractState := map_option ss_Copy (smartContractState s), nonce := nonce s,
       publicKeyBls := go_copy [] (publicKeyBls s), accountType := accountType s\<rparr>"

definition TotalBalance :: "AccountState \<Rightarrow> int" where
  "TotalBalance s = balance s + pendingBalance s"

definition AddPendingBalance :: "int \<Rightarrow> AccountState \<Rightarrow> AccountState" where
  "AddPendingBalance amount s = s\<lparr>pendingBalance := pendingBalance s + amount\<rparr>"

definition SubPendingBalance :: "int \<Rightarrow> AccountState \<Rightarrow> state_error option \<times> AccountState" where
  "SubPendingBalance amount s =
     (if amount > pendingBalance s then (Some ErrorInvalidSubPendingAmount, s)
      else (None, s\<lparr>pendingBalance := pendingBalance s - amount\<rparr>))"

definition SubBalance :: "int \<Rightarrow> AccountState \<Rightarrow> state_error option \<times> AccountState" where
  "SubBalance amount s =
     (if amount > balance s then (Some ErrorInvalidSubBalanceAmount, s)
      else (None, s\<lparr>balance := balance s - amount\<rparr>))"

definition SubTotalBalance :: "int \<Rightarrow> AccountState \<Rightarrow> state_error option \<times> AccountState" where
  "SubTotalBalance amount s =
     (let totalBalance = pendingBalance s + balance s in
      if amount > totalBalance then (Some ErrorInvalidSubBalanceAmount, s)
      else (None, s\<lparr>pendingBalance := 0, balance := totalBalance - amount\<rparr>))"

definition AddBalance :: "int \<Rightarrow> AccountState \<Rightarrow> AccountState" where
  "AddBalance amount s = s\<lparr>balance := balance s + amount\<rparr>"

definition SetBalance :: "int \<Rightarrow> AccountState \<Rightarrow> AccountState" where
  "SetBalance b s = s\<lparr>balance := b\<rparr>"

definition SetPendingBalance :: "int \<Rightarrow> AccountState \<Rightarrow> AccountState" where
  "SetPendingBalance b s = s\<lparr>pendingBalance := b\<rparr>"

definition SetNewDeviceKey :: "bytes \<Rightarrow> AccountState \<Rightarrow> AccountState" where
  "SetNewDeviceKey k s = s\<lparr>deviceKey := k\<rparr>"

definition SetLastHash :: "bytes \<Rightarrow> AccountState \<Rightarrow> AccountState" where
  "SetLastHash h s = s\<lparr>lastHash := h\<rparr>"

definition SetSmartContractState :: "SmartContractState option \<Rightarrow> AccountState \<Rightarrow> AccountState" where
  "SetSmartContractState sc s = s\<lparr>smartContractState := sc\<rparr>"

definition SetNonce :: "u64 \<Rightarrow> AccountState \<Rightarrow> AccountState" where
  "SetNonce n s = s\<lparr>nonce := n\<rparr>"

definition MarkDirty :: "AccountState \<Rightarrow> AccountState" where
  "MarkDirty s = s\<lparr>isDirty := True\<rparr>"

definition GetOrCreateSmartContractState :: "AccountState \<Rightarrow> SmartContractState \<times> AccountState" where
  "GetOrCreateSmartContractState s =
     (let sc = (case smartContractState s of None \<Rightarrow> NewEmptySmartContractState | Some sc \<Rightarrow> sc)
      in (sc, s\<lparr>smartContractState := Some sc\<rparr>))"

text \<open>The contract state is shared by reference: a setter changes the state the account holds.\<close>

definition on_contract :: "(SmartContractState \<Rightarrow> SmartContractState) \<Rightarrow> AccountState \<Rightarrow> AccountState" where
  "on_contract f s =
     (let (sc, s) = GetOrCreateSmartContractState s in s\<lparr>smartContractState := Some (f sc)\<rparr>)"

definition SetCodeHash :: "bytes \<Rightarrow> AccountState \<Rightarrow> AccountState" where
  "SetCodeHash h = on_contract (\<lambda>sc. sc\<lparr>codeHash := h\<rparr>)"

definition SetStorageAddress :: "bytes \<Rightarrow> AccountState \<Rightarrow> AccountState" where
  "SetStorageAddress a = on_contract (\<lambda>sc. sc\<lparr>storageAddress := a\<rparr>)"

definition SetStorageRoot :: "bytes \<Rightarrow> AccountState \<Rightarrow> AccountState" where
  "SetStorageRoot h = on_contract (\<lambda>sc. sc\<lparr>storageRoot := h\<rparr>)"

definition SetCreatorPublicKey :: "bytes \<Rightarrow> AccountState \<Rightarrow> AccountState" where
  "SetCreatorPublicKey pk = on_contract (\<lambda>sc. sc\<lparr>createPublicKey := pk\<rparr>)"

definition AddLogHash :: "eth_lib \<Rightarrow> bytes \<Rightarrow> AccountState \<Rightarrow> AccountState" where
  "AddLogHash E h = on_contract (\<lambda>sc. sc\<lparr>logsHash := Keccak256Hash E (logsHash sc @ h)\<rparr>)"

text \<open>\<^verbatim>\<open>nonce++\<close> wraps around at \<open>2 ^ 64\<close>.\<close>

definition PlusOneNonce :: "AccountState \<Rightarrow> AccountState" where
  "PlusOneNonce s = s\<lparr>nonce := nonce s + 1\<rparr>"

definition SetPublicKeyBls :: "bytes \<Rightarrow> AccountState \<Rightarrow> state_error option \<times> AccountState" where
  "SetPublicKeyBls pk s =
     (if length pk \<noteq> 48 then (Some InvalidPublicKeyBlsLength, s)
      else if length (publicKeyBls s) = 0 then (None, s\<lparr>publicKeyBls := pk\<rparr>)
      else (Some PublicKeyBlsAlreadySet, s))"

definition SetAccountType :: "int \<Rightarrow> AccountState \<Rightarrow> state_error option \<times> AccountState" where
  "SetAccountType t s =
     (if list_ex (\<lambda>u. u = t) [1, 0] then (None, s\<lparr>accountType := t\<rparr>)
      else (Some InvalidAccountType, s))"

subsection \<open>JSON and requests\<close>

record JsonAccountState =
  ja_Address :: string
  ja_Balance :: string
  ja_PendingBalance :: string
  ja_LastHash :: string
  ja_DeviceKey :: string
  ja_SmartContractState :: "JsonSmartContractState option"
  ja_Nonce :: u64
  ja_PublicKeyBls :: string
  ja_AccountType :: int

definition FromAccountState :: "eth_lib \<Rightarrow> AccountState \<Rightarrow> JsonAccountState" where
  "FromAccountState E s =
     \<lparr>ja_Address = Address_Hex E (as_address s), ja_Balance = big_String (balance s),
      ja_PendingBalance = big_String (pendingBalance s), ja_LastHash = Hash_Hex E (lastHash s),
      ja_DeviceKey = Hash_Hex E (deviceKey s),
      ja_SmartContractState = map_option (FromSmartContractState E) (smartContractState s),
      ja_Nonce = nonce s, ja_PublicKeyBls = hex_encode (publicKeyBls s), ja_AccountType = accountType s\<rparr>"

text \<open>The result of \<^verbatim>\<open>SetString\<close> is ignored; after a failure the number is unspecified, here \<open>undef\<close>.\<close>

definition ToAccountState :: "eth_lib \<Rightarrow> (string \<Rightarrow> int) \<Rightarrow> JsonAccountState \<Rightarrow> AccountState" where
  "ToAccountState E undef j =
     \<lparr>as_address = HexToAddress E (ja_Address j), lastHash = HexToHash E (ja_LastHash j),
      balance = (case big_SetString (ja_Balance j) of None \<Rightarrow> undef (ja_Balance j) | Some i \<Rightarrow> i),
      pendingBalance =
        (case big_SetString (ja_PendingBalance j) of None \<Rightarrow> undef (ja_PendingBalance j) | Some i \<Rightarrow> i),
      deviceKey = HexToHash E (ja_DeviceKey j),
      smartContractState = map_option (ToSmartContractState E) (ja_SmartContractState j),
      nonce = ja_Nonce j, publicKeyBls = FromHex E (ja_PublicKeyBls j), accountType = ja_AccountType j,
      isDirty = False\<rparr>"

text \<open>\<^verbatim>\<open>map[common.Address]types.SmartContractState\<close> in the order of an iteration.\<close>

definition MarshalSCStatesWithBlockNumber ::
  "((string \<times> pb_SmartContractState) list \<times> u64 \<Rightarrow> bytes option) \<Rightarrow>
   (bytes \<times> SmartContractState) list \<Rightarrow> u64 \<Rightarrow> bytes option" where
  "MarshalSCStatesWithBlockNumber mar states blockNumber =
     mar (map (\<lambda>(a, st). (hex_encode a, ss_Proto st)) states, blockNumber)"

definition UnmarshalSCStatesWithBlockNumber ::
  "eth_lib \<Rightarrow> (bytes \<Rightarrow> ((string \<times> pb_SmartContractState) list \<times> u64) option) \<Rightarrow> bytes \<Rightarrow>
   ((bytes \<rightharpoonup> SmartContractState) \<times> u64) option" where
  "UnmarshalSCStatesWithBlockNumber E unm b =
     map_option (\<lambda>(ps, blockNumber).
       (fold (\<lambda>(i, p) m. m(HexToAddress E i \<mapsto> ss_FromProto E p)) ps Map.empty, blockNumber)) (unm b)"

definition MarshalGetAccountStateWithIdRequest :: "(bytes \<times> string \<Rightarrow> bytes option) \<Rightarrow> bytes \<Rightarrow> string \<Rightarrow> bytes option" where
  "MarshalGetAccountStateWithIdRequest mar a i = mar (a, i)"

definition UnmarshalGetAccountStateWithIdRequest ::
  "eth_lib \<Rightarrow> (bytes \<Rightarrow> (bytes \<times> string) option) \<Rightarrow> bytes \<Rightarrow> (bytes \<times> string) option" where
  "UnmarshalGetAccountStateWithIdRequest E unm b = map_option (\<lambda>(a, i). (BytesToAddress E a, i)) (unm b)"

definition MarshalAccountStateWithIdRequest ::
  "(pb_AccountState \<times> string \<Rightarrow> bytes option) \<Rightarrow> AccountState \<Rightarrow> string \<Rightarrow> bytes option" where
  "MarshalAccountStateWithIdRequest mar s i = mar (as_Proto s, i)"

definition UnmarshalAccountStateWithIdRequest ::
  "eth_lib \<Rightarrow> (bytes \<Rightarrow> (pb_AccountState \<times> string) option) \<Rightarrow> bytes \<Rightarrow> (AccountState \<times> string) option" where
  "UnmarshalAccountStateWithIdRequest E unm b =
     map_option (\<lambda>(p, i). (as_FromProto E p zero_AccountState, i)) (unm b)"

subsection \<open>Well-formed accounts and what is kept on the wire\<close>

definition ss_wf :: "SmartContractState \<Rightarrow> bool" where
  "ss_wf ss \<longleftrightarrow> length (createPublicKey ss) = 48 \<and> length (storageAddress ss) = 20 \<and>
     length (codeHash ss) = 32 \<and> length (storageRoot ss) = 32 \<and> length (mapFullDbHash ss) = 32 \<and>
     length (simpleDbHash ss) = 32 \<and> length (logsHash ss) = 32"

definition as_wf :: "AccountState \<Rightarrow> bool" where
  "as_wf s \<longleftrightarrow> length (as_address s) = 20 \<and> length (lastHash s) = 32 \<and> length (deviceKey s) = 32 \<and>
     pred_option ss_wf (smartContractState s)"

lemma ss_roundtrip: "eth_laws E \<Longrightarrow> ss_wf ss \<Longrightarrow> ss_FromProto E (ss_Proto ss) = ss"
  by (simp add: eth_laws_def ss_wf_def ss_FromProto_def ss_Proto_def PubkeyFromBytes_def to_array_id)

lemma ss_json_roundtrip:
  "eth_laws E \<Longrightarrow> ss_wf ss \<Longrightarrow>
     ToSmartContractState E (FromSmartContractState E ss) = ss\<lparr>simpleDbHash := zero_hash32\<rparr>"
  by (simp add: eth_laws_def ss_wf_def ToSmartContractState_def FromSmartContractState_def
        NewSmartContractState_def NewEmptySmartContractState_def PubkeyFromBytes_def to_array_id)

lemma get_put_be64_exact [simp]: "get_be64 (put_be64 w) = w"
  using get_put_be64 [of w "[]"] by simp

lemma as_proto_roundtrip:
  assumes "eth_laws E" "as_wf s"
  shows "as_FromProto E (as_Proto s) zero_AccountState =
    s\<lparr>balance := \<bar>balance s\<bar>, pendingBalance := \<bar>pendingBalance s\<bar>, isDirty := False\<rparr>"
  using assms ss_roundtrip [OF assms(1)]
  by (cases "smartContractState s")
    (simp_all add: eth_laws_def as_wf_def as_FromProto_def as_Proto_def zero_AccountState_def
      NewAccountState_def)

lemma as_json_roundtrip:
  assumes "eth_laws E" "as_wf s"
  shows "ToAccountState E undef (FromAccountState E s) =
    s\<lparr>smartContractState := map_option (\<lambda>ss. ss\<lparr>simpleDbHash := zero_hash32\<rparr>) (smartContractState s),
      isDirty := False\<rparr>"
  using assms ss_json_roundtrip [OF assms(1)]
  by (cases "smartContractState s")
    (simp_all add: eth_laws_def as_wf_def ToAccountState_def FromAccountState_def big_SetString_String)

text \<open>A reference instance of the parameters.\<close>

definition pad_left :: "nat \<Rightarrow> bytes \<Rightarrow> bytes" where
  "pad_left n b = (let c = drop (length b - n) b in replicate (n - length c) 0 @ c)"

definition ref_eth :: eth_lib where
  "ref_eth = \<lparr>BytesToAddress = pad_left 20, BytesToHash32 = pad_left 32, FromHex = hex_decode_ref,
     Address_Hex = hex_encode, Hash_Hex = hex_encode,
     HexToAddress = pad_left 20 \<circ> hex_decode_ref, HexToHash = pad_left 32 \<circ> hex_decode_ref,
     Keccak256Hash = pad_left 32\<rparr>"

lemma ref_eth_laws: "eth_laws ref_eth"
  by (simp add: eth_laws_def ref_eth_def pad_left_def hex_decode_ref_inverse)

end
