(* ===== verification/Account_Props.thy ===== *)
theory Account_Props
  imports Account_State
begin

text \<open>
  Properties of accounts: sequences of balance and nonce operations as a ledger, the protobuf and
  the JSON round trip, and what a copy keeps.
\<close>

subsection \<open>Sequences of operations\<close>

datatype as_op =
    OpAddBalance int
  | OpSubBalance int
  | OpAddPendingBalance int
  | OpSubPendingBalance int
  | OpSubTotalBalance int
  | OpPlusOneNonce

fun as_apply :: "as_op \<Rightarrow> AccountState \<Rightarrow> state_error option \<times> AccountState" where
  "as_apply (OpAddBalance a) s = (None, AddBalance a s)"
| "as_apply (OpSubBalance a) s = SubBalance a s"
| "as_apply (OpAddPendingBalance a) s = (None, AddPendingBalance a s)"
| "as_apply (OpSubPendingBalance a) s = SubPendingBalance a s"
| "as_apply (OpSubTotalBalance a) s = SubTotalBalance a s"
| "as_apply OpPlusOneNonce s = (None, PlusOneNonce s)"

fun as_run :: "as_op list \<Rightarrow> AccountState \<Rightarrow> state_error option list \<times> AccountState" where
  "as_run [] s = ([], s)"
| "as_run (op # ops) s =
     (case as_apply op s of (e, s1) \<Rightarrow> case as_run ops s1 of (es, s2) \<Rightarrow> (e # es, s2))"

text \<open>The amount an operation moves into the account, and the change of the total when it ended
  without (with) an error.\<close>

fun credit :: "as_op \<Rightarrow> int" where
  "credit (OpAddBalance a) = a"
| "credit (OpSubBalance a) = - a"
| "credit (OpAddPendingBalance a) = a"
| "credit (OpSubPendingBalance a) = - a"
| "credit (OpSubTotalBalance a) = - a"
| "credit OpPlusOneNonce = 0"

definition delta :: "as_op \<Rightarrow> state_error option \<Rightarrow> int" where
  "delta op e = (if e = None then credit op else 0)"

fun nonneg_op :: "as_op \<Rightarrow> bool" where
  "nonneg_op (OpAddBalance a) = (0 \<le> a)"
| "nonneg_op (OpAddPendingBalance a) = (0 \<le> a)"
| "nonneg_op _ = True"

lemmas balance_defs = AddBalance_def SubBalance_def AddPendingBalance_def SubPendingBalance_def
  SubTotalBalance_def PlusOneNonce_def TotalBalance_def delta_def Let_def

definition solvent :: "AccountState \<Rightarrow> bool" where
  "solvent s \<longleftrightarrow> 0 \<le> balance s \<and> 0 \<le> pendingBalance s"

lemma as_apply_ledger:
  assumes "as_apply op s = (e, s')"
  shows "nonneg_op op \<Longrightarrow> solvent s \<Longrightarrow> solvent s'"
    and "TotalBalance s' = TotalBalance s + delta op e"
    and "nonce s' = nonce s + (if op = OpPlusOneNonce then 1 else 0)"
    and "e \<noteq> None \<Longrightarrow> s' = s"
    and "as_wf s' = as_wf s"
  using assms by (cases op; auto simp: balance_defs solvent_def as_wf_def split: if_splits; fail)+

text \<open>C15. An account is a ledger. Over any sequence of balance and nonce operations whose credits are not
  negative, an account whose balances are not negative keeps them so, its total balance changes by
  exactly the amounts of the operations that succeeded, and its nonce counts the increments
  modulo \<open>2 ^ 64\<close>. A debit of any sign is refused when it exceeds the balance.\<close>

theorem AccountState_ledger:
  assumes "as_run ops s = (es, s')" "solvent s" "list_all nonneg_op ops"
  shows "solvent s' \<and> TotalBalance s' = TotalBalance s + (\<Sum>(op, e) \<leftarrow> zip ops es. delta op e) \<and>
    nonce s' = nonce s + word_of_nat (count_list ops OpPlusOneNonce)"
  using assms
proof (induction ops arbitrary: s es)
  case (Cons op ops)
  then obtain e s1 es1 where a: "as_apply op s = (e, s1)" and r: "as_run ops s1 = (es1, s')" "es = e # es1"
    by (auto split: prod.splits)
  note led = as_apply_ledger [OF a]
  have "solvent s1" using led(1) Cons.prems by simp
  with Cons.IH [OF r(1)] Cons.prems r(2) led(2,3) show ?case by simp
qed simp

theorem AccountState_ledger_witness:
  "case as_run [OpAddPendingBalance 7, OpSubBalance 3, OpSubTotalBalance 5, OpPlusOneNonce]
      (NewAccountState []) of
     (es, s') \<Rightarrow> es = [None, Some ErrorInvalidSubBalanceAmount, None, None] \<and>
       TotalBalance s' = 2 \<and> balance s' = 2 \<and> nonce s' = 1"
proof -
  let ?ops = "[OpAddPendingBalance 7, OpSubBalance 3, OpSubTotalBalance 5, OpPlusOneNonce]"
  obtain es s' where r: "as_run ?ops (NewAccountState []) = (es, s')" by fastforce
  have "es = [None, Some ErrorInvalidSubBalanceAmount, None, None]" "balance s' = 2"
    using r by (auto simp: balance_defs NewAccountState_def)
  moreover have "solvent (NewAccountState [])" by (simp add: solvent_def NewAccountState_def)
  ultimately show ?thesis
    using AccountState_ledger [OF r] r by (simp add: delta_def TotalBalance_def NewAccountState_def)
qed

subsection \<open>Round trips\<close>

text \<open>C36. Accounts on the wire and in JSON. When protobuf reads back its message, a marshalled account is
  read back with the absolute values of its balances and not marked dirty, so an account with
  non-negative balances is unchanged; the JSON form is read back with the sign, but the
  \<^verbatim>\<open>simpleDbHash\<close> of a contract is replaced by the zero hash.\<close>

theorem AccountState_roundtrip:
  assumes "eth_laws E" "as_wf s" "mar (as_Proto s) = Some b" "unm b = Some (as_Proto s)"
  shows "Option.bind (as_Marshal mar s) (\<lambda>b. as_Unmarshal E unm b zero_AccountState) =
      Some (s\<lparr>balance := \<bar>balance s\<bar>, pendingBalance := \<bar>pendingBalance s\<bar>, isDirty := False\<rparr>) \<and>
    ToAccountState E undef (FromAccountState E s) =
      s\<lparr>smartContractState := map_option (\<lambda>ss. ss\<lparr>simpleDbHash := zero_hash32\<rparr>) (smartContractState s),
        isDirty := False\<rparr>"
  using assms as_proto_roundtrip [OF assms(1,2)] as_json_roundtrip [OF assms(1,2)]
  by (simp add: as_Marshal_def as_Unmarshal_def)

definition ex_account :: AccountState where
  "ex_account = SetCodeHash (replicate 32 9) (AddBalance 300 (NewAccountState (replicate 20 1)))"

lemma ex_account_wf: "as_wf ex_account"
  by (simp add: ex_account_def as_wf_def SetCodeHash_def on_contract_def GetOrCreateSmartContractState_def
        AddBalance_def NewAccountState_def NewEmptySmartContractState_def ss_wf_def zero_hash32_def Let_def)

theorem AccountState_roundtrip_witness:
  "Option.bind (as_Marshal (\<lambda>p. Some [1]) ex_account)
     (\<lambda>b. as_Unmarshal ref_eth (\<lambda>b. Some (as_Proto ex_account)) b zero_AccountState) = Some ex_account"
  using AccountState_roundtrip [OF ref_eth_laws ex_account_wf, of "\<lambda>p. Some [1]" "[1]"
      "\<lambda>b. Some (as_Proto ex_account)" "\<lambda>_. 0"]
  by (simp add: ex_account_def AddBalance_def NewAccountState_def SetCodeHash_def on_contract_def
        GetOrCreateSmartContractState_def)

subsection \<open>Copies\<close>

lemma as_Copy_eq:
  "as_wf s \<Longrightarrow> as_Copy s = s\<lparr>publicKeyBls := [], isDirty := False\<rparr>"
  by (cases "smartContractState s")
    (simp_all add: as_Copy_def as_wf_def zero_AccountState_def NewAccountState_def zero_hash32_def
      go_copy_same_length ss_Copy_def go_copy_def)

text \<open>A copied account can be given another BLS key. \<^verbatim>\<open>SetPublicKeyBls\<close> refuses to replace a key that
  is set. But \<^verbatim>\<open>Copy\<close> copies the key into a nil slice, that is, drops it, so on the copy of an
  account with a key any key of 48 bytes is accepted; all other fields are copied.\<close>

theorem AccountState_Copy_loses_key:
  assumes "as_wf s" "publicKeyBls s \<noteq> []" "length pk = 48"
  shows "SetPublicKeyBls pk s = (Some PublicKeyBlsAlreadySet, s) \<and>
    SetPublicKeyBls pk (as_Copy s) = (None, s\<lparr>publicKeyBls := pk, isDirty := False\<rparr>)"
  using assms as_Copy_eq [OF assms(1)] by (simp add: SetPublicKeyBls_def)

lemma AccountState_Copy_loses_key_example:
  "fst (SetPublicKeyBls (replicate 48 2) (as_Copy (ex_account\<lparr>publicKeyBls := replicate 48 1\<rparr>))) = None"
proof -
  have "as_wf (ex_account\<lparr>publicKeyBls := replicate 48 1\<rparr>)" using ex_account_wf by (simp add: as_wf_def)
  then show ?thesis using AccountState_Copy_loses_key by simp
qed

end
