(* ===== verification/Batch_Store.thy ===== *)
theory Batch_Store
  imports Os_File
begin

text \<open>
  The append-only batch files of \<^verbatim>\<open>src/pkg/storage/batchstore.go\<close>. A file is a sequence of frames, each
  the length of an entry in eight little-endian bytes and the entry. Entries are encoded with
  \<^verbatim>\<open>encoding/gob\<close>, whose encoder and decoder are arguments (\<open>None\<close> is an error). Writing goes through
  a \<^verbatim>\<open>bufio.Writer\<close> of 4096 bytes, whose flush is deferred; every call to the operating system that
  writes may fail. A reader sees the content the file has when it is opened.
\<close>

subsection \<open>Buffered writing\<close>

text \<open>\<^verbatim>\<open>os.OpenFile\<close> with \<^verbatim>\<open>O_CREATE|O_WRONLY|O_APPEND\<close>.\<close>

definition os_open_append :: "world \<Rightarrow> string \<Rightarrow> handle option \<times> world" where
  "os_open_append w p =
     (case os_call w of (f, w) \<Rightarrow>
        if f \<noteq> None then (None, w)
        else (case fs w p of
                None \<Rightarrow> (Some \<lparr>hpath = p, hpos = 0, hopen = True\<rparr>, w\<lparr>fs := (fs w)(p \<mapsto> [])\<rparr>)
              | Some c \<Rightarrow> (Some \<lparr>hpath = p, hpos = length c, hopen = True\<rparr>, w)))"

record bufwriter =
  wbuf :: bytes
  werr :: bool
  wfile :: handle

definition NewWriter :: "handle \<Rightarrow> bufwriter" where
  "NewWriter h = \<lparr>wbuf = [], werr = False, wfile = h\<rparr>"

definition write_through :: "bytes \<Rightarrow> bufwriter \<Rightarrow> world \<Rightarrow> bool \<times> bufwriter \<times> world" where
  "write_through p b w =
     (case os_write w (wfile b) p of (ok, h, w) \<Rightarrow> (ok, b\<lparr>wfile := h, werr := \<not> ok\<rparr>, w))"

text \<open>\<^verbatim>\<open>Flush\<close>: an earlier error is sticky.\<close>

definition bufio_Flush :: "bufwriter \<Rightarrow> world \<Rightarrow> bool \<times> bufwriter \<times> world" where
  "bufio_Flush b w =
     (if werr b then (False, b, w)
      else if wbuf b = [] then (True, b, w)
      else write_through (wbuf b) (b\<lparr>wbuf := []\<rparr>) w)"

text \<open>\<^verbatim>\<open>Write\<close>: what fits is buffered; otherwise the buffer is filled and flushed, and a rest that does
  not fit in the empty buffer goes to the file directly.\<close>

definition bufio_Write :: "bytes \<Rightarrow> bufwriter \<Rightarrow> world \<Rightarrow> bool \<times> bufwriter \<times> world" where
  "bufio_Write p b w =
     (if werr b then (False, b, w)
      else if length p \<le> 4096 - length (wbuf b) then (True, b\<lparr>wbuf := wbuf b @ p\<rparr>, w)
      else if wbuf b = [] then write_through p b w
      else
        let n = 4096 - length (wbuf b) in
        case bufio_Flush (b\<lparr>wbuf := wbuf b @ take n p\<rparr>) w of
          (False, b, w) \<Rightarrow> (False, b, w)
        | (True, b, w) \<Rightarrow>
            if length p - n \<le> 4096 then (True, b\<lparr>wbuf := drop n p\<rparr>, w)
            else write_through (drop n p) b w)"

subsection \<open>Appending\<close>

datatype batch_error =
    ErrMkdir
  | ErrEncode
  | ErrOpenAppend
  | ErrWriteSize
  | ErrWriteData
  | ErrNotExist
  | ErrOpenLoad
  | ErrReadSize
  | ErrInvalidSize int
  | ErrReadData
  | ErrDecodeData

text \<open>The directory of the file is created when \<^verbatim>\<open>os.Stat\<close> says it does not exist (\<open>nodir\<close>).\<close>

definition ensure_dir :: "bool \<Rightarrow> world \<Rightarrow> bool \<times> world" where
  "ensure_dir nodir w = (if nodir then os_mkdir_all w else (True, w))"

text \<open>The size, the data, then the deferred \<^verbatim>\<open>Flush\<close> and \<^verbatim>\<open>Close\<close>, whose errors are dropped.\<close>

definition deferred :: "bufwriter \<Rightarrow> world \<Rightarrow> world" where
  "deferred b w = (case bufio_Flush b w of (_, b, w) \<Rightarrow> snd (snd (os_close w (wfile b))))"

definition write_entry :: "bytes \<Rightarrow> bufwriter \<Rightarrow> world \<Rightarrow> batch_error option \<times> world" where
  "write_entry entry b w =
     (case bufio_Write (put_le64 (word_of_nat (length entry))) b w of (ok, b, w) \<Rightarrow>
        if \<not> ok then (Some ErrWriteSize, deferred b w)
        else case bufio_Write entry b w of (ok, b, w) \<Rightarrow>
          (if ok then None else Some ErrWriteData, deferred b w))"

definition AppendBatch ::
  "((bytes \<times> bytes) list \<Rightarrow> bytes option) \<Rightarrow> bool \<Rightarrow> string \<Rightarrow> (bytes \<times> bytes) list \<Rightarrow> world \<Rightarrow>
   batch_error option \<times> world" where
  "AppendBatch enc nodir filename data w =
     (case ensure_dir nodir w of (ok, w) \<Rightarrow>
        if \<not> ok then (Some ErrMkdir, w)
        else case enc data of
          None \<Rightarrow> (Some ErrEncode, w)
        | Some encoded \<Rightarrow>
            (case os_open_append w filename of
               (None, w) \<Rightarrow> (Some ErrOpenAppend, w)
             | (Some h, w) \<Rightarrow> write_entry encoded (NewWriter h) w))"

text \<open>\<^verbatim>\<open>AppendPut\<close> and \<^verbatim>\<open>AppendDelete\<close> open the file before they encode.\<close>

definition append_item ::
  "('a \<Rightarrow> bytes option) \<Rightarrow> bool \<Rightarrow> string \<Rightarrow> 'a \<Rightarrow> world \<Rightarrow> batch_error option \<times> world" where
  "append_item enc nodir filename x w =
     (case ensure_dir nodir w of (ok, w) \<Rightarrow>
        if \<not> ok then (Some ErrMkdir, w)
        else case os_open_append w filename of
          (None, w) \<Rightarrow> (Some ErrOpenAppend, w)
        | (Some h, w) \<Rightarrow>
            (case enc x of
               None \<Rightarrow> (Some ErrEncode, deferred (NewWriter h) w)
             | Some entry \<Rightarrow> write_entry entry (NewWriter h) w))"

definition AppendPut ::
  "(bytes \<times> bytes \<Rightarrow> bytes option) \<Rightarrow> bool \<Rightarrow> string \<Rightarrow> bytes \<Rightarrow> bytes \<Rightarrow> world \<Rightarrow> batch_error option \<times> world" where
  "AppendPut enc nodir filename key v w = append_item enc nodir filename (key, v) w"

definition AppendDelete ::
  "(bytes \<Rightarrow> bytes option) \<Rightarrow> bool \<Rightarrow> string \<Rightarrow> bytes \<Rightarrow> world \<Rightarrow> batch_error option \<times> world" where
  "AppendDelete enc nodir filename key w = append_item enc nodir filename key w"

subsection \<open>Loading\<close>

text \<open>The loop of the three loaders on what is left of the file; \<open>limit\<close> is the largest size accepted.
  It ends because a frame is at least nine bytes long.\<close>

function load_frames :: "int \<Rightarrow> (bytes \<Rightarrow> 'a option) \<Rightarrow> bytes \<Rightarrow> batch_error + 'a list" where
  "load_frames limit dec s =
     (if s = [] then Inr []
      else if length s < 8 then Inl ErrReadSize
      else
        let size = sint (get_le64 (take 8 s)); r = drop 8 s in
        if size \<le> 0 \<or> size > limit then Inl (ErrInvalidSize size)
        else if length r < nat size then Inl ErrReadData
        else case dec (take (nat size) r) of
          None \<Rightarrow> Inl ErrDecodeData
        | Some x \<Rightarrow>
            (case load_frames limit dec (drop (nat size) r) of
               Inl e \<Rightarrow> Inl e
             | Inr xs \<Rightarrow> Inr (x # xs)))"
  by pat_completeness auto
termination by (relation "measure (\<lambda>(_, _, s). length s)") auto

declare load_frames.simps [simp del]

definition LoadBatch ::
  "(bytes \<Rightarrow> (bytes \<times> bytes) list option) \<Rightarrow> string \<Rightarrow> world \<Rightarrow> batch_error + (bytes \<times> bytes) list" where
  "LoadBatch dec filename w =
     (case os_call w of (f, _) \<Rightarrow>
        if f \<noteq> None then Inl ErrOpenLoad
        else case fs w filename of
          None \<Rightarrow> Inl ErrNotExist
        | Some c \<Rightarrow>
            (case load_frames (50 * 1024 * 1024) dec c of
               Inl e \<Rightarrow> Inl e
             | Inr batches \<Rightarrow> Inr (concat batches)))"

definition load_items :: "(bytes \<Rightarrow> 'a option) \<Rightarrow> string \<Rightarrow> world \<Rightarrow> batch_error + 'a list" where
  "load_items dec filename w =
     (case os_call w of (f, _) \<Rightarrow>
        case fs w filename of
          None \<Rightarrow> Inl ErrOpenLoad
        | Some c \<Rightarrow> if f \<noteq> None then Inl ErrOpenLoad else load_frames (10 * 1024 * 1024) dec c)"

definition LoadAllPut :: "(bytes \<Rightarrow> (bytes \<times> bytes) option) \<Rightarrow> string \<Rightarrow> world \<Rightarrow> batch_error + (bytes \<times> bytes) list" where
  "LoadAllPut dec filename w = load_items dec filename w"

definition LoadAllDelete :: "(bytes \<Rightarrow> bytes option) \<Rightarrow> string \<Rightarrow> world \<Rightarrow> batch_error + bytes list" where
  "LoadAllDelete dec filename w = load_items dec filename w"

subsection \<open>What is in a file\<close>

definition entry_frame :: "bytes \<Rightarrow> bytes" where
  "entry_frame entry = put_le64 (word_of_nat (length entry)) @ entry"

definition file_content :: "world \<Rightarrow> string \<Rightarrow> bytes" where
  "file_content w p = (case fs w p of None \<Rightarrow> [] | Some c \<Rightarrow> c)"

lemma load_frames_Nil [simp]: "load_frames limit dec [] = Inr []"
  by (simp add: load_frames.simps)

lemma load_frames_frame:
  assumes "0 < length e" "int (length e) \<le> limit" "limit < 2 ^ 63" "dec e = Some x"
  shows "load_frames limit dec (entry_frame e @ s) =
    (case load_frames limit dec s of Inl err \<Rightarrow> Inl err | Inr xs \<Rightarrow> Inr (x # xs))"
proof -
  let ?s = "put_le64 (word_of_nat (length e)) @ e @ s"
  have "sint (word_of_nat (length e) :: u64) = int (length e)"
    using assms(2,3) int64_small [of "int (length e)"] by (simp add: int64_def)
  moreover have "take 8 ?s = put_le64 (word_of_nat (length e))" "drop 8 ?s = e @ s" "8 \<le> length ?s" by simp_all
  moreover have "get_le64 (put_le64 (word_of_nat (length e))) = word_of_nat (length e)"
    using get_put_le64 [of "word_of_nat (length e)" "[]"] by simp
  ultimately show ?thesis
    using assms by (subst load_frames.simps) (auto simp: entry_frame_def Let_def)
qed

lemma load_frames_all:
  assumes "\<And>e. e \<in> set es \<Longrightarrow> 0 < length e \<and> int (length e) \<le> limit \<and> dec e \<noteq> None" "limit < 2 ^ 63"
  shows "load_frames limit dec (concat (map entry_frame es) @ s) =
    (case load_frames limit dec s of Inl err \<Rightarrow> Inl err | Inr xs \<Rightarrow> Inr (map (the \<circ> dec) es @ xs))"
  using assms(1)
proof (induction es)
  case Nil
  show ?case by (simp split: sum.splits)
next
  case (Cons e es)
  then obtain x where "dec e = Some x" "0 < length e" "int (length e) \<le> limit" by force
  with Cons load_frames_frame [of e limit dec x "concat (map entry_frame es) @ s"] assms(2) show ?case
    by (auto split: sum.splits)
qed
subsection \<open>Writing without faults\<close>

text \<open>The writer \<open>b\<close> stands at the end of a file whose content, with what is buffered, is \<open>c\<close>.\<close>

definition writes_at :: "world \<Rightarrow> string \<Rightarrow> bytes \<Rightarrow> bufwriter \<Rightarrow> world \<Rightarrow> bool" where
  "writes_at w0 p c b w \<longleftrightarrow> \<not> werr b \<and> length (wbuf b) \<le> 4096 \<and> faults w = [] \<and> hopen (wfile b) \<and>
     hpath (wfile b) = p \<and> (\<exists>d. c = d @ wbuf b \<and> hpos (wfile b) = length d \<and> fs w = (fs w0)(p \<mapsto> d))"

lemma write_through_at:
  assumes "writes_at w0 p c b w" "wbuf b = []"
  shows "\<exists>b' w'. write_through q b w = (True, b', w') \<and> writes_at w0 p (c @ q) b' w' \<and> wbuf b' = []"
  using assms
  by (auto simp: writes_at_def write_through_def os_write_ok)

lemma bufio_Flush_at:
  assumes "writes_at w0 p c b w"
  shows "\<exists>b' w'. bufio_Flush b w = (True, b', w') \<and> writes_at w0 p c b' w' \<and> wbuf b' = []"
proof (cases "wbuf b = []")
  case True
  with assms show ?thesis by (simp add: bufio_Flush_def writes_at_def)
next
  case False
  from assms obtain d where d: "c = d @ wbuf b" "hpos (wfile b) = length d" "fs w = (fs w0)(p \<mapsto> d)"
    and o: "\<not> werr b" "faults w = []" "hopen (wfile b)" "hpath (wfile b) = p"
    by (auto simp: writes_at_def)
  then have "writes_at w0 p d (b\<lparr>wbuf := []\<rparr>) w" by (simp add: writes_at_def)
  from write_through_at [OF this, of "wbuf b"] False d o show ?thesis by (auto simp: bufio_Flush_def)
qed

lemma writes_at_buffer:
  assumes "writes_at w0 p c b w" "length (wbuf b) + length q \<le> 4096"
  shows "writes_at w0 p (c @ q) (b\<lparr>wbuf := wbuf b @ q\<rparr>) w"
  using assms by (auto simp: writes_at_def)

lemma bufio_Write_at:
  assumes at: "writes_at w0 p c b w"
  shows "\<exists>b' w'. bufio_Write q b w = (True, b', w') \<and> writes_at w0 p (c @ q) b' w'"
proof -
  have len: "length (wbuf b) \<le> 4096" and ok: "\<not> werr b" using at by (simp_all add: writes_at_def)
  consider (fits) "length q \<le> 4096 - length (wbuf b)"
    | (direct) "\<not> length q \<le> 4096 - length (wbuf b)" "wbuf b = []"
    | (split) "\<not> length q \<le> 4096 - length (wbuf b)" "wbuf b \<noteq> []" by blast
  then show ?thesis
  proof cases
    case fits
    then show ?thesis using writes_at_buffer [OF at, of q] len ok by (simp add: bufio_Write_def)
  next
    case direct
    then show ?thesis using write_through_at [OF at, of q] ok by (auto simp: bufio_Write_def)
  next
    case split
    let ?n = "4096 - length (wbuf b)"
    have "writes_at w0 p (c @ take ?n q) (b\<lparr>wbuf := wbuf b @ take ?n q\<rparr>) w"
      by (rule writes_at_buffer [OF at]) (use split len in simp)
    from bufio_Flush_at [OF this] obtain b1 w1
      where f: "bufio_Flush (b\<lparr>wbuf := wbuf b @ take ?n q\<rparr>) w = (True, b1, w1)"
        "writes_at w0 p (c @ take ?n q) b1 w1" "wbuf b1 = []" by blast
    have buf: "writes_at w0 p (c @ q) (b1\<lparr>wbuf := drop ?n q\<rparr>) w1" if "length q - ?n \<le> 4096"
      using writes_at_buffer [OF f(2), of "drop ?n q"] f(3) that by simp
    obtain b2 w2 where "write_through (drop ?n q) b1 w1 = (True, b2, w2)" "writes_at w0 p (c @ q) b2 w2"
      using write_through_at [OF f(2,3), of "drop ?n q"] by auto
    with f(1) buf split ok show ?thesis by (auto simp: bufio_Write_def Let_def)
  qed
qed

lemma write_entry_ok:
  assumes at: "writes_at w0 p c b w"
  shows "\<exists>w'. write_entry entry b w = (None, w') \<and> faults w' = [] \<and>
    fs w' = (fs w0)(p \<mapsto> c @ entry_frame entry)"
proof -
  let ?sz = "put_le64 (word_of_nat (length entry))"
  obtain b1 w1 where 1: "bufio_Write ?sz b w = (True, b1, w1)" "writes_at w0 p (c @ ?sz) b1 w1"
    using bufio_Write_at [OF at] by blast
  obtain b2 w2 where 2: "bufio_Write entry b1 w1 = (True, b2, w2)" "writes_at w0 p ((c @ ?sz) @ entry) b2 w2"
    using bufio_Write_at [OF 1(2)] by blast
  obtain b3 w3 where 3: "bufio_Flush b2 w2 = (True, b3, w3)" "writes_at w0 p ((c @ ?sz) @ entry) b3 w3" "wbuf b3 = []"
    using bufio_Flush_at [OF 2(2)] by blast
  from 3 have "deferred b2 w2 = w3" by (simp add: deferred_def os_close_def os_call_ok writes_at_def)
  with 1 2 3 show ?thesis by (auto simp: write_entry_def entry_frame_def writes_at_def)
qed

lemma os_open_append_ok:
  assumes "faults w = []"
  shows "\<exists>h w'. os_open_append w p = (Some h, w') \<and> writes_at w p (file_content w p) (NewWriter h) w'"
  using assms
  by (cases "fs w p") (auto simp: os_open_append_def os_call_ok writes_at_def NewWriter_def file_content_def)

lemma AppendBatch_ok:
  assumes "faults w = []" "enc data = Some e"
  shows "\<exists>w'. AppendBatch enc nodir p data w = (None, w') \<and> faults w' = [] \<and>
    fs w' = (fs w)(p \<mapsto> file_content w p @ entry_frame e)"
proof -
  have dir: "ensure_dir nodir w = (True, w)"
    using assms(1) by (simp add: ensure_dir_def os_mkdir_all_def os_call_ok)
  obtain h w1 where o: "os_open_append w p = (Some h, w1)"
    and at: "writes_at w p (file_content w p) (NewWriter h) w1"
    using os_open_append_ok [OF assms(1)] by blast
  from write_entry_ok [OF at, of e] dir o assms(2) show ?thesis by (auto simp: AppendBatch_def)
qed

subsection \<open>Round trip\<close>

fun append_all ::
  "((bytes \<times> bytes) list \<Rightarrow> bytes option) \<Rightarrow> bool \<Rightarrow> string \<Rightarrow> (bytes \<times> bytes) list list \<Rightarrow> world \<Rightarrow>
   batch_error option list \<times> world" where
  "append_all enc nodir p [] w = ([], w)"
| "append_all enc nodir p (d # ds) w =
     (case AppendBatch enc nodir p d w of (e, w) \<Rightarrow>
        case append_all enc nodir p ds w of (es, w) \<Rightarrow> (e # es, w))"

lemma append_all_ok:
  assumes "faults w = []" "\<And>d. d \<in> set ds \<Longrightarrow> enc d \<noteq> None"
  shows "\<exists>w'. append_all enc nodir p ds w = (replicate (length ds) None, w') \<and> faults w' = [] \<and>
    file_content w' p = file_content w p @ concat (map (\<lambda>d. entry_frame (the (enc d))) ds) \<and>
    (ds \<noteq> [] \<longrightarrow> fs w' p \<noteq> None)"
  using assms
proof (induction ds arbitrary: w)
  case (Cons d ds)
  then obtain e where e: "enc d = Some e" by fastforce
  obtain w1 where a: "AppendBatch enc nodir p d w = (None, w1)" "faults w1 = []"
    "fs w1 = (fs w)(p \<mapsto> file_content w p @ entry_frame e)"
    using AppendBatch_ok [where enc = enc and data = d, OF Cons.prems(1) e] by blast
  obtain w2 where r: "append_all enc nodir p ds w1 = (replicate (length ds) None, w2)" "faults w2 = []"
    "file_content w2 p = file_content w1 p @ concat (map (\<lambda>d. entry_frame (the (enc d))) ds)"
    "ds \<noteq> [] \<longrightarrow> fs w2 p \<noteq> None"
    using Cons.IH [OF a(2)] Cons.prems(2) by (meson list.set_intros(2))
  have "file_content w1 p = file_content w p @ entry_frame e" using a(3) by (simp add: file_content_def)
  moreover have "fs w2 p \<noteq> None" using r a(3) by (cases ds) auto
  ultimately show ?case using a r e by simp
qed simp

text \<open>C35. Batch files. Without failing calls, batches appended one after the other to a file that does not
  exist are all written without an error, whatever their size, and \<^verbatim>\<open>LoadBatch\<close> gives the pairs of
  all batches in order, provided that gob decodes each encoding to its batch and that no encoding
  is empty or longer than 50 MB.\<close>

theorem BatchStore_roundtrip:
  assumes "faults w = []" "fs w p = None" "ds \<noteq> []"
    and "\<And>d. d \<in> set ds \<Longrightarrow> \<exists>e. enc d = Some e \<and> dec e = Some d \<and> 0 < length e \<and> length e \<le> 50 * 1024 * 1024"
  shows "\<exists>w'. append_all enc nodir p ds w = (replicate (length ds) None, w') \<and>
    LoadBatch dec p w' = Inr (concat ds)"
proof -
  have enc: "enc d = Some (the (enc d))" "dec (the (enc d)) = Some d" "0 < length (the (enc d))"
    "int (length (the (enc d))) \<le> 50 * 1024 * 1024" if "d \<in> set ds" for d
    using assms(4) [OF that] by auto
  obtain w' where w': "append_all enc nodir p ds w = (replicate (length ds) None, w')" "faults w' = []"
    "file_content w' p = concat (map (\<lambda>d. entry_frame (the (enc d))) ds)" "fs w' p \<noteq> None"
  proof -
    have "\<And>d. d \<in> set ds \<Longrightarrow> enc d \<noteq> None" using enc(1) by force
    from append_all_ok [where enc = enc and nodir = nodir and p = p, OF assms(1) this] assms(2,3) that
    show ?thesis by (auto simp: file_content_def)
  qed
  then have c: "fs w' p = Some (concat (map entry_frame (map (\<lambda>d. the (enc d)) ds)))"
    by (auto simp: file_content_def comp_def)
  have "load_frames (50 * 1024 * 1024) dec (concat (map entry_frame (map (\<lambda>d. the (enc d)) ds)) @ []) =
    Inr (map (the \<circ> dec) (map (\<lambda>d. the (enc d)) ds))"
    by (subst load_frames_all) (use enc in auto)
  moreover have "map (the \<circ> dec) (map (\<lambda>d. the (enc d)) ds) = ds" using enc(2) by (auto intro!: map_idI)
  ultimately have "LoadBatch dec p w' = Inr (concat ds)"
    using w'(2) c by (simp add: LoadBatch_def os_call_ok)
  with w'(1) show ?thesis by blast
qed

definition ex_enc :: "(bytes \<times> bytes) list \<Rightarrow> bytes option" where
  "ex_enc d = Some (word_of_nat (length d) # concat (map (\<lambda>(k, v). [hd k, hd v]) d))"

definition ex_dec :: "bytes \<Rightarrow> (bytes \<times> bytes) list option" where
  "ex_dec b = (if b = [1, 5, 6] then Some [([5], [6])] else if b = [0] then Some [] else None)"

lemma ex_codec:
  "d \<in> set [[([5], [6])], [], [([5], [6])]] \<Longrightarrow>
    \<exists>e. ex_enc d = Some e \<and> ex_dec e = Some d \<and> 0 < length e \<and> length e \<le> 50 * 1024 * 1024"
  by (auto simp: ex_enc_def ex_dec_def)

theorem BatchStore_roundtrip_witness:
  "\<exists>w'. append_all ex_enc True ''b'' [[([5], [6])], [], [([5], [6])]] \<lparr>fs = \<lambda>_. None, faults = []\<rparr> =
      ([None, None, None], w') \<and>
    LoadBatch ex_dec ''b'' w' = Inr [([5], [6]), ([5], [6])]"
  using BatchStore_roundtrip [where enc = ex_enc and dec = ex_dec and nodir = True and p = "''b''"
      and w = "\<lparr>fs = \<lambda>_. None, faults = []\<rparr>" and ds = "[[([5], [6])], [], [([5], [6])]]", OF _ _ _ ex_codec]
  by (simp del: append_all.simps)

subsection \<open>A lost write\<close>

lemma put_le64_nonempty [simp]: "put_le64 x \<noteq> []"
  by (metis length_greater_0_conv length_put(2) zero_less_numeral)

lemma load_frames_torn:
  assumes "0 < length e" "int (length e) \<le> limit" "limit < 2 ^ 63" "0 < n" "n < 8 + length e"
  shows "\<exists>err. load_frames limit dec (take n (entry_frame e)) = Inl err"
proof (cases "n < 8")
  case True
  with assms show ?thesis by (subst load_frames.simps) (auto simp: entry_frame_def)
next
  case False
  let ?s = "take n (entry_frame e)"
  have s: "?s = put_le64 (word_of_nat (length e)) @ take (n - 8) e" using False by (simp add: entry_frame_def)
  have sz: "sint (word_of_nat (length e) :: u64) = int (length e)"
    using assms(2,3) int64_small [of "int (length e)"] by (simp add: int64_def)
  have get: "get_le64 (put_le64 (word_of_nat (length e))) = word_of_nat (length e)"
    using get_put_le64 [of "word_of_nat (length e)" "[]"] by simp
  have "n - 8 < length e" using assms(5) False by arith
  then show ?thesis unfolding s
    using assms False sz get by (subst load_frames.simps) (simp add: Let_def)
qed

lemma AppendBatch_flush_fault:
  assumes "enc data = Some e" "length e \<le> 4088" "faults w = [None, Some n]"
  shows "\<exists>w'. AppendBatch enc False p data w = (None, w') \<and> faults w' = [] \<and>
    fs w' p = Some (file_content w p @ take n (entry_frame e))"
proof -
  let ?h = "\<lparr>hpath = p, hpos = length (file_content w p), hopen = True\<rparr>"
  obtain w1 where o: "os_open_append w p = (Some ?h, w1)" "faults w1 = [Some n]" "fs w1 p = Some (file_content w p)"
    using assms(3) by (cases "fs w p") (auto simp: os_open_append_def os_call_def file_content_def)
  let ?b = "\<lparr>wbuf = entry_frame e, werr = False, wfile = ?h\<rparr>"
  have "entry_frame e \<noteq> []" by (simp add: entry_frame_def)
  then have "faults (deferred ?b w1) = []" "fs (deferred ?b w1) p = Some (file_content w p @ take n (entry_frame e))"
    using o by (simp_all add: deferred_def bufio_Flush_def write_through_def os_write_def os_call_def
        os_close_def Let_def)
  moreover have "write_entry e (NewWriter ?h) w1 = (None, deferred ?b w1)"
    using assms(2) by (simp add: write_entry_def NewWriter_def bufio_Write_def entry_frame_def)
  ultimately show ?thesis using assms(1) o(1) by (simp add: AppendBatch_def ensure_dir_def)
qed

text \<open>A lost write is not reported. For a batch that fits in the write buffer, the data reaches the file
  only in the deferred \<^verbatim>\<open>Flush\<close>, whose error is dropped: when that write fails after some bytes,
  \<^verbatim>\<open>AppendBatch\<close> reports success, and from then on \<^verbatim>\<open>LoadBatch\<close> fails on the file, so the batches
  that were there before cannot be loaded any more either.\<close>

theorem BatchStore_lost_write:
  assumes "enc data = Some e" "0 < length e" "length e \<le> 4088" "0 < n" "n < 8 + length e"
    and "faults w = [None, Some n]" "file_content w p = concat (map entry_frame es)"
    and "\<And>e. e \<in> set es \<Longrightarrow> 0 < length e \<and> length e \<le> 50 * 1024 * 1024 \<and> dec e \<noteq> None"
  shows "\<exists>w' err. AppendBatch enc False p data w = (None, w') \<and> LoadBatch dec p w' = Inl err"
proof -
  obtain w' where w': "AppendBatch enc False p data w = (None, w')" "faults w' = []"
    "fs w' p = Some (concat (map entry_frame es) @ take n (entry_frame e))"
    using AppendBatch_flush_fault [where enc = enc, OF assms(1,3,6)] assms(7) by metis
  obtain err where "load_frames (50 * 1024 * 1024) dec (take n (entry_frame e)) = Inl err"
    using load_frames_torn [of e "50 * 1024 * 1024" n dec] assms(2-5) by auto
  moreover have "0 < length e \<and> int (length e) \<le> 50 * 1024 * 1024 \<and> dec e \<noteq> None" if "e \<in> set es" for e
    using assms(8) [OF that] by simp
  ultimately have "load_frames (50 * 1024 * 1024) dec (concat (map entry_frame es) @ take n (entry_frame e)) = Inl err"
    using load_frames_all [of es "50 * 1024 * 1024" dec "take n (entry_frame e)"] by simp
  with w' show ?thesis by (auto simp: LoadBatch_def os_call_ok)
qed

lemma BatchStore_lost_write_example:
  "\<exists>w' err. AppendBatch ex_enc False ''b'' [([5], [6])] \<lparr>fs = \<lambda>_. Some (entry_frame [0]), faults = [None, Some 9]\<rparr> =
     (None, w') \<and> LoadBatch ex_dec ''b'' w' = Inl err"
  by (rule BatchStore_lost_write [where n = 9 and es = "[[0]]"])
    (auto simp: ex_enc_def ex_dec_def file_content_def)

end
