(* ===== verification/Transaction.thy ===== *)
theory Transaction
  imports Account_State
begin

text \<open>
  Transactions: \<^verbatim>\<open>src/pkg/transaction/transaction.go\<close> and \<^verbatim>\<open>call_data.go\<close>, \<^verbatim>\<open>deploy_data.go\<close>, \<^verbatim>\<open>eth_legacy.go\<close>,
  \<^verbatim>\<open>eth_eip2930.go\<close>, \<^verbatim>\<open>eth_eip1559.go\<close> beside it. A transaction is a protobuf message and three cached
  hashes. Protobuf, the curves, BLS and the functions of go-ethereum are fields of a parameter.
  Byte slices whose nil value the code tests (the two gas caps) are options, for the others nil
  and empty are the same. A transaction of go-ethereum always has non-nil numbers, so the code's
  nil checks on them are not branches of the model.
\<close>

subsection \<open>Messages\<close>

record AccessTuple =
  at_Address :: bytes
  at_StorageKeys :: "bytes list"

record pb_Transaction =
  tx_FromAddress :: bytes
  tx_ToAddress :: bytes
  tx_Amount :: bytes
  tx_MaxGas :: u64
  tx_MaxGasPrice :: u64
  tx_MaxTimeUse :: u64
  tx_Data :: bytes
  tx_Type :: u64
  tx_RelatedAddresses :: "bytes list"
  tx_LastDeviceKey :: bytes
  tx_NewDeviceKey :: bytes
  tx_Nonce :: bytes
  tx_Sign :: bytes
  tx_ReadOnly :: bool
  tx_ChainID :: u64
  tx_R :: bytes
  tx_S :: bytes
  tx_V :: bytes
  tx_GasTipCap :: "bytes option"
  tx_GasFeeCap :: "bytes option"
  tx_AccessList :: "AccessTuple list"

definition zero_tx :: pb_Transaction where
  "zero_tx =
     \<lparr>tx_FromAddress = [], tx_ToAddress = [], tx_Amount = [], tx_MaxGas = 0, tx_MaxGasPrice = 0,
      tx_MaxTimeUse = 0, tx_Data = [], tx_Type = 0, tx_RelatedAddresses = [], tx_LastDeviceKey = [],
      tx_NewDeviceKey = [], tx_Nonce = [], tx_Sign = [], tx_ReadOnly = False, tx_ChainID = 0, tx_R = [],
      tx_S = [], tx_V = [], tx_GasTipCap = None, tx_GasFeeCap = None, tx_AccessList = []\<rparr>"

text \<open>\<^verbatim>\<open>pb.TransactionHashData\<close>; the protobuf encoding does not distinguish nil from empty.\<close>

record TransactionHashData =
  hd_FromAddress :: bytes
  hd_ToAddress :: bytes
  hd_Amount :: bytes
  hd_MaxGas :: u64
  hd_MaxGasPrice :: u64
  hd_MaxTimeUse :: u64
  hd_Data :: bytes
  hd_Type :: u64
  hd_LastDeviceKey :: bytes
  hd_NewDeviceKey :: bytes
  hd_Nonce :: bytes
  hd_ChainID :: u64
  hd_R :: bytes
  hd_S :: bytes
  hd_V :: bytes
  hd_GasTipCap :: "bytes option"
  hd_GasFeeCap :: "bytes option"
  hd_AccessList :: "AccessTuple list"

subsection \<open>Transactions of go-ethereum\<close>

record EthBase =
  e_Nonce :: u64
  e_Gas :: u64
  e_To :: "bytes option"
  e_Value :: int
  e_Data :: bytes
  e_V :: int
  e_R :: int
  e_S :: int

datatype EthTx =
    LegacyTx EthBase int
  | AccessListTx EthBase int int "(bytes \<times> bytes list) list"
  | DynamicFeeTx EthBase int int int "(bytes \<times> bytes list) list"
  | BlobTx EthBase int

datatype signer =
    HomesteadSigner
  | EIP155Signer int
  | LondonSigner int
  | CancunSigner int

fun e_base :: "EthTx \<Rightarrow> EthBase" where
  "e_base (LegacyTx b _) = b"
| "e_base (AccessListTx b _ _ _) = b"
| "e_base (DynamicFeeTx b _ _ _ _) = b"
| "e_base (BlobTx b _) = b"

text \<open>The functions of other packages that the code calls.\<close>

record tx_lib = eth_lib +
  mar_hash :: "TransactionHashData \<Rightarrow> bytes option"
  mar_CallData :: "bytes \<Rightarrow> bytes option"
  unm_CallData :: "bytes \<Rightarrow> bytes option"
  mar_DeployData :: "bytes \<times> bytes \<Rightarrow> bytes option"
  unm_DeployData :: "bytes \<Rightarrow> (bytes \<times> bytes) option"
  secp_Sign :: "bytes \<Rightarrow> bytes \<Rightarrow> bytes option"
  SigToPub :: "bytes \<Rightarrow> bytes \<Rightarrow> bytes option"
  PubkeyToAddress :: "bytes \<Rightarrow> bytes"
  ValidateSignatureValues :: "byte \<Rightarrow> int \<Rightarrow> int \<Rightarrow> bool \<Rightarrow> bool"
  RecoverPubkey :: "bytes \<Rightarrow> bytes \<Rightarrow> bytes option"
  CreateAddress :: "bytes \<Rightarrow> u64 \<Rightarrow> bytes"
  bls_Sign :: "bytes \<Rightarrow> bytes \<Rightarrow> bytes"
  bls_VerifySign :: "bytes \<Rightarrow> bytes \<Rightarrow> bytes \<Rightarrow> bool"
  LegacyChainId :: "int \<Rightarrow> int"
  eth_Sender :: "signer \<Rightarrow> EthTx \<Rightarrow> bytes option"
  signer_Hash :: "signer \<Rightarrow> EthTx \<Rightarrow> bytes"

text \<open>\<^verbatim>\<open>ChainId\<close>: a legacy transaction has it in its \<^verbatim>\<open>V\<close>.\<close>

fun e_ChainId :: "tx_lib \<Rightarrow> EthTx \<Rightarrow> int" where
  "e_ChainId X (LegacyTx b _) = LegacyChainId X (e_V b)"
| "e_ChainId X (AccessListTx _ c _ _) = c"
| "e_ChainId X (DynamicFeeTx _ c _ _ _) = c"
| "e_ChainId X (BlobTx _ c) = c"

text \<open>\<^verbatim>\<open>big.Int.Uint64\<close>: the low 64 bits of the absolute value.\<close>

definition big_Uint64 :: "int \<Rightarrow> u64" where
  "big_Uint64 i = word_of_int \<bar>i\<bar>"

subsection \<open>The transaction object\<close>

record Transaction =
  tproto :: pb_Transaction
  cachedHash :: "bytes option"
  cachedSigningHash :: "bytes option"
  cachedRHash :: "bytes option"
  isDebug :: bool

definition TransactionFromProto :: "pb_Transaction \<Rightarrow> Transaction" where
  "TransactionFromProto p =
     \<lparr>tproto = p, cachedHash = None, cachedSigningHash = None, cachedRHash = None, isDebug = False\<rparr>"

definition NewTransactionWithoutNonce ::
  "bytes \<Rightarrow> bytes \<Rightarrow> int \<Rightarrow> u64 \<Rightarrow> u64 \<Rightarrow> u64 \<Rightarrow> bytes \<Rightarrow> bytes list \<Rightarrow> bytes \<Rightarrow> bytes \<Rightarrow> u64 \<Rightarrow> Transaction" where
  "NewTransactionWithoutNonce from to amount maxGas maxGasPrice maxTimeUse data related lastKey newKey chainId =
     TransactionFromProto (zero_tx\<lparr>tx_FromAddress := from, tx_ToAddress := to, tx_Amount := big_bytes amount,
       tx_MaxGas := maxGas, tx_MaxGasPrice := maxGasPrice, tx_MaxTimeUse := maxTimeUse, tx_Data := data,
       tx_RelatedAddresses := related, tx_LastDeviceKey := lastKey, tx_NewDeviceKey := newKey,
       tx_ChainID := chainId\<rparr>)"

definition NewTransaction ::
  "bytes \<Rightarrow> bytes \<Rightarrow> int \<Rightarrow> u64 \<Rightarrow> u64 \<Rightarrow> u64 \<Rightarrow> bytes \<Rightarrow> bytes list \<Rightarrow> bytes \<Rightarrow> bytes \<Rightarrow> u64 \<Rightarrow> u64 \<Rightarrow> Transaction" where
  "NewTransaction from to amount maxGas maxGasPrice maxTimeUse data related lastKey newKey n chainId =
     TransactionFromProto (zero_tx\<lparr>tx_FromAddress := from, tx_ToAddress := to, tx_Amount := big_bytes amount,
       tx_MaxGas := maxGas, tx_MaxGasPrice := maxGasPrice, tx_MaxTimeUse := maxTimeUse, tx_Data := data,
       tx_RelatedAddresses := related, tx_LastDeviceKey := lastKey, tx_NewDeviceKey := newKey,
       tx_Nonce := put_be64 n, tx_ChainID := chainId\<rparr>)"

text \<open>\<^verbatim>\<open>NewTransactionOffChain\<close> cuts the recipient to 15 bytes and ignores \<^verbatim>\<open>lastHash\<close> and \<^verbatim>\<open>pendingUse\<close>.\<close>

definition NewTransactionOffChain ::
  "bytes \<Rightarrow> bytes \<Rightarrow> bytes \<Rightarrow> int \<Rightarrow> int \<Rightarrow> u64 \<Rightarrow> u64 \<Rightarrow> u64 \<Rightarrow> bytes \<Rightarrow> bytes list \<Rightarrow> bytes \<Rightarrow> bytes \<Rightarrow> u64 \<Rightarrow> Transaction" where
  "NewTransactionOffChain lh from to pendingUse amount maxGas maxGasPrice maxTimeUse data related lastKey
     newKey n =
     TransactionFromProto (zero_tx\<lparr>tx_FromAddress := from, tx_ToAddress := take 15 to,
       tx_Amount := big_bytes amount, tx_MaxGas := maxGas, tx_MaxGasPrice := maxGasPrice,
       tx_MaxTimeUse := maxTimeUse, tx_Data := data, tx_RelatedAddresses := related,
       tx_LastDeviceKey := lastKey, tx_NewDeviceKey := newKey, tx_Nonce := put_be64 n\<rparr>)"

definition TransactionsToProto :: "Transaction list \<Rightarrow> pb_Transaction list" where
  "TransactionsToProto ts = map tproto ts"

definition TransactionsFromProto :: "pb_Transaction list \<Rightarrow> Transaction list" where
  "TransactionsFromProto ps = map TransactionFromProto ps"

text \<open>\<^verbatim>\<open>FromProto\<close> replaces the message and leaves the cached hashes.\<close>

definition tx_FromProto :: "pb_Transaction \<Rightarrow> Transaction \<Rightarrow> Transaction" where
  "tx_FromProto p t = t\<lparr>tproto := p\<rparr>"

definition tx_Unmarshal :: "(bytes \<Rightarrow> pb_Transaction option) \<Rightarrow> bytes \<Rightarrow> Transaction \<Rightarrow> Transaction option" where
  "tx_Unmarshal unm b t = map_option (\<lambda>p. tx_FromProto p t) (unm b)"

definition CopyTransaction :: "Transaction \<Rightarrow> Transaction" where
  "CopyTransaction t = TransactionFromProto (tproto t)"

definition SetIsDebug :: "bool \<Rightarrow> Transaction \<Rightarrow> Transaction" where
  "SetIsDebug d t = t\<lparr>isDebug := d\<rparr>"

definition ClearCacheHash :: "Transaction \<Rightarrow> Transaction" where
  "ClearCacheHash t = t\<lparr>cachedHash := None, cachedSigningHash := None, cachedRHash := None\<rparr>"

subsection \<open>Hashes\<close>

definition hash_data :: "pb_Transaction \<Rightarrow> TransactionHashData" where
  "hash_data p =
     \<lparr>hd_FromAddress = tx_FromAddress p, hd_ToAddress = tx_ToAddress p, hd_Amount = tx_Amount p,
      hd_MaxGas = tx_MaxGas p, hd_MaxGasPrice = tx_MaxGasPrice p, hd_MaxTimeUse = tx_MaxTimeUse p,
      hd_Data = tx_Data p, hd_Type = tx_Type p, hd_LastDeviceKey = tx_LastDeviceKey p,
      hd_NewDeviceKey = tx_NewDeviceKey p, hd_Nonce = tx_Nonce p, hd_ChainID = tx_ChainID p,
      hd_R = tx_R p, hd_S = tx_S p, hd_V = tx_V p, hd_GasTipCap = tx_GasTipCap p,
      hd_GasFeeCap = tx_GasFeeCap p, hd_AccessList = tx_AccessList p\<rparr>"

definition signing_data :: "pb_Transaction \<Rightarrow> TransactionHashData" where
  "signing_data p = (hash_data p)\<lparr>hd_R := [], hd_S := [], hd_V := []\<rparr>"

definition rhash_data :: "pb_Transaction \<Rightarrow> TransactionHashData" where
  "rhash_data p = (hash_data p)\<lparr>hd_Nonce := []\<rparr>"

text \<open>The error of the encoder is dropped by \<^verbatim>\<open>Hash\<close> and \<^verbatim>\<open>RHash\<close>, which then hash nothing.\<close>

definition digest :: "tx_lib \<Rightarrow> TransactionHashData \<Rightarrow> bytes" where
  "digest X d = Keccak256Hash X (case mar_hash X d of None \<Rightarrow> [] | Some b \<Rightarrow> b)"

definition Hash :: "tx_lib \<Rightarrow> Transaction \<Rightarrow> bytes \<times> Transaction" where
  "Hash X t =
     (case cachedHash t of
        Some h \<Rightarrow> (h, t)
      | None \<Rightarrow> let h = digest X (hash_data (tproto t)) in (h, t\<lparr>cachedHash := Some h\<rparr>))"

definition SigningHash :: "tx_lib \<Rightarrow> Transaction \<Rightarrow> bytes \<times> Transaction" where
  "SigningHash X t =
     (case cachedSigningHash t of
        Some h \<Rightarrow> (h, t)
      | None \<Rightarrow>
          (case mar_hash X (signing_data (tproto t)) of
             None \<Rightarrow> (zero_hash32, t)
           | Some b \<Rightarrow> let h = Keccak256Hash X b in (h, t\<lparr>cachedSigningHash := Some h\<rparr>)))"

definition tx_RHash :: "tx_lib \<Rightarrow> Transaction \<Rightarrow> bytes \<times> Transaction" where
  "tx_RHash X t =
     (case cachedRHash t of
        Some h \<Rightarrow> (h, t)
      | None \<Rightarrow> let h = digest X (rhash_data (tproto t)) in (h, t\<lparr>cachedRHash := Some h\<rparr>))"
subsection \<open>Reading a transaction\<close>

definition GetNonce :: "Transaction \<Rightarrow> u64" where
  "GetNonce t = (if length (tx_Nonce (tproto t)) = 8 then get_be64 (tx_Nonce (tproto t)) else 0)"

definition GetNonce32Bytes :: "Transaction \<Rightarrow> bytes" where
  "GetNonce32Bytes t = be_bytes 32 (unat (GetNonce t))"

definition FromAddress :: "tx_lib \<Rightarrow> Transaction \<Rightarrow> bytes" where
  "FromAddress X t = BytesToAddress X (tx_FromAddress (tproto t))"

definition tx_To :: "tx_lib \<Rightarrow> Transaction \<Rightarrow> bytes" where
  "tx_To X t = BytesToAddress X (tx_ToAddress (tproto t))"

definition tx_SignOf :: "Transaction \<Rightarrow> bytes" where
  "tx_SignOf t = SignFromBytes (tx_Sign (tproto t))"

definition Amount :: "Transaction \<Rightarrow> int" where
  "Amount t = big_set_bytes (tx_Amount (tproto t))"

definition zero_address :: bytes where
  "zero_address = replicate 20 0"

definition IsDeployContract :: "tx_lib \<Rightarrow> Transaction \<Rightarrow> bool" where
  "IsDeployContract X t \<longleftrightarrow> GetNonce t \<noteq> 0 \<and> FromAddress X t \<noteq> tx_To X t \<and> tx_To X t = zero_address \<and>
     length (tx_Data (tproto t)) > 0"

definition IsCallContract :: "tx_lib \<Rightarrow> Transaction \<Rightarrow> bool" where
  "IsCallContract X t \<longleftrightarrow> tx_To X t \<noteq> zero_address \<and> length (tx_Data (tproto t)) > 0"

definition IsRegularTransaction :: "tx_lib \<Rightarrow> Transaction \<Rightarrow> bool" where
  "IsRegularTransaction X t \<longleftrightarrow> tx_To X t \<noteq> zero_address \<and> length (tx_Data (tproto t)) = 0"

text \<open>The error of \<^verbatim>\<open>Unmarshal\<close> is ignored. \<^verbatim>\<open>CallData.Input\<close> then gives nil; \<^verbatim>\<open>DeployData.Code\<close> dereferences a
  nil pointer, the outer \<open>None\<close>.\<close>

definition CallData_Input :: "tx_lib \<Rightarrow> Transaction \<Rightarrow> bytes" where
  "CallData_Input X t = (case unm_CallData X (tx_Data (tproto t)) of None \<Rightarrow> [] | Some i \<Rightarrow> i)"

definition DeployData_Code :: "tx_lib \<Rightarrow> Transaction \<Rightarrow> bytes option" where
  "DeployData_Code X t = map_option fst (unm_DeployData X (tx_Data (tproto t)))"

definition GetData :: "tx_lib \<Rightarrow> Transaction \<Rightarrow> bytes option" where
  "GetData X t =
     (if IsCallContract X t then Some (CallData_Input X t)
      else if IsDeployContract X t then DeployData_Code X t
      else Some (tx_Data (tproto t)))"

definition RelatedAddresses :: "tx_lib \<Rightarrow> Transaction \<Rightarrow> bytes list" where
  "RelatedAddresses X t = map (BytesToAddress X) (tx_RelatedAddresses (tproto t)) @ [tx_To X t]"

text \<open>\<^verbatim>\<open>Fee\<close> converts through \<^verbatim>\<open>int64\<close>; \<^verbatim>\<open>MaxTimeUse/1000 + 1.0\<close> is computed in \<^verbatim>\<open>uint64\<close>.\<close>

definition Fee :: "u64 \<Rightarrow> Transaction \<Rightarrow> int" where
  "Fee currentGasPrice t =
     sint (tx_MaxGas (tproto t)) * sint currentGasPrice * sint (tx_MaxTimeUse (tproto t) div 1000 + 1)"

definition GasFeeCap :: "Transaction \<Rightarrow> int" where
  "GasFeeCap t = (case tx_GasFeeCap (tproto t) of None \<Rightarrow> 0 | Some b \<Rightarrow> big_set_bytes b)"

definition GasTipCap :: "Transaction \<Rightarrow> int" where
  "GasTipCap t = (case tx_GasTipCap (tproto t) of None \<Rightarrow> 0 | Some b \<Rightarrow> big_set_bytes b)"

definition MaxFee :: "Transaction \<Rightarrow> int" where
  "MaxFee t =
     (if tx_Type (tproto t) = 0 \<or> tx_Type (tproto t) = 1
      then uint (tx_MaxGas (tproto t)) * uint (tx_MaxGasPrice (tproto t))
      else if tx_Type (tproto t) = 2 then uint (tx_MaxGas (tproto t)) * GasFeeCap t
      else 0)"

definition RawSignatureValues :: "Transaction \<Rightarrow> int \<times> int \<times> int" where
  "RawSignatureValues t =
     (big_set_bytes (tx_V (tproto t)), big_set_bytes (tx_R (tproto t)), big_set_bytes (tx_S (tproto t)))"

subsection \<open>Changing a transaction\<close>

definition on_proto :: "(pb_Transaction \<Rightarrow> pb_Transaction) \<Rightarrow> Transaction \<Rightarrow> Transaction" where
  "on_proto f t = t\<lparr>tproto := f (tproto t)\<rparr>"

definition UpdateRelatedAddresses :: "bytes list \<Rightarrow> Transaction \<Rightarrow> Transaction" where
  "UpdateRelatedAddresses as t = ClearCacheHash (on_proto (\<lambda>p. p\<lparr>tx_RelatedAddresses := as\<rparr>) t)"

definition AddRelatedAddress :: "bytes \<Rightarrow> Transaction \<Rightarrow> Transaction" where
  "AddRelatedAddress a t =
     (if a \<in> set (tx_RelatedAddresses (tproto t)) then t
      else ClearCacheHash (on_proto (\<lambda>p. p\<lparr>tx_RelatedAddresses := tx_RelatedAddresses p @ [a]\<rparr>) t))"

definition UpdateDeriver :: "bytes \<Rightarrow> bytes \<Rightarrow> Transaction \<Rightarrow> Transaction" where
  "UpdateDeriver l n t = ClearCacheHash (on_proto (\<lambda>p. p\<lparr>tx_LastDeviceKey := l, tx_NewDeviceKey := n\<rparr>) t)"

definition SetReadOnly :: "bool \<Rightarrow> Transaction \<Rightarrow> Transaction" where
  "SetReadOnly r t = ClearCacheHash (on_proto (\<lambda>p. p\<lparr>tx_ReadOnly := r\<rparr>) t)"

definition SetType :: "u64 \<Rightarrow> Transaction \<Rightarrow> Transaction" where
  "SetType ty t = ClearCacheHash (on_proto (\<lambda>p. p\<lparr>tx_Type := ty\<rparr>) t)"

definition SetGasFeeCap :: "int option \<Rightarrow> Transaction \<Rightarrow> Transaction" where
  "SetGasFeeCap c t = ClearCacheHash (on_proto (\<lambda>p. p\<lparr>tx_GasFeeCap := map_option big_bytes c\<rparr>) t)"

definition SetSignatureValues :: "int \<Rightarrow> int \<Rightarrow> int \<Rightarrow> int \<Rightarrow> Transaction \<Rightarrow> Transaction" where
  "SetSignatureValues chainID v r s t =
     ClearCacheHash (on_proto (\<lambda>p. p\<lparr>tx_V := big_bytes v, tx_R := big_bytes r, tx_S := big_bytes s,
       tx_ChainID := word_of_int chainID\<rparr>) t)"

definition SetSign :: "tx_lib \<Rightarrow> bytes \<Rightarrow> Transaction \<Rightarrow> Transaction" where
  "SetSign X priv t = (case Hash X t of (h, t) \<Rightarrow> on_proto (\<lambda>p. p\<lparr>tx_Sign := bls_Sign X priv h\<rparr>) t)"

definition SetSignBytes :: "bytes \<Rightarrow> Transaction \<Rightarrow> Transaction" where
  "SetSignBytes b t = on_proto (\<lambda>p. p\<lparr>tx_Sign := b\<rparr>) t"

definition SetMaxGasPrice :: "u64 \<Rightarrow> Transaction \<Rightarrow> Transaction" where
  "SetMaxGasPrice g t = ClearCacheHash (on_proto (\<lambda>p. p\<lparr>tx_MaxGasPrice := g\<rparr>) t)"

definition tx_SetNonce :: "u64 \<Rightarrow> Transaction \<Rightarrow> Transaction" where
  "tx_SetNonce n t = ClearCacheHash (on_proto (\<lambda>p. p\<lparr>tx_Nonce := put_be64 n\<rparr>) t)"

definition SetFromAddress :: "bytes \<Rightarrow> Transaction \<Rightarrow> Transaction" where
  "SetFromAddress a t = ClearCacheHash (on_proto (\<lambda>p. p\<lparr>tx_FromAddress := a\<rparr>) t)"

definition SetToAddress :: "bytes \<Rightarrow> Transaction \<Rightarrow> Transaction" where
  "SetToAddress a t = ClearCacheHash (on_proto (\<lambda>p. p\<lparr>tx_ToAddress := a\<rparr>) t)"

subsection \<open>Secp256k1 signatures on the message\<close>

datatype sign_error = NilPrivateKey | SignFailed | InvalidSignatureLength int

definition SignSecpProto :: "tx_lib \<Rightarrow> bytes option \<Rightarrow> Transaction \<Rightarrow> sign_error option \<times> Transaction" where
  "SignSecpProto X privKey t =
     (case privKey of
        None \<Rightarrow> (Some NilPrivateKey, t)
      | Some k \<Rightarrow>
          let t = ClearCacheHash (on_proto (\<lambda>p. p\<lparr>tx_Type := 0xFF, tx_Sign := []\<rparr>) t) in
          case SigningHash X t of (h, t) \<Rightarrow>
            (case secp_Sign X h k of
               None \<Rightarrow> (Some SignFailed, t)
             | Some sig \<Rightarrow>
                 if length sig \<noteq> 65 then (Some (InvalidSignatureLength (int (length sig))), t)
                 else (None, ClearCacheHash (on_proto (\<lambda>p. p\<lparr>tx_R := go_copy (replicate 32 0) (take 32 sig),
                        tx_S := go_copy (replicate 32 0) (take 32 (drop 32 sig)), tx_V := [sig ! 64]\<rparr>) t))))"

definition ValidSecpProtoSign :: "tx_lib \<Rightarrow> Transaction \<Rightarrow> bool \<times> Transaction" where
  "ValidSecpProtoSign X t =
     (let p = tproto t in
      if tx_Type p \<noteq> 0xFF \<or> length (tx_Sign p) \<noteq> 0 \<or>
         length (tx_R p) \<noteq> 32 \<or> length (tx_S p) \<noteq> 32 \<or> length (tx_V p) \<noteq> 1 then (False, t)
      else
        let v = tx_V p ! 0 in
        if v > 1 \<or> tx_ChainID p = 0 \<or>
           \<not> ValidateSignatureValues X v (big_set_bytes (tx_R p)) (big_set_bytes (tx_S p)) True then (False, t)
        else
          case SigningHash X t of (h, t) \<Rightarrow>
            (case SigToPub X h (tx_R p @ tx_S p @ [v]) of
               None \<Rightarrow> (False, t)
             | Some pub \<Rightarrow> (PubkeyToAddress X pub = FromAddress X t, t)))"

end
