(* ===== verification/Transaction_Eth.thy ===== *)
theory Transaction_Eth
  imports Transaction
begin

text \<open>
  Ethereum transactions and the checks on transactions: the conversions of \<^verbatim>\<open>eth_legacy.go\<close>,
  \<^verbatim>\<open>eth_eip2930.go\<close>, \<^verbatim>\<open>eth_eip1559.go\<close> and \<^verbatim>\<open>transaction.go\<close> between the messages of this code and the
  transactions of go-ethereum, the recovery of the sender, and the functions \<^verbatim>\<open>Valid...\<close> of
  \<^verbatim>\<open>transaction.go\<close> (all in \<^verbatim>\<open>src/pkg/transaction\<close>). A conversion that fails returns its error; what it
  had written to the message by then is not part of the model. A result inside a further
  \<open>option\<close> is \<open>None\<close> when the code panics.
\<close>

datatype tx_error =
    ErrUnsupportedType
  | ErrMarshalData
  | ErrDeriveSender
  | ErrMissingChainID
  | ErrRecoverPubkey

subsection \<open>From Ethereum\<close>

text \<open>The storage address of deployed contracts, \<^verbatim>\<open>0xda7284fac5e804f8b9d71aa39310f0f86776b51d\<close>.\<close>

definition deploy_storage :: "tx_lib \<Rightarrow> bytes" where
  "deploy_storage X = HexToAddress X ''0xda7284fac5e804f8b9d71aa39310f0f86776b51d''"

definition prepareTransactionSpecificData :: "tx_lib \<Rightarrow> EthBase \<Rightarrow> bytes \<Rightarrow> bytes option" where
  "prepareTransactionSpecificData X b storageAddr =
     (if length (e_Data b) > 0 \<and> e_To b = None then mar_DeployData X (e_Data b, storageAddr)
      else if length (e_Data b) > 0 then mar_CallData X (e_Data b)
      else Some [])"

definition from_access_list :: "(bytes \<times> bytes list) list \<Rightarrow> AccessTuple list" where
  "from_access_list al = map (\<lambda>(a, ks). \<lparr>at_Address = a, at_StorageKeys = ks\<rparr>) al"

definition toEthAccessList :: "tx_lib \<Rightarrow> AccessTuple list \<Rightarrow> (bytes \<times> bytes list) list" where
  "toEthAccessList X al =
     map (\<lambda>t. (BytesToAddress X (at_Address t), map (BytesToHash32 X) (at_StorageKeys t))) al"

definition extractSignature :: "pb_Transaction \<Rightarrow> int \<times> int \<times> int" where
  "extractSignature p = (big_set_bytes (tx_V p), big_set_bytes (tx_R p), big_set_bytes (tx_S p))"

text \<open>What the three conversions have in common: recipient, value, gas, nonce and data.\<close>

definition from_base :: "EthBase \<Rightarrow> bytes \<Rightarrow> pb_Transaction \<Rightarrow> pb_Transaction" where
  "from_base b data p =
     p\<lparr>tx_ToAddress := (case e_To b of None \<Rightarrow> [] | Some a \<Rightarrow> a), tx_Amount := big_bytes (e_Value b),
       tx_MaxGas := e_Gas b, tx_Nonce := put_be64 (e_Nonce b), tx_Data := data\<rparr>"

definition from_sig :: "EthBase \<Rightarrow> bytes \<Rightarrow> byte \<Rightarrow> pb_Transaction \<Rightarrow> pb_Transaction" where
  "from_sig b sender parity p =
     p\<lparr>tx_V := big_bytes (e_V b), tx_R := big_bytes (e_R b), tx_S := big_bytes (e_S b),
       tx_FromAddress := sender, tx_Sign := big_bytes (e_R b) @ big_bytes (e_S b) @ [parity]\<rparr>"

definition legacy_signer :: "int \<Rightarrow> signer" where
  "legacy_signer chainId = (if chainId \<noteq> 0 then EIP155Signer chainId else HomesteadSigner)"

definition legacy_recoveryID :: "int \<Rightarrow> int \<Rightarrow> byte" where
  "legacy_recoveryID chainId v =
     (if chainId \<noteq> 0 then ucast (big_Uint64 (v - (chainId * 2 + 35)))
      else
        let recoveryID = ucast (big_Uint64 (v - 27)) :: byte in
        if recoveryID > 1 \<and> big_Uint64 (v - 28) \<le> 1 then ucast (big_Uint64 (v - 28)) else recoveryID)"

definition FromEthLegacyTx :: "tx_lib \<Rightarrow> EthBase \<Rightarrow> int \<Rightarrow> pb_Transaction \<Rightarrow> tx_error + pb_Transaction" where
  "FromEthLegacyTx X b gasPrice p =
     (case prepareTransactionSpecificData X b (deploy_storage X) of
        None \<Rightarrow> Inl ErrMarshalData
      | Some data \<Rightarrow>
          let chainId = e_ChainId X (LegacyTx b gasPrice) in
          case eth_Sender X (legacy_signer chainId) (LegacyTx b gasPrice) of
            None \<Rightarrow> Inl ErrDeriveSender
          | Some sender \<Rightarrow>
              Inr ((from_sig b sender (legacy_recoveryID chainId (e_V b)) (from_base b data p))
                \<lparr>tx_Type := 0, tx_MaxGasPrice := big_Uint64 gasPrice, tx_ChainID := big_Uint64 chainId,
                 tx_MaxTimeUse := 0, tx_RelatedAddresses := [], tx_LastDeviceKey := [], tx_NewDeviceKey := [],
                 tx_ReadOnly := False, tx_GasTipCap := None, tx_GasFeeCap := None, tx_AccessList := []\<rparr>))"

text \<open>The last byte of \<^verbatim>\<open>v\<close>, zero when it has none.\<close>

definition parity_byte :: "int \<Rightarrow> byte" where
  "parity_byte v = (if big_bytes v = [] then 0 else last (big_bytes v))"

definition FromEthEIP2930Tx ::
  "tx_lib \<Rightarrow> EthBase \<Rightarrow> int \<Rightarrow> int \<Rightarrow> (bytes \<times> bytes list) list \<Rightarrow> pb_Transaction \<Rightarrow> tx_error + pb_Transaction" where
  "FromEthEIP2930Tx X b chainId gasPrice al p =
     (case prepareTransactionSpecificData X b (deploy_storage X) of
        None \<Rightarrow> Inl ErrMarshalData
      | Some data \<Rightarrow>
          (case eth_Sender X (LondonSigner chainId) (AccessListTx b chainId gasPrice al) of
             None \<Rightarrow> Inl ErrDeriveSender
           | Some sender \<Rightarrow>
               Inr ((from_sig b sender (parity_byte (e_V b)) (from_base b data p))
                 \<lparr>tx_Type := 1, tx_ChainID := big_Uint64 chainId, tx_MaxGasPrice := big_Uint64 gasPrice,
                  tx_AccessList := from_access_list al, tx_MaxTimeUse := 0, tx_RelatedAddresses := [],
                  tx_LastDeviceKey := [], tx_NewDeviceKey := [], tx_ReadOnly := False,
                  tx_GasTipCap := None, tx_GasFeeCap := None\<rparr>)))"

definition FromEthEIP1559Tx ::
  "tx_lib \<Rightarrow> EthBase \<Rightarrow> int \<Rightarrow> int \<Rightarrow> int \<Rightarrow> (bytes \<times> bytes list) list \<Rightarrow> pb_Transaction \<Rightarrow>
   tx_error + pb_Transaction" where
  "FromEthEIP1559Tx X b chainId tip feeCap al p =
     (case prepareTransactionSpecificData X b (deploy_storage X) of
        None \<Rightarrow> Inl ErrMarshalData
      | Some data \<Rightarrow>
          (case eth_Sender X (LondonSigner chainId) (DynamicFeeTx b chainId tip feeCap al) of
             None \<Rightarrow> Inl ErrDeriveSender
           | Some sender \<Rightarrow>
               Inr ((from_sig b sender (parity_byte (e_V b)) (from_base b data p))
                 \<lparr>tx_Type := 2, tx_ChainID := big_Uint64 chainId, tx_GasTipCap := Some (big_bytes tip),
                  tx_GasFeeCap := Some (big_bytes feeCap), tx_MaxGasPrice := 0,
                  tx_AccessList := from_access_list al\<rparr>)))"

fun FromEthTransaction :: "tx_lib \<Rightarrow> EthTx \<Rightarrow> pb_Transaction \<Rightarrow> tx_error + pb_Transaction" where
  "FromEthTransaction X (LegacyTx b gasPrice) p = FromEthLegacyTx X b gasPrice p"
| "FromEthTransaction X (AccessListTx b c gasPrice al) p = FromEthEIP2930Tx X b c gasPrice al p"
| "FromEthTransaction X (DynamicFeeTx b c tip feeCap al) p = FromEthEIP1559Tx X b c tip feeCap al p"
| "FromEthTransaction X (BlobTx b c) p = Inl ErrUnsupportedType"

definition NewTransactionFromEth :: "tx_lib \<Rightarrow> EthTx \<Rightarrow> tx_error + Transaction" where
  "NewTransactionFromEth X tx =
     (case FromEthTransaction X tx zero_tx of
        Inl e \<Rightarrow> Inl e
      | Inr p \<Rightarrow> Inr (TransactionFromProto p))"

subsection \<open>To Ethereum\<close>

definition eth_base :: "tx_lib \<Rightarrow> pb_Transaction \<Rightarrow> bytes \<Rightarrow> EthBase" where
  "eth_base X p data =
     (case extractSignature p of (v, r, s) \<Rightarrow>
      \<lparr>e_Nonce = (if length (tx_Nonce p) > 0 then big_Uint64 (big_set_bytes (tx_Nonce p)) else 0),
       e_Gas = tx_MaxGas p,
       e_To = (if length (tx_ToAddress p) > 0 then Some (BytesToAddress X (tx_ToAddress p)) else None),
       e_Value = big_set_bytes (tx_Amount p), e_Data = data, e_V = v, e_R = r, e_S = s\<rparr>)"

definition eth_data :: "tx_lib \<Rightarrow> Transaction \<Rightarrow> bytes option" where
  "eth_data X t =
     (if IsDeployContract X t then DeployData_Code X t
      else if IsCallContract X t then Some (CallData_Input X t)
      else Some [])"

text \<open>\<^verbatim>\<open>ToEthTransaction\<close>; the inner \<open>None\<close> is the nil result.\<close>

definition ToEthTransaction :: "tx_lib \<Rightarrow> Transaction \<Rightarrow> EthTx option option" where
  "ToEthTransaction X t =
     (case eth_data X t of
        None \<Rightarrow> None
      | Some data \<Rightarrow> Some (
          let p = tproto t; b = eth_base X p data; chainID = uint (tx_ChainID p) in
          if tx_Type p = 0 then Some (LegacyTx b (uint (tx_MaxGasPrice p)))
          else if tx_Type p = 1 then
            (if tx_ChainID p = 0 \<or> tx_MaxGasPrice p = 0 then None
             else Some (AccessListTx b chainID (uint (tx_MaxGasPrice p)) (toEthAccessList X (tx_AccessList p))))
          else if tx_Type p = 2 then
            (if tx_ChainID p = 0 then None
             else case (tx_GasTipCap p, tx_GasFeeCap p) of
               (Some tip, Some feeCap) \<Rightarrow>
                 Some (DynamicFeeTx b chainID (big_set_bytes tip) (big_set_bytes feeCap)
                   (toEthAccessList X (tx_AccessList p)))
             | _ \<Rightarrow> None)
          else None))"

definition ToEthLegacyTx :: "tx_lib \<Rightarrow> pb_Transaction \<Rightarrow> EthTx option" where
  "ToEthLegacyTx X p =
     (if tx_Type p \<noteq> 0 then None
      else
        let b = (eth_base X p (tx_Data p))\<lparr>e_Nonce := big_Uint64 (big_set_bytes (tx_Nonce p))\<rparr>;
            gp = uint (tx_MaxGasPrice p);
            vRaw = tx_Sign p ! 64; chainID = uint (tx_ChainID p)
        in Some (
          if length (tx_Sign p) = 65 then
            LegacyTx (b\<lparr>e_R := big_set_bytes (take 32 (tx_Sign p)),
              e_S := big_set_bytes (take 32 (drop 32 (tx_Sign p))),
              e_V := (if chainID > 0 then uint vRaw + (chainID * 2 + 35) else uint (vRaw + 27))\<rparr>) gp
          else if length (tx_R p) > 0 \<and> length (tx_S p) > 0 \<and> length (tx_V p) > 0 then LegacyTx b gp
          else LegacyTx (b\<lparr>e_V := 0, e_R := 0, e_S := 0\<rparr>) gp))"

definition ToEthEIP2930Tx :: "tx_lib \<Rightarrow> pb_Transaction \<Rightarrow> EthTx option" where
  "ToEthEIP2930Tx X p =
     (if tx_Type p \<noteq> 1 \<or> tx_ChainID p = 0 \<or> tx_MaxGasPrice p = 0 then None
      else Some (AccessListTx (eth_base X p (tx_Data p)) (uint (tx_ChainID p)) (uint (tx_MaxGasPrice p))
             (toEthAccessList X (tx_AccessList p))))"

definition ToEthEIP1559Tx :: "tx_lib \<Rightarrow> pb_Transaction \<Rightarrow> EthTx option" where
  "ToEthEIP1559Tx X p =
     (if tx_Type p \<noteq> 2 \<or> tx_ChainID p = 0 then None
      else case (tx_GasTipCap p, tx_GasFeeCap p) of
        (Some tip, Some feeCap) \<Rightarrow>
          Some (DynamicFeeTx (eth_base X p (tx_Data p)) (uint (tx_ChainID p)) (big_set_bytes tip)
                 (big_set_bytes feeCap) (toEthAccessList X (tx_AccessList p)))
      | _ \<Rightarrow> None)"

subsection \<open>The sender\<close>

fun choose_signer :: "tx_lib \<Rightarrow> EthTx \<Rightarrow> int \<Rightarrow> signer option" where
  "choose_signer X (LegacyTx b gp) chainID =
     (let c = e_ChainId X (LegacyTx b gp) in
      Some (if chainID > 0 \<and> c = chainID then EIP155Signer chainID
            else if c = 0 then HomesteadSigner else EIP155Signer c))"
| "choose_signer X (AccessListTx b c gp al) chainID = (if c \<le> 0 then None else Some (LondonSigner c))"
| "choose_signer X (DynamicFeeTx b c tip fc al) chainID = (if c \<le> 0 then None else Some (LondonSigner c))"
| "choose_signer X (BlobTx b c) chainID = (if c \<le> 0 then None else Some (CancunSigner c))"

definition DeriveSenderFromEthTransaction :: "tx_lib \<Rightarrow> EthTx \<Rightarrow> int \<Rightarrow> tx_error + bytes" where
  "DeriveSenderFromEthTransaction X tx chainID =
     (case choose_signer X tx chainID of
        None \<Rightarrow> Inl ErrMissingChainID
      | Some sg \<Rightarrow>
          (case eth_Sender X sg tx of None \<Rightarrow> Inl ErrDeriveSender | Some a \<Rightarrow> Inr a))"

text \<open>\<^verbatim>\<open>FillBytes\<close> of a 32-byte buffer panics when the number does not fit.\<close>

definition fill32 :: "int \<Rightarrow> bytes option" where
  "fill32 i = (if \<bar>i\<bar> < 256 ^ 32 then Some (be_bytes 32 (nat \<bar>i\<bar>)) else None)"

definition recovery_id :: "tx_lib \<Rightarrow> EthTx \<Rightarrow> int" where
  "recovery_id X tx =
     (let v = e_V (e_base tx); c = e_ChainId X tx in
      case tx of
        LegacyTx _ _ \<Rightarrow> if c \<noteq> 0 then v - c * 2 - 35 else v - 27
      | _ \<Rightarrow> v)"

definition DerivePublicKeyFromEthTransaction :: "tx_lib \<Rightarrow> EthTx \<Rightarrow> int \<Rightarrow> (tx_error + bytes) option" where
  "DerivePublicKeyFromEthTransaction X tx chainID =
     (case choose_signer X tx chainID of
        None \<Rightarrow> Some (Inl ErrMissingChainID)
      | Some sg \<Rightarrow>
          (case (fill32 (e_R (e_base tx)), fill32 (e_S (e_base tx))) of
             (Some r, Some s) \<Rightarrow>
               Some (case SigToPub X (signer_Hash X sg tx) (r @ s @ [ucast (big_Uint64 (recovery_id X tx))]) of
                       None \<Rightarrow> Inl ErrRecoverPubkey | Some pk \<Rightarrow> Inr pk)
           | _ \<Rightarrow> None))"

definition ValidEthSign :: "tx_lib \<Rightarrow> Transaction \<Rightarrow> bool option" where
  "ValidEthSign X t =
     (case ToEthTransaction X t of
        None \<Rightarrow> None
      | Some None \<Rightarrow> Some False
      | Some (Some tx) \<Rightarrow>
          Some (case DeriveSenderFromEthTransaction X tx (uint (tx_ChainID (tproto t))) of
                  Inl _ \<Rightarrow> False
                | Inr from \<Rightarrow> from = FromAddress X t))"

definition ValidSecpSign :: "tx_lib \<Rightarrow> Transaction \<Rightarrow> bool option" where
  "ValidSecpSign X t =
     (if tx_Type (tproto t) = 0xFF then Some (fst (ValidSecpProtoSign X t)) else ValidEthSign X t)"

subsection \<open>Checks against an account\<close>

definition ValidSign :: "tx_lib \<Rightarrow> bytes \<Rightarrow> Transaction \<Rightarrow> bool" where
  "ValidSign X pub t = bls_VerifySign X pub (tx_SignOf t) (fst (Hash X t))"

definition ValidChainID :: "u64 \<Rightarrow> Transaction \<Rightarrow> bool" where
  "ValidChainID chainId t \<longleftrightarrow> tx_ChainID (tproto t) = chainId"

definition ValidNonce :: "AccountState \<Rightarrow> Transaction \<Rightarrow> bool" where
  "ValidNonce st t \<longleftrightarrow> GetNonce t = nonce st"

text \<open>\<^verbatim>\<open>MIN_TX_TIME\<close> and \<^verbatim>\<open>MAX_GROUP_TIME\<close> of \<^verbatim>\<open>src/pkg/common/constant.go\<close>.\<close>

definition ValidMinTimeUse :: "Transaction \<Rightarrow> bool" where
  "ValidMinTimeUse t \<longleftrightarrow> tx_MaxTimeUse (tproto t) \<ge> 1 \<and> tx_MaxTimeUse (tproto t) \<le> 9999999999999999999"

definition ValidTx0 :: "tx_lib \<Rightarrow> AccountState \<Rightarrow> bytes \<Rightarrow> Transaction \<Rightarrow> bool \<times> int" where
  "ValidTx0 X st chainId t =
     (if GetNonce t = 0 \<and> length (publicKeyBls st) = 0 then
        let dataInput = CallData_Input X t in
        if length dataInput \<noteq> 113 then (False, 35)
        else
          let h = Keccak256Hash X (take 48 dataInput @ chainId) in
          if \<not> bls_VerifySign X (PubkeyFromBytes (take 48 dataInput)) (tx_SignOf t) (fst (Hash X t))
          then (False, 36)
          else case RecoverPubkey X h (drop 48 dataInput) of
            None \<Rightarrow> (False, 37)
          | Some pub \<Rightarrow>
              let addr = to_array 20 (drop 12 (Keccak256Hash X (drop 1 pub))) in
              if FromAddress X t = tx_To X t \<and> addr = FromAddress X t then (True, 0) else (False, 38)
      else if GetNonce t = 0 \<and> length (publicKeyBls st) \<noteq> 0 then (False, 39)
      else (True, 0))"

definition ValidDeviceKey :: "tx_lib \<Rightarrow> AccountState \<Rightarrow> Transaction \<Rightarrow> bool" where
  "ValidDeviceKey X st t \<longleftrightarrow> deviceKey st = zero_hash32 \<or>
     Keccak256Hash X (BytesToHash32 X (tx_LastDeviceKey (tproto t))) = deviceKey st"

text \<open>\<^verbatim>\<open>TRANSFER_GAS_COST\<close> is a variable that the environment may set.\<close>

definition ValidMaxGas :: "u64 \<Rightarrow> Transaction \<Rightarrow> bool" where
  "ValidMaxGas transferGasCost t \<longleftrightarrow> tx_MaxGas (tproto t) \<ge> transferGasCost"

definition ValidMaxGasPrice :: "tx_lib \<Rightarrow> bytes \<Rightarrow> u64 \<Rightarrow> Transaction \<Rightarrow> bool" where
  "ValidMaxGasPrice X rewardAddress currentGasPrice t \<longleftrightarrow>
     tx_To X t = rewardAddress \<and> IsCallContract X t \<or> currentGasPrice \<le> tx_MaxGasPrice (tproto t)"

definition ValidAmountSpend :: "AccountState \<Rightarrow> int \<Rightarrow> Transaction \<Rightarrow> bool" where
  "ValidAmountSpend st spendAmount t \<longleftrightarrow> balance st + pendingBalance st \<ge> spendAmount + Amount t"

definition ValidMaxFee :: "AccountState \<Rightarrow> Transaction \<Rightarrow> bool" where
  "ValidMaxFee st t = ValidAmountSpend st (MaxFee t) t"

definition ValidAmount :: "AccountState \<Rightarrow> Transaction \<Rightarrow> bool" where
  "ValidAmount st t = ValidAmountSpend st 0 t"

definition ValidPendingUse :: "AccountState \<Rightarrow> Transaction \<Rightarrow> bool" where
  "ValidPendingUse st t \<longleftrightarrow> pendingBalance st \<le> pendingBalance st"

definition ValidDeploySmartContractToAccount :: "tx_lib \<Rightarrow> AccountState \<Rightarrow> Transaction \<Rightarrow> bool" where
  "ValidDeploySmartContractToAccount X st t \<longleftrightarrow> CreateAddress X (as_address st) (nonce st) = tx_To X t"

definition ValidOpenChannelToAccount :: "tx_lib \<Rightarrow> AccountState \<Rightarrow> Transaction \<Rightarrow> bool" where
  "ValidOpenChannelToAccount X st t \<longleftrightarrow> CreateAddress X (as_address st) (nonce st) = tx_To X t"

definition ValidDeployData :: "tx_lib \<Rightarrow> Transaction \<Rightarrow> bool option" where
  "ValidDeployData X t =
     (if IsDeployContract X t then map_option (\<lambda>c. length c \<noteq> 0) (DeployData_Code X t) else Some True)"

definition ValidCallData :: "tx_lib \<Rightarrow> Transaction \<Rightarrow> bool" where
  "ValidCallData X t \<longleftrightarrow> (IsCallContract X t \<longrightarrow> length (CallData_Input X t) \<noteq> 0)"

definition ValidCallSmartContractToAccount :: "tx_lib \<Rightarrow> AccountState \<Rightarrow> Transaction \<Rightarrow> bool" where
  "ValidCallSmartContractToAccount X st t \<longleftrightarrow> (IsCallContract X t \<longrightarrow> smartContractState st \<noteq> None)"

end
