(* ===== verification/Transaction_Props.thy ===== *)
theory Transaction_Props
  imports Transaction_Eth
begin

text \<open>
  Properties of transactions: the cached hashes, the signature on the message, and the conversion
  from and to Ethereum transactions.
\<close>

subsection \<open>Cached hashes\<close>

lemmas setter_defs = UpdateRelatedAddresses_def AddRelatedAddress_def UpdateDeriver_def SetReadOnly_def
  SetType_def SetGasFeeCap_def SetSignatureValues_def SetMaxGasPrice_def tx_SetNonce_def SetFromAddress_def
  SetToAddress_def ClearCacheHash_def on_proto_def

lemmas hash_defs = Hash_def SigningHash_def tx_RHash_def Let_def

text \<open>What \<^verbatim>\<open>SigningHash\<close> computes without its cache.\<close>

definition signing_digest :: "tx_lib \<Rightarrow> pb_Transaction \<Rightarrow> bytes" where
  "signing_digest X p =
     (case mar_hash X (signing_data p) of None \<Rightarrow> zero_hash32 | Some b \<Rightarrow> Keccak256Hash X b)"

definition coherent :: "tx_lib \<Rightarrow> Transaction \<Rightarrow> bool" where
  "coherent X t \<longleftrightarrow>
     (\<forall>h. cachedHash t = Some h \<longrightarrow> h = digest X (hash_data (tproto t))) \<and>
     (\<forall>h. cachedSigningHash t = Some h \<longrightarrow> h = signing_digest X (tproto t)) \<and>
     (\<forall>h. cachedRHash t = Some h \<longrightarrow> h = digest X (rhash_data (tproto t)))"

text \<open>The calls on a transaction object, apart from \<^verbatim>\<open>FromProto\<close> and \<^verbatim>\<open>Unmarshal\<close>.\<close>

inductive tx_reachable :: "tx_lib \<Rightarrow> Transaction \<Rightarrow> bool" for X where
  r_new: "tx_reachable X (TransactionFromProto p)"
| r_copy: "tx_reachable X t \<Longrightarrow> tx_reachable X (CopyTransaction t)"
| r_debug: "tx_reachable X t \<Longrightarrow> tx_reachable X (SetIsDebug d t)"
| r_hash: "tx_reachable X t \<Longrightarrow> tx_reachable X (snd (Hash X t))"
| r_signing: "tx_reachable X t \<Longrightarrow> tx_reachable X (snd (SigningHash X t))"
| r_rhash: "tx_reachable X t \<Longrightarrow> tx_reachable X (snd (tx_RHash X t))"
| r_related: "tx_reachable X t \<Longrightarrow> tx_reachable X (UpdateRelatedAddresses as t)"
| r_add: "tx_reachable X t \<Longrightarrow> tx_reachable X (AddRelatedAddress a t)"
| r_deriver: "tx_reachable X t \<Longrightarrow> tx_reachable X (UpdateDeriver l n t)"
| r_readonly: "tx_reachable X t \<Longrightarrow> tx_reachable X (SetReadOnly b t)"
| r_type: "tx_reachable X t \<Longrightarrow> tx_reachable X (SetType ty t)"
| r_feecap: "tx_reachable X t \<Longrightarrow> tx_reachable X (SetGasFeeCap c t)"
| r_sigvals: "tx_reachable X t \<Longrightarrow> tx_reachable X (SetSignatureValues c v r s t)"
| r_sign: "tx_reachable X t \<Longrightarrow> tx_reachable X (SetSign X priv t)"
| r_signbytes: "tx_reachable X t \<Longrightarrow> tx_reachable X (SetSignBytes bs t)"
| r_gasprice: "tx_reachable X t \<Longrightarrow> tx_reachable X (SetMaxGasPrice g t)"
| r_nonce: "tx_reachable X t \<Longrightarrow> tx_reachable X (tx_SetNonce k t)"
| r_from: "tx_reachable X t \<Longrightarrow> tx_reachable X (SetFromAddress a t)"
| r_to: "tx_reachable X t \<Longrightarrow> tx_reachable X (SetToAddress a t)"
| r_secp: "tx_reachable X t \<Longrightarrow> tx_reachable X (snd (SignSecpProto X key t))"
| r_valid: "tx_reachable X t \<Longrightarrow> tx_reachable X (snd (ValidSecpProtoSign X t))"

lemma coherent_cleared [simp]: "coherent X (ClearCacheHash t)"
  by (simp add: coherent_def ClearCacheHash_def)

lemma coherent_hashes:
  assumes "coherent X t"
  shows "fst (Hash X t) = digest X (hash_data (tproto t))"
    and "fst (SigningHash X t) = signing_digest X (tproto t)"
    and "fst (tx_RHash X t) = digest X (rhash_data (tproto t))"
    and "coherent X (snd (Hash X t))" "coherent X (snd (SigningHash X t))" "coherent X (snd (tx_RHash X t))"
  using assms by (auto simp: coherent_def hash_defs signing_digest_def split: option.splits)

lemma tproto_hashes [simp]:
  "tproto (snd (Hash X t)) = tproto t" "tproto (snd (SigningHash X t)) = tproto t"
  by (auto simp: hash_defs split: option.splits)

lemma hash_data_sign [simp]:
  "hash_data (p\<lparr>tx_Sign := s\<rparr>) = hash_data p" "signing_data (p\<lparr>tx_Sign := s\<rparr>) = signing_data p"
  "rhash_data (p\<lparr>tx_Sign := s\<rparr>) = rhash_data p"
  by (simp_all add: hash_data_def signing_data_def rhash_data_def)

lemma coherent_sign: "coherent X t \<Longrightarrow> coherent X (on_proto (\<lambda>p. p\<lparr>tx_Sign := s\<rparr>) t)"
  by (simp add: coherent_def on_proto_def signing_digest_def)

lemma coherent_SignSecpProto: "coherent X t \<Longrightarrow> coherent X (snd (SignSecpProto X key t))"
  using coherent_hashes(5) [OF coherent_cleared, of X "on_proto (\<lambda>p. p\<lparr>tx_Type := 0xFF, tx_Sign := []\<rparr>) t"]
  by (auto simp: SignSecpProto_def Let_def split: option.splits prod.splits)

lemma coherent_ValidSecpProtoSign: "coherent X t \<Longrightarrow> coherent X (snd (ValidSecpProtoSign X t))"
  using coherent_hashes(5) [of X t]
  by (auto simp: ValidSecpProtoSign_def Let_def split: option.splits prod.splits)

lemma coherent_SetSign: "coherent X t \<Longrightarrow> coherent X (SetSign X priv t)"
  using coherent_sign [OF coherent_hashes(4), of X t] by (auto simp: SetSign_def split: prod.splits)

lemma coherent_setters:
  "coherent X (TransactionFromProto p)" "coherent X (CopyTransaction t)"
  "coherent X (UpdateRelatedAddresses as t)" "coherent X t \<Longrightarrow> coherent X (AddRelatedAddress a t)"
  "coherent X (UpdateDeriver l n t)" "coherent X (SetReadOnly b t)" "coherent X (SetType ty t)"
  "coherent X (SetGasFeeCap c t)" "coherent X (SetSignatureValues c' v r s t)"
  "coherent X (SetMaxGasPrice g t)" "coherent X (tx_SetNonce k t)" "coherent X (SetFromAddress a t)"
  "coherent X (SetToAddress a t)" "coherent X t \<Longrightarrow> coherent X (SetIsDebug d t)"
  by (simp_all add: setter_defs coherent_def TransactionFromProto_def CopyTransaction_def SetIsDebug_def)

lemma tx_reachable_coherent: "tx_reachable X t \<Longrightarrow> coherent X t"
proof (induction rule: tx_reachable.induct)
  case (r_signbytes t bs)
  then show ?case using coherent_sign by (simp add: SetSignBytes_def)
qed (simp_all add: coherent_setters coherent_hashes coherent_SetSign coherent_SignSecpProto
       coherent_ValidSecpProtoSign)

text \<open>C28. The cached hashes are right until the message is replaced. For a transaction object that any
  sequence of its constructors and methods other than \<^verbatim>\<open>FromProto\<close> and \<^verbatim>\<open>Unmarshal\<close> has produced, the three
  hashes are those of its current message. \<^verbatim>\<open>FromProto\<close> does not clear the caches: once \<^verbatim>\<open>Hash\<close> has been
  called, it keeps returning the hash of the old message whatever the new one is.\<close>

theorem Transaction_hash_cache:
  assumes "tx_reachable X t"
  shows "fst (Hash X t) = digest X (hash_data (tproto t)) \<and>
    fst (SigningHash X t) = signing_digest X (tproto t) \<and>
    fst (tx_RHash X t) = digest X (rhash_data (tproto t)) \<and>
    fst (Hash X (tx_FromProto p (snd (Hash X t)))) = digest X (hash_data (tproto t))"
proof -
  note c = coherent_hashes [OF tx_reachable_coherent [OF assms]]
  have "cachedHash (snd (Hash X t)) = Some (fst (Hash X t))" by (auto simp: hash_defs split: option.splits)
  then have "fst (Hash X (tx_FromProto p (snd (Hash X t)))) = fst (Hash X t)"
    by (simp add: tx_FromProto_def Hash_def)
  with c show ?thesis by simp
qed

subsection \<open>Signatures on the message\<close>

text \<open>Documented behaviour of \<^verbatim>\<open>crypto.Sign\<close> for the private key \<open>k\<close> with public key \<open>pub\<close>: a signature is 65
  bytes, a canonical pair and a recovery id, and recovers the key.\<close>

definition secp_laws :: "tx_lib \<Rightarrow> bytes \<Rightarrow> bytes \<Rightarrow> bool" where
  "secp_laws X k pub \<longleftrightarrow> (\<forall>h. \<exists>sig. secp_Sign X h k = Some sig \<and> length sig = 65 \<and> sig ! 64 \<le> 1 \<and>
     SigToPub X h sig = Some pub \<and>
     ValidateSignatureValues X (sig ! 64) (big_set_bytes (take 32 sig)) (big_set_bytes (take 32 (drop 32 sig))) True)"

lemma signing_data_sig [simp]: "signing_data (p\<lparr>tx_R := r, tx_S := s, tx_V := v\<rparr>) = signing_data p"
  by (simp add: signing_data_def hash_data_def)

lemma split65:
  assumes "length sig = 65"
  shows "take 32 sig @ take 32 (drop 32 sig) @ [sig ! 64] = sig"
proof -
  have "[sig ! 64] = drop 64 sig" using assms by (auto simp: Cons_nth_drop_Suc [symmetric])
  then show ?thesis
    by (metis append_take_drop_id drop_drop numeral_Bit0)
qed

text \<open>C27. What \<^verbatim>\<open>SignSecpProto\<close> signs, \<^verbatim>\<open>ValidSecpSign\<close> accepts. For a key with the documented behaviour,
  signing succeeds whatever hashes are cached, and the result is valid when the sender is the
  address of the key and the chain id is not zero: the signed hash does not depend on the
  signature. Every field of the message except type and signatures is kept.\<close>

theorem SignSecpProto_valid:
  assumes "secp_laws X k pub" "PubkeyToAddress X pub = FromAddress X t" "tx_ChainID (tproto t) \<noteq> 0"
  shows "\<exists>t' r s v. SignSecpProto X (Some k) t = (None, t') \<and> ValidSecpSign X t' = Some True \<and>
    tproto t' = (tproto t)\<lparr>tx_Type := 0xFF, tx_Sign := [], tx_R := r, tx_S := s, tx_V := v\<rparr>"
proof -
  let ?t0 = "ClearCacheHash (on_proto (\<lambda>p. p\<lparr>tx_Type := 0xFF, tx_Sign := []\<rparr>) t)"
  obtain h t1 where h: "SigningHash X ?t0 = (h, t1)" by fastforce
  have h': "h = signing_digest X (tproto ?t0)" "tproto t1 = tproto ?t0"
    using coherent_hashes(2) [OF coherent_cleared, of X "on_proto (\<lambda>p. p\<lparr>tx_Type := 0xFF, tx_Sign := []\<rparr>) t"]
      tproto_hashes(2) [of X ?t0] h by simp_all
  obtain sig where sig: "secp_Sign X h k = Some sig" "length sig = 65" "sig ! 64 \<le> 1" "SigToPub X h sig = Some pub"
    "ValidateSignatureValues X (sig ! 64) (big_set_bytes (take 32 sig)) (big_set_bytes (take 32 (drop 32 sig))) True"
    using assms(1) unfolding secp_laws_def by blast
  let ?r = "take 32 sig" and ?s = "take 32 (drop 32 sig)"
  let ?t' = "ClearCacheHash (on_proto (\<lambda>p. p\<lparr>tx_R := ?r, tx_S := ?s, tx_V := [sig ! 64]\<rparr>) t1)"
  have run: "SignSecpProto X (Some k) t = (None, ?t')"
    using sig(1,2) h by (simp add: SignSecpProto_def Let_def go_copy_same_length)
  have p': "tproto ?t' = (tproto t)\<lparr>tx_Type := 0xFF, tx_Sign := [], tx_R := ?r, tx_S := ?s, tx_V := [sig ! 64]\<rparr>"
    by (simp add: ClearCacheHash_def on_proto_def h'(2))
  have "signing_digest X (tproto ?t') = h"
    unfolding h'(1) by (simp add: signing_digest_def h'(2) ClearCacheHash_def on_proto_def)
  then obtain t2 where "SigningHash X ?t' = (h, t2)" "tproto t2 = tproto ?t'"
    using coherent_hashes(2) [OF coherent_cleared, of X "on_proto (\<lambda>p. p\<lparr>tx_R := ?r, tx_S := ?s, tx_V := [sig ! 64]\<rparr>) t1"]
      tproto_hashes(2) [of X ?t'] by (metis prod.collapse)
  then have "fst (ValidSecpProtoSign X ?t')"
    using sig assms(2,3) split65 [OF sig(2)] p'
    by (simp add: ValidSecpProtoSign_def Let_def FromAddress_def not_less)
  with run p' show ?thesis by (auto simp: ValidSecpSign_def)
qed
subsection \<open>Ethereum transactions\<close>

text \<open>Documented behaviour of the parameters: addresses and hashes of the right length are kept, nothing is
  padded to the zero address, senders have 20 bytes, and protobuf reads back what it wrote, which
  is not empty. \<^verbatim>\<open>CallData.Input\<close> and \<^verbatim>\<open>DeployData.Code\<close> are both byte strings with field number 1, so a
  \<^verbatim>\<open>CallData\<close> is read as a \<^verbatim>\<open>DeployData\<close> without a storage address.\<close>

definition tx_laws :: "tx_lib \<Rightarrow> bool" where
  "tx_laws X \<longleftrightarrow>
     (\<forall>b. length b = 20 \<longrightarrow> BytesToAddress X b = b) \<and> BytesToAddress X [] = zero_address \<and>
     (\<forall>b. length b = 32 \<longrightarrow> BytesToHash32 X b = b) \<and>
     (\<forall>sg tx a. eth_Sender X sg tx = Some a \<longrightarrow> length a = 20) \<and>
     (\<forall>d b. mar_CallData X d = Some b \<longrightarrow>
        unm_CallData X b = Some d \<and> unm_DeployData X b = Some (d, []) \<and> (d \<noteq> [] \<longrightarrow> b \<noteq> [])) \<and>
     (\<forall>d b. mar_DeployData X d = Some b \<longrightarrow> unm_DeployData X b = Some d \<and> (fst d \<noteq> [] \<longrightarrow> b \<noteq> []))"

text \<open>The fields are in the range that the message can hold: the numbers are not negative, the chain identifier
  and the gas price of the first two kinds are below $2^{64}$, addresses have 20 bytes and storage
  keys 32.\<close>

definition base_ok :: "EthBase \<Rightarrow> bool" where
  "base_ok b \<longleftrightarrow> 0 \<le> e_Value b \<and> 0 \<le> e_V b \<and> 0 \<le> e_R b \<and> 0 \<le> e_S b \<and>
     (\<forall>a. e_To b = Some a \<longrightarrow> length a = 20)"

definition u64_range :: "int \<Rightarrow> bool" where
  "u64_range i \<longleftrightarrow> 0 \<le> i \<and> i < 2 ^ 64"

definition access_ok :: "(bytes \<times> bytes list) list \<Rightarrow> bool" where
  "access_ok al \<longleftrightarrow> (\<forall>(a, ks) \<in> set al. length a = 20 \<and> (\<forall>k \<in> set ks. length k = 32))"

fun eth_ok :: "tx_lib \<Rightarrow> EthTx \<Rightarrow> bool" where
  "eth_ok X (LegacyTx b gp) = (base_ok b \<and> u64_range gp \<and> u64_range (e_ChainId X (LegacyTx b gp)))"
| "eth_ok X (AccessListTx b c gp al) =
     (base_ok b \<and> u64_range c \<and> u64_range gp \<and> access_ok al)"
| "eth_ok X (DynamicFeeTx b c tip fc al) =
     (base_ok b \<and> u64_range c \<and> 0 \<le> tip \<and> 0 \<le> fc \<and> access_ok al)"
| "eth_ok X (BlobTx b c) = False"

text \<open>Two kinds of transactions are accepted and not given back. A typed transaction with chain identifier 0, or
  an EIP-2930 one with gas price 0, is refused by \<^verbatim>\<open>ToEthTransaction\<close>. Data without a recipient, or for the
  zero address, is dropped when the nonce is 0 or the sender is the zero address.\<close>

fun refused :: "EthTx \<Rightarrow> bool" where
  "refused (AccessListTx b c gp al) \<longleftrightarrow> c = 0 \<or> gp = 0"
| "refused (DynamicFeeTx b c tip fc al) \<longleftrightarrow> c = 0"
| "refused _ \<longleftrightarrow> False"

definition drops_data :: "EthBase \<Rightarrow> bytes \<Rightarrow> bool" where
  "drops_data b sender \<longleftrightarrow> e_Data b \<noteq> [] \<and> e_To b \<in> {None, Some zero_address} \<and>
     (e_Nonce b = 0 \<or> sender = zero_address)"

text \<open>The transaction with another base.\<close>

fun with_base :: "EthTx \<Rightarrow> EthBase \<Rightarrow> EthTx" where
  "with_base (LegacyTx _ gp) b = LegacyTx b gp"
| "with_base (AccessListTx _ c gp al) b = AccessListTx b c gp al"
| "with_base (DynamicFeeTx _ c tip fc al) b = DynamicFeeTx b c tip fc al"
| "with_base (BlobTx _ c) b = BlobTx b c"

definition kept_data :: "EthBase \<Rightarrow> bytes \<Rightarrow> bytes" where
  "kept_data b sender = (if drops_data b sender then [] else e_Data b)"

lemma big_Uint64_range: "u64_range i \<Longrightarrow> uint (big_Uint64 i) = i"
  by (simp add: u64_range_def big_Uint64_def unsigned_of_int take_bit_int_eq_self)

lemma big_Uint64_zero_iff: "u64_range i \<Longrightarrow> big_Uint64 i = 0 \<longleftrightarrow> i = 0"
  using big_Uint64_range [of i] by (auto simp: big_Uint64_def)

lemma nonce_back: "big_Uint64 (big_set_bytes (put_be64 n)) = n"
proof -
  have "big_set_bytes (put_be64 n) = int (be_nat (put_be64 n))" by (simp add: big_set_bytes_def be_nat_def)
  also have "\<dots> = int (unat n)"
    using be_nat_be_bytes [of 8 "unat n"] unat_u64_less [of n] by (simp add: put_be64_def)
  finally show ?thesis by (simp add: big_Uint64_def)
qed

lemma access_back:
  assumes "tx_laws X" "access_ok al"
  shows "toEthAccessList X (from_access_list al) = al"
proof -
  have "\<forall>(a, ks) \<in> set al. BytesToAddress X a = a \<and> map (BytesToHash32 X) ks = ks"
    using assms by (auto simp: tx_laws_def access_ok_def intro!: map_idI)
  then show ?thesis by (auto simp: toEthAccessList_def from_access_list_def intro!: map_idI)
qed
text \<open>The message \<open>p\<close> holds what the conversions take from \<open>b\<close>.\<close>

definition holds_base :: "tx_lib \<Rightarrow> EthBase \<Rightarrow> bytes \<Rightarrow> pb_Transaction \<Rightarrow> bool" where
  "holds_base X b sender p \<longleftrightarrow>
     tx_ToAddress p = (case e_To b of None \<Rightarrow> [] | Some a \<Rightarrow> a) \<and> tx_Amount p = big_bytes (e_Value b) \<and>
     tx_MaxGas p = e_Gas b \<and> tx_Nonce p = put_be64 (e_Nonce b) \<and>
     prepareTransactionSpecificData X b (deploy_storage X) = Some (tx_Data p) \<and>
     tx_V p = big_bytes (e_V b) \<and> tx_R p = big_bytes (e_R b) \<and> tx_S p = big_bytes (e_S b) \<and>
     tx_FromAddress p = sender"

lemma eth_base_back:
  assumes "tx_laws X" "base_ok b" "holds_base X b sender p"
  shows "eth_base X p data = b\<lparr>e_Data := data\<rparr>"
proof -
  have "put_be64 (e_Nonce b) \<noteq> []" by (metis length_put(1) list.size(3) zero_neq_numeral)
  then show ?thesis
    using assms
    by (cases "e_To b") (auto simp: eth_base_def extractSignature_def holds_base_def base_ok_def tx_laws_def nonce_back)
qed

lemma prepared_data:
  assumes L: "tx_laws X" and p: "holds_base X b sender p" and d: "e_Data b \<noteq> []"
  shows "tx_Data p \<noteq> []" "map_option fst (unm_DeployData X (tx_Data p)) = Some (e_Data b)"
    "e_To b \<noteq> None \<Longrightarrow> unm_CallData X (tx_Data p) = Some (e_Data b)"
proof -
  have "if e_To b = None then mar_DeployData X (e_Data b, deploy_storage X) = Some (tx_Data p)
    else mar_CallData X (e_Data b) = Some (tx_Data p)"
    using p d by (auto simp: holds_base_def prepareTransactionSpecificData_def)
  then have "tx_Data p \<noteq> [] \<and> (\<exists>a. unm_DeployData X (tx_Data p) = Some (e_Data b, a)) \<and>
    (e_To b \<noteq> None \<longrightarrow> unm_CallData X (tx_Data p) = Some (e_Data b))"
    using L d unfolding tx_laws_def by (metis fst_conv)
  then  show "tx_Data p \<noteq> []" "map_option fst (unm_DeployData X (tx_Data p)) = Some (e_Data b)"
    "e_To b \<noteq> None \<Longrightarrow> unm_CallData X (tx_Data p) = Some (e_Data b)"
    by auto
qed

lemma eth_data_back:
  assumes L: "tx_laws X" and b: "base_ok b" and p: "holds_base X b sender p" and s: "length sender = 20"
  shows "eth_data X (TransactionFromProto p) = Some (kept_data b sender)"
proof -
  let ?t = "TransactionFromProto p"
  have n: "GetNonce ?t = e_Nonce b" using p by (simp add: GetNonce_def TransactionFromProto_def holds_base_def)
  have f: "FromAddress X ?t = sender" using L p s by (simp add: FromAddress_def TransactionFromProto_def holds_base_def tx_laws_def)
  have to: "tx_To X ?t = (case e_To b of None \<Rightarrow> zero_address | Some a \<Rightarrow> a)"
    using L b p by (auto simp: tx_To_def TransactionFromProto_def holds_base_def tx_laws_def base_ok_def split: option.splits)
  show ?thesis
  proof (cases "e_Data b = []")
    case True
    with p have "tx_Data p = []" by (simp add: holds_base_def prepareTransactionSpecificData_def)
    with True show ?thesis
      by (simp add: eth_data_def IsDeployContract_def IsCallContract_def TransactionFromProto_def kept_data_def)
  next
    case False
    note d = prepared_data [OF L p False]
    have zero: "tx_To X ?t = zero_address \<longleftrightarrow> e_To b \<in> {None, Some zero_address}"
      unfolding to by (auto split: option.splits)
    show ?thesis
    proof (cases "tx_To X ?t = zero_address")
      case True
      with d(1,2) n f zero False show ?thesis
        by (auto simp: eth_data_def IsDeployContract_def IsCallContract_def DeployData_Code_def
            TransactionFromProto_def kept_data_def drops_data_def)
    next
      case nz: False
      with zero have "e_To b \<noteq> None" by simp
      with nz d(1,3) zero show ?thesis
        by (auto simp: eth_data_def IsDeployContract_def IsCallContract_def CallData_Input_def
            TransactionFromProto_def kept_data_def drops_data_def)
    qed
  qed
qed

text \<open>What the three conversions produce.\<close>

lemma from_eth_holds:
  assumes "FromEthTransaction X tx p0 = Inr p"
  shows "\<exists>sender. holds_base X (e_base tx) sender p"
  using assms
  by (cases tx)
    (auto simp: FromEthLegacyTx_def FromEthEIP2930Tx_def FromEthEIP1559Tx_def holds_base_def from_base_def
      from_sig_def Let_def split: option.splits)

lemma with_base_id [simp]: "with_base tx (e_base tx) = tx"
  by (cases tx) simp_all

lemma from_eth_sender:
  assumes "tx_laws X" "FromEthTransaction X tx p0 = Inr p"
  shows "length (tx_FromAddress p) = 20" "FromAddress X (TransactionFromProto p) = tx_FromAddress p"
proof -
  show "length (tx_FromAddress p) = 20"
    using assms by (cases tx) (auto simp: FromEthLegacyTx_def FromEthEIP2930Tx_def FromEthEIP1559Tx_def
        from_sig_def tx_laws_def Let_def split: option.splits)
  then show "FromAddress X (TransactionFromProto p) = tx_FromAddress p"
    using assms(1) by (simp add: FromAddress_def TransactionFromProto_def tx_laws_def)
qed

fun holds_kind :: "EthTx \<Rightarrow> pb_Transaction \<Rightarrow> bool" where
  "holds_kind (LegacyTx b gp) p \<longleftrightarrow> tx_Type p = 0 \<and> tx_MaxGasPrice p = big_Uint64 gp"
| "holds_kind (AccessListTx b c gp al) p \<longleftrightarrow> tx_Type p = 1 \<and> tx_ChainID p = big_Uint64 c \<and>
     tx_MaxGasPrice p = big_Uint64 gp \<and> tx_AccessList p = from_access_list al"
| "holds_kind (DynamicFeeTx b c tip fc al) p \<longleftrightarrow> tx_Type p = 2 \<and> tx_ChainID p = big_Uint64 c \<and>
     tx_GasTipCap p = Some (big_bytes tip) \<and> tx_GasFeeCap p = Some (big_bytes fc) \<and>
     tx_AccessList p = from_access_list al"
| "holds_kind (BlobTx b c) p \<longleftrightarrow> False"

lemma from_eth_kind:
  assumes "FromEthTransaction X tx p0 = Inr p"
  shows "holds_kind tx p"
  using assms
  by (cases tx) (auto simp: FromEthLegacyTx_def FromEthEIP2930Tx_def FromEthEIP1559Tx_def Let_def split: option.splits)

lemma ToEthTransaction_kind:
  assumes L: "tx_laws X" and ok: "eth_ok X tx" and k: "holds_kind tx p"
    and d: "eth_data X (TransactionFromProto p) = Some data" and e: "eth_base X p data = b"
  shows "ToEthTransaction X (TransactionFromProto p) = Some (if refused tx then None else Some (with_base tx b))"
proof (cases tx)
  case (LegacyTx b' gp)
  then show ?thesis using ok k d e by (simp add: ToEthTransaction_def TransactionFromProto_def big_Uint64_range)
next
  case (AccessListTx b' c gp al)
  moreover have "toEthAccessList X (from_access_list al) = al" using AccessListTx ok access_back [OF L] by simp
  ultimately show ?thesis using ok k d e
    by (simp add: ToEthTransaction_def TransactionFromProto_def big_Uint64_range big_Uint64_zero_iff Let_def)
next
  case (DynamicFeeTx b' c tip fc al)
  moreover have "toEthAccessList X (from_access_list al) = al" using DynamicFeeTx ok access_back [OF L] by simp
  ultimately show ?thesis using ok k d e
    by (simp add: ToEthTransaction_def TransactionFromProto_def big_Uint64_range big_Uint64_zero_iff Let_def)
next
  case (BlobTx b' c)
  with ok show ?thesis by simp
qed

lemma to_eth_back:
  assumes L: "tx_laws X" and ok: "eth_ok X tx" and p: "FromEthTransaction X tx zero_tx = Inr p"
  shows "ToEthTransaction X (TransactionFromProto p) = Some (if refused tx then None
    else Some (with_base tx ((e_base tx)\<lparr>e_Data := kept_data (e_base tx) (tx_FromAddress p)\<rparr>)))"
proof -
  obtain sender where h: "holds_base X (e_base tx) sender p" using from_eth_holds [OF p] by blast
  have b: "base_ok (e_base tx)" using ok by (cases tx) simp_all
  have "tx_FromAddress p = sender" using h by (simp add: holds_base_def)
  with from_eth_sender(1) [OF L p]
  have "eth_data X (TransactionFromProto p) = Some (kept_data (e_base tx) (tx_FromAddress p))"
    using eth_data_back [OF L b h] by simp
  then show ?thesis using eth_base_back [OF L b h] by (rule ToEthTransaction_kind [OF L ok from_eth_kind [OF p]])
qed

lemma derive_back:
  assumes "eth_ok X tx" "FromEthTransaction X tx p0 = Inr p" "\<not> refused tx"
  shows "DeriveSenderFromEthTransaction X tx (uint (tx_ChainID p)) = Inr (tx_FromAddress p)"
proof (cases tx)
  case (LegacyTx b gp)
  let ?c = "e_ChainId X (LegacyTx b gp)"
  have "uint (big_Uint64 ?c) = ?c" "0 \<le> ?c" using LegacyTx assms(1) big_Uint64_range by (simp_all add: u64_range_def)
  then have sg: "choose_signer X tx (uint (big_Uint64 ?c)) = Some (legacy_signer ?c)"
    by (auto simp: LegacyTx legacy_signer_def)
  have "eth_Sender X (legacy_signer ?c) tx = Some (tx_FromAddress p)" "tx_ChainID p = big_Uint64 ?c"
    using assms(2) by (auto simp: LegacyTx FromEthLegacyTx_def from_sig_def Let_def split: option.splits)
  with sg show ?thesis by (simp add: DeriveSenderFromEthTransaction_def del: choose_signer.simps)
next
  case (AccessListTx b c gp al)
  with assms show ?thesis
    by (auto simp: DeriveSenderFromEthTransaction_def FromEthEIP2930Tx_def from_sig_def u64_range_def split: option.splits)
next
  case (DynamicFeeTx b c tip fc al)
  with assms show ?thesis
    by (auto simp: DeriveSenderFromEthTransaction_def FromEthEIP1559Tx_def from_sig_def u64_range_def split: option.splits)
next
  case (BlobTx b c)
  with assms show ?thesis by simp
qed

text \<open>C14. Which Ethereum transactions survive the conversion. Let an Ethereum transaction of any of the three
  kinds, with fields that fit the message, be accepted by \<^verbatim>\<open>NewTransactionFromEth\<close>. \<^verbatim>\<open>ToEthTransaction\<close> gives
  it back and \<^verbatim>\<open>ValidEthSign\<close> accepts it, except in two cases. An EIP-2930 transaction with chain
  identifier or gas price 0 and an EIP-1559 transaction with chain identifier 0 are accepted on the way
  in, but \<^verbatim>\<open>ToEthTransaction\<close> gives nil and \<^verbatim>\<open>ValidEthSign\<close> refuses them. A transaction with data that has no
  recipient (a contract creation) or the zero address as its recipient is given back without its data
  when its nonce is 0 or its sender is the zero address: \<^verbatim>\<open>IsDeployContract\<close> asks for a nonzero nonce and a sender
  that differs from the recipient, \<^verbatim>\<open>IsCallContract\<close> for a nonzero recipient. The signature is then checked
  against a different transaction.\<close>

theorem EthTransaction_roundtrip:
  assumes "tx_laws X" "eth_ok X tx" "NewTransactionFromEth X tx = Inr t"
  shows "if refused tx then ToEthTransaction X t = Some None \<and> ValidEthSign X t = Some False
    else if drops_data (e_base tx) (FromAddress X t)
    then ToEthTransaction X t = Some (Some (with_base tx ((e_base tx)\<lparr>e_Data := []\<rparr>)))
    else ToEthTransaction X t = Some (Some tx) \<and> ValidEthSign X t = Some True"
proof -
  obtain p where p: "FromEthTransaction X tx zero_tx = Inr p" "t = TransactionFromProto p"
    using assms(3) by (auto simp: NewTransactionFromEth_def split: sum.splits)
  have f: "FromAddress X t = tx_FromAddress p" using from_eth_sender(2) [OF assms(1) p(1)] p(2) by simp
  have bk: "ToEthTransaction X t = Some (if refused tx then None
    else Some (with_base tx ((e_base tx)\<lparr>e_Data := kept_data (e_base tx) (FromAddress X t)\<rparr>)))"
    using to_eth_back [OF assms(1,2) p(1)] p(2) f by simp
  consider "refused tx" | "\<not> refused tx" "drops_data (e_base tx) (FromAddress X t)"
    | "\<not> refused tx" "\<not> drops_data (e_base tx) (FromAddress X t)" by blast
  then show ?thesis
  proof cases
    case 1
    then show ?thesis using bk by (simp add: ValidEthSign_def)
  next
    case 2
    then show ?thesis using bk by (simp add: kept_data_def)
  next
    case 3
    then have "ToEthTransaction X t = Some (Some tx)" using bk by (simp add: kept_data_def)
    then show ?thesis using 3 derive_back [OF assms(2) p(1) 3(1)] f p(2)
      by (simp add: ValidEthSign_def TransactionFromProto_def)
  qed
qed

subsection \<open>A reference instance\<close>

definition ref_unm_deploy :: "bytes \<Rightarrow> (bytes \<times> bytes) option" where
  "ref_unm_deploy b =
     (let n = length (takeWhile (\<lambda>x. x = 1) b); r = drop (Suc n) b in Some (take n r, drop n r))"

definition ref_tx :: tx_lib where
  "ref_tx = \<lparr>BytesToAddress = pad_left 20, BytesToHash32 = pad_left 32, FromHex = hex_decode_ref,
     Address_Hex = hex_encode, Hash_Hex = hex_encode, HexToAddress = pad_left 20 \<circ> hex_decode_ref,
     HexToHash = pad_left 32 \<circ> hex_decode_ref, Keccak256Hash = pad_left 32,
     mar_hash = \<lambda>d. Some (hd_FromAddress d @ hd_Nonce d),
     mar_CallData = \<lambda>d. Some (replicate (length d) 1 @ 0 # d), unm_CallData = \<lambda>b. map_option fst (ref_unm_deploy b),
     mar_DeployData = \<lambda>(c, a). Some (replicate (length c) 1 @ 0 # c @ a), unm_DeployData = ref_unm_deploy,
     secp_Sign = \<lambda>h k. Some (replicate 64 1 @ [0]), SigToPub = \<lambda>h sg. Some [7],
     PubkeyToAddress = \<lambda>pub. replicate 20 1, ValidateSignatureValues = \<lambda>v r s hom. True,
     RecoverPubkey = \<lambda>h sg. None, CreateAddress = \<lambda>a n. a, bls_Sign = \<lambda>k h. replicate 96 0,
     bls_VerifySign = \<lambda>pk sg h. True, LegacyChainId = \<lambda>v. if v = 27 \<or> v = 28 then 0 else (v - 35) div 2,
     eth_Sender = \<lambda>sg tx. Some (replicate 20 1), signer_Hash = \<lambda>sg tx. zero_hash32\<rparr>"

lemma ref_unm_deploy_mar: "ref_unm_deploy (replicate (length c) 1 @ 0 # c @ a) = Some (c, a)"
proof -
  have "takeWhile (\<lambda>x. x = 1) (replicate (length c) 1 @ (0 :: byte) # c @ a) = replicate (length c) 1"
    by (subst takeWhile_append2) auto
  then show ?thesis by (simp add: ref_unm_deploy_def)
qed

lemma ref_tx_laws: "tx_laws ref_tx"
  using ref_unm_deploy_mar [of _ "[]"]
  by (auto simp: tx_laws_def ref_tx_def pad_left_def zero_address_def ref_unm_deploy_mar)

definition ex_base :: EthBase where
  "ex_base = \<lparr>e_Nonce = 0, e_Gas = 21000, e_To = None, e_Value = 5, e_Data = [1, 2], e_V = 27, e_R = 300, e_S = 4\<rparr>"

text \<open>A first contract creation, a call with an access list, and the same call with gas price 0.\<close>

definition ex_eth :: "EthTx list" where
  "ex_eth = [LegacyTx ex_base 7,
     AccessListTx (ex_base\<lparr>e_To := Some (replicate 20 2)\<rparr>) 5 7 [(replicate 20 3, [replicate 32 4])],
     AccessListTx (ex_base\<lparr>e_To := Some (replicate 20 2)\<rparr>) 5 0 []]"

lemma ex_eth_ok: "\<forall>tx \<in> set ex_eth. eth_ok ref_tx tx"
  by (simp add: ex_eth_def ex_base_def base_ok_def u64_range_def ref_tx_def access_ok_def)

lemma ex_eth_accepted: "\<forall>tx \<in> set ex_eth. \<exists>t. NewTransactionFromEth ref_tx tx = Inr t"
  by (simp add: NewTransactionFromEth_def ex_eth_def ex_base_def FromEthLegacyTx_def FromEthEIP2930Tx_def
      prepareTransactionSpecificData_def ref_tx_def Let_def)

theorem EthTransaction_roundtrip_witness:
  "\<exists>t u v. map (NewTransactionFromEth ref_tx) ex_eth = [Inr t, Inr u, Inr v] \<and>
     ToEthTransaction ref_tx t = Some (Some (LegacyTx (ex_base\<lparr>e_Data := []\<rparr>) 7)) \<and>
     ToEthTransaction ref_tx u = Some (Some (ex_eth ! 1)) \<and> ValidEthSign ref_tx u = Some True \<and>
     ToEthTransaction ref_tx v = Some None"
proof -
  have mem: "ex_eth ! 0 \<in> set ex_eth" "ex_eth ! 1 \<in> set ex_eth" "ex_eth ! 2 \<in> set ex_eth"
    by (simp_all add: ex_eth_def)
  obtain t u v where tuv: "NewTransactionFromEth ref_tx (ex_eth ! 0) = Inr t"
    "NewTransactionFromEth ref_tx (ex_eth ! 1) = Inr u" "NewTransactionFromEth ref_tx (ex_eth ! 2) = Inr v"
    using ex_eth_accepted mem by blast
  have ok: "eth_ok ref_tx (ex_eth ! 0)" "eth_ok ref_tx (ex_eth ! 1)" "eth_ok ref_tx (ex_eth ! 2)"
    using ex_eth_ok mem by blast+
  note r = EthTransaction_roundtrip [OF ref_tx_laws]
  have m: "map (NewTransactionFromEth ref_tx) ex_eth = [Inr t, Inr u, Inr v]" using tuv by (simp add: ex_eth_def)
  have t: "ToEthTransaction ref_tx t = Some (Some (LegacyTx (ex_base\<lparr>e_Data := []\<rparr>) 7))"
    using r [OF ok(1) tuv(1)] by (simp add: ex_eth_def ex_base_def drops_data_def)
  have "(replicate 20 2 :: bytes) \<noteq> zero_address" by (simp only: zero_address_def replicate_eq_replicate) simp
  then have "\<not> drops_data (e_base (ex_eth ! 1)) (FromAddress ref_tx u)"
    by (simp add: ex_eth_def ex_base_def drops_data_def)
  moreover have "\<not> refused (ex_eth ! 1)" by (simp add: ex_eth_def)
  ultimately have u: "ToEthTransaction ref_tx u = Some (Some (ex_eth ! 1))" "ValidEthSign ref_tx u = Some True"
    using r [OF ok(2) tuv(2)] by simp_all
  have "ToEthTransaction ref_tx v = Some None" using r [OF ok(3) tuv(3)] by (simp add: ex_eth_def)
  with m t u show ?thesis by (intro exI conjI)
qed

theorem Transaction_hash_cache_witness:
  "fst (Hash ref_tx (tx_FromProto (zero_tx\<lparr>tx_FromAddress := [9]\<rparr>) (snd (Hash ref_tx (TransactionFromProto zero_tx)))))
     = pad_left 32 []"
  using Transaction_hash_cache [OF r_new, of ref_tx zero_tx "zero_tx\<lparr>tx_FromAddress := [9]\<rparr>"]
  by (simp add: digest_def hash_data_def ref_tx_def zero_tx_def TransactionFromProto_def)

theorem SignSecpProto_valid_witness:
  "\<exists>t'. fst (SignSecpProto ref_tx (Some [3]) (TransactionFromProto
      (zero_tx\<lparr>tx_ChainID := 1, tx_FromAddress := replicate 20 1\<rparr>))) = None \<and>
    SignSecpProto ref_tx (Some [3]) (TransactionFromProto
      (zero_tx\<lparr>tx_ChainID := 1, tx_FromAddress := replicate 20 1\<rparr>)) = (None, t') \<and>
    ValidSecpSign ref_tx t' = Some True"
proof -
  let ?t = "TransactionFromProto (zero_tx\<lparr>tx_ChainID := 1, tx_FromAddress := replicate 20 1\<rparr>)"
  have "secp_laws ref_tx [3] [7]" by (simp add: secp_laws_def ref_tx_def nth_append)
  moreover have "PubkeyToAddress ref_tx [7] = FromAddress ref_tx ?t"
    by (simp add: ref_tx_def FromAddress_def TransactionFromProto_def pad_left_def)
  moreover have "tx_ChainID (tproto ?t) \<noteq> 0" by (simp add: TransactionFromProto_def)
  ultimately obtain t' where "SignSecpProto ref_tx (Some [3]) ?t = (None, t')" "ValidSecpSign ref_tx t' = Some True"
    using SignSecpProto_valid [of ref_tx "[3]" "[7]" ?t] by blast
  then show ?thesis by simp
qed

end
