(* ===== verification/Sc_Result.thy ===== *)
theory Sc_Result
  imports Receipts Transaction
begin

text \<open>
  What contract executions hand on: \<^verbatim>\<open>src/pkg/smart_contract\<close> (event logs, results of executions, update
  data, touched addresses), the groups of transactions and the transaction errors of
  \<^verbatim>\<open>src/pkg/transaction\<close>, and the counters of \<^verbatim>\<open>src/pkg/storage/block_number_state.go\<close>. A Go map is the list of
  its entries in the order of an iteration, with distinct keys; protobuf and the functions of
  go-ethereum are parameters. Printing is not modelled.
\<close>

subsection \<open>Event logs\<close>

text \<open>An \<^verbatim>\<open>EventLog\<close> of the package is the protobuf message itself.\<close>

definition NewEventLog :: "bytes \<Rightarrow> bytes \<Rightarrow> bytes \<Rightarrow> bytes list \<Rightarrow> EventLog" where
  "NewEventLog txHash a data topics =
     \<lparr>el_TransactionHash = txHash, el_Address = a, el_Data = data, el_Topics = topics\<rparr>"

definition EventLog_Hash :: "eth_lib \<Rightarrow> (EventLog \<Rightarrow> bytes option) \<Rightarrow> EventLog \<Rightarrow> bytes" where
  "EventLog_Hash E enc l = Keccak256Hash E (case enc l of None \<Rightarrow> [] | Some b \<Rightarrow> b)"

definition EventLog_AddressOf :: "eth_lib \<Rightarrow> EventLog \<Rightarrow> bytes" where
  "EventLog_AddressOf E l = BytesToAddress E (el_Address l)"

definition EventLog_TransactionHash :: "EventLog \<Rightarrow> string" where
  "EventLog_TransactionHash l = hex_encode (el_TransactionHash l)"

definition EventLog_Data :: "EventLog \<Rightarrow> string" where
  "EventLog_Data l = hex_encode (el_Data l)"

definition EventLog_Topics :: "EventLog \<Rightarrow> string list" where
  "EventLog_Topics l = map hex_encode (el_Topics l)"

definition GetLogsHash ::
  "eth_lib \<Rightarrow> (EventLog \<Rightarrow> bytes option) \<Rightarrow> (bytes list \<Rightarrow> bytes option) \<Rightarrow> EventLog list \<Rightarrow> bytes" where
  "GetLogsHash E enc encHashes ls =
     Keccak256Hash E (case encHashes (map (EventLog_Hash E enc) ls) of None \<Rightarrow> [] | Some b \<Rightarrow> b)"

definition MarshalEventLogs :: "(EventLog list \<Rightarrow> bytes option) \<Rightarrow> EventLog list \<Rightarrow> bytes option" where
  "MarshalEventLogs enc ls = enc ls"

definition UnmarshalEventLogs :: "(bytes \<Rightarrow> EventLog list option) \<Rightarrow> bytes \<Rightarrow> EventLog list option" where
  "UnmarshalEventLogs dec b = dec b"

definition MarshalMapEventLogs ::
  "eth_lib \<Rightarrow> ((string \<times> EventLog list) list \<Rightarrow> bytes option) \<Rightarrow> (bytes \<times> EventLog list) list \<Rightarrow> bytes option" where
  "MarshalMapEventLogs E enc m = enc (map (\<lambda>(a, ls). (Address_Hex E a, ls)) m)"

text \<open>Filling a Go map from the entries of another, with converted keys and values.\<close>

definition go_map_of :: "('a \<times> 'b) list \<Rightarrow> ('a \<times> 'b) list" where
  "go_map_of es = fold (\<lambda>(k, v) m. AList.update k v m) es []"

definition UnmarshalMapEventLogs ::
  "eth_lib \<Rightarrow> (bytes \<Rightarrow> (string \<times> EventLog list) list option) \<Rightarrow> bytes \<Rightarrow> (bytes \<times> EventLog list) list option" where
  "UnmarshalMapEventLogs E dec b =
     map_option (\<lambda>m. go_map_of (map (\<lambda>(s, ls). (HexToAddress E s, ls)) m)) (dec b)"

subsection \<open>Results of executions\<close>

record ExecuteSCResult =
  r_transactionHash :: bytes
  r_status :: int
  r_exception :: int
  r_returnData :: bytes
  r_gasUsed :: u64
  r_logsHash :: bytes
  r_mapAddBalance :: "(string \<times> bytes) list"
  r_mapSubBalance :: "(string \<times> bytes) list"
  r_mapNonce :: "(string \<times> bytes) list"
  r_mapStorageRoot :: "(string \<times> bytes) list"
  r_mapCodeHash :: "(string \<times> bytes) list"
  r_mapStorageAddress :: "(string \<times> bytes) list"
  r_mapCreatorPubkey :: "(string \<times> bytes) list"
  r_touched :: "(bytes \<times> bytes list) list"
  r_nativeUpdates :: "(bytes \<times> (bytes \<times> bytes) list) list"
  r_eventLogs :: "EventLog list"

record pb_ExecuteSCResult =
  p_TransactionHash :: bytes
  p_MapAddBalance :: "(string \<times> bytes) list"
  p_MapSubBalance :: "(string \<times> bytes) list"
  p_MapCodeHash :: "(string \<times> bytes) list"
  p_MapStorageRoot :: "(string \<times> bytes) list"
  p_Status :: int
  p_Exception :: int
  p_Return :: bytes
  p_GasUsed :: u64
  p_MapStorageAddress :: "(string \<times> bytes) list"
  p_MapCreatorPubkey :: "(string \<times> bytes) list"
  p_Touched :: "(string \<times> bytes list) list"
  p_NativeUpdates :: "(string \<times> (bytes \<times> bytes) list) list"
  p_EventLogs :: "EventLog list"

definition zero_ExecuteSCResult :: ExecuteSCResult where
  "zero_ExecuteSCResult =
     \<lparr>r_transactionHash = zero_hash32, r_status = 0, r_exception = 0, r_returnData = [], r_gasUsed = 0,
      r_logsHash = zero_hash32, r_mapAddBalance = [], r_mapSubBalance = [], r_mapNonce = [],
      r_mapStorageRoot = [], r_mapCodeHash = [], r_mapStorageAddress = [], r_mapCreatorPubkey = [],
      r_touched = [], r_nativeUpdates = [], r_eventLogs = []\<rparr>"

definition NewErrorExecuteSCResult :: "bytes \<Rightarrow> int \<Rightarrow> int \<Rightarrow> bytes \<Rightarrow> ExecuteSCResult" where
  "NewErrorExecuteSCResult txHash st exc rt =
     zero_ExecuteSCResult\<lparr>r_transactionHash := txHash, r_status := st, r_exception := exc, r_returnData := rt,
       r_gasUsed := 0\<rparr>"

text \<open>\<^verbatim>\<open>Proto\<close> has no field for \<^verbatim>\<open>mapNonce\<close> and \<^verbatim>\<open>logsHash\<close>.\<close>

definition result_Proto :: "eth_lib \<Rightarrow> ExecuteSCResult \<Rightarrow> pb_ExecuteSCResult" where
  "result_Proto E r =
     \<lparr>p_TransactionHash = r_transactionHash r, p_MapAddBalance = r_mapAddBalance r,
      p_MapSubBalance = r_mapSubBalance r, p_MapCodeHash = r_mapCodeHash r,
      p_MapStorageRoot = r_mapStorageRoot r, p_Status = r_status r, p_Exception = r_exception r,
      p_Return = r_returnData r, p_GasUsed = r_gasUsed r, p_MapStorageAddress = r_mapStorageAddress r,
      p_MapCreatorPubkey = r_mapCreatorPubkey r,
      p_Touched = map (\<lambda>(a, as). (hex_encode a, as)) (r_touched r),
      p_NativeUpdates = map (\<lambda>(a, kvs). (Address_Hex E a, kvs)) (r_nativeUpdates r),
      p_EventLogs = r_eventLogs r\<rparr>"

definition result_FromProto :: "eth_lib \<Rightarrow> pb_ExecuteSCResult \<Rightarrow> ExecuteSCResult \<Rightarrow> ExecuteSCResult" where
  "result_FromProto E p r =
     r\<lparr>r_transactionHash := BytesToHash32 E (p_TransactionHash p), r_mapAddBalance := p_MapAddBalance p,
       r_mapSubBalance := p_MapSubBalance p, r_mapCodeHash := p_MapCodeHash p,
       r_mapStorageRoot := p_MapStorageRoot p, r_status := p_Status p, r_exception := p_Exception p,
       r_returnData := p_Return p, r_gasUsed := p_GasUsed p,
       r_touched := go_map_of (map (\<lambda>(s, as). (HexToAddress E s, map (BytesToAddress E) as)) (p_Touched p)),
       r_mapStorageAddress :=
         (if length (p_MapCreatorPubkey p) > 0
          then go_map_of (map (\<lambda>(k, a). (k, BytesToAddress E a)) (p_MapStorageAddress p))
          else r_mapStorageAddress r),
       r_mapCreatorPubkey :=
         (if length (p_MapCreatorPubkey p) > 0 then p_MapCreatorPubkey p else r_mapCreatorPubkey r),
       r_nativeUpdates := go_map_of (map (\<lambda>(s, kvs). (HexToAddress E s, kvs)) (p_NativeUpdates p)),
       r_eventLogs := p_EventLogs p\<rparr>"

definition ExecuteSCResultsFromProto :: "eth_lib \<Rightarrow> pb_ExecuteSCResult list \<Rightarrow> ExecuteSCResult list" where
  "ExecuteSCResultsFromProto E ps = map (\<lambda>p. result_FromProto E p zero_ExecuteSCResult) ps"

definition ExecuteSCResultsToProto :: "eth_lib \<Rightarrow> ExecuteSCResult list \<Rightarrow> pb_ExecuteSCResult list" where
  "ExecuteSCResultsToProto E rs = map (result_Proto E) rs"

record ExecuteSCResults =
  rs_results :: "ExecuteSCResult list"
  rs_groupId :: u64
  rs_blockNumber :: u64

definition results_Proto :: "eth_lib \<Rightarrow> ExecuteSCResults \<Rightarrow> pb_ExecuteSCResult list \<times> u64 \<times> u64" where
  "results_Proto E er = (map (result_Proto E) (rs_results er), rs_groupId er, rs_blockNumber er)"

text \<open>\<^verbatim>\<open>FromProto\<close> appends to the results the object already has.\<close>

definition results_FromProto ::
  "eth_lib \<Rightarrow> pb_ExecuteSCResult list \<times> u64 \<times> u64 \<Rightarrow> ExecuteSCResults \<Rightarrow> ExecuteSCResults" where
  "results_FromProto E m er =
     (case m of (ps, g, n) \<Rightarrow>
        er\<lparr>rs_results := rs_results er @ ExecuteSCResultsFromProto E ps, rs_groupId := g, rs_blockNumber := n\<rparr>)"

fun marshal_all :: "(pb_ExecuteSCResult \<Rightarrow> bytes option) \<Rightarrow> pb_ExecuteSCResult list \<Rightarrow> bytes option" where
  "marshal_all enc [] = Some []"
| "marshal_all enc (p # ps) =
     (case enc p of
        None \<Rightarrow> None
      | Some b \<Rightarrow> map_option (\<lambda>c. b @ c) (marshal_all enc ps))"

definition HashExecuteSCResultsKeccak256 ::
  "eth_lib \<Rightarrow> (pb_ExecuteSCResult \<Rightarrow> bytes option) \<Rightarrow> ExecuteSCResult list \<Rightarrow> bytes" where
  "HashExecuteSCResultsKeccak256 E enc rs =
     (case marshal_all enc (map (result_Proto E) rs) of
        None \<Rightarrow> zero_hash32
      | Some b \<Rightarrow> BytesToHash32 E (Keccak256Hash E b))"

subsection \<open>Update data and touched addresses\<close>

record SmartContractUpdateData =
  u_code :: bytes
  u_storage :: "(string \<times> bytes) list"
  u_eventLogs :: "EventLog list"

definition UpdateData_CodeHash :: "eth_lib \<Rightarrow> SmartContractUpdateData \<Rightarrow> bytes" where
  "UpdateData_CodeHash E s = Keccak256Hash E (u_code s)"

definition UpdateData_SetCode :: "bytes \<Rightarrow> SmartContractUpdateData \<Rightarrow> SmartContractUpdateData" where
  "UpdateData_SetCode c s = s\<lparr>u_code := c\<rparr>"

text \<open>Writing to the nil map of an empty object would panic; the storage is not nil here.\<close>

definition UpdateStorage :: "(string \<times> bytes) list \<Rightarrow> SmartContractUpdateData \<Rightarrow> SmartContractUpdateData" where
  "UpdateStorage m s = s\<lparr>u_storage := fold (\<lambda>(k, v) st. AList.update k v st) m (u_storage s)\<rparr>"

definition AddEventLog :: "EventLog \<Rightarrow> SmartContractUpdateData \<Rightarrow> SmartContractUpdateData" where
  "AddEventLog l s = s\<lparr>u_eventLogs := u_eventLogs s @ [l]\<rparr>"

record SmartContractUpdateDatas =
  us_blockNumber :: u64
  us_data :: "(bytes \<times> SmartContractUpdateData) list"

definition UpdateDatas_Proto ::
  "eth_lib \<Rightarrow> SmartContractUpdateDatas \<Rightarrow> u64 \<times> (string \<times> SmartContractUpdateData) list" where
  "UpdateDatas_Proto E s = (us_blockNumber s, map (\<lambda>(a, d). (Address_Hex E a, d)) (us_data s))"

definition UpdateDatas_FromProto ::
  "eth_lib \<Rightarrow> u64 \<times> (string \<times> SmartContractUpdateData) list \<Rightarrow> SmartContractUpdateDatas" where
  "UpdateDatas_FromProto E p =
     \<lparr>us_blockNumber = fst p, us_data = go_map_of (map (\<lambda>(s, d). (HexToAddress E s, d)) (snd p))\<rparr>"

record TouchedAddressesData =
  t_blockNumber :: u64
  t_addresses :: "bytes list"

definition Touched_Proto :: "TouchedAddressesData \<Rightarrow> u64 \<times> bytes list" where
  "Touched_Proto t = (t_blockNumber t, t_addresses t)"

definition Touched_FromProto :: "eth_lib \<Rightarrow> u64 \<times> bytes list \<Rightarrow> TouchedAddressesData" where
  "Touched_FromProto E p = \<lparr>t_blockNumber = fst p, t_addresses = map (BytesToAddress E) (snd p)\<rparr>"
subsection \<open>Groups of transactions, requests and results of signature checks\<close>

record ExecuteSCTransactions =
  et_transactions :: "Transaction list"
  et_blockNumber :: u64
  et_groupId :: u64

definition NewExecuteSCTransactions :: "Transaction list \<Rightarrow> u64 \<Rightarrow> u64 \<Rightarrow> ExecuteSCTransactions" where
  "NewExecuteSCTransactions ts groupId blockNumber =
     \<lparr>et_transactions = ts, et_blockNumber = blockNumber, et_groupId = groupId\<rparr>"

definition et_Proto :: "ExecuteSCTransactions \<Rightarrow> pb_Transaction list \<times> u64 \<times> u64" where
  "et_Proto et = (map tproto (et_transactions et), et_groupId et, et_blockNumber et)"

definition et_FromProto :: "pb_Transaction list \<times> u64 \<times> u64 \<Rightarrow> ExecuteSCTransactions" where
  "et_FromProto p =
     (case p of (ts, g, n) \<Rightarrow> \<lparr>et_transactions = map TransactionFromProto ts, et_blockNumber = n, et_groupId = g\<rparr>)"

record VerifyTransactionSignRequest =
  v_Hash :: bytes
  v_Pubkey :: bytes
  v_Sign :: bytes

definition VerifyRequest_Valid :: "tx_lib \<Rightarrow> VerifyTransactionSignRequest \<Rightarrow> bool" where
  "VerifyRequest_Valid X v =
     bls_VerifySign X (PubkeyFromBytes (v_Pubkey v)) (SignFromBytes (v_Sign v)) (BytesToHash32 X (v_Hash v))"

subsection \<open>Transaction errors\<close>

record TransactionError =
  Code :: int
  Description :: string

text \<open>The errors in the order of their codes, 1 to 68.\<close>

definition transaction_errors :: "string list" where
  "transaction_errors =
     [''invalid transaction hash'', ''invalid new device key'', ''not match last hash'',
      ''invalid last device key'', ''invalid amount'', ''invalid pending use'',
      ''invalid deploy smart contract to account'',
      ''invalid call smart contract to  non-existent smart account'', ''invalid call smart contract data'',
      ''invalid stake address'', ''invalid unstake address'', ''invalid unstake amount'',
      ''invalid max gas'', ''invalid max gas price'', ''invalid commission sign'',
      ''smart contract not enough balance for commission fee'', ''invalid open channel to account'',
      ''invalid sign'', ''invalid commit address'', ''invalid open account amount'', ''is not creator'',
      ''not enough verify miner to verify transaction'', ''verify transaction sign timed out'',
      ''invalid code storage'', ''invalid call smart contract to non-existent account'', ''invalid nonce'',
      ''invalid min time use '', ''timeout pending'', ''cannot initialize BLS'', ''invalid data'',
      ''address mismatch for add bls public key'', ''transaction requires authentication from 2 signatures'',
      ''invalid transaction'', ''invalid chain id'', ''invalid data input length for tx0'',
      ''invalid BLS signature for tx0'', ''failed to recover pubkey for tx0'', ''invalid address match for tx0'',
      ''nonce is 0 but public key is not empty'', ''invalid deploy data'', ''invalid call data'',
      ''invalid block data'', ''Public key BLS already exists'', ''invalid sign SECP'', ''out of gas'',
      ''code store out of gas'', ''depth'', ''insufficient balance'', ''contract address collision'',
      ''execution reverted'', ''max code size exceeded'', ''invalid jump'', ''write protection'',
      ''return data out of bounds'', ''gas uint overflow'', ''invalid code'', ''nonce uint overflow'',
      ''out of bounds'', ''overflow'', ''address not in related'', ''none'', ''invalid max fee'',
      ''node is syncing and not ready yet'', ''transaction rejected: nonce conflict detected'',
      ''error: Get state'', ''verify transaction failed'', ''failed to add transaction to pool'',
      ''failed to upload chunk'']"

text \<open>The map \<^verbatim>\<open>CodeToError\<close>.\<close>

definition CodeToError :: "int \<Rightarrow> TransactionError option" where
  "CodeToError c =
     (if 1 \<le> c \<and> c \<le> int (length transaction_errors)
      then Some \<lparr>Code = c, Description = transaction_errors ! nat (c - 1)\<rparr> else None)"

text \<open>The exceptions 0 to 15 have the codes 45 to 60, \<^verbatim>\<open>EXCEPTION_NONE\<close> (-1) has 61.\<close>

definition MapProtoExceptionToTransactionError :: "int \<Rightarrow> TransactionError option" where
  "MapProtoExceptionToTransactionError e =
     (if 0 \<le> e \<and> e \<le> 15 then CodeToError (e + 45) else if e = - 1 then CodeToError 61 else None)"

record TransactionHashWithError =
  the_hash :: bytes
  the_errorCode :: int
  the_description :: string
  the_output :: bytes

definition TransactionHashWithError_FromProto :: "eth_lib \<Rightarrow> TransactionHashWithError \<Rightarrow> TransactionHashWithError" where
  "TransactionHashWithError_FromProto E p = p\<lparr>the_hash := BytesToHash32 E (the_hash p)\<rparr>"

definition TransactionHashWithErrorCode_FromProto :: "eth_lib \<Rightarrow> bytes \<times> int \<Rightarrow> bytes \<times> int" where
  "TransactionHashWithErrorCode_FromProto E p = (BytesToHash32 E (fst p), snd p)"

subsection \<open>Block numbers and states\<close>

record block_state =
  lastBlockNumber :: u64
  updateState :: u32
  firstUpdateInRam :: u64
  firstUpdateInDb :: u64
  connectState :: u32
  lastBlockNumberFromMaster :: u64
  incrementingCounter :: u64
  commitLock :: u32

text \<open>\<^verbatim>\<open>uint64(time.Now().Unix())\<close> is an argument; the counter wraps around.\<close>

definition InitIncrementingCounterFromBootTime :: "int \<Rightarrow> block_state \<Rightarrow> block_state" where
  "InitIncrementingCounterFromBootTime unix s = s\<lparr>incrementingCounter := word_of_int unix\<rparr>"

definition GetIncrementingCounter :: "block_state \<Rightarrow> u64 \<times> block_state" where
  "GetIncrementingCounter s = (let n = incrementingCounter s + 1 in (n, s\<lparr>incrementingCounter := n\<rparr>))"

definition SetCommitLock :: "bool \<Rightarrow> block_state \<Rightarrow> block_state" where
  "SetCommitLock l s = s\<lparr>commitLock := (if l then 1 else 0)\<rparr>"

definition GetCommitLock :: "block_state \<Rightarrow> bool" where
  "GetCommitLock s \<longleftrightarrow> commitLock s = 1"

definition UpdateLastBlockNumber :: "u64 \<Rightarrow> block_state \<Rightarrow> block_state" where
  "UpdateLastBlockNumber n s = s\<lparr>lastBlockNumber := n\<rparr>"

definition UpdateLastBlockNumberFromMaster :: "u64 \<Rightarrow> block_state \<Rightarrow> block_state" where
  "UpdateLastBlockNumberFromMaster n s = s\<lparr>lastBlockNumberFromMaster := n\<rparr>"

text \<open>The state is stored, then sent on an unbuffered channel; the second component is what is sent.\<close>

definition UpdateState :: "u32 \<Rightarrow> block_state \<Rightarrow> block_state \<times> u32" where
  "UpdateState st s = (s\<lparr>updateState := st\<rparr>, st)"

definition UpdateConnectState :: "u32 \<Rightarrow> block_state \<Rightarrow> block_state \<times> u32" where
  "UpdateConnectState st s = (s\<lparr>connectState := st\<rparr>, st)"

definition UpdateFirstUpdateInRam :: "u64 \<Rightarrow> block_state \<Rightarrow> block_state" where
  "UpdateFirstUpdateInRam n s = s\<lparr>firstUpdateInRam := n\<rparr>"

definition UpdateFirstUpdateInDb :: "u64 \<Rightarrow> block_state \<Rightarrow> block_state" where
  "UpdateFirstUpdateInDb n s = s\<lparr>firstUpdateInDb := n\<rparr>"

subsection \<open>What survives the wire\<close>

lemma AList_update_new: "k \<notin> fst ` set m \<Longrightarrow> AList.update k v m = m @ [(k, v)]"
  by (induction m) auto

lemma go_map_of_fold:
  assumes "distinct (map fst (acc @ es))"
  shows "fold (\<lambda>(k, v) m. AList.update k v m) es acc = acc @ es"
  using assms
proof (induction es arbitrary: acc)
  case (Cons e es)
  obtain k v where e: "e = (k, v)" by force
  with Cons.prems have "k \<notin> fst ` set acc" by auto
  with Cons e show ?case using Cons.IH [of "acc @ [(k, v)]"] by (simp add: AList_update_new)
qed simp

lemma go_map_of_distinct: "distinct (map fst es) \<Longrightarrow> go_map_of es = es"
  using go_map_of_fold [of "[]" es] by (simp add: go_map_of_def)

definition result_wf :: "ExecuteSCResult \<Rightarrow> bool" where
  "result_wf r \<longleftrightarrow> length (r_transactionHash r) = 32 \<and> distinct (map fst (r_mapStorageAddress r)) \<and>
     (\<forall>(k, a) \<in> set (r_mapStorageAddress r). length a = 20) \<and>
     distinct (map fst (r_touched r)) \<and>
     (\<forall>(a, as) \<in> set (r_touched r). length a = 20 \<and> (\<forall>b \<in> set as. length b = 20)) \<and>
     distinct (map fst (r_nativeUpdates r)) \<and> (\<forall>(a, kvs) \<in> set (r_nativeUpdates r). length a = 20)"

lemma map_back: "(\<forall>x \<in> set xs. f x = x) \<Longrightarrow> map f xs = xs"
  by (rule map_idI) blast

text \<open>A result of an execution that is sent and read back has lost its nonces and its log hash. Without creator keys it has
  also lost the storage addresses of its contracts. Everything else is kept.\<close>

theorem ExecuteSCResult_wire:
  assumes "eth_laws E" "\<And>a. length a = 20 \<Longrightarrow> HexToAddress E (hex_encode a) = a" "result_wf r"
  shows "result_FromProto E (result_Proto E r) zero_ExecuteSCResult =
    r\<lparr>r_mapNonce := [], r_logsHash := zero_hash32,
      r_mapStorageAddress := (if r_mapCreatorPubkey r = [] then [] else r_mapStorageAddress r)\<rparr>"
proof -
  have adr: "BytesToAddress E a = a" "HexToAddress E (Address_Hex E a) = a" if "length a = 20" for a
    using assms(1) that by (simp_all add: eth_laws_def)
  have "HexToAddress E (hex_encode a) = a \<and> map (BytesToAddress E) as = as" if "(a, as) \<in> set (r_touched r)" for a as
  proof -
    have "length a = 20" "\<forall>b \<in> set as. length b = 20" using assms(3) that by (auto simp: result_wf_def)
    then show ?thesis by (simp add: assms(2) adr(1) map_back)
  qed
  then have t: "map (\<lambda>(s, as). (HexToAddress E s, map (BytesToAddress E) as)) (map (\<lambda>(a, as). (hex_encode a, as)) (r_touched r))
    = r_touched r"
    by (auto intro!: map_back)
  have "HexToAddress E (Address_Hex E a) = a" if "(a, kvs) \<in> set (r_nativeUpdates r)" for a kvs
    using assms(3) that by (intro adr(2)) (auto simp: result_wf_def)
  then have n: "map (\<lambda>(s, kvs). (HexToAddress E s, kvs)) (map (\<lambda>(a, kvs). (Address_Hex E a, kvs)) (r_nativeUpdates r))
    = r_nativeUpdates r"
    by (auto intro!: map_back)
  have "BytesToAddress E a = a" if "(k, a) \<in> set (r_mapStorageAddress r)" for k a
    using assms(3) that by (intro adr(1)) (auto simp: result_wf_def)
  then have s: "map (\<lambda>(k, a). (k, BytesToAddress E a)) (r_mapStorageAddress r) = r_mapStorageAddress r"
    by (auto intro!: map_back)
  have "BytesToHash32 E (r_transactionHash r) = r_transactionHash r"
    using assms by (simp add: result_wf_def eth_laws_def)
  with assms(3) t n s show ?thesis
    by (simp add: result_FromProto_def result_Proto_def zero_ExecuteSCResult_def go_map_of_distinct result_wf_def)
qed

lemma ref_hex_address: "length a = 20 \<Longrightarrow> HexToAddress ref_eth (hex_encode a) = a"
  by (simp add: ref_eth_def pad_left_def hex_decode_ref_inverse)

lemma ExecuteSCResult_wire_example:
  "r_mapNonce (result_FromProto ref_eth (result_Proto ref_eth
     (zero_ExecuteSCResult\<lparr>r_mapNonce := [(''a'', [1])], r_touched := [(replicate 20 2, [replicate 20 3])]\<rparr>))
     zero_ExecuteSCResult) = []"
proof -
  have "result_wf (zero_ExecuteSCResult\<lparr>r_mapNonce := [(''a'', [1])], r_touched := [(replicate 20 2, [replicate 20 3])]\<rparr>)"
    by (simp add: result_wf_def zero_ExecuteSCResult_def zero_hash32_def)
  from ExecuteSCResult_wire [OF ref_eth_laws ref_hex_address this] show ?thesis by simp
qed

end
