(* ===== verification/Trie_Shape.thy ===== *)
theory Trie_Shape
  imports Trie_API Trie_Instance
begin

text \<open>
  The shape of trie nodes: a full node has exactly the 17 children of the Go array
  \<^verbatim>\<open>[TOTAL_CHILD_NODE]Node\<close>, at every level. The model keeps children in a list, so this is what makes
  it agree with the type of the code; it holds for every database, also one with corrupt blobs, and for
  every external codec.
\<close>

fun node_typed :: "node \<Rightarrow> bool" where
  "node_typed NilNode = True"
| "node_typed (ValueNode v) = True"
| "node_typed (HashNode h) = True"
| "node_typed (ShortNode k v f) = node_typed v"
| "node_typed (FullNode cs f) = (length cs = TOTAL_CHILD_NODE \<and> list_all node_typed cs)"

definition children_typed :: "node list \<Rightarrow> bool" where
  "children_typed cs \<longleftrightarrow> length cs = TOTAL_CHILD_NODE \<and> list_all node_typed cs"

lemma typed_full [simp]: "node_typed (FullNode cs f) = children_typed cs"
  by (simp add: children_typed_def)

declare node_typed.simps(5) [simp del]

lemma typed_update: "children_typed cs \<Longrightarrow> node_typed n \<Longrightarrow> children_typed (cs[i := n])"
  by (auto simp: children_typed_def list_all_iff dest: set_update_subset_insert [THEN subsetD])

lemma typed_child: "children_typed cs \<Longrightarrow> i < length cs \<Longrightarrow> node_typed (cs ! i)"
  by (auto simp: children_typed_def list_all_iff)

lemma typed_empty: "children_typed (replicate TOTAL_CHILD_NODE NilNode)"
  by (simp add: children_typed_def list_all_iff)

lemma typed_branch: "node_typed a \<Longrightarrow> node_typed b \<Longrightarrow> node_typed (branch_node i a j b)"
  by (simp add: branch_node_def typed_update typed_empty)

lemma setChildren_typed: "setChildren X i vs cs = Some cs' \<Longrightarrow> children_typed cs \<Longrightarrow> children_typed cs'"
  by (induction X i vs cs rule: setChildren.induct) (auto simp: typed_update split: if_splits)

lemma setChildren_empty_typed:
  "setChildren X 0 vs (replicate TOTAL_CHILD_NODE NilNode) = Some cs \<Longrightarrow> children_typed cs"
  by (rule setChildren_typed [OF _ typed_empty])

lemma DecodeNode_typed: "DecodeNode X hash buf = Some n \<Longrightarrow> node_typed n"
  by (auto simp: DecodeNode_def FullNode_Unmarshal_def ShortNode_Unmarshal_def Let_def setChildren_empty_typed
      split: option.splits MPTNODE_TYPE.splits unmarshal.splits)

lemma resolveAndTrack_typed: "resolveAndTrack X db h pre tr = (Inr n, tr') \<Longrightarrow> node_typed n"
  by (auto simp: resolveAndTrack_def dest: DecodeNode_typed split: sum.splits option.splits)

lemma resolve_typed: "node_typed n \<Longrightarrow> resolve X db n pre tr = (Inr m, tr') \<Longrightarrow> node_typed m"
  by (auto simp: resolve_def dest: resolveAndTrack_typed split: node.splits)

text \<open>What an operation hands back.\<close>

definition out_typed :: "(trie_error + bool \<times> node) \<times> Tracer \<Rightarrow> bool" where
  "out_typed r = (case fst r of Inl e \<Rightarrow> True | Inr (d, n) \<Rightarrow> node_typed n)"

lemma out_typed_simps [simp]: "out_typed (Inl e, tr)" "out_typed (Inr (d, n), tr) = node_typed n"
  by (simp_all add: out_typed_def)

lemma out_typedD: "out_typed r \<Longrightarrow> r = (Inr (d, n), tr) \<Longrightarrow> node_typed n"
  by (simp add: out_typed_def)

lemma insert_typed:
  "node_typed n \<Longrightarrow> node_typed val \<Longrightarrow> out_typed (trie_insert X db fuel n pre key val tr)"
proof (induction fuel arbitrary: n pre key val tr)
  case (Suc fuel)
  have IH: "node_typed m" if "trie_insert X db fuel a pre' key' w tr1 = (Inr (d, m), tr2)" "node_typed a" "node_typed w"
    for a pre' key' w tr1 tr2 d m
    using out_typedD [OF Suc.IH [OF that(2,3)] that(1)] .
  show ?case
  proof (cases n)
    case (ShortNode k v f)
    then have v: "node_typed v" using Suc.prems by simp
    show ?thesis
      using Suc.prems(2) v IH [OF _ v Suc.prems(2)] IH [OF _ _ v, of NilNode] IH [OF _ _ Suc.prems(2), of NilNode]
      unfolding ShortNode trie_insert.simps(2) Let_def
      by (simp add: typed_branch split: sum.split prod.split)
  next
    case (FullNode cs f)
    then have cs: "children_typed cs" using Suc.prems by simp
    show ?thesis
      using Suc.prems(2) cs IH [OF _ typed_child [OF cs] Suc.prems(2)]
      unfolding FullNode trie_insert.simps(2)
      by (simp add: typed_update split: sum.split prod.split)
  next
    case (HashNode h)
    show ?thesis
      using Suc.prems(2) resolveAndTrack_typed [of X db h pre tr] IH [OF _ _ Suc.prems(2)] Suc.IH [OF _ Suc.prems(2), of NilNode]
      unfolding HashNode trie_insert.simps(2)
      by (simp split: sum.split prod.split trie_error.split)
  qed (use Suc.prems in \<open>simp_all add: trie_insert.simps(2) split: node.split\<close>)
qed simp
lemma reduce_pos_bound: "0 \<le> reduce_pos i p cs \<Longrightarrow> reduce_pos i p cs = p \<or> nat (reduce_pos i p cs) < i + length cs"
  by (induction i p cs rule: reduce_pos.induct) (auto split: if_splits)

lemma reduce_full_typed:
  assumes "children_typed cs"
  shows "out_typed (reduce_full X db pre cs tr)"
proof -
  let ?p = "reduce_pos 0 (-1) cs"
  have c: "node_typed (cs ! nat ?p)" if "0 \<le> ?p"
    using typed_child [OF assms] reduce_pos_bound [OF that] that by auto
  show ?thesis
    using assms c resolve_typed [of "cs ! nat ?p" X db "pre @ [word_of_nat (nat ?p)]" tr]
    unfolding reduce_full_def Let_def
    by (fastforce split: sum.split prod.split node.split)
qed

lemma delete_typed: "node_typed n \<Longrightarrow> out_typed (trie_delete X db fuel n pre key tr)"
proof (induction fuel arbitrary: n pre key tr)
  case (Suc fuel)
  have IH: "node_typed m" if "trie_delete X db fuel a pre' key' tr1 = (Inr (d, m), tr2)" "node_typed a"
    for a pre' key' tr1 tr2 d m
    using out_typedD [OF Suc.IH [OF that(2)] that(1)] .
  show ?case
  proof (cases n)
    case (ShortNode k v f)
    then have v: "node_typed v" using Suc.prems by simp
    show ?thesis
      using v IH [OF _ v] unfolding ShortNode trie_delete.simps(2) Let_def
      by (fastforce split: sum.split prod.split node.split)
  next
    case (FullNode cs f)
    then have cs: "children_typed cs" using Suc.prems by simp
    show ?thesis
      using cs IH [OF _ typed_child [OF cs]] unfolding FullNode trie_delete.simps(2)
      by (simp add: typed_update reduce_full_typed Let_def split: sum.split prod.split)
  next
    case (HashNode h)
    show ?thesis
      using resolveAndTrack_typed [of X db h pre tr] IH unfolding HashNode trie_delete.simps(2)
      by (simp split: sum.split prod.split)
  qed (simp_all add: trie_delete.simps(2))
qed simp

text \<open>The nodes of a trie have the type of the code, where a full node holds an array of 17 children:
  every node decoded from a blob has 17 children in each full node, and where all full nodes of a trie have,
  all of them have after an update, whether it inserts or deletes, succeeds or fails, for every database (also
  one that misses nodes or holds corrupt blobs), every codec, key and value.\<close>

lemma Update_typed:
  assumes "node_typed (root t)"
  shows "node_typed (root (snd (trie_Update X db fuel t key val))) \<and>
    (case DecodeNode X hash blob of None \<Rightarrow> True | Some n \<Rightarrow> node_typed n)"
proof -
  let ?k = "KeybytesToHex (hashKey X t key)"
  have "out_typed (trie_insert X db fuel (root t) [] ?k (ValueNode val) (tracer t))"
    "out_typed (trie_delete X db fuel (root t) [] ?k (tracer t))"
    using insert_typed delete_typed assms by simp_all
  then have "node_typed (root (snd (trie_Update X db fuel t key val)))"
    using assms by (auto simp: trie_Update_def trie_update_def Let_def out_typed_def split: sum.splits prod.splits)
  then show ?thesis by (simp add: DecodeNode_typed split: option.split)
qed

definition full_root :: MerklePatriciaTrie where
  "full_root = (empty_trie False)\<lparr>root := FullNode (replicate 17 NilNode) NewFlag\<rparr>"

lemma Update_typed_example:
  "node_typed (root full_root) \<and> node_typed (root (snd (trie_Update ref_ext Map.empty 20 full_root [1, 2] [7])))"
proof -
  have r: "node_typed (root full_root)"
    using typed_empty by (simp add: full_root_def TOTAL_CHILD_NODE_def)
  show ?thesis
    using Update_typed [OF r, of ref_ext Map.empty 20 "[1, 2]" "[7]"] r by simp
qed

end
