(* ===== verification/Receipt_Router.thy ===== *)
theory Receipt_Router
  imports Receipts
begin

text \<open>
  The receipt router of the TCP client, \<^verbatim>\<open>runReceiptRouter\<close> and \<^verbatim>\<open>waitReceipt\<close> in
  \<^verbatim>\<open>src/pkg/client-tcp/client.go\<close>. One goroutine owns two maps, the waiters and the receipts that
  came before anybody waited for them; the calls of \<^verbatim>\<open>waitReceipt\<close> register with it and wait on a
  response channel of capacity one, which is a list here. The select of the goroutine takes
  its cases in any order, so a run is a list of events; the clock is an argument in
  nanoseconds. The receipts are those of \<^verbatim>\<open>Receipts.thy\<close>.
\<close>

subsection \<open>State of the router\<close>

datatype receiptMatchType = matchByTxHash | matchByReceiptHash

datatype receiptRequestType = receiptRequestRegister | receiptRequestCancel

record receiptRequest =
  rq_action :: receiptRequestType
  rq_txHash :: bytes
  rq_matchType :: receiptMatchType
  rq_responseCh :: nat

record receiptWaiter =
  w_ch :: nat
  w_matchType :: receiptMatchType
  w_txHash :: bytes

record pendingReceipt =
  pr_value :: Receipt
  expiresAt :: int

definition pendingReceiptTTL :: int where
  "pendingReceiptTTL = 60 * 1000000000"

record router =
  waiters :: "bytes \<rightharpoonup> receiptWaiter list"
  pendingReceipts :: "bytes \<rightharpoonup> pendingReceipt"

type_synonym response_chans = "nat \<Rightarrow> Receipt list"

text \<open>A send in a select with a default case: it is dropped when the channel is full.\<close>

definition try_send :: "nat \<Rightarrow> Receipt \<Rightarrow> response_chans \<Rightarrow> response_chans" where
  "try_send c r cs = (if cs c = [] then cs(c := [r]) else cs)"

subsection \<open>The cases of its select\<close>

fun match_waiters ::
  "receiptMatchType \<Rightarrow> bytes \<Rightarrow> Receipt \<Rightarrow> receiptWaiter list \<Rightarrow> response_chans \<Rightarrow>
   receiptWaiter list \<times> response_chans" where
  "match_waiters mt h r [] cs = ([], cs)"
| "match_waiters mt h r (w # ws) cs =
     (if w_matchType w = mt \<and> w_txHash w = h then match_waiters mt h r ws (try_send (w_ch w) r cs)
      else (case match_waiters mt h r ws cs of (remaining, cs') \<Rightarrow> (w # remaining, cs')))"

definition notify_waiters ::
  "receiptMatchType \<Rightarrow> bytes \<Rightarrow> Receipt \<Rightarrow> (bytes \<rightharpoonup> receiptWaiter list) \<times> response_chans \<Rightarrow>
   (bytes \<rightharpoonup> receiptWaiter list) \<times> response_chans" where
  "notify_waiters mt h r s =
     (case s of (ws, cs) \<Rightarrow>
        (case ws h of
           None \<Rightarrow> (ws, cs)
         | Some chans \<Rightarrow>
             (case match_waiters mt h r chans cs of (remaining, cs') \<Rightarrow>
                (if remaining = [] then ws(h := None) else ws(h \<mapsto> remaining), cs'))))"

definition on_receipt :: "ext \<Rightarrow> int \<Rightarrow> Receipt option \<Rightarrow> router \<times> response_chans \<Rightarrow> router \<times> response_chans" where
  "on_receipt X now receipt s =
     (case receipt of
        None \<Rightarrow> s
      | Some r \<Rightarrow>
          (case s of (rt, cs) \<Rightarrow>
             (case notify_waiters matchByReceiptHash (RHash X r) r
                     (notify_waiters matchByTxHash (TransactionHash X r) r (waiters rt, cs)) of
                (ws, cs') \<Rightarrow>
                  (rt\<lparr>waiters := ws,
                      pendingReceipts := (pendingReceipts rt)(TransactionHash X r \<mapsto>
                        \<lparr>pr_value = r, expiresAt = now + pendingReceiptTTL\<rparr>)\<rparr>, cs'))))"

text \<open>The \<^verbatim>\<open>break\<close> under an expired receipt leaves the switch, so that request is not registered.\<close>

fun remove_waiter :: "nat \<Rightarrow> receiptWaiter list \<Rightarrow> receiptWaiter list" where
  "remove_waiter c [] = []"
| "remove_waiter c (w # ws) = (if w_ch w = c then ws else w # remove_waiter c ws)"

definition on_request :: "int \<Rightarrow> receiptRequest \<Rightarrow> router \<times> response_chans \<Rightarrow> router \<times> response_chans" where
  "on_request now req s =
     (case s of (rt, cs) \<Rightarrow>
        let h = rq_txHash req in
        (case rq_action req of
           receiptRequestRegister \<Rightarrow>
             (case pendingReceipts rt h of
                Some p \<Rightarrow>
                  if now > expiresAt p
                  then (rt\<lparr>pendingReceipts := (pendingReceipts rt)(h := None)\<rparr>, cs)
                  else (rt\<lparr>pendingReceipts := (pendingReceipts rt)(h := None)\<rparr>,
                        try_send (rq_responseCh req) (pr_value p) cs)
              | None \<Rightarrow>
                  (rt\<lparr>waiters := (waiters rt)(h \<mapsto>
                      (case waiters rt h of None \<Rightarrow> [] | Some ws \<Rightarrow> ws) @
                      [\<lparr>w_ch = rq_responseCh req, w_matchType = rq_matchType req, w_txHash = h\<rparr>])\<rparr>, cs))
         | receiptRequestCancel \<Rightarrow>
             (case waiters rt h of
                None \<Rightarrow> (rt, cs)
              | Some chans \<Rightarrow>
                  let chans' = remove_waiter (rq_responseCh req) chans
                  in (rt\<lparr>waiters := (if chans' = [] then (waiters rt)(h := None)
                                     else (waiters rt)(h \<mapsto> chans'))\<rparr>, cs))))"

definition on_cleanup :: "int \<Rightarrow> router \<Rightarrow> router" where
  "on_cleanup now rt =
     rt\<lparr>pendingReceipts := (\<lambda>h. case pendingReceipts rt h of
          None \<Rightarrow> None
        | Some p \<Rightarrow> if now > expiresAt p then None else Some p)\<rparr>"

subsection \<open>The calls that wait\<close>

text \<open>
  A system is the router, the response channels, the calls of \<^verbatim>\<open>waitReceipt\<close> in the order in
  which they were made, and the shared channel of transaction errors, of capacity one. The
  number of a call is the name of its response channel. \<^verbatim>\<open>receiptRequests\<close> is unbuffered, so
  sending a request and handling it is one step.
\<close>

record pb_TransactionHashWithError =
  te_Hash :: bytes
  te_Code :: int
  te_Description :: string
  te_Output :: bytes

datatype wait_result = GotReceipt Receipt | TxError bytes | WaitTimeout

record wait_call =
  c_txHash :: bytes
  c_matchType :: receiptMatchType
  c_timeout :: int
  c_result :: "wait_result option"

record wait_sys =
  s_router :: "router \<times> response_chans"
  s_calls :: "wait_call list"
  transactionErrorChan :: "pb_TransactionHashWithError list"

datatype wait_event =
    WaitReceipt bytes receiptMatchType int int
  | ReceiptArrives "Receipt option" int
  | ErrorArrives pb_TransactionHashWithError
  | CallReceives nat
  | CallTakesError nat int
  | CallTimer nat int
  | CleanupTick int

definition init_wait_sys :: wait_sys where
  "init_wait_sys = \<lparr>s_router = (\<lparr>waiters = Map.empty, pendingReceipts = Map.empty\<rparr>, \<lambda>_. []),
     s_calls = [], transactionErrorChan = []\<rparr>"

definition running :: "nat \<Rightarrow> wait_sys \<Rightarrow> bool" where
  "running i s = (i < length (s_calls s) \<and> c_result (s_calls s ! i) = None)"

definition finish :: "nat \<Rightarrow> wait_result \<Rightarrow> wait_sys \<Rightarrow> wait_sys" where
  "finish i res s = s\<lparr>s_calls := (s_calls s)[i := (s_calls s ! i)\<lparr>c_result := Some res\<rparr>]\<rparr>"

definition cancel :: "nat \<Rightarrow> int \<Rightarrow> wait_sys \<Rightarrow> wait_sys" where
  "cancel i now s =
     (let c = s_calls s ! i in
      s\<lparr>s_router := on_request now \<lparr>rq_action = receiptRequestCancel, rq_txHash = c_txHash c,
          rq_matchType = c_matchType c, rq_responseCh = i\<rparr> (s_router s)\<rparr>)"

definition receive :: "nat \<Rightarrow> wait_sys \<Rightarrow> wait_sys option" where
  "receive i s =
     (case s_router s of (rt, cs) \<Rightarrow>
        (case cs i of
           [] \<Rightarrow> None
         | r # rs \<Rightarrow> Some (finish i (GotReceipt r) (s\<lparr>s_router := (rt, cs(i := rs))\<rparr>))))"

text \<open>An event that is not possible in a state leaves it as it is.\<close>

fun wait_step :: "ext \<Rightarrow> wait_sys \<Rightarrow> wait_event \<Rightarrow> wait_sys" where
  "wait_step X s (WaitReceipt h mt timeout now) =
     s\<lparr>s_router := on_request now \<lparr>rq_action = receiptRequestRegister, rq_txHash = h, rq_matchType = mt,
         rq_responseCh = length (s_calls s)\<rparr> (s_router s),
       s_calls := s_calls s @ [\<lparr>c_txHash = h, c_matchType = mt, c_timeout = timeout, c_result = None\<rparr>]\<rparr>"
| "wait_step X s (ReceiptArrives r now) = s\<lparr>s_router := on_receipt X now r (s_router s)\<rparr>"
| "wait_step X s (ErrorArrives e) =
     (if transactionErrorChan s = [] then s\<lparr>transactionErrorChan := [e]\<rparr> else s)"
| "wait_step X s (CallReceives i) =
     (if running i s then (case receive i s of None \<Rightarrow> s | Some s' \<Rightarrow> s') else s)"
| "wait_step X s (CallTakesError i now) =
     (if running i s \<and> c_timeout (s_calls s ! i) > 0 then
        (case transactionErrorChan s of
           [] \<Rightarrow> s
         | e # es \<Rightarrow>
             let s = s\<lparr>transactionErrorChan := es\<rparr> in
             if BytesToHash X (te_Hash e) \<noteq> c_txHash (s_calls s ! i) then s
             else finish i (TxError (BytesToHash X (te_Output e))) (cancel i now s))
      else s)"
| "wait_step X s (CallTimer i now) =
     (if running i s \<and> c_timeout (s_calls s ! i) > 0 then
        let s = cancel i now s in
        (case receive i s of Some s' \<Rightarrow> s' | None \<Rightarrow> finish i WaitTimeout s)
      else s)"
| "wait_step X s (CleanupTick now) = s\<lparr>s_router := (on_cleanup now (fst (s_router s)), snd (s_router s))\<rparr>"

definition wait_run :: "ext \<Rightarrow> wait_event list \<Rightarrow> wait_sys \<Rightarrow> wait_sys" where
  "wait_run X es s = foldl (wait_step X) s es"
subsection \<open>Invariant\<close>

text \<open>The receipt a call may get: the one of its transaction, or, for a call that matches by receipt
  hash, the one with that hash.\<close>

definition answers :: "ext \<Rightarrow> wait_call \<Rightarrow> Receipt \<Rightarrow> bool" where
  "answers X c r \<longleftrightarrow> TransactionHash X r = c_txHash c \<or>
     c_matchType c = matchByReceiptHash \<and> RHash X r = c_txHash c"

definition waiter_ok :: "wait_call list \<Rightarrow> response_chans \<Rightarrow> bytes \<Rightarrow> receiptWaiter \<Rightarrow> bool" where
  "waiter_ok calls cs h w \<longleftrightarrow> w_txHash w = h \<and> w_ch w < length calls \<and> cs (w_ch w) = [] \<and>
     c_result (calls ! w_ch w) = None \<and> c_txHash (calls ! w_ch w) = h \<and>
     c_matchType (calls ! w_ch w) = w_matchType w"

definition waiters_ok :: "wait_call list \<Rightarrow> (bytes \<rightharpoonup> receiptWaiter list) \<times> response_chans \<Rightarrow> bool" where
  "waiters_ok calls s \<longleftrightarrow> (\<forall>h ws. fst s h = Some ws \<longrightarrow>
     distinct (map w_ch ws) \<and> (\<forall>w\<in>set ws. waiter_ok calls (snd s) h w))"

definition chans_ok :: "ext \<Rightarrow> wait_call list \<Rightarrow> response_chans \<Rightarrow> bool" where
  "chans_ok X calls cs \<longleftrightarrow> (\<forall>i r. r \<in> set (cs i) \<longrightarrow> i < length calls \<and> answers X (calls ! i) r)"

definition pending_ok :: "ext \<Rightarrow> router \<Rightarrow> bool" where
  "pending_ok X rt \<longleftrightarrow> (\<forall>h p. pendingReceipts rt h = Some p \<longrightarrow> TransactionHash X (pr_value p) = h)"

definition results_ok :: "ext \<Rightarrow> wait_call list \<Rightarrow> bool" where
  "results_ok X calls \<longleftrightarrow>
     (\<forall>i < length calls. \<forall>r. c_result (calls ! i) = Some (GotReceipt r) \<longrightarrow> answers X (calls ! i) r)"

definition wait_inv :: "ext \<Rightarrow> wait_sys \<Rightarrow> bool" where
  "wait_inv X s \<longleftrightarrow> (case s_router s of (rt, cs) \<Rightarrow>
     waiters_ok (s_calls s) (waiters rt, cs) \<and> chans_ok X (s_calls s) cs \<and> pending_ok X rt \<and>
     results_ok X (s_calls s))"

text \<open>The loop over the waiters: it keeps those that do not match and fills the empty channels of
  those that do.\<close>

lemma match_waiters_eq:
  "match_waiters mt h r ws cs =
     (filter (\<lambda>w. \<not> (w_matchType w = mt \<and> w_txHash w = h)) ws,
      \<lambda>c. if cs c = [] \<and> (\<exists>w\<in>set ws. w_matchType w = mt \<and> w_txHash w = h \<and> w_ch w = c) then [r] else cs c)"
  by (induction ws arbitrary: cs) (auto simp: try_send_def fun_eq_iff)

lemma distinct_map_same: "distinct (map f ws) \<Longrightarrow> a \<in> set ws \<Longrightarrow> b \<in> set ws \<Longrightarrow> f a = f b \<Longrightarrow> a = b"
  by (auto simp: distinct_map inj_on_def)

text \<open>What one notification does, and that the second part of the state is hidden from the others.\<close>

lemma notify_waiters_eq:
  "notify_waiters mt h r (ws, cs) =
     (let l = (case ws h of None \<Rightarrow> [] | Some l \<Rightarrow> l);
          rem = filter (\<lambda>w. \<not> (w_matchType w = mt \<and> w_txHash w = h)) l
      in (if ws h = None then ws else if rem = [] then ws(h := None) else ws(h \<mapsto> rem),
          \<lambda>c. if cs c = [] \<and> (\<exists>w\<in>set l. w_matchType w = mt \<and> w_txHash w = h \<and> w_ch w = c)
              then [r] else cs c))"
  by (auto simp: notify_waiters_def match_waiters_eq Let_def Bex_def split: option.split)

lemma waiters_okD:
  assumes "waiters_ok calls (ws, cs)" "ws h = Some l"
  shows "distinct (map w_ch l)" "\<And>w. w \<in> set l \<Longrightarrow> waiter_ok calls cs h w"
  using assms by (auto simp: waiters_ok_def)

lemma notify_waiters_ok:
  assumes ok: "waiters_ok calls (ws, cs)"
  shows "waiters_ok calls (notify_waiters mt h r (ws, cs))"
proof -
  obtain ws' cs' where n: "notify_waiters mt h r (ws, cs) = (ws', cs')" by fastforce
  have sub: "\<exists>l. ws k = Some l \<and> set l' \<subseteq> set l \<and> distinct (map w_ch l') \<and>
      (k = h \<longrightarrow> l' = filter (\<lambda>w. \<not> (w_matchType w = mt \<and> w_txHash w = h)) l)"
    if l': "ws' k = Some l'" for k l'
    using n l' ok
    by (auto simp: notify_waiters_eq Let_def waiters_ok_def distinct_map inj_on_def split: if_splits option.splits)
  have ok': "waiter_ok calls cs' k w" if l': "ws' k = Some l'" and w: "w \<in> set l'" for k l' w
  proof -
    obtain l where l: "ws k = Some l" "w \<in> set l"
        "k = h \<longrightarrow> l' = filter (\<lambda>w. \<not> (w_matchType w = mt \<and> w_txHash w = h)) l"
      using sub [OF l'] w by auto
    have w_ok: "waiter_ok calls cs k w" using waiters_okD(2) [OF ok l(1) l(2)] .
    have "cs' (w_ch w) = cs (w_ch w)"
    proof (rule ccontr)
      assume "cs' (w_ch w) \<noteq> cs (w_ch w)"
      then obtain m v where m: "ws h = Some m" "v \<in> set m" "w_matchType v = mt" "w_txHash v = h" "w_ch v = w_ch w"
        using n by (auto simp: notify_waiters_eq Let_def split: if_splits option.splits)
      have "waiter_ok calls cs h v" using waiters_okD(2) [OF ok m(1) m(2)] .
      with w_ok m have kh: "k = h" by (auto simp: waiter_ok_def)
      with l m have "w = v" using distinct_map_same [OF waiters_okD(1) [OF ok m(1)], of w v] by auto
      with l(3) kh w m show False by auto
    qed
    with w_ok show ?thesis by (auto simp: waiter_ok_def)
  qed
  show ?thesis unfolding n waiters_ok_def using sub ok' by fastforce
qed

lemma notify_chans_ok:
  assumes "waiters_ok calls (ws, cs)" "chans_ok X calls cs"
    and "mt = matchByTxHash \<Longrightarrow> TransactionHash X r = h" "mt = matchByReceiptHash \<Longrightarrow> RHash X r = h"
  shows "chans_ok X calls (snd (notify_waiters mt h r (ws, cs)))"
proof -
  have hit: "answers X (calls ! c) r \<and> c < length calls"
    if "ws h = Some l" "w \<in> set l" "w_matchType w = mt" "w_ch w = c" for l w c
    using waiters_okD(2) [OF assms(1) that(1,2)] that assms(3,4)
    by (cases mt) (auto simp: waiter_ok_def answers_def)
  show ?thesis
  proof (cases "ws h")
    case None
    then show ?thesis using assms(2) by (simp add: notify_waiters_eq)
  next
    case (Some l)
    then show ?thesis
      using assms(2) hit [OF Some] by (auto simp: chans_ok_def notify_waiters_eq Let_def split: if_splits)
  qed
qed

lemma on_receipt_inv:
  assumes "wait_inv X s"
  shows "wait_inv X (s\<lparr>s_router := on_receipt X now ro (s_router s)\<rparr>)"
proof (cases ro)
  case None
  then show ?thesis using assms by (simp add: on_receipt_def)
next
  case (Some r)
  obtain rt cs where s: "s_router s = (rt, cs)" by fastforce
  let ?calls = "s_calls s"
  let ?n1 = "notify_waiters matchByTxHash (TransactionHash X r) r (waiters rt, cs)"
  let ?n2 = "notify_waiters matchByReceiptHash (RHash X r) r ?n1"
  have inv: "waiters_ok ?calls (waiters rt, cs)" "chans_ok X ?calls cs" "pending_ok X rt" "results_ok X ?calls"
    using assms by (auto simp: wait_inv_def s)
  have w1: "waiters_ok ?calls (fst ?n1, snd ?n1)" using notify_waiters_ok [OF inv(1)] by simp
  have c1: "chans_ok X ?calls (snd ?n1)" by (rule notify_chans_ok [OF inv(1,2)]) auto
  have w2: "waiters_ok ?calls (fst ?n2, snd ?n2)" using notify_waiters_ok [OF w1] by simp
  have c2: "chans_ok X ?calls (snd ?n2)" using notify_chans_ok [OF w1 c1, of matchByReceiptHash] by simp
  show ?thesis
    using w2 c2 inv(3,4)
    by (auto simp: wait_inv_def s Some on_receipt_def pending_ok_def split: prod.split)
qed

lemma waiters_ok_append:
  "waiters_ok calls (ws, cs) \<Longrightarrow> waiters_ok (calls @ [c]) (ws, cs)"
  by (fastforce simp: waiters_ok_def waiter_ok_def nth_append)

lemma chans_ok_append: "chans_ok X calls cs \<Longrightarrow> chans_ok X (calls @ [c]) cs"
  by (fastforce simp: chans_ok_def nth_append)

lemma results_ok_append: "results_ok X calls \<Longrightarrow> c_result c = None \<Longrightarrow> results_ok X (calls @ [c])"
  by (auto simp: results_ok_def nth_append less_Suc_eq)

lemma fresh_chan: "chans_ok X calls cs \<Longrightarrow> cs (length calls) = []"
  by (cases "cs (length calls)") (force simp: chans_ok_def)+
lemma register_inv:
  assumes "wait_inv X s"
  shows "wait_inv X (wait_step X s (WaitReceipt h mt timeout now))"
proof -
  obtain rt cs where s: "s_router s = (rt, cs)" by fastforce
  define calls where "calls = s_calls s"
  define c where "c = \<lparr>c_txHash = h, c_matchType = mt, c_timeout = timeout, c_result = None\<rparr>"
  have inv: "waiters_ok calls (waiters rt, cs)" "chans_ok X calls cs" "pending_ok X rt" "results_ok X calls"
    using assms by (auto simp: wait_inv_def s calls_def)
  note fresh = fresh_chan [OF inv(2)]
  note app = waiters_ok_append [OF inv(1), of c] chans_ok_append [OF inv(2), of c]
    results_ok_append [OF inv(4), of c]
  show ?thesis
  proof (cases "pendingReceipts rt h")
    case None
    have "waiters_ok (calls @ [c]) ((waiters rt)(h \<mapsto> (case waiters rt h of None \<Rightarrow> [] | Some ws \<Rightarrow> ws) @
        [\<lparr>w_ch = length calls, w_matchType = mt, w_txHash = h\<rparr>]), cs)"
      using app(1) inv(1) fresh by (fastforce simp: waiters_ok_def waiter_ok_def c_def split: option.split)
    then show ?thesis
      using None app(2,3) inv(3)
      by (auto simp: wait_inv_def s on_request_def Let_def calls_def c_def pending_ok_def)
  next
    case (Some p)
    have p: "TransactionHash X (pr_value p) = h" using inv(3) Some by (auto simp: pending_ok_def)
    have "waiters_ok (calls @ [c]) (waiters rt, cs(length calls := [pr_value p]))"
      using app(1) inv(1) by (fastforce simp: waiters_ok_def waiter_ok_def)
    moreover have "chans_ok X (calls @ [c]) (cs(length calls := [pr_value p]))"
      using app(2) p by (auto simp: chans_ok_def answers_def c_def)
    ultimately show ?thesis
      using Some app inv(3) fresh
      by (auto simp: wait_inv_def s on_request_def Let_def calls_def c_def pending_ok_def try_send_def)
  qed
qed

text \<open>A call that no waiter stands for may finish; taking a receipt off its channel is part of it.\<close>

definition unregistered :: "nat \<Rightarrow> router \<Rightarrow> bool" where
  "unregistered i rt \<longleftrightarrow> (\<forall>h ws. waiters rt h = Some ws \<longrightarrow> i \<notin> w_ch ` set ws)"

lemma finish_inv:
  assumes inv: "wait_inv X s" and s: "s_router s = (rt, cs)" and un: "unregistered i rt"
    and i: "i < length (s_calls s)" and sub: "set rs \<subseteq> set (cs i)"
    and res: "\<And>r. res = GotReceipt r \<Longrightarrow> answers X (s_calls s ! i) r"
  shows "wait_inv X (finish i res (s\<lparr>s_router := (rt, cs(i := rs))\<rparr>))"
proof -
  let ?calls = "(s_calls s)[i := (s_calls s ! i)\<lparr>c_result := Some res\<rparr>]"
  have "waiters_ok ?calls (waiters rt, cs(i := rs))"
    using inv un by (fastforce simp: wait_inv_def s waiters_ok_def waiter_ok_def unregistered_def)
  moreover have "chans_ok X ?calls (cs(i := rs))"
    using inv sub i by (auto simp: wait_inv_def s chans_ok_def nth_list_update answers_def subset_iff)
  moreover have "results_ok X ?calls"
    using inv res i by (auto simp: wait_inv_def s results_ok_def nth_list_update answers_def)
  ultimately show ?thesis using inv by (auto simp: finish_def wait_inv_def s)
qed

lemma remove_waiter_set:
  "distinct (map w_ch ws) \<Longrightarrow> set (remove_waiter c ws) = {w \<in> set ws. w_ch w \<noteq> c} \<and>
     distinct (map w_ch (remove_waiter c ws))"
  by (induction ws) (auto simp: image_iff)

lemma cancel_inv:
  assumes inv: "wait_inv X s" and i: "i < length (s_calls s)"
  shows "wait_inv X (cancel i now s)" "unregistered i (fst (s_router (cancel i now s)))"
    "snd (s_router (cancel i now s)) = snd (s_router s)" "s_calls (cancel i now s) = s_calls s"
proof -
  obtain rt cs where s: "s_router s = (rt, cs)" by fastforce
  let ?h = "c_txHash (s_calls s ! i)"
  have ok: "waiters_ok (s_calls s) (waiters rt, cs)" using inv by (auto simp: wait_inv_def s)
  have only: "i \<notin> w_ch ` set l" if "waiters rt h = Some l" "h \<noteq> ?h" for h l
    using waiters_okD(2) [OF ok that(1)] that(2) by (auto simp: waiter_ok_def)
  show calls: "s_calls (cancel i now s) = s_calls s"
    by (simp add: cancel_def Let_def)
  show "snd (s_router (cancel i now s)) = snd (s_router s)"
    by (auto simp: cancel_def on_request_def s Let_def split: option.split)
  show "unregistered i (fst (s_router (cancel i now s)))"
  proof (cases "waiters rt ?h")
    case None
    with only have "i \<notin> w_ch ` set l" if "waiters rt h = Some l" for h l using that by (cases "h = ?h") auto
    with None show ?thesis by (auto simp: unregistered_def cancel_def on_request_def s Let_def)
  next
    case (Some l)
    have "i \<notin> w_ch ` set (remove_waiter i l)" using remove_waiter_set [OF waiters_okD(1) [OF ok Some]] by auto
    with Some only show ?thesis
      by (auto simp: unregistered_def cancel_def on_request_def s Let_def image_iff split: if_splits)
  qed
  have "waiters_ok (s_calls s) ((waiters rt)(?h := (if remove_waiter i l = [] then None else Some (remove_waiter i l))), cs)"
    if "waiters rt ?h = Some l" for l
    using ok remove_waiter_set [OF waiters_okD(1) [OF ok that], of i] that by (auto simp: waiters_ok_def)
  then show "wait_inv X (cancel i now s)"
    using inv by (auto simp: wait_inv_def cancel_def on_request_def s Let_def pending_ok_def split: option.split)
qed
lemma cancel_finish_inv:
  assumes inv: "wait_inv X s" and i: "i < length (s_calls s)" and res: "\<And>r. res \<noteq> GotReceipt r"
  shows "wait_inv X (finish i res (cancel i now s))"
proof -
  note c = cancel_inv [OF inv i, of now]
  show ?thesis
    using finish_inv [OF c(1) surjective_pairing c(2) _ subset_refl, of res] c(4) i res by auto
qed

lemma receive_inv:
  assumes inv: "wait_inv X s" and i: "i < length (s_calls s)" and r: "receive i s = Some s'"
    and un: "unregistered i (fst (s_router s)) \<or> running i s"
  shows "wait_inv X s'"
proof -
  obtain rt cs where s: "s_router s = (rt, cs)" by fastforce
  obtain r rs where c: "cs i = r # rs" and s': "s' = finish i (GotReceipt r) (s\<lparr>s_router := (rt, cs(i := rs))\<rparr>)"
    using r by (auto simp: receive_def s split: list.splits)
  have "unregistered i rt"
    using inv c by (auto simp: wait_inv_def s waiters_ok_def waiter_ok_def unregistered_def)
  moreover have "answers X (s_calls s ! i) r" using inv c by (auto simp: wait_inv_def s chans_ok_def)
  ultimately show ?thesis unfolding s' using finish_inv [OF inv s _ i, of rs] c by auto
qed

lemma wait_step_inv:
  assumes inv: "wait_inv X s"
  shows "wait_inv X (wait_step X s e)"
proof (cases e)
  case (WaitReceipt h mt timeout now)
  then show ?thesis using register_inv [OF inv] by blast
next
  case (ReceiptArrives r now)
  then show ?thesis using on_receipt_inv [OF inv] by simp
next
  case (ErrorArrives x)
  then show ?thesis using inv by (simp add: wait_inv_def)
next
  case (CallReceives i)
  then show ?thesis using inv receive_inv [OF inv] by (auto simp: running_def split: option.split)
next
  case (CallTakesError i now)
  have inv': "wait_inv X (s\<lparr>transactionErrorChan := es\<rparr>)" for es using inv by (simp add: wait_inv_def)
  have "wait_inv X (finish i (TxError h) (cancel i now (s\<lparr>transactionErrorChan := es\<rparr>)))"
    if "i < length (s_calls s)" for h es
    using that cancel_finish_inv [OF inv'] by simp
  then show ?thesis using inv inv' CallTakesError
    by (auto simp: running_def Let_def split: list.split)
next
  case (CallTimer i now)
  show ?thesis
  proof (cases "running i s \<and> c_timeout (s_calls s ! i) > 0")
    case True
    then have i: "i < length (s_calls s)" by (simp add: running_def)
    note c = cancel_inv [OF inv i, of now]
    have "wait_inv X (finish i WaitTimeout (cancel i now s))" using cancel_finish_inv [OF inv i] by simp
    moreover have "wait_inv X s'" if "receive i (cancel i now s) = Some s'" for s'
      using receive_inv [OF c(1) _ that] c(2,4) i by auto
    ultimately show ?thesis using True CallTimer by (auto simp: Let_def split: option.split)
  qed (use inv CallTimer in auto)
next
  case (CleanupTick now)
  then show ?thesis using inv
    by (auto simp: wait_inv_def on_cleanup_def pending_ok_def split: prod.splits option.splits if_splits)
qed

lemma wait_run_inv: "wait_inv X s \<Longrightarrow> wait_inv X (wait_run X es s)"
  by (induction es arbitrary: s) (auto simp: wait_run_def wait_step_inv)

lemma init_wait_inv: "wait_inv X init_wait_sys"
  by (simp add: wait_inv_def init_wait_sys_def waiters_ok_def chans_ok_def pending_ok_def results_ok_def)
subsection \<open>Delivery\<close>

text \<open>A call is served when its receipt is in its channel or already returned, registered when a
  waiter stands for it, and lost when neither will ever happen.\<close>

definition served :: "nat \<Rightarrow> wait_sys \<Rightarrow> bool" where
  "served i s \<longleftrightarrow> i < length (s_calls s) \<and>
     ((\<exists>r. c_result (s_calls s ! i) = Some (GotReceipt r)) \<or>
      c_result (s_calls s ! i) = None \<and> snd (s_router s) i \<noteq> [])"

definition registered :: "nat \<Rightarrow> wait_sys \<Rightarrow> bool" where
  "registered i s \<longleftrightarrow> (\<exists>h ws w. waiters (fst (s_router s)) h = Some ws \<and> w \<in> set ws \<and> w_ch w = i)"

definition lost :: "nat \<Rightarrow> wait_sys \<Rightarrow> bool" where
  "lost i s \<longleftrightarrow> i < length (s_calls s) \<and> (\<forall>r. c_result (s_calls s ! i) \<noteq> Some (GotReceipt r)) \<and>
     snd (s_router s) i = [] \<and> unregistered i (fst (s_router s))"

text \<open>A step ends a call without a receipt when the call takes an error of its own transaction, or when its
  timer fires while its channel is empty. Errors of other transactions that it takes do not end it.\<close>

definition ends_call :: "ext \<Rightarrow> nat \<Rightarrow> wait_sys \<Rightarrow> wait_event \<Rightarrow> bool" where
  "ends_call X i s e \<longleftrightarrow>
     (case e of
        CallTakesError j _ \<Rightarrow> i = j \<and> c_timeout (s_calls s ! i) > 0 \<and>
          (\<exists>err es. transactionErrorChan s = err # es \<and> BytesToHash X (te_Hash err) = c_txHash (s_calls s ! i))
      | CallTimer j _ \<Rightarrow> i = j \<and> c_timeout (s_calls s ! i) > 0 \<and> snd (s_router s) i = []
      | _ \<Rightarrow> False)"

fun undisturbed :: "ext \<Rightarrow> nat \<Rightarrow> wait_sys \<Rightarrow> wait_event list \<Rightarrow> bool" where
  "undisturbed X i s [] = True"
| "undisturbed X i s (e # es) = (\<not> ends_call X i s e \<and> undisturbed X i (wait_step X s e) es)"

lemma step_calls:
  "i < length (s_calls s) \<Longrightarrow> i < length (s_calls (wait_step X s e)) \<and>
     c_txHash (s_calls (wait_step X s e) ! i) = c_txHash (s_calls s ! i) \<and>
     c_matchType (s_calls (wait_step X s e) ! i) = c_matchType (s_calls s ! i)"
  by (cases e) (auto simp: nth_append finish_def cancel_def receive_def running_def Let_def nth_list_update
      split: option.split prod.split list.split)

lemma notify_keeps_full: "cs i \<noteq> [] \<Longrightarrow> snd (notify_waiters mt h r (ws, cs)) i = cs i"
  by (simp add: notify_waiters_eq Let_def)

lemma notify_hits:
  assumes "waiters_ok calls (ws, cs)" "ws k = Some l" "w \<in> set l"
  shows "(if w_matchType w = mt \<and> k = h then snd (notify_waiters mt h r (ws, cs)) (w_ch w) = [r]
          else \<exists>l'. fst (notify_waiters mt h r (ws, cs)) k = Some l' \<and> w \<in> set l')"
proof -
  have w: "w_txHash w = k" "cs (w_ch w) = []"
    using waiters_okD(2) [OF assms] by (auto simp: waiter_ok_def)
  show ?thesis
  proof (cases "k = h")
    case True
    with assms(2,3) w show ?thesis by (auto simp: notify_waiters_eq Let_def filter_empty_conv)
  next
    case False
    with assms(2,3) show ?thesis by (auto simp: notify_waiters_eq Let_def split: option.split)
  qed
qed

lemma unregistered_chan:
  "\<forall>h l. ws h = Some l \<longrightarrow> i \<notin> w_ch ` set l \<Longrightarrow> snd (notify_waiters mt h r (ws, cs)) i = cs i"
  by (cases "ws h") (fastforce simp: notify_waiters_eq Let_def)+

lemma notify_unregistered:
  "\<forall>h l. ws h = Some l \<longrightarrow> i \<notin> w_ch ` set l \<Longrightarrow>
   \<forall>h' l. fst (notify_waiters mt h r (ws, cs)) h' = Some l \<longrightarrow> i \<notin> w_ch ` set l"
  by (cases "ws h") (fastforce simp: notify_waiters_eq Let_def split: if_splits)+
lemma on_receipt_Some:
  "on_receipt X now (Some r) (rt, cs) =
     (let n = notify_waiters matchByReceiptHash (RHash X r) r
                (notify_waiters matchByTxHash (TransactionHash X r) r (waiters rt, cs))
      in (rt\<lparr>waiters := fst n, pendingReceipts := (pendingReceipts rt)(TransactionHash X r \<mapsto>
           \<lparr>pr_value = r, expiresAt = now + pendingReceiptTTL\<rparr>)\<rparr>, snd n))"
  by (simp add: on_receipt_def split: prod.split)

lemma on_receipt_full:
  assumes "cs i \<noteq> []" shows "snd (on_receipt X now ro (rt, cs)) i = cs i"
proof -
  have "snd (notify_waiters mt h r (notify_waiters mt' h' r (waiters rt, cs))) i = cs i" for mt h r mt' h'
    using assms notify_keeps_full [of "snd (notify_waiters mt' h' r (waiters rt, cs))" i mt h r
        "fst (notify_waiters mt' h' r (waiters rt, cs))"]
    by (simp add: notify_keeps_full)
  then show ?thesis by (cases ro) (simp add: on_receipt_def, simp add: on_receipt_Some Let_def)
qed

lemma on_request_full:
  assumes "cs i \<noteq> []" shows "snd (on_request now req (rt, cs)) i = cs i"
  using assms by (auto simp: on_request_def try_send_def Let_def split: option.split receiptRequestType.split)

lemma served_step:
  assumes "served i s" "\<not> ends_call X i s e"
  shows "served i (wait_step X s e)"
proof -
  obtain rt cs where s: "s_router s = (rt, cs)" by fastforce
  note defs = served_def s finish_def cancel_def receive_def running_def Let_def ends_call_def
  show ?thesis
  proof (cases "cs i = []")
    case True
    then show ?thesis using assms
      by (cases e) (auto simp: defs nth_append nth_list_update split: option.split prod.split list.split)
  next
    case False
    note full = on_receipt_full [of cs i X, OF False] on_request_full [of cs i, OF False]
    show ?thesis using assms
    proof (cases e)
      case (CallTakesError j now)
      have "snd (s_router (cancel j now s')) i \<noteq> []" if "s_router s' = (rt, cs)" for s'
        using full False that by (simp add: cancel_def Let_def)
      then show ?thesis using assms CallTakesError
        by (auto simp: served_def s finish_def running_def ends_call_def Let_def nth_list_update cancel_def
            split: list.split)
    next
      case (CallTimer j now)
      have "snd (s_router (cancel j now s)) i \<noteq> []" using full False s by (simp add: cancel_def Let_def)
      then show ?thesis using assms CallTimer
        by (auto simp: served_def s finish_def running_def ends_call_def Let_def nth_list_update cancel_def
            receive_def split: list.split option.split prod.split)
    qed (use full False in \<open>auto simp: defs nth_append nth_list_update split: option.split list.split\<close>)
  qed
qed
lemma registered_running:
  assumes "wait_inv X s" "registered i s"
  obtains w l where "waiters (fst (s_router s)) (c_txHash (s_calls s ! i)) = Some l" "w \<in> set l" "w_ch w = i"
    "w_matchType w = c_matchType (s_calls s ! i)" "i < length (s_calls s)" "c_result (s_calls s ! i) = None"
proof -
  obtain h l w where w: "waiters (fst (s_router s)) h = Some l" "w \<in> set l" "w_ch w = i"
    using assms(2) by (auto simp: registered_def)
  have "waiter_ok (s_calls s) (snd (s_router s)) h w"
    using assms(1) w waiters_okD(2) by (fastforce simp: wait_inv_def split: prod.splits)
  with w show ?thesis by (intro that [of l w]) (auto simp: waiter_ok_def)
qed

lemma registered_receipt:
  assumes inv: "wait_inv X s" and reg: "registered i s"
  shows "registered i (wait_step X s (ReceiptArrives ro now)) \<or> served i (wait_step X s (ReceiptArrives ro now))"
    and "ro = Some r \<Longrightarrow> c_matchType (s_calls s ! i) = matchByTxHash \<Longrightarrow>
      TransactionHash X r = c_txHash (s_calls s ! i) \<Longrightarrow> served i (wait_step X s (ReceiptArrives ro now))"
proof -
  obtain rt cs where s: "s_router s = (rt, cs)" by fastforce
  obtain w l where w: "waiters rt (c_txHash (s_calls s ! i)) = Some l" "w \<in> set l" "w_ch w = i"
    "w_matchType w = c_matchType (s_calls s ! i)" "i < length (s_calls s)" "c_result (s_calls s ! i) = None"
    by (rule registered_running [OF inv reg]) (use s in auto)
  let ?k = "c_txHash (s_calls s ! i)"
  have ok: "waiters_ok (s_calls s) (waiters rt, cs)" using inv by (auto simp: wait_inv_def s)
  let ?n1 = "\<lambda>r. notify_waiters matchByTxHash (TransactionHash X r) r (waiters rt, cs)"
  let ?n2 = "\<lambda>r. notify_waiters matchByReceiptHash (RHash X r) r (fst (?n1 r), snd (?n1 r))"
  have hit: "snd (?n2 r) i \<noteq> []" if "w_matchType w = matchByTxHash" "TransactionHash X r = ?k" for r
  proof -
    have "snd (?n1 r) i = [r]" using notify_hits [OF ok w(1,2), of matchByTxHash "?k" r] w(3) that by simp
    then have full: "snd (?n1 r) i \<noteq> []" by simp
    show ?thesis unfolding notify_keeps_full [of "snd (?n1 r)" i, OF full] by (rule full)
  qed
  have miss: "snd (?n2 r) i \<noteq> [] \<or> (\<exists>l. fst (?n2 r) ?k = Some l \<and> w \<in> set l)"
    if other: "\<not> (w_matchType w = matchByTxHash \<and> ?k = TransactionHash X r)" for r
  proof -
    obtain l' where l': "fst (?n1 r) ?k = Some l'" "w \<in> set l'"
      using notify_hits [OF ok w(1,2), of matchByTxHash "TransactionHash X r" r] other by (auto split: if_splits)
    have "waiters_ok (s_calls s) (fst (?n1 r), snd (?n1 r))" using notify_waiters_ok [OF ok] by simp
    from notify_hits [OF this l', of matchByReceiptHash "RHash X r" r] w(3) show ?thesis
      by (auto split: if_splits)
  qed
  have after: "s_router (wait_step X s (ReceiptArrives (Some r) now)) =
      (rt\<lparr>waiters := fst (?n2 r), pendingReceipts := (pendingReceipts rt)(TransactionHash X r \<mapsto>
         \<lparr>pr_value = r, expiresAt = now + pendingReceiptTTL\<rparr>)\<rparr>, snd (?n2 r))" for r
    by (simp add: on_receipt_Some s Let_def)
  show "ro = Some r \<Longrightarrow> c_matchType (s_calls s ! i) = matchByTxHash \<Longrightarrow> TransactionHash X r = ?k \<Longrightarrow>
      served i (wait_step X s (ReceiptArrives ro now))"
    using hit [of r] w after [of r] by (simp add: served_def)
  show "registered i (wait_step X s (ReceiptArrives ro now)) \<or> served i (wait_step X s (ReceiptArrives ro now))"
  proof (cases ro)
    case None
    then show ?thesis using reg by (simp add: registered_def on_receipt_def)
  next
    case (Some r)
    then show ?thesis using hit [of r] miss [of r] w after [of r]
      by (simp add: served_def registered_def) metis
  qed
qed
lemma on_request_other:
  assumes "waiters rt h = Some l" "w \<in> set l" "w_ch w \<noteq> rq_responseCh req"
    "\<forall>h l. waiters rt h = Some l \<longrightarrow> distinct (map w_ch l)"
  shows "\<exists>l. waiters (fst (on_request now req (rt, cs))) h = Some l \<and> w \<in> set l"
proof -
  have "w \<in> set (remove_waiter (rq_responseCh req) l)" using assms remove_waiter_set [of l] by auto
  then show ?thesis using assms
    by (auto simp: on_request_def Let_def split: option.split receiptRequestType.split)
qed

lemma receive_router: "receive i s = Some s' \<Longrightarrow> fst (s_router s') = fst (s_router s)"
  by (auto simp: receive_def finish_def split: prod.splits list.splits)

lemma registered_step:
  assumes inv: "wait_inv X s" and reg: "registered i s" and e: "\<not> ends_call X i s e"
  shows "registered i (wait_step X s e) \<or> served i (wait_step X s e)"
proof -
  obtain rt cs where s: "s_router s = (rt, cs)" by fastforce
  obtain w l where w: "waiters rt (c_txHash (s_calls s ! i)) = Some l" "w \<in> set l" "w_ch w = i"
    "w_matchType w = c_matchType (s_calls s ! i)" "i < length (s_calls s)" "c_result (s_calls s ! i) = None"
    by (rule registered_running [OF inv reg]) (use s in auto)
  have "waiters_ok (s_calls s) (waiters rt, cs)" using inv by (auto simp: wait_inv_def s)
  then have ce: "cs i = []" using waiters_okD(2) [of "s_calls s" "waiters rt" cs _ l w] w(1-3) by (auto simp: waiter_ok_def)
  have dist: "\<forall>h l. waiters rt h = Some l \<longrightarrow> distinct (map w_ch l)"
    using inv by (auto simp: wait_inv_def s waiters_ok_def)
  have other: "\<exists>h l v. waiters (fst (on_request now req (rt, cs))) h = Some l \<and> v \<in> set l \<and> w_ch v = i"
    if "rq_responseCh req \<noteq> i" for now req
    using on_request_other [OF w(1,2) _ dist] w(3) that by metis
  note defs = registered_def s finish_def cancel_def receive_def running_def Let_def ends_call_def
  have can: "registered i (cancel j now s')" if "s_router s' = (rt, cs)" "j \<noteq> i" "s_calls s' = s_calls s" for j now s'
    unfolding registered_def cancel_def Let_def
    using that other [of "\<lparr>rq_action = receiptRequestCancel, rq_txHash = c_txHash (s_calls s' ! j),
      rq_matchType = c_matchType (s_calls s' ! j), rq_responseCh = j\<rparr>" now] by simp
  have fin: "registered i (finish j res s') = registered i s'" for j res s'
    by (simp add: registered_def finish_def)
  show ?thesis
  proof (cases e)
    case (WaitReceipt h mt timeout now)
    show ?thesis
      using other [of "\<lparr>rq_action = receiptRequestRegister, rq_txHash = h, rq_matchType = mt,
         rq_responseCh = length (s_calls s)\<rparr>" now] w WaitReceipt
      by (auto simp: registered_def s)
  next
    case (ReceiptArrives ro now)
    then show ?thesis using registered_receipt(1) [OF inv reg] by simp
  next
    case (CallTakesError j now)
    then show ?thesis using can [of "s\<lparr>transactionErrorChan := es\<rparr>" j now for es] fin reg e s
      by (auto simp: ends_call_def Let_def registered_def split: list.split)
  next
    case (CallTimer j now)
    have "registered i s'" if "receive j (cancel j now s) = Some s'" "i \<noteq> j" for s'
      using can [of s j now] that s receive_router [OF that(1)] by (auto simp: registered_def)
    with CallTimer show ?thesis using can [of s j now] fin reg e s ce
      by (cases "i = j") (auto simp: ends_call_def Let_def split: option.split)
  next
    case (CleanupTick now)
    then show ?thesis using reg by (simp add: registered_def on_cleanup_def)
  qed (use reg in \<open>auto simp: defs split: option.split list.split\<close>)
qed

lemma lost_step:
  assumes inv: "wait_inv X s" and l: "lost i s"
  shows "lost i (wait_step X s e)"
proof -
  obtain rt cs where s: "s_router s = (rt, cs)" by fastforce
  have un: "\<forall>h l. waiters rt h = Some l \<longrightarrow> i \<notin> w_ch ` set l" and c: "cs i = []" and i: "i < length (s_calls s)"
    using l by (auto simp: lost_def s unregistered_def)
  have req: "unregistered i (fst (on_request now q (rt, cs))) \<and> snd (on_request now q (rt, cs)) i = []"
    if q: "rq_responseCh q \<noteq> i \<or> rq_action q = receiptRequestCancel" for now q
  proof -
    have "w_ch ` set (remove_waiter c ws) \<subseteq> w_ch ` set ws" for c ws by (induction ws) auto
    then show ?thesis using un c q
      by (fastforce simp: unregistered_def on_request_def try_send_def Let_def
          split: option.split receiptRequestType.split if_splits)
  qed
  have rec: "unregistered i (fst (on_receipt X now ro (rt, cs))) \<and> snd (on_receipt X now ro (rt, cs)) i = []" for now ro
  proof (cases ro)
    case (Some r)
    let ?n1 = "notify_waiters matchByTxHash (TransactionHash X r) r (waiters rt, cs)"
    have n1: "\<forall>h l. fst ?n1 h = Some l \<longrightarrow> i \<notin> w_ch ` set l" "snd ?n1 i = []"
      using notify_unregistered [OF un] unregistered_chan [OF un] c by auto
    have "\<forall>h l. fst (notify_waiters mt h' r ?n1) h = Some l \<longrightarrow> i \<notin> w_ch ` set l"
      "snd (notify_waiters mt h' r ?n1) i = []" for mt h'
      using notify_unregistered [OF n1(1), of mt h' r "snd ?n1"] unregistered_chan [OF n1(1), of mt h' r "snd ?n1"] n1(2)
      by simp_all
    then show ?thesis by (simp add: Some on_receipt_Some unregistered_def Let_def)
  qed (use un c in \<open>simp add: on_receipt_def unregistered_def\<close>)
  have can: "lost i (cancel j now s')" if "s_router s' = (rt, cs)" "s_calls s' = s_calls s" for j now s'
    using l req that by (simp add: lost_def cancel_def Let_def s)
  have fin: "lost i (finish j res s')" if "lost i s'" "\<And>r. res = GotReceipt r \<Longrightarrow> i \<noteq> j" for j res s'
    using that by (cases "i = j") (auto simp: lost_def finish_def nth_list_update)
  have rcv: "lost i s''" if "lost i s'" "receive j s' = Some s''" for j s' s''
    using that by (cases "i = j") (auto simp: lost_def receive_def finish_def nth_list_update split: prod.splits list.splits)
  show ?thesis
  proof (cases e)
    case (WaitReceipt h mt timeout now)
    show ?thesis using l i req [of "\<lparr>rq_action = receiptRequestRegister, rq_txHash = h, rq_matchType = mt,
         rq_responseCh = length (s_calls s)\<rparr>" now]
      by (simp add: WaitReceipt lost_def s nth_append)
  next
    case (ReceiptArrives ro now)
    then show ?thesis using l rec by (simp add: lost_def s)
  next
    case (CallReceives j)
    then show ?thesis using l rcv [OF l] by (auto split: option.split)
  next
    case (CallTakesError j now)
    have "lost i (finish j (TxError h) (cancel j now (s\<lparr>transactionErrorChan := es\<rparr>)))" for h es
      by (rule fin [OF can]) (use s in simp_all)
    moreover have "lost i (s\<lparr>transactionErrorChan := es\<rparr>)" for es using l by (simp add: lost_def)
    ultimately show ?thesis using l CallTakesError by (auto simp: Let_def split: list.split)
  next
    case (CallTimer j now)
    have "lost i (cancel j now s)" using can s by simp
    from fin [OF this, of WaitTimeout] rcv [OF this] show ?thesis
      using l CallTimer by (auto simp: Let_def split: option.split)
  qed (use l in \<open>auto simp: lost_def on_cleanup_def unregistered_def\<close>)
qed
subsection \<open>Properties\<close>

lemma served_run: "served i s \<Longrightarrow> undisturbed X i s es \<Longrightarrow> served i (wait_run X es s)"
  by (induction es arbitrary: s) (auto simp: wait_run_def served_step)

lemma lost_run: "wait_inv X s \<Longrightarrow> lost i s \<Longrightarrow> lost i (wait_run X es s)"
  by (induction es arbitrary: s) (auto simp: wait_run_def lost_step wait_step_inv)

lemma registered_run:
  assumes "wait_inv X s" "registered i s" "c_matchType (s_calls s ! i) = matchByTxHash"
    "undisturbed X i s es" "ReceiptArrives (Some r) t \<in> set es"
    "TransactionHash X r = c_txHash (s_calls s ! i)"
  shows "served i (wait_run X es s)"
  using assms
proof (induction es arbitrary: s)
  case (Cons e es)
  have i: "i < length (s_calls s)" by (rule registered_running [OF Cons.prems(1,2)])
  note same = step_calls [OF i, of X e]
  have run: "wait_run X (e # es) s = wait_run X es (wait_step X s e)" by (simp add: wait_run_def)
  show ?case
  proof (cases "served i (wait_step X s e)")
    case True
    then show ?thesis using Cons.prems(4) served_run run by auto
  next
    case False
    with Cons.prems have reg: "registered i (wait_step X s e)" using registered_step [OF Cons.prems(1,2)] by auto
    have "e \<noteq> ReceiptArrives (Some r) t"
      using False registered_receipt(2) [OF Cons.prems(1,2)] Cons.prems(3,6) by auto
    with Cons.prems reg same show ?thesis
      unfolding run by (intro Cons.IH wait_step_inv) auto
  qed
qed simp

lemma result_answers:
  "wait_inv X s \<Longrightarrow> i < length (s_calls s) \<Longrightarrow> c_result (s_calls s ! i) = Some (GotReceipt r) \<Longrightarrow>
   answers X (s_calls s ! i) r"
  by (auto simp: wait_inv_def results_ok_def split: prod.splits)

lemma served_receives:
  "served i s \<Longrightarrow> \<exists>r. c_result (s_calls (wait_step X s (CallReceives i)) ! i) = Some (GotReceipt r)"
  by (auto simp: served_def receive_def running_def finish_def split: prod.split list.split)

lemma calls_run:
  "i < length (s_calls s) \<Longrightarrow> i < length (s_calls (wait_run X es s)) \<and>
     c_txHash (s_calls (wait_run X es s) ! i) = c_txHash (s_calls s ! i) \<and>
     c_matchType (s_calls (wait_run X es s) ! i) = c_matchType (s_calls s ! i)"
  by (induction es arbitrary: s) (simp_all add: wait_run_def step_calls)

text \<open>C8. The receipt a call of \<^verbatim>\<open>waitReceipt\<close> returns is one it asked for: whatever calls are made and
  whatever receipts, errors, timers and cleanups come, in any order, a call that returned a receipt
  returned one with the transaction hash it waits for, or, where it matches by receipt hash, one
  with that hash; and while a waiter stands for a call, the call is running and its channel is
  empty, so that no receipt for a waiter is ever dropped.\<close>

theorem waitReceipt_matches:
  "let s = wait_run X es init_wait_sys in
   (\<forall>i < length (s_calls s). \<forall>r. c_result (s_calls s ! i) = Some (GotReceipt r) \<longrightarrow> answers X (s_calls s ! i) r) \<and>
   (\<forall>h ws w. waiters (fst (s_router s)) h = Some ws \<longrightarrow> w \<in> set ws \<longrightarrow>
      w_txHash w = h \<and> running (w_ch w) s \<and> snd (s_router s) (w_ch w) = [])"
  using wait_run_inv [OF init_wait_inv, of X es]
  by (auto simp: wait_inv_def results_ok_def waiters_ok_def waiter_ok_def running_def Let_def split: prod.splits)

text \<open>C9. A receipt is delivered to a call that waits for its transaction: take a state reached from
  the start and a call of \<^verbatim>\<open>waitReceipt\<close> for a hash under which no expired receipt is kept. If a
  receipt of that transaction is kept, or arrives at any time later, and the call neither takes an error
  of its own transaction nor has its timer fire while its channel is empty, then whatever else happens in
  between, errors of other transactions that the call takes included, the call returns a receipt of that
  transaction.\<close>

theorem waitReceipt_delivers:
  assumes s: "s = wait_run X before init_wait_sys" and i: "i = length (s_calls s)"
    and fresh: "\<forall>p. pendingReceipts (fst (s_router s)) h = Some p \<longrightarrow> now \<le> expiresAt p"
    and comes: "pendingReceipts (fst (s_router s)) h \<noteq> None \<or>
       (\<exists>r t. ReceiptArrives (Some r) t \<in> set es \<and> TransactionHash X r = h)"
    and es: "undisturbed X i (wait_step X s (WaitReceipt h matchByTxHash timeout now)) es"
  shows "\<exists>r. c_result (s_calls (wait_run X (WaitReceipt h matchByTxHash timeout now # es @ [CallReceives i]) s) ! i)
             = Some (GotReceipt r) \<and> TransactionHash X r = h"
proof -
  let ?s1 = "wait_step X s (WaitReceipt h matchByTxHash timeout now)"
  let ?s2 = "wait_run X es ?s1"
  have inv: "wait_inv X s" using wait_run_inv [OF init_wait_inv] s by simp
  have inv1: "wait_inv X ?s1" by (rule wait_step_inv [OF inv])
  have call: "i < length (s_calls ?s1)" "c_txHash (s_calls ?s1 ! i) = h" "c_matchType (s_calls ?s1 ! i) = matchByTxHash"
    by (simp_all add: i)
  have empty: "snd (s_router s) i = []" using inv fresh_chan i by (fastforce simp: wait_inv_def)
  have "served i ?s2"
  proof (cases "pendingReceipts (fst (s_router s)) h")
    case None
    then have "registered i ?s1" unfolding registered_def
      by (intro exI [of _ h]) (auto simp: on_request_def i Let_def intro!: exI [of _ "\<lparr>w_ch = length (s_calls s),
            w_matchType = matchByTxHash, w_txHash = h\<rparr>"] split: prod.split)
    then show ?thesis using registered_run [OF inv1 _ call(3) es] comes None call(2) by auto
  next
    case (Some p)
    then have "served i ?s1" using fresh empty
      by (auto simp: served_def on_request_def i Let_def try_send_def split: prod.splits)
    then show ?thesis using served_run es by blast
  qed
  from served_receives [OF this, of X] obtain r where
    r: "c_result (s_calls (wait_step X ?s2 (CallReceives i)) ! i) = Some (GotReceipt r)" by blast
  have len: "i < length (s_calls ?s2)" using calls_run [OF call(1)] by blast
  have inv3: "wait_inv X (wait_step X ?s2 (CallReceives i))" by (intro wait_step_inv wait_run_inv inv1)
  have "answers X (s_calls (wait_step X ?s2 (CallReceives i)) ! i) r"
    by (rule result_answers [OF inv3 _ r]) (use step_calls [OF len] in blast)
  then have "TransactionHash X r = h"
    using step_calls [OF len, of X "CallReceives i"] calls_run [OF call(1), of X es] call by (simp add: answers_def)
  then show ?thesis using r by (simp add: wait_run_def)
qed

text \<open>C19. A call for a hash under which an expired receipt is kept is lost: the \<^verbatim>\<open>break\<close> in
  \<^verbatim>\<open>runReceiptRouter\<close> leaves the switch before the waiter is registered, so that call never returns
  a receipt, whatever arrives afterwards, the receipt it waits for included.\<close>

theorem waitReceipt_expired_lost:
  assumes s: "s = wait_run X before init_wait_sys" and i: "i = length (s_calls s)"
    and expired: "pendingReceipts (fst (s_router s)) h = Some p" "now > expiresAt p"
  shows "c_result (s_calls (wait_run X (WaitReceipt h mt timeout now # es) s) ! i) \<noteq> Some (GotReceipt r)"
proof -
  let ?s1 = "wait_step X s (WaitReceipt h mt timeout now)"
  have inv: "wait_inv X s" using wait_run_inv [OF init_wait_inv] s by simp
  have empty: "snd (s_router s) i = []" using inv fresh_chan i by (fastforce simp: wait_inv_def)
  have "\<not> registered i s" using registered_running [OF inv, of i] i by blast
  then have "unregistered i (fst (s_router s))" by (auto simp: registered_def unregistered_def)
  then have "lost i ?s1" using expired empty
    by (cases "s_router s") (simp add: lost_def on_request_def Let_def unregistered_def i)
  then have "lost i (wait_run X es ?s1)" using lost_run wait_step_inv [OF inv] by blast
  then show ?thesis by (simp add: lost_def wait_run_def)
qed

lemma shared_hash: "TransactionHash X zero_Receipt = BytesToHash X []"
  by (simp add: TransactionHash_def zero_Receipt_def)

text \<open>The call takes an error of another transaction before its receipt comes.\<close>

definition foreign_error :: pb_TransactionHashWithError where
  "foreign_error = \<lparr>te_Hash = [1], te_Code = 1, te_Description = [], te_Output = []\<rparr>"

lemma foreign_hash: "BytesToHash ref_ext [1] \<noteq> BytesToHash ref_ext []"
  by code_simp

theorem waitReceipt_delivers_witness:
  "\<exists>r. c_result (s_calls (wait_run ref_ext (WaitReceipt (BytesToHash ref_ext []) matchByTxHash 10 0 #
       [ErrorArrives foreign_error, CallTakesError 0 2, CleanupTick 3, ReceiptArrives (Some zero_Receipt) 5] @ [CallReceives 0])
     (wait_run ref_ext [] init_wait_sys)) ! 0) = Some (GotReceipt r) \<and> TransactionHash ref_ext r = BytesToHash ref_ext []"
  by (rule waitReceipt_delivers [where before = "[]"])
    (auto simp: wait_run_def init_wait_sys_def ends_call_def shared_hash foreign_error_def foreign_hash on_request_def
      running_def Let_def)

theorem waitReceipt_expired_lost_witness:
  "c_result (s_calls (wait_run ref_ext (WaitReceipt (BytesToHash ref_ext []) matchByTxHash 10 70000000000 #
       [ReceiptArrives (Some zero_Receipt) 70000000001, CallReceives 0])
     (wait_run ref_ext [ReceiptArrives (Some zero_Receipt) 0] init_wait_sys)) ! 0) \<noteq> Some (GotReceipt zero_Receipt)"
  by (rule waitReceipt_expired_lost [where before = "[ReceiptArrives (Some zero_Receipt) 0]" and
        p = "\<lparr>pr_value = zero_Receipt, expiresAt = pendingReceiptTTL\<rparr>"])
    (auto simp: wait_run_def init_wait_sys_def on_receipt_Some Let_def shared_hash pendingReceiptTTL_def)
definition matched_run :: wait_sys where
  "matched_run = wait_run ref_ext [WaitReceipt (BytesToHash ref_ext []) matchByTxHash 10 0,
     ReceiptArrives (Some zero_Receipt) 5, CallReceives 0] init_wait_sys"

lemma matched_run_result:
  "length (s_calls matched_run) = 1" "c_result (s_calls matched_run ! 0) = Some (GotReceipt zero_Receipt)"
  by (simp_all add: matched_run_def wait_run_def init_wait_sys_def on_request_def on_receipt_def notify_waiters_def
      try_send_def running_def receive_def finish_def Let_def shared_hash split: prod.splits if_splits)

theorem waitReceipt_matches_witness:
  "c_result (s_calls matched_run ! 0) = Some (GotReceipt zero_Receipt) \<and> answers ref_ext (s_calls matched_run ! 0) zero_Receipt"
  using waitReceipt_matches [of ref_ext "[WaitReceipt (BytesToHash ref_ext []) matchByTxHash 10 0,
     ReceiptArrives (Some zero_Receipt) 5, CallReceives 0]", folded matched_run_def]
  by (simp add: matched_run_result Let_def)

end
