(* ===== verification/Client_Handler.thy ===== *)
theory Client_Handler
  imports Receipt_Router Account_State
begin

text \<open>
  The request handler of the TCP client, \<^verbatim>\<open>src/pkg/client-tcp/network/handler.go\<close> (and \<^verbatim>\<open>tps.go\<close>): it
  takes the messages of the node and hands them on, to the caller that waits for the id in the
  header, or to the channels the client reads. A buffered channel is a list with its capacity;
  a waiting receiver counts as one more place. A send on a full channel blocks the worker that runs
  the handler, which is the outcome \<open>Blocked\<close>. A \<^verbatim>\<open>sync.Map\<close> is a partial function, each operation
  on it is atomic. Decoding of protobuf messages is a parameter; what is only logged is left out.
\<close>

subsection \<open>Channels\<close>

record 'a gochan =
  ch_cap :: nat
  ch_buf :: "'a list"

definition make_chan :: "nat \<Rightarrow> 'a gochan" where
  "make_chan n = \<lparr>ch_cap = n, ch_buf = []\<rparr>"

definition chan_send :: "'a \<Rightarrow> 'a gochan \<Rightarrow> 'a gochan option" where
  "chan_send v c = (if length (ch_buf c) < ch_cap c then Some (c\<lparr>ch_buf := ch_buf c @ [v]\<rparr>) else None)"

subsection \<open>State\<close>

record RpcResponse =
  rr_Id :: string
  rr_Result :: bytes
  rr_Error :: "(int \<times> string \<times> string) option"

record LastDeviceKey =
  ld_TransactionHash :: bytes
  ld_LastDeviceKeyFromServer :: bytes

record client_env =
  e_eth :: eth_lib
  e_ext :: ext
  e_receipt :: receipt_ext
  u_InitConnection :: "bytes \<Rightarrow> (bytes \<times> string) option"
  u_AccountState :: "bytes \<Rightarrow> pb_AccountState option"
  u_TxError :: "bytes \<Rightarrow> pb_TransactionHashWithError option"
  u_EventLogs :: "bytes \<Rightarrow> EventLog list option"
  u_Stats :: "bytes \<Rightarrow> bool"
  u_RpcResponse :: "bytes \<Rightarrow> RpcResponse option"
  u_RpcEvent :: "bytes \<Rightarrow> string option"

text \<open>A callback is named by a number; the calls of callbacks and of \<^verbatim>\<open>Connection.Init\<close> are recorded.
  The channels of pending requests are named by numbers too.\<close>

datatype handler_effect = CalledBack nat bytes | Inited nat bytes string

record client_handler =
  hc_accountState :: "AccountState gochan"
  hc_receipt :: "Receipt gochan option"
  hc_eventLog :: "EventLog list gochan option"
  hc_txError :: "pb_TransactionHashWithError gochan"
  hc_deviceKey :: "LastDeviceKey gochan option"
  hc_nonce :: "u64 gochan"
  hc_pendingRpc :: "(string \<rightharpoonup> nat) option"
  hc_pendingChain :: "(string \<rightharpoonup> nat) option"
  hc_eventCallbacks :: "string \<rightharpoonup> nat"
  hc_receiptCallback :: "nat option"
  hc_blockData :: "bytes gochan option"
  hc_chainChans :: "nat \<Rightarrow> pbMessage gochan"
  hc_rpcChans :: "nat \<Rightarrow> RpcResponse gochan"
  hc_effects :: "handler_effect list"

datatype handler_error =
  ErrorCommandNotFound | ErrUnmarshalBody | ErrDeviceKeyLen nat | ErrDeviceKeyChanNil | ErrNonceLen nat

datatype hresult = Handled | HandlerError handler_error | Blocked

subsection \<open>Sending on the channels of the handler\<close>

definition send_chain :: "nat \<Rightarrow> pbMessage \<Rightarrow> client_handler \<Rightarrow> hresult \<times> client_handler" where
  "send_chain c m h =
     (case chan_send m (hc_chainChans h c) of
        None \<Rightarrow> (Blocked, h)
      | Some ch \<Rightarrow> (Handled, h\<lparr>hc_chainChans := (hc_chainChans h)(c := ch)\<rparr>))"

text \<open>\<^verbatim>\<open>LoadAndDelete\<close> on the id of the header, then the send; \<open>None\<close>: the message has no id or nobody
  waits for it.\<close>

definition dispatch_by_id :: "pbMessage \<Rightarrow> client_handler \<Rightarrow> (hresult \<times> client_handler) option" where
  "dispatch_by_id m h =
     (case hc_pendingChain h of
        None \<Rightarrow> None
      | Some pend \<Rightarrow>
          let i = ID (Some m) in
          if i = [] then None
          else (case pend i of
                  None \<Rightarrow> None
                | Some c \<Rightarrow> Some (send_chain c m (h\<lparr>hc_pendingChain := Some (pend(i := None))\<rparr>))))"

subsection \<open>The handlers\<close>

definition handleInitConnection ::
  "client_env \<Rightarrow> Request \<Rightarrow> client_handler \<Rightarrow> hresult \<times> client_handler" where
  "handleInitConnection E r h =
     (case Message_Unmarshal (u_InitConnection E) (Some (req_message r)) of
        None \<Rightarrow> (HandlerError ErrUnmarshalBody, h)
      | Some (a, t) \<Rightarrow>
          (Handled, h\<lparr>hc_effects := hc_effects h @ [Inited (req_connection r) (BytesToAddress (e_eth E) a) t]\<rparr>))"

definition handleAccountState :: "client_env \<Rightarrow> pbMessage \<Rightarrow> client_handler \<Rightarrow> hresult \<times> client_handler" where
  "handleAccountState E m h =
     (case dispatch_by_id m h of
        Some res \<Rightarrow> res
      | None \<Rightarrow>
          (case as_Unmarshal (e_eth E) (u_AccountState E) (Body (Some m)) zero_AccountState of
             None \<Rightarrow> (HandlerError ErrUnmarshalBody, h)
           | Some a \<Rightarrow>
               (case chan_send a (hc_accountState h) of
                  None \<Rightarrow> (Blocked, h)
                | Some c \<Rightarrow> (Handled, h\<lparr>hc_accountState := c\<rparr>))))"

definition handleTransactionError :: "client_env \<Rightarrow> pbMessage \<Rightarrow> client_handler \<Rightarrow> hresult \<times> client_handler" where
  "handleTransactionError E m h =
     (case u_TxError E (Body (Some m)) of
        None \<Rightarrow> (HandlerError ErrUnmarshalBody, h)
      | Some e \<Rightarrow>
          (case dispatch_by_id m h of
             Some res \<Rightarrow> res
           | None \<Rightarrow>
               (case chan_send e (hc_txError h) of
                  None \<Rightarrow> (Blocked, h)
                | Some c \<Rightarrow> (Handled, h\<lparr>hc_txError := c\<rparr>))))"

definition handleNonce :: "pbMessage \<Rightarrow> client_handler \<Rightarrow> hresult \<times> client_handler" where
  "handleNonce m h =
     (let numBytes = Body (Some m) in
      if length numBytes = 8 then
        (case chan_send (get_be64 numBytes) (hc_nonce h) of
           None \<Rightarrow> (Blocked, h)
         | Some c \<Rightarrow> (Handled, h\<lparr>hc_nonce := c\<rparr>))
      else (HandlerError (ErrNonceLen (length numBytes)), h))"

definition handleDeviceKey :: "pbMessage \<Rightarrow> client_handler \<Rightarrow> hresult \<times> client_handler" where
  "handleDeviceKey m h =
     (let data = Body (Some m) in
      if length data \<noteq> 64 \<and> length data \<noteq> 32 then (HandlerError (ErrDeviceKeyLen (length data)), h)
      else
        let key = \<lparr>ld_TransactionHash = take 32 data,
                   ld_LastDeviceKeyFromServer = (if length data = 32 then replicate 32 0 else drop 32 data)\<rparr>
        in (case hc_deviceKey h of
              None \<Rightarrow> (HandlerError ErrDeviceKeyChanNil, h)
            | Some ch \<Rightarrow>
                (case chan_send key ch of
                   None \<Rightarrow> (Blocked, h)
                 | Some c \<Rightarrow> (Handled, h\<lparr>hc_deviceKey := Some c\<rparr>))))"

definition handleReceipt :: "client_env \<Rightarrow> pbMessage \<Rightarrow> client_handler \<Rightarrow> hresult \<times> client_handler" where
  "handleReceipt E m h =
     (case dispatch_by_id m h of
        Some res \<Rightarrow> res
      | None \<Rightarrow>
          let body = Body (Some m);
              h = (case hc_receiptCallback h of
                     None \<Rightarrow> h
                   | Some cb \<Rightarrow> h\<lparr>hc_effects := hc_effects h @ [CalledBack cb body]\<rparr>)
          in (case Receipt_Unmarshal (e_receipt E) body of
                None \<Rightarrow> (HandlerError ErrUnmarshalBody, h)
              | Some r \<Rightarrow>
                  (case hc_receipt h of
                     None \<Rightarrow> (Handled, h)
                   | Some ch \<Rightarrow>
                       (case chan_send r ch of
                          None \<Rightarrow> (Blocked, h)
                        | Some c \<Rightarrow> (Handled, h\<lparr>hc_receipt := Some c\<rparr>)))))"

definition handleEventLogs :: "client_env \<Rightarrow> pbMessage \<Rightarrow> client_handler \<Rightarrow> hresult \<times> client_handler" where
  "handleEventLogs E m h =
     (case u_EventLogs E (Body (Some m)) of
        None \<Rightarrow> (HandlerError ErrUnmarshalBody, h)
      | Some logs \<Rightarrow>
          (case hc_eventLog h of
             None \<Rightarrow> (Handled, h)
           | Some ch \<Rightarrow>
               (case chan_send logs ch of
                  None \<Rightarrow> (Blocked, h)
                | Some c \<Rightarrow> (Handled, h\<lparr>hc_eventLog := Some c\<rparr>))))"

definition handleStats :: "client_env \<Rightarrow> pbMessage \<Rightarrow> client_handler \<Rightarrow> hresult \<times> client_handler" where
  "handleStats E m h =
     (if u_Stats E (Body (Some m)) then (Handled, h) else (HandlerError ErrUnmarshalBody, h))"

definition handleRpcResponse :: "client_env \<Rightarrow> pbMessage \<Rightarrow> client_handler \<Rightarrow> hresult \<times> client_handler" where
  "handleRpcResponse E m h =
     (case u_RpcResponse E (Body (Some m)) of
        None \<Rightarrow> (HandlerError ErrUnmarshalBody, h)
      | Some resp \<Rightarrow>
          (case hc_pendingRpc h of
             None \<Rightarrow> (Handled, h)
           | Some pend \<Rightarrow>
               (case pend (rr_Id resp) of
                  None \<Rightarrow> (Handled, h)
                | Some c \<Rightarrow>
                    let h = h\<lparr>hc_pendingRpc := Some (pend(rr_Id resp := None))\<rparr> in
                    (case chan_send resp (hc_rpcChans h c) of
                       None \<Rightarrow> (Blocked, h)
                     | Some ch \<Rightarrow> (Handled, h\<lparr>hc_rpcChans := (hc_rpcChans h)(c := ch)\<rparr>)))))"

definition handleRpcEvent :: "client_env \<Rightarrow> pbMessage \<Rightarrow> client_handler \<Rightarrow> hresult \<times> client_handler" where
  "handleRpcEvent E m h =
     (case u_RpcEvent E (Body (Some m)) of
        None \<Rightarrow> (HandlerError ErrUnmarshalBody, h)
      | Some subId \<Rightarrow>
          (case hc_eventCallbacks h subId of
             None \<Rightarrow> (Handled, h)
           | Some cb \<Rightarrow> (Handled, h\<lparr>hc_effects := hc_effects h @ [CalledBack cb (Body (Some m))]\<rparr>)))"

text \<open>The answer of a pending registration is kept for \<^verbatim>\<open>RegisterAccountAck\<close> and removed for every
  other response.\<close>

definition handleChainResponse :: "pbMessage \<Rightarrow> client_handler \<Rightarrow> hresult \<times> client_handler" where
  "handleChainResponse m h =
     (case hc_pendingChain h of
        None \<Rightarrow> (Handled, h)
      | Some pend \<Rightarrow>
          let i = ID (Some m) in
          (case pend i of
             None \<Rightarrow> (Handled, h)
           | Some c \<Rightarrow>
               if Command (Some m) = ''RegisterAccountAck'' then send_chain c m h
               else send_chain c m (h\<lparr>hc_pendingChain := Some (pend(i := None))\<rparr>)))"
definition handleBlockData :: "pbMessage \<Rightarrow> client_handler \<Rightarrow> hresult \<times> client_handler" where
  "handleBlockData m h =
     (case hc_blockData h of
        None \<Rightarrow> (Handled, h)
      | Some ch \<Rightarrow>
          (case chan_send (Body (Some m)) ch of
             None \<Rightarrow> (Handled, h)
           | Some c \<Rightarrow> (Handled, h\<lparr>hc_blockData := Some c\<rparr>)))"

definition chain_responses :: "string list" where
  "chain_responses = [''ChainId'', ''TransactionReceipt'', ''BlockNumber'', ''Logs'', ''TransactionByHash'', ''Nonce'',
     ''TransactionSuccess'', ''RegistrationMessage'', ''RegisterAccountAck'', ''RegistrationResult'', ''RegistrationStatus'']"

definition HandleRequest :: "client_env \<Rightarrow> Request \<Rightarrow> client_handler \<Rightarrow> hresult \<times> client_handler" where
  "HandleRequest E request h =
     (let m = req_message request; cmd = Command (Some m) in
      if cmd = ''InitConnection'' then handleInitConnection E request h
      else if cmd = ''AccountState'' then handleAccountState E m h
      else if cmd = ''TransactionError'' then handleTransactionError E m h
      else if cmd = ''Receipt'' then handleReceipt E m h
      else if cmd = ''DeviceKey'' then handleDeviceKey m h
      else if cmd = ''EventLogs'' then handleEventLogs E m h
      else if cmd = ''QueryLogs'' then handleEventLogs E m h
      else if cmd = ''Stats'' then handleStats E m h
      else if cmd = ''ServerBusy'' then (Handled, h)
      else if cmd = ''RpcResponse'' then handleRpcResponse E m h
      else if cmd = ''RpcEvent'' then handleRpcEvent E m h
      else if cmd \<in> set chain_responses then handleChainResponse m h
      else if cmd = ''BlockDataFromMainMaster'' then handleBlockData m h
      else (HandlerError ErrorCommandNotFound, h))"

subsection \<open>Construction and registration\<close>

definition client_NewHandler ::
  "AccountState gochan \<Rightarrow> Receipt gochan option \<Rightarrow> LastDeviceKey gochan option \<Rightarrow>
   pb_TransactionHashWithError gochan \<Rightarrow> u64 gochan \<Rightarrow> client_handler" where
  "client_NewHandler accountState receipt deviceKeyCh txError nonceCh =
     \<lparr>hc_accountState = accountState, hc_receipt = receipt, hc_eventLog = None, hc_txError = txError,
      hc_deviceKey = deviceKeyCh, hc_nonce = nonceCh, hc_pendingRpc = None, hc_pendingChain = None,
      hc_eventCallbacks = Map.empty, hc_receiptCallback = None, hc_blockData = None,
      hc_chainChans = (\<lambda>_. make_chan 0), hc_rpcChans = (\<lambda>_. make_chan 0), hc_effects = []\<rparr>"

definition RegisterEventCallback :: "string \<Rightarrow> nat \<Rightarrow> client_handler \<Rightarrow> client_handler" where
  "RegisterEventCallback subID cb h = h\<lparr>hc_eventCallbacks := (hc_eventCallbacks h)(subID \<mapsto> cb)\<rparr>"

definition RemoveEventCallback :: "string \<Rightarrow> client_handler \<Rightarrow> client_handler" where
  "RemoveEventCallback subID h = h\<lparr>hc_eventCallbacks := (hc_eventCallbacks h)(subID := None)\<rparr>"

definition RegisterReceiptCallback :: "nat \<Rightarrow> client_handler \<Rightarrow> client_handler" where
  "RegisterReceiptCallback cb h = h\<lparr>hc_receiptCallback := Some cb\<rparr>"

definition SetEventCallback :: "nat \<Rightarrow> client_handler \<Rightarrow> client_handler" where
  "SetEventCallback cb h = RegisterEventCallback ''_default'' cb h"

definition AddEventCallback :: "nat \<Rightarrow> client_handler \<Rightarrow> client_handler" where
  "AddEventCallback cb h = RegisterEventCallback ''_default'' cb h"

text \<open>The handler as \<^verbatim>\<open>NewClient\<close> builds it: with the capacities of its channels and both pending maps.\<close>

definition NewClient_handler :: client_handler where
  "NewClient_handler =
     (client_NewHandler (make_chan 2000) (Some (make_chan 1)) (Some (make_chan 1)) (make_chan 1) (make_chan 1))
     \<lparr>hc_pendingRpc := Some Map.empty, hc_pendingChain := Some Map.empty\<rparr>"

subsection \<open>The handler of \<^verbatim>\<open>tps.go\<close>\<close>

text \<open>Its \<^verbatim>\<open>handleNonce\<close> reads the body as an account, and its \<^verbatim>\<open>handleReceipt\<close> only logs the receipt.\<close>

definition tps_push_account :: "client_env \<Rightarrow> pbMessage \<Rightarrow> client_handler \<Rightarrow> hresult \<times> client_handler" where
  "tps_push_account E m h =
     (case as_Unmarshal (e_eth E) (u_AccountState E) (Body (Some m)) zero_AccountState of
        None \<Rightarrow> (HandlerError ErrUnmarshalBody, h)
      | Some a \<Rightarrow>
          (case chan_send a (hc_accountState h) of
             None \<Rightarrow> (Blocked, h)
           | Some c \<Rightarrow> (Handled, h\<lparr>hc_accountState := c\<rparr>)))"

definition TpsHandler_HandleRequest :: "client_env \<Rightarrow> Request \<Rightarrow> client_handler \<Rightarrow> hresult \<times> client_handler" where
  "TpsHandler_HandleRequest E r h =
     (let m = req_message r; cmd = Command (Some m) in
      if cmd = ''InitConnection'' then handleInitConnection E r h
      else if cmd = ''AccountState'' then tps_push_account E m h
      else if cmd = ''Nonce'' then tps_push_account E m h
      else if cmd = ''Receipt'' then
        (case Receipt_Unmarshal (e_receipt E) (Body (Some m)) of
           None \<Rightarrow> (HandlerError ErrUnmarshalBody, h)
         | Some _ \<Rightarrow> (Handled, h))
      else (HandlerError ErrorCommandNotFound, h))"
subsection \<open>What handling a message does to the pending requests\<close>

text \<open>
  Either nothing, or the message is put into the channel that waits for its id and the id is
  removed, unless the message is an acknowledgement of a registration. The handler blocks only on
  a full channel.
\<close>

definition chain_effect :: "pbMessage \<Rightarrow> (string \<rightharpoonup> nat) \<Rightarrow> client_handler \<Rightarrow> hresult \<times> client_handler \<Rightarrow> bool" where
  "chain_effect m pend h out \<longleftrightarrow> (case out of (res, h') \<Rightarrow>
     (hc_pendingChain h' = Some pend \<and> hc_chainChans h' = hc_chainChans h) \<or>
     (\<exists>c. pend (ID (Some m)) = Some c \<and>
        (hc_pendingChain h' = Some (pend(ID (Some m) := None)) \<or>
         Command (Some m) = ''RegisterAccountAck'' \<and> hc_pendingChain h' = Some pend) \<and>
        (case chan_send m (hc_chainChans h c) of
           None \<Rightarrow> res = Blocked \<and> hc_chainChans h' = hc_chainChans h
         | Some ch \<Rightarrow> res = Handled \<and> hc_chainChans h' = (hc_chainChans h)(c := ch))))"

lemma send_chain_effect:
  assumes "pend (ID (Some m)) = Some c" "hc_chainChans h' = hc_chainChans h"
    "hc_pendingChain h' = Some (pend(ID (Some m) := None)) \<or>
     Command (Some m) = ''RegisterAccountAck'' \<and> hc_pendingChain h' = Some pend"
  shows "chain_effect m pend h (send_chain c m h')"
  using assms by (auto simp: chain_effect_def send_chain_def split: option.split)

lemma dispatch_effect:
  "hc_pendingChain h = Some pend \<Longrightarrow> dispatch_by_id m h = Some out \<Longrightarrow> chain_effect m pend h out"
  by (auto simp: dispatch_by_id_def Let_def intro!: send_chain_effect split: if_splits option.splits)

lemma no_chain_effect:
  "hc_pendingChain h' = Some pend \<Longrightarrow> hc_chainChans h' = hc_chainChans h \<Longrightarrow> chain_effect m pend h (res, h')"
  by (simp add: chain_effect_def)

lemma handlers_effect:
  assumes "hc_pendingChain h = Some pend"
  shows "chain_effect (req_message r) pend h (handleInitConnection E r h)"
    "chain_effect m pend h (handleAccountState E m h)" "chain_effect m pend h (handleTransactionError E m h)"
    "chain_effect m pend h (handleReceipt E m h)" "chain_effect m pend h (handleDeviceKey m h)"
    "chain_effect m pend h (handleEventLogs E m h)" "chain_effect m pend h (handleStats E m h)"
    "chain_effect m pend h (handleRpcResponse E m h)" "chain_effect m pend h (handleRpcEvent E m h)"
    "chain_effect m pend h (handleChainResponse m h)" "chain_effect m pend h (handleBlockData m h)"
  using assms
  by (simp_all add: handleInitConnection_def handleAccountState_def handleTransactionError_def handleReceipt_def
      handleDeviceKey_def handleEventLogs_def handleStats_def handleRpcResponse_def handleRpcEvent_def
      handleChainResponse_def handleBlockData_def Let_def
      no_chain_effect send_chain_effect dispatch_effect split: option.split prod.split)

lemma HandleRequest_effect:
  "hc_pendingChain h = Some pend \<Longrightarrow> chain_effect (req_message r) pend h (HandleRequest E r h)"
  by (simp add: HandleRequest_def Let_def handlers_effect no_chain_effect)

text \<open>The commands whose messages go to the caller that waits for their id: the responses of the
  chain, and accounts, receipts and transaction errors.\<close>

definition answers_by_id :: "client_env \<Rightarrow> pbMessage \<Rightarrow> bool" where
  "answers_by_id E m \<longleftrightarrow> ID (Some m) \<noteq> [] \<and>
     (Command (Some m) \<in> set chain_responses \<or> Command (Some m) = ''AccountState'' \<or>
      Command (Some m) = ''Receipt'' \<or> Command (Some m) = ''TransactionError'' \<and> u_TxError E (Body (Some m)) \<noteq> None)"

lemma dispatch_hit:
  "hc_pendingChain h = Some pend \<Longrightarrow> pend (ID (Some m)) = Some c \<Longrightarrow> ID (Some m) \<noteq> [] \<Longrightarrow>
   dispatch_by_id m h = Some (send_chain c m (h\<lparr>hc_pendingChain := Some (pend(ID (Some m) := None))\<rparr>))"
  by (simp add: dispatch_by_id_def Let_def)

lemma HandleRequest_answers:
  assumes "hc_pendingChain h = Some pend" "pend (ID (Some (req_message r))) = Some c"
    "answers_by_id E (req_message r)" "Command (Some (req_message r)) \<noteq> ''RegisterAccountAck''"
  shows "HandleRequest E r h =
     send_chain c (req_message r) (h\<lparr>hc_pendingChain := Some (pend(ID (Some (req_message r)) := None))\<rparr>)"
  using assms
  by (auto simp: answers_by_id_def HandleRequest_def Let_def chain_responses_def handleAccountState_def
      handleReceipt_def handleTransactionError_def handleChainResponse_def dispatch_hit)

text \<open>The channel of transaction errors has one place: where nobody takes the first error, the
  second one without a waiting caller blocks its worker.\<close>

lemma transaction_error_blocks:
  assumes "length (ch_buf (hc_txError h)) = ch_cap (hc_txError h)" "Command (Some (req_message r)) = ''TransactionError''"
    "u_TxError E (Body (Some (req_message r))) \<noteq> None" "ID (Some (req_message r)) = []"
  shows "fst (HandleRequest E r h) = Blocked"
  using assms by (auto simp: HandleRequest_def Let_def handleTransactionError_def dispatch_by_id_def chan_send_def
      split: option.split)

end
