(* ===== verification/Chain_Requests.thy ===== *)
theory Chain_Requests
  imports Client_Handler
begin

text \<open>
  Requests of the TCP client and their answers: \<^verbatim>\<open>sendChainRequest\<close> and \<^verbatim>\<open>ChainRegisterAccountWait\<close> in
  \<^verbatim>\<open>src/pkg/client-tcp/client_chain.go\<close> as they run beside the handler of the same client. A call
  stores a response channel under a fresh id, sends its request, and waits for a message or its
  timer; the handler puts the messages of the node into these channels. The goroutines interleave
  freely: a run is a list of events, each one atomic step of one goroutine. A handler that blocks on a
  response channel has already taken the id from \<^verbatim>\<open>pendingChainRequests\<close>; it stays there with its message
  until the channel has room. A message whose handler blocks elsewhere is handled at a later step.
  Channel \<open>i\<close> is the response channel of call \<open>i\<close>.
\<close>

subsection \<open>Calls\<close>

record RegistrationResult =
  rg_Status :: string
  rg_Reason :: string
  rg_Address :: string

datatype chain_kind = OneShot | Registration bytes

datatype chain_error =
    ParentNotAvailable | ErrSend | ErrTimeout | ErrNodeRegistration string string | ErrNodeRejected bytes
  | ErrUnmarshalRegistration

datatype chain_result = ChainFailed chain_error | Response pbMessage | Registered RegistrationResult

record chain_call =
  cc_id :: string
  cc_kind :: chain_kind
  cc_request :: pbMessage
  cc_sent :: bool
  cc_result :: "chain_result option"

record chain_sys =
  cy_handler :: client_handler
  cy_calls :: "chain_call list"
  cy_sent :: "pbMessage list"
  cy_stuck :: "(nat \<times> pbMessage) list"

text \<open>What \<^verbatim>\<open>ChainRegisterAccountWait\<close> makes of a message: \<open>None\<close> is to go on waiting. \<open>hex\<close> prints an
  address, \<open>dec\<close> decodes the protobuf result.\<close>

definition register_reply ::
  "(bytes \<Rightarrow> RegistrationResult option) \<Rightarrow> (bytes \<Rightarrow> string) \<Rightarrow> bytes \<Rightarrow> pbMessage \<Rightarrow> chain_result option" where
  "register_reply dec hex addr m =
     (let cmd = Command (Some m); body = Body (Some m) in
      if cmd = ''RegisterAccountAck'' then
        (case dec body of
           Some ack \<Rightarrow>
             if rg_Status ack = ''FAILED'' \<or> rg_Status ack = ''REJECTED''
             then Some (ChainFailed (ErrNodeRegistration (rg_Status ack) (rg_Reason ack)))
             else if rg_Status ack = ''CONFIRMED'' \<or> rg_Status ack = ''PROVISIONAL'' then Some (Registered ack)
             else None
         | None \<Rightarrow>
             if take 5 body = ascii_bytes ''ERROR'' then Some (ChainFailed (ErrNodeRejected body))
             else if body = ascii_bytes ''CONFIRMED''
             then Some (Registered \<lparr>rg_Status = ''CONFIRMED'', rg_Reason = [], rg_Address = hex addr\<rparr>)
             else if body = ascii_bytes ''PROVISIONAL''
             then Some (Registered \<lparr>rg_Status = ''PROVISIONAL'', rg_Reason = [], rg_Address = hex addr\<rparr>)
             else None)
      else if cmd = ''RegistrationResult'' then
        (case dec body of
           None \<Rightarrow> Some (ChainFailed ErrUnmarshalRegistration)
         | Some info \<Rightarrow> Some (Registered info))
      else None)"

subsection \<open>Steps\<close>

datatype chain_event =
    StartCall bool string string bytes chain_kind
  | SendCall nat bool
  | Incoming Request
  | ReceiveCall nat
  | TimerCall nat
  | StuckSends nat

definition map_pending :: "((string \<rightharpoonup> nat) \<Rightarrow> (string \<rightharpoonup> nat)) \<Rightarrow> client_handler \<Rightarrow> client_handler" where
  "map_pending f h = h\<lparr>hc_pendingChain := map_option f (hc_pendingChain h)\<rparr>"

definition chain_request :: "string \<Rightarrow> string \<Rightarrow> bytes \<Rightarrow> pbMessage" where
  "chain_request i cmd body =
     NewMessage (Some \<lparr>m_Header = Some (empty_Header\<lparr>h_Command := cmd, h_ID := i\<rparr>), m_Body = body\<rparr>)"

definition chan_capacity :: "chain_kind \<Rightarrow> nat" where
  "chan_capacity k = (case k of OneShot \<Rightarrow> 1 | Registration _ \<Rightarrow> 2)"

definition update_call :: "nat \<Rightarrow> (chain_call \<Rightarrow> chain_call) \<Rightarrow> chain_sys \<Rightarrow> chain_sys" where
  "update_call i f s = s\<lparr>cy_calls := (cy_calls s)[i := f (cy_calls s ! i)]\<rparr>"

text \<open>The end of a call that removes its id: \<^verbatim>\<open>pendingChainRequests.Delete(id)\<close> and the return.\<close>

definition end_call :: "nat \<Rightarrow> chain_result \<Rightarrow> chain_sys \<Rightarrow> chain_sys" where
  "end_call i res s =
     update_call i (\<lambda>c. c\<lparr>cc_result := Some res\<rparr>)
       (s\<lparr>cy_handler := map_pending (\<lambda>p. p(cc_id (cy_calls s ! i) := None)) (cy_handler s)\<rparr>)"

definition waiting :: "nat \<Rightarrow> chain_sys \<Rightarrow> bool" where
  "waiting i s \<longleftrightarrow> i < length (cy_calls s) \<and> cc_sent (cy_calls s ! i) \<and> cc_result (cy_calls s ! i) = None"

definition take_response ::
  "(bytes \<Rightarrow> RegistrationResult option) \<Rightarrow> (bytes \<Rightarrow> string) \<Rightarrow> nat \<Rightarrow> chain_sys \<Rightarrow> chain_sys" where
  "take_response dec hex i s =
     (let h = cy_handler s; ch = hc_chainChans h i in
      case ch_buf ch of
        [] \<Rightarrow> s
      | m # ms \<Rightarrow>
          let s = s\<lparr>cy_handler := h\<lparr>hc_chainChans := (hc_chainChans h)(i := ch\<lparr>ch_buf := ms\<rparr>)\<rparr>\<rparr> in
          (case cc_kind (cy_calls s ! i) of
             OneShot \<Rightarrow> update_call i (\<lambda>c. c\<lparr>cc_result := Some (Response m)\<rparr>) s
           | Registration addr \<Rightarrow>
               (case register_reply dec hex addr m of None \<Rightarrow> s | Some res \<Rightarrow> end_call i res s)))"

text \<open>The response channel that a blocked handler of \<open>m\<close> has found: \<open>h\<close> and \<open>h'\<close> are the states before and after.\<close>

definition stuck_on :: "pbMessage \<Rightarrow> client_handler \<Rightarrow> client_handler \<Rightarrow> nat option" where
  "stuck_on m h h' =
     (case (hc_pendingChain h, hc_pendingChain h') of
        (Some pend, Some pend') \<Rightarrow>
          if Command (Some m) = ''RegisterAccountAck'' \<or> pend' (ID (Some m)) = None then pend (ID (Some m)) else None
      | _ \<Rightarrow> None)"

fun chain_step ::
  "client_env \<Rightarrow> (bytes \<Rightarrow> RegistrationResult option) \<Rightarrow> (bytes \<Rightarrow> string) \<Rightarrow> chain_sys \<Rightarrow> chain_event \<Rightarrow> chain_sys" where
  "chain_step E dec hex s (StartCall up i cmd body k) =
     (let n = length (cy_calls s);
          c = \<lparr>cc_id = i, cc_kind = k, cc_request = chain_request i cmd body, cc_sent = False, cc_result = None\<rparr>
      in if \<not> up then s\<lparr>cy_calls := cy_calls s @ [c\<lparr>cc_result := Some (ChainFailed ParentNotAvailable)\<rparr>]\<rparr>
         else s\<lparr>cy_calls := cy_calls s @ [c],
                cy_handler := map_pending (\<lambda>p. p(i \<mapsto> n)) ((cy_handler s)\<lparr>hc_chainChans :=
                  (hc_chainChans (cy_handler s))(n := make_chan (chan_capacity k))\<rparr>)\<rparr>)"
| "chain_step E dec hex s (SendCall i ok) =
     (if i < length (cy_calls s) \<and> cc_result (cy_calls s ! i) = None \<and> \<not> cc_sent (cy_calls s ! i) then
        if ok then update_call i (\<lambda>c. c\<lparr>cc_sent := True\<rparr>)
                     (s\<lparr>cy_sent := cy_sent s @ [cc_request (cy_calls s ! i)]\<rparr>)
        else end_call i (ChainFailed ErrSend) s
      else s)"
| "chain_step E dec hex s (Incoming r) =
     (case HandleRequest E r (cy_handler s) of
        (Blocked, h) \<Rightarrow>
          (case stuck_on (req_message r) (cy_handler s) h of
             None \<Rightarrow> s
           | Some c \<Rightarrow> s\<lparr>cy_handler := h, cy_stuck := cy_stuck s @ [(c, req_message r)]\<rparr>)
      | (_, h) \<Rightarrow> s\<lparr>cy_handler := h\<rparr>)"
| "chain_step E dec hex s (ReceiveCall i) = (if waiting i s then take_response dec hex i s else s)"
| "chain_step E dec hex s (TimerCall i) = (if waiting i s then end_call i (ChainFailed ErrTimeout) s else s)"
| "chain_step E dec hex s (StuckSends j) =
     (if j < length (cy_stuck s) then
        (case cy_stuck s ! j of (c, m) \<Rightarrow>
           (case chan_send m (hc_chainChans (cy_handler s) c) of
              None \<Rightarrow> s
            | Some ch \<Rightarrow>
                s\<lparr>cy_handler := (cy_handler s)\<lparr>hc_chainChans := (hc_chainChans (cy_handler s))(c := ch)\<rparr>,
                  cy_stuck := take j (cy_stuck s) @ drop (Suc j) (cy_stuck s)\<rparr>))
      else s)"

definition chain_run ::
  "client_env \<Rightarrow> (bytes \<Rightarrow> RegistrationResult option) \<Rightarrow> (bytes \<Rightarrow> string) \<Rightarrow> chain_event list \<Rightarrow> chain_sys \<Rightarrow> chain_sys" where
  "chain_run E dec hex es s = foldl (chain_step E dec hex) s es"

definition init_chain_sys :: chain_sys where
  "init_chain_sys = \<lparr>cy_handler = NewClient_handler, cy_calls = [], cy_sent = [], cy_stuck = []\<rparr>"

text \<open>The ids given to calls: the uuid library promises that no two are the same.\<close>

fun started :: "chain_event list \<Rightarrow> string list" where
  "started [] = []"
| "started (StartCall up i cmd body k # es) = i # started es"
| "started (e # es) = started es"
subsection \<open>Invariant\<close>

definition call_ok :: "client_handler \<Rightarrow> nat \<Rightarrow> chain_call \<Rightarrow> bool" where
  "call_ok h i c \<longleftrightarrow>
     (cc_result c \<noteq> Some (ChainFailed ParentNotAvailable) \<longrightarrow> ch_cap (hc_chainChans h i) = chan_capacity (cc_kind c)) \<and>
     (\<forall>m \<in> set (ch_buf (hc_chainChans h i)). ID (Some m) = cc_id c) \<and>
     (\<forall>m. cc_result c = Some (Response m) \<longrightarrow> ID (Some m) = cc_id c)"

definition chain_inv :: "chain_sys \<Rightarrow> bool" where
  "chain_inv s \<longleftrightarrow> (let h = cy_handler s; calls = cy_calls s in
     (\<forall>i < length calls. call_ok h i (calls ! i)) \<and>
     (\<forall>i \<ge> length calls. ch_buf (hc_chainChans h i) = []) \<and>
     (\<forall>(c, m) \<in> set (cy_stuck s). c < length calls \<and> ID (Some m) = cc_id (calls ! c)) \<and>
     (case hc_pendingChain h of
        None \<Rightarrow> False
      | Some pend \<Rightarrow> \<forall>i c. pend i = Some c \<longrightarrow>
          c < length calls \<and> cc_id (calls ! c) = i))"

definition pend_of :: "chain_sys \<Rightarrow> string \<rightharpoonup> nat" where
  "pend_of s = the (hc_pendingChain (cy_handler s))"

lemma chain_invD:
  assumes "chain_inv s"
  shows "hc_pendingChain (cy_handler s) = Some (pend_of s)"
    "pend_of s i = Some c \<Longrightarrow> c < length (cy_calls s)"
    "pend_of s i = Some c \<Longrightarrow> cc_id (cy_calls s ! c) = i"
    "j < length (cy_calls s) \<Longrightarrow> call_ok (cy_handler s) j (cy_calls s ! j)"
    "j \<ge> length (cy_calls s) \<Longrightarrow> ch_buf (hc_chainChans (cy_handler s) j) = []"
    "(c, m) \<in> set (cy_stuck s) \<Longrightarrow> c < length (cy_calls s) \<and> ID (Some m) = cc_id (cy_calls s ! c)"
  using assms by (auto simp: chain_inv_def Let_def pend_of_def split: option.splits)

lemma chain_invI:
  assumes "hc_pendingChain (cy_handler s) = Some pend"
    "\<And>i c. pend i = Some c \<Longrightarrow> c < length (cy_calls s) \<and> cc_id (cy_calls s ! c) = i"
    "\<And>i. i < length (cy_calls s) \<Longrightarrow> call_ok (cy_handler s) i (cy_calls s ! i)"
    "\<And>i. i \<ge> length (cy_calls s) \<Longrightarrow> ch_buf (hc_chainChans (cy_handler s) i) = []"
    "\<And>c m. (c, m) \<in> set (cy_stuck s) \<Longrightarrow> c < length (cy_calls s) \<and> ID (Some m) = cc_id (cy_calls s ! c)"
  shows "chain_inv s"
  using assms by (auto simp: chain_inv_def Let_def)

text \<open>What a handler does to the ids and the channels of the calls, and to the blocked handlers.\<close>

lemma incoming_cases:
  assumes inv: "chain_inv s"
  obtains h where "chain_step E dec hex s (Incoming r) = s\<lparr>cy_handler := h\<rparr>"
      "hc_pendingChain h = Some (pend_of s)" "hc_chainChans h = hc_chainChans (cy_handler s)"
  | h c ch where "chain_step E dec hex s (Incoming r) = s\<lparr>cy_handler := h\<rparr>" "pend_of s (ID (Some (req_message r))) = Some c"
      "hc_pendingChain h \<in> {Some (pend_of s), Some ((pend_of s)(ID (Some (req_message r)) := None))}"
      "chan_send (req_message r) (hc_chainChans (cy_handler s) c) = Some ch"
      "hc_chainChans h = (hc_chainChans (cy_handler s))(c := ch)"
  | h c where "chain_step E dec hex s (Incoming r) = s\<lparr>cy_handler := h, cy_stuck := cy_stuck s @ [(c, req_message r)]\<rparr>"
      "pend_of s (ID (Some (req_message r))) = Some c"
      "hc_pendingChain h \<in> {Some (pend_of s), Some ((pend_of s)(ID (Some (req_message r)) := None))}"
      "hc_chainChans h = hc_chainChans (cy_handler s)"
proof -
  note p = chain_invD(1) [OF inv]
  let ?m = "req_message r" and ?pend = "pend_of s"
  obtain res h where hr: "HandleRequest E r (cy_handler s) = (res, h)" by fastforce
  have eff: "chain_effect ?m ?pend (cy_handler s) (res, h)" using HandleRequest_effect [OF p] hr by metis
  have pend: "hc_pendingChain h \<in> {Some ?pend, Some (?pend(ID (Some ?m) := None))}"
    using eff by (auto simp: chain_effect_def)
  show thesis
  proof (cases "res = Blocked")
    case True
    have ch: "hc_chainChans h = hc_chainChans (cy_handler s)"
      using eff True by (auto simp: chain_effect_def split: option.splits)
    show thesis
    proof (cases "stuck_on ?m (cy_handler s) h")
      case None
      then show thesis using True hr p by (intro that(1) [of "cy_handler s"]) auto
    next
      case (Some c)
      then have "?pend (ID (Some ?m)) = Some c" using p by (auto simp: stuck_on_def split: option.splits if_splits)
      then show thesis using True hr Some pend ch by (intro that(3) [of c h]) auto
    qed
  next
    case False
    then have st: "chain_step E dec hex s (Incoming r) = s\<lparr>cy_handler := h\<rparr>" by (cases res) (simp_all add: hr)
    consider "hc_pendingChain h = Some ?pend" "hc_chainChans h = hc_chainChans (cy_handler s)"
      | c ch where "?pend (ID (Some ?m)) = Some c" "chan_send ?m (hc_chainChans (cy_handler s) c) = Some ch"
        "hc_chainChans h = (hc_chainChans (cy_handler s))(c := ch)"
      using eff False by (auto simp: chain_effect_def split: option.splits)
    then show thesis using that(1) [OF st] that(2) [OF st _ pend] by cases blast+
  qed
qed

lemma put_message_inv:
  assumes inv: "chain_inv s" and c: "c < length (cy_calls s)" "ID (Some m) = cc_id (cy_calls s ! c)"
    and ch: "chan_send m (hc_chainChans (cy_handler s) c) = Some ch" "hc_chainChans h = (hc_chainChans (cy_handler s))(c := ch)"
    and pend: "hc_pendingChain h \<in> {Some (pend_of s), Some ((pend_of s)(i := None))}" and st: "set st \<subseteq> set (cy_stuck s)"
  shows "chain_inv (s\<lparr>cy_handler := h, cy_stuck := st\<rparr>)"
proof -
  note p = chain_invD [OF inv]
  have ch': "ch_cap ch = ch_cap (hc_chainChans (cy_handler s) c)" "ch_buf ch = ch_buf (hc_chainChans (cy_handler s) c) @ [m]"
    using ch(1) by (auto simp: chan_send_def split: if_splits)
  have "call_ok h i (cy_calls s ! i)" if "i < length (cy_calls s)" for i
    using p(4) [OF that] c(2) ch(2) ch' by (cases "i = c") (auto simp: call_ok_def)
  moreover have "ch_buf (hc_chainChans h i) = []" if "i \<ge> length (cy_calls s)" for i
    using p(5) [OF that] c(1) ch(2) that by auto
  moreover have "hc_pendingChain h = Some (the (hc_pendingChain h))" using pend by auto
  moreover have "d < length (cy_calls s) \<and> cc_id (cy_calls s ! d) = j" if "the (hc_pendingChain h) j = Some d" for j d
    using pend that p(2,3) by (auto split: if_splits)
  ultimately show ?thesis
    using p(6) st by (intro chain_invI [where pend = "the (hc_pendingChain h)"]) auto
qed

lemma incoming_inv:
  assumes inv: "chain_inv s"
  shows "chain_inv (chain_step E dec hex s (Incoming r))"
proof (rule incoming_cases [OF inv, of E dec hex r])
  note p = chain_invD [OF inv]
  fix h assume h: "chain_step E dec hex s (Incoming r) = s\<lparr>cy_handler := h\<rparr>"
    "hc_pendingChain h = Some (pend_of s)" "hc_chainChans h = hc_chainChans (cy_handler s)"
  show ?thesis unfolding h(1)
    by (rule chain_invI [where pend = "pend_of s"]) (use h p in \<open>auto simp: call_ok_def\<close>)
next
  note p = chain_invD [OF inv]
  fix h c ch
  assume h: "chain_step E dec hex s (Incoming r) = s\<lparr>cy_handler := h\<rparr>" and c: "pend_of s (ID (Some (req_message r))) = Some c"
    and h': "hc_pendingChain h \<in> {Some (pend_of s), Some ((pend_of s)(ID (Some (req_message r)) := None))}"
      "chan_send (req_message r) (hc_chainChans (cy_handler s) c) = Some ch"
      "hc_chainChans h = (hc_chainChans (cy_handler s))(c := ch)"
  show ?thesis
    using put_message_inv [OF inv p(2) [OF c] p(3) [OF c, symmetric] h'(2,3,1), of "cy_stuck s"] unfolding h by simp
next
  note p = chain_invD [OF inv]
  fix h c
  assume h: "chain_step E dec hex s (Incoming r) = s\<lparr>cy_handler := h, cy_stuck := cy_stuck s @ [(c, req_message r)]\<rparr>"
    and c: "pend_of s (ID (Some (req_message r))) = Some c"
    and h': "hc_pendingChain h \<in> {Some (pend_of s), Some ((pend_of s)(ID (Some (req_message r)) := None))}"
      "hc_chainChans h = hc_chainChans (cy_handler s)"
  show ?thesis unfolding h
    by (rule chain_invI [where pend = "the (hc_pendingChain h)"])
      (use h' p p(2,3) [OF c] in \<open>auto simp: call_ok_def split: if_splits\<close>)
qed

lemma set_remove_nth: "set (take j xs @ drop (Suc j) xs) \<subseteq> set xs"
  by (auto dest: in_set_takeD in_set_dropD)

lemma stuck_inv:
  assumes inv: "chain_inv s"
  shows "chain_inv (chain_step E dec hex s (StuckSends j))"
proof (cases "j < length (cy_stuck s)")
  case True
  obtain c m where j: "cy_stuck s ! j = (c, m)" by fastforce
  then have "(c, m) \<in> set (cy_stuck s)" using True by (metis nth_mem)
  note cm = chain_invD(6) [OF inv this]
  show ?thesis
  proof (cases "chan_send m (hc_chainChans (cy_handler s) c)")
    case (Some ch)
    then show ?thesis
      using True j put_message_inv [OF inv _ _ Some _ _ set_remove_nth [of j "cy_stuck s"], of
          "(cy_handler s)\<lparr>hc_chainChans := (hc_chainChans (cy_handler s))(c := ch)\<rparr>" "[]"] cm chain_invD(1) [OF inv]
      by simp
  qed (use True j inv in simp)
qed (use inv in simp)

lemma call_ok_chans: "hc_chainChans h' i = hc_chainChans h i \<Longrightarrow> call_ok h' i c = call_ok h i c"
  by (simp add: call_ok_def)

lemma start_inv:
  assumes inv: "chain_inv s"
  shows "chain_inv (chain_step E dec hex s (StartCall up i cmd body k))"
proof -
  note p = chain_invD [OF inv]
  show ?thesis
  proof (cases up)
    case True
    show ?thesis
      by (rule chain_invI [where pend = "(pend_of s)(i \<mapsto> length (cy_calls s))"])
        (use True p in \<open>auto simp: Let_def map_pending_def nth_append call_ok_def make_chan_def less_Suc_eq split: if_splits\<close>)
  next
    case False
    show ?thesis
      by (rule chain_invI [where pend = "pend_of s"])
        (use False p in \<open>auto simp: Let_def nth_append call_ok_def less_Suc_eq\<close>)
  qed
qed

lemma update_call_inv:
  assumes inv: "chain_inv s" and f: "\<And>c. cc_id (f c) = cc_id c"
    "call_ok (cy_handler s) i (cy_calls s ! i) \<Longrightarrow> call_ok (cy_handler s) i (f (cy_calls s ! i))"
  shows "chain_inv (update_call i f s)"
proof -
  note p = chain_invD [OF inv]
  let ?pend = "pend_of s"
  have upd: "(cy_calls s)[i := f (cy_calls s ! i)] ! c = (if c = i then f (cy_calls s ! i) else cy_calls s ! c)"
    if "c < length (cy_calls s)" for c
    using that by (cases "c = i") auto
  show ?thesis
    by (rule chain_invI [where pend = ?pend]) (use p f in \<open>auto simp: update_call_def upd\<close>)
qed

lemma end_call_inv:
  assumes inv: "chain_inv s" and res: "\<And>m. res \<noteq> Response m" "res \<noteq> ChainFailed ParentNotAvailable"
    and live: "cc_result (cy_calls s ! i) = None"
  shows "chain_inv (end_call i res s)"
proof -
  note p = chain_invD [OF inv]
  let ?pend = "pend_of s"
  let ?s = "s\<lparr>cy_handler := map_pending (\<lambda>p. p(cc_id (cy_calls s ! i) := None)) (cy_handler s)\<rparr>"
  have "chain_inv ?s"
    by (rule chain_invI [where pend = "?pend(cc_id (cy_calls s ! i) := None)"])
      (use p in \<open>auto simp: map_pending_def call_ok_def split: if_splits\<close>)
  then show ?thesis unfolding end_call_def
    by (rule update_call_inv) (use res live in \<open>auto simp: call_ok_def\<close>)
qed

lemma register_reply_result:
  "register_reply dec hex addr m = Some res \<Longrightarrow> res \<noteq> Response m' \<and> res \<noteq> ChainFailed ParentNotAvailable"
  by (auto simp: register_reply_def Let_def split: if_splits option.splits)

lemma take_response_inv:
  assumes inv: "chain_inv s" and w: "waiting i s"
  shows "chain_inv (take_response dec hex i s)"
proof (cases "ch_buf (hc_chainChans (cy_handler s) i)")
  case Nil
  then show ?thesis using inv by (simp add: take_response_def Let_def)
next
  case (Cons m ms)
  note p = chain_invD [OF inv]
  have i: "i < length (cy_calls s)" "cc_result (cy_calls s ! i) = None" using w by (auto simp: waiting_def)
  let ?h = "cy_handler s"
  let ?s = "s\<lparr>cy_handler := ?h\<lparr>hc_chainChans := (hc_chainChans ?h)(i := (hc_chainChans ?h i)\<lparr>ch_buf := ms\<rparr>)\<rparr>\<rparr>"
  have m: "ID (Some m) = cc_id (cy_calls s ! i)" using p(4) [OF i(1)] Cons by (simp add: call_ok_def)
  have ok: "call_ok (cy_handler ?s) j (cy_calls s ! j)" if "j < length (cy_calls s)" for j
    using p(4) [OF that] Cons by (cases "j = i") (auto simp: call_ok_def)
  have s: "chain_inv ?s"
    by (rule chain_invI [where pend = "pend_of s"]) (use p ok i in auto)
  have "chain_inv (update_call i (\<lambda>c. c\<lparr>cc_result := Some (Response m)\<rparr>) ?s)"
    by (rule update_call_inv [OF s]) (use m i in \<open>auto simp: call_ok_def\<close>)
  moreover have "chain_inv (end_call i res ?s)" if "register_reply dec hex addr m = Some res" for addr res
    by (rule end_call_inv [OF s]) (use register_reply_result [OF that] i in auto)
  ultimately show ?thesis
    using Cons s by (simp add: take_response_def Let_def split: chain_kind.split option.split)
qed

lemma chain_step_inv: "chain_inv s \<Longrightarrow> chain_inv (chain_step E dec hex s e)"
proof (cases e)
  case (SendCall i ok)
  assume inv: "chain_inv s"
  have "chain_inv (s\<lparr>cy_sent := x\<rparr>)" for x using inv by (simp add: chain_inv_def)
  then have "chain_inv (update_call i (\<lambda>c. c\<lparr>cc_sent := True\<rparr>) (s\<lparr>cy_sent := x\<rparr>))" for x
    by (rule update_call_inv) (auto simp: call_ok_def)
  then show ?thesis using inv end_call_inv [OF inv] SendCall by auto
qed (auto simp: start_inv incoming_inv stuck_inv take_response_inv end_call_inv waiting_def
    simp del: chain_step.simps(1) chain_step.simps(3) chain_step.simps(6))

lemma chain_run_inv: "chain_inv s \<Longrightarrow> chain_inv (chain_run E dec hex es s)"
  by (induction es arbitrary: s) (simp_all add: chain_run_def chain_step_inv)

lemma init_chain_inv: "chain_inv init_chain_sys"
  by (rule chain_invI [where pend = Map.empty])
    (auto simp: init_chain_sys_def NewClient_handler_def client_NewHandler_def make_chan_def)
subsection \<open>The life of one request\<close>

text \<open>Call \<open>n\<close> is the only one with id \<open>i\<close>; then its states: it waits with an empty channel, or it has
  been answered by \<open>m\<close>; no handler is blocked on its channel.\<close>

definition owner :: "string \<Rightarrow> nat \<Rightarrow> chain_sys \<Rightarrow> bool" where
  "owner i n s \<longleftrightarrow> n < length (cy_calls s) \<and> cc_kind (cy_calls s ! n) = OneShot \<and>
     (\<forall>j < length (cy_calls s). cc_id (cy_calls s ! j) = i \<longleftrightarrow> j = n)"

definition open_call :: "string \<Rightarrow> nat \<Rightarrow> chain_sys \<Rightarrow> bool" where
  "open_call i n s \<longleftrightarrow> pend_of s i = Some n \<and> ch_buf (hc_chainChans (cy_handler s) n) = [] \<and> waiting n s \<and>
     n \<notin> fst ` set (cy_stuck s)"

definition answered :: "string \<Rightarrow> nat \<Rightarrow> pbMessage \<Rightarrow> chain_sys \<Rightarrow> bool" where
  "answered i n m s \<longleftrightarrow> pend_of s i = None \<and> n \<notin> fst ` set (cy_stuck s) \<and>
     (cc_result (cy_calls s ! n) = Some (Response m) \<or>
      waiting n s \<and> ch_buf (hc_chainChans (cy_handler s) n) = [m])"

lemma update_call_calls:
  "(\<And>c. g (f c) = g c) \<Longrightarrow> map g (cy_calls (update_call i f s)) = map g (cy_calls s)"
  "length (cy_calls (update_call i f s)) = length (cy_calls s)"
  "n \<noteq> i \<Longrightarrow> cy_calls (update_call i f s) ! n = cy_calls s ! n"
  "cy_handler (update_call i f s) = cy_handler s" "cy_stuck (update_call i f s) = cy_stuck s"
  by (cases "i < length (cy_calls s)") (auto simp: update_call_def nth_list_update intro!: nth_equalityI)

lemma end_call_calls:
  "map cc_id (cy_calls (end_call i res s)) = map cc_id (cy_calls s)"
  "map cc_kind (cy_calls (end_call i res s)) = map cc_kind (cy_calls s)"
  "length (cy_calls (end_call i res s)) = length (cy_calls s)"
  "n \<noteq> i \<Longrightarrow> cy_calls (end_call i res s) ! n = cy_calls s ! n"
  "hc_chainChans (cy_handler (end_call i res s)) = hc_chainChans (cy_handler s)"
  "cy_stuck (end_call i res s) = cy_stuck s"
  by (simp_all add: end_call_def update_call_calls map_pending_def)

lemmas call_updates = update_call_calls end_call_calls

lemma take_response_calls:
  "length (cy_calls (take_response dec hex j s)) = length (cy_calls s)"
  "map cc_id (cy_calls (take_response dec hex j s)) = map cc_id (cy_calls s)"
  "map cc_kind (cy_calls (take_response dec hex j s)) = map cc_kind (cy_calls s)"
  "n \<noteq> j \<Longrightarrow> cy_calls (take_response dec hex j s) ! n = cy_calls s ! n"
  "n \<noteq> j \<Longrightarrow> hc_chainChans (cy_handler (take_response dec hex j s)) n = hc_chainChans (cy_handler s) n"
  "cy_stuck (take_response dec hex j s) = cy_stuck s"
  by (simp_all add: take_response_def Let_def call_updates split: list.split chain_kind.split option.split)

lemma step_ids:
  "map cc_id (cy_calls (chain_step E dec hex s e)) = map cc_id (cy_calls s) @ started [e]"
  by (cases e) (simp_all add: Let_def take_response_calls call_updates split: prod.split hresult.split option.split)

lemma step_kinds:
  "map cc_kind (cy_calls (chain_step E dec hex s e)) = map cc_kind (cy_calls s) @
     (case e of StartCall up i cmd body k \<Rightarrow> [k] | _ \<Rightarrow> [])"
  by (cases e) (simp_all add: Let_def take_response_calls call_updates split: prod.split hresult.split option.split)

lemma owner_step:
  assumes o: "owner i n s" and e: "i \<notin> set (started [e])"
  shows "owner i n (chain_step E dec hex s e)"
proof -
  let ?t = "chain_step E dec hex s e"
  have ids: "cc_id (cy_calls ?t ! j) = (map cc_id (cy_calls s) @ started [e]) ! j" if "j < length (cy_calls ?t)" for j
    using step_ids [of E dec hex s e] that by (metis nth_map)
  have len: "length (cy_calls ?t) = length (cy_calls s) + length (started [e])"
    using arg_cong [OF step_ids [of E dec hex s e], of length] by simp
  have "cc_kind (cy_calls ?t ! n) = cc_kind (cy_calls s ! n)"
    using arg_cong [OF step_kinds [of E dec hex s e], of "\<lambda>l. l ! n"] o len by (simp add: owner_def nth_append)
  moreover have "(cc_id (cy_calls ?t ! j) = i) = (j = n)" if "j < length (cy_calls ?t)" for j
    using ids [OF that] o e that len nth_mem [of "j - length (cy_calls s)" "started [e]"]
    by (auto simp: owner_def nth_append)
  ultimately show ?thesis using o len by (auto simp: owner_def)
qed
lemma pend_of_end_call:
  "chain_inv s \<Longrightarrow> pend_of (end_call j res s) = (pend_of s)(cc_id (cy_calls s ! j) := None)"
  using chain_invD(1) [of s]
  by (cases "hc_pendingChain (cy_handler s)") (auto simp: pend_of_def end_call_def map_pending_def update_call_calls)

lemma pend_of_take_response:
  assumes inv: "chain_inv s" and n: "owner i n s" "n \<noteq> j" and w: "waiting j s"
  shows "pend_of (take_response dec hex j s) i = pend_of s i"
proof -
  have "cc_id (cy_calls s ! j) \<noteq> i" using n w by (auto simp: owner_def waiting_def)
  then show ?thesis
    using chain_invD(1) [OF inv]
    by (cases "hc_pendingChain (cy_handler s)")
      (auto simp: take_response_def Let_def pend_of_def update_call_calls end_call_def map_pending_def
        split: list.split chain_kind.split option.split)
qed

lemma foreign_incoming:
  assumes inv: "chain_inv s" and n: "owner i n s" and r: "ID (Some (req_message r)) \<noteq> i \<or> pend_of s i = None"
    and stuck: "n \<notin> fst ` set (cy_stuck s)"
  shows "pend_of (chain_step E dec hex s (Incoming r)) i = pend_of s i \<and>
    hc_chainChans (cy_handler (chain_step E dec hex s (Incoming r))) n = hc_chainChans (cy_handler s) n \<and>
    cy_calls (chain_step E dec hex s (Incoming r)) = cy_calls s \<and>
    n \<notin> fst ` set (cy_stuck (chain_step E dec hex s (Incoming r)))"
proof -
  have o: "c \<noteq> n" if "pend_of s (ID (Some (req_message r))) = Some c" for c
    using r n that chain_invD(3) [OF inv that] by (auto simp: owner_def)
  have i: "the x i = pend_of s i" if "x \<in> {Some (pend_of s), Some ((pend_of s)(ID (Some (req_message r)) := None))}" for x
    using that r by auto
  show ?thesis
    by (rule incoming_cases [OF inv, of E dec hex r])
      (use o i stuck in \<open>auto simp: pend_of_def [of "_\<lparr>cy_handler := _\<rparr>"] pend_of_def [of "_\<lparr>cy_handler := _, cy_stuck := _\<rparr>"]
        simp del: chain_step.simps\<close>)
qed

lemma foreign_stuck:
  assumes "n \<notin> fst ` set (cy_stuck s)"
  shows "pend_of (chain_step E dec hex s (StuckSends j)) = pend_of s \<and>
    hc_chainChans (cy_handler (chain_step E dec hex s (StuckSends j))) n = hc_chainChans (cy_handler s) n \<and>
    cy_calls (chain_step E dec hex s (StuckSends j)) = cy_calls s \<and>
    n \<notin> fst ` set (cy_stuck (chain_step E dec hex s (StuckSends j)))"
proof (cases "j < length (cy_stuck s)")
  case True
  then have "fst (cy_stuck s ! j) \<noteq> n" using assms nth_mem by fastforce
  then show ?thesis using assms set_remove_nth [of j "cy_stuck s"]
    by (auto simp: pend_of_def split: prod.split option.split)
qed (use assms in simp)

lemma foreign_step:
  assumes inv: "chain_inv s" and n: "owner i n s" and fresh: "i \<notin> set (started [e])"
    and e: "e \<noteq> TimerCall n" "e \<noteq> ReceiveCall n" "\<forall>ok. e \<noteq> SendCall n ok"
    and r: "\<forall>r. e = Incoming r \<longrightarrow> ID (Some (req_message r)) \<noteq> i \<or> pend_of s i = None"
    and stuck: "n \<notin> fst ` set (cy_stuck s)"
  shows "pend_of (chain_step E dec hex s e) i = pend_of s i \<and>
    hc_chainChans (cy_handler (chain_step E dec hex s e)) n = hc_chainChans (cy_handler s) n \<and>
    cy_calls (chain_step E dec hex s e) ! n = cy_calls s ! n \<and> n \<notin> fst ` set (cy_stuck (chain_step E dec hex s e))"
proof (cases e)
  case (StartCall up j cmd body k)
  then show ?thesis using n fresh stuck chain_invD(1) [OF inv]
    by (cases "hc_pendingChain (cy_handler s)")
      (auto simp: Let_def owner_def map_pending_def nth_append pend_of_def)
next
  case (SendCall j ok)
  have "cc_id (cy_calls s ! j) \<noteq> i" if "j < length (cy_calls s)" using n e that SendCall by (auto simp: owner_def)
  then show ?thesis using SendCall e stuck pend_of_end_call [OF inv]
    by (auto simp: call_updates pend_of_def update_call_calls(4))
next
  case (Incoming r)
  then show ?thesis using foreign_incoming [OF inv n _ stuck] r by (simp del: chain_step.simps)
next
  case (ReceiveCall j)
  then show ?thesis using e stuck pend_of_take_response [OF inv n] take_response_calls(4-6) by auto
next
  case (TimerCall j)
  have "cc_id (cy_calls s ! j) \<noteq> i" if "j < length (cy_calls s)" using n e that TimerCall by (auto simp: owner_def)
  then show ?thesis using TimerCall e stuck pend_of_end_call [OF inv] by (auto simp: call_updates waiting_def)
next
  case (StuckSends j)
  then show ?thesis using foreign_stuck [OF stuck] by (simp del: chain_step.simps)
qed
lemma open_step:
  assumes inv: "chain_inv s" and n: "owner i n s" and o: "open_call i n s" and fresh: "i \<notin> set (started [e])"
    and e: "e \<noteq> TimerCall n" "\<forall>r. e = Incoming r \<longrightarrow> ID (Some (req_message r)) \<noteq> i"
  shows "open_call i n (chain_step E dec hex s e)"
proof (cases "e = ReceiveCall n \<or> (\<exists>ok. e = SendCall n ok)")
  case True
  then have "chain_step E dec hex s e = s"
    using o by (auto simp: open_call_def take_response_def waiting_def)
  then show ?thesis using o by simp
next
  case False
  then show ?thesis
    using foreign_step [OF inv n fresh e(1), of E dec hex] e(2) o owner_step [OF n fresh, of E dec hex]
    by (simp add: open_call_def waiting_def owner_def)
qed

lemma answer_step:
  assumes inv: "chain_inv s" and n: "owner i n s" and o: "open_call i n s"
    and r: "ID (Some (req_message r)) = i" "answers_by_id E (req_message r)"
      "Command (Some (req_message r)) \<noteq> ''RegisterAccountAck''"
  shows "answered i n (req_message r) (chain_step E dec hex s (Incoming r))"
proof -
  have live: "cc_result (cy_calls s ! n) = None" "n < length (cy_calls s)" "cc_kind (cy_calls s ! n) = OneShot"
    using o n by (auto simp: open_call_def waiting_def owner_def)
  have "ch_cap (hc_chainChans (cy_handler s) n) = 1"
    using chain_invD(4) [OF inv live(2)] live by (simp add: call_ok_def chan_capacity_def)
  then show ?thesis
    using HandleRequest_answers [OF chain_invD(1) [OF inv] _ r(2,3), of n] o r(1)
    by (simp add: open_call_def answered_def send_chain_def chan_send_def pend_of_def waiting_def)
qed

lemma answered_step:
  assumes inv: "chain_inv s" and n: "owner i n s" and a: "answered i n m s" and fresh: "i \<notin> set (started [e])"
    and e: "e \<noteq> TimerCall n"
  shows "answered i n m (chain_step E dec hex s e)"
proof (cases "e = ReceiveCall n \<or> (\<exists>ok. e = SendCall n ok)")
  case True
  then show ?thesis
  proof (elim disjE exE)
    assume "e = ReceiveCall n"
    then show ?thesis using a n
      by (auto simp: answered_def waiting_def owner_def take_response_def Let_def update_call_def pend_of_def)
  next
    fix ok assume "e = SendCall n ok"
    then show ?thesis using a by (auto simp: answered_def waiting_def)
  qed
next
  case False
  then show ?thesis
    using foreign_step [OF inv n fresh e, of E dec hex] a owner_step [OF n fresh, of E dec hex]
    by (auto simp: answered_def waiting_def owner_def)
qed

lemma started_append [simp]: "started (es @ fs) = started es @ started fs"
  by (induction es rule: started.induct) auto

lemma open_run:
  assumes "chain_inv s" "owner i n s" "open_call i n s" "i \<notin> set (started es)"
    "\<forall>e \<in> set es. e \<noteq> TimerCall n \<and> (\<forall>r. e = Incoming r \<longrightarrow> ID (Some (req_message r)) \<noteq> i)"
  shows "owner i n (chain_run E dec hex es s) \<and> open_call i n (chain_run E dec hex es s)"
  using assms
proof (induction es arbitrary: s)
  case (Cons e es)
  have "i \<notin> set (started [e])" "i \<notin> set (started es)"
    using Cons.prems(4) started_append [of "[e]" es] by auto
  then show ?case
    using Cons.IH [of "chain_step E dec hex s e"] Cons.prems chain_step_inv owner_step open_step
    by (simp add: chain_run_def)
qed (simp add: chain_run_def)

lemma answered_run:
  assumes "chain_inv s" "owner i n s" "answered i n m s" "i \<notin> set (started es)" "\<forall>e \<in> set es. e \<noteq> TimerCall n"
  shows "owner i n (chain_run E dec hex es s) \<and> answered i n m (chain_run E dec hex es s)"
  using assms
proof (induction es arbitrary: s)
  case (Cons e es)
  have "i \<notin> set (started [e])" "i \<notin> set (started es)"
    using Cons.prems(4) started_append [of "[e]" es] by auto
  then show ?case
    using Cons.IH [of "chain_step E dec hex s e"] Cons.prems chain_step_inv owner_step answered_step
    by (simp add: chain_run_def)
qed (simp add: chain_run_def)
lemma ids_run: "map cc_id (cy_calls (chain_run E dec hex es s)) = map cc_id (cy_calls s) @ started es"
  by (induction es arbitrary: s)
    (simp_all add: chain_run_def step_ids, metis append_Cons append_Nil append_assoc started_append step_ids)

lemma start_open:
  assumes inv: "chain_inv s" and i: "i \<notin> set (map cc_id (cy_calls s))" and n: "n = length (cy_calls s)"
  shows "owner i n (chain_run E dec hex [StartCall True i cmd body OneShot, SendCall n True] s) \<and>
    open_call i n (chain_run E dec hex [StartCall True i cmd body OneShot, SendCall n True] s)"
  using chain_invD(1) [OF inv] chain_invD(6) [OF inv, of n] i n
  by (cases "hc_pendingChain (cy_handler s)")
    (auto simp: chain_run_def Let_def owner_def open_call_def waiting_def pend_of_def map_pending_def update_call_def
      make_chan_def nth_append less_Suc_eq nth_list_update)

lemma chain_run_append: "chain_run E dec hex (es @ fs) s = chain_run E dec hex fs (chain_run E dec hex es s)"
  by (simp add: chain_run_def)

lemma request_answered:
  assumes ids: "distinct (started (before @ [StartCall True i cmd body OneShot] @ es1 @ es2))"
    and n: "n = length (started before)"
    and es1: "\<forall>e \<in> set es1. e \<noteq> TimerCall n \<and> (\<forall>r. e = Incoming r \<longrightarrow> ID (Some (req_message r)) \<noteq> i)"
    and es2: "\<forall>e \<in> set es2. e \<noteq> TimerCall n"
    and r: "ID (Some (req_message r)) = i" "answers_by_id E (req_message r)"
      "Command (Some (req_message r)) \<noteq> ''RegisterAccountAck''"
  shows "cc_result (cy_calls (chain_run E dec hex (before @ [StartCall True i cmd body OneShot, SendCall n True] @
     es1 @ [Incoming r] @ es2 @ [ReceiveCall n]) init_chain_sys) ! n) = Some (Response (req_message r))"
proof -
  let ?s0 = "chain_run E dec hex before init_chain_sys"
  let ?s1 = "chain_run E dec hex [StartCall True i cmd body OneShot, SendCall n True] ?s0"
  let ?s2 = "chain_run E dec hex es1 ?s1"
  let ?s3 = "chain_run E dec hex [Incoming r] ?s2"
  let ?s4 = "chain_run E dec hex es2 ?s3"
  have inv0: "chain_inv ?s0" by (intro chain_run_inv init_chain_inv)
  have ids0: "map cc_id (cy_calls ?s0) = started before" by (simp add: ids_run init_chain_sys_def)
  have n0: "n = length (cy_calls ?s0)" using arg_cong [OF ids0, of length] n by simp
  have 1: "owner i n ?s1 \<and> open_call i n ?s1"
    by (rule start_open [OF inv0 _ n0]) (use ids ids0 in auto)
  have inv1: "chain_inv ?s1" by (rule chain_run_inv [OF inv0])
  have 2: "owner i n ?s2 \<and> open_call i n ?s2"
    by (rule open_run) (use inv1 1 ids es1 in auto)
  have inv2: "chain_inv ?s2" by (rule chain_run_inv [OF inv1])
  have 3: "owner i n ?s3 \<and> answered i n (req_message r) ?s3"
    using answer_step [OF inv2 _ _ r] owner_step [of i n ?s2 "Incoming r"] 2
    by (simp add: chain_run_def del: chain_step.simps)
  have inv3: "chain_inv ?s3" by (rule chain_run_inv [OF inv2])
  have 4: "owner i n ?s4 \<and> answered i n (req_message r) ?s4"
    by (rule answered_run) (use inv3 3 ids es2 in auto)
  then have "cc_result (cy_calls (chain_step E dec hex ?s4 (ReceiveCall n)) ! n) = Some (Response (req_message r))"
    by (auto simp: answered_def waiting_def owner_def take_response_def Let_def update_call_def)
  then show ?thesis by (simp add: chain_run_def del: chain_step.simps)
qed

subsection \<open>Properties\<close>

text \<open>C10. The answer of a request is its own: in every run of concurrent calls of \<^verbatim>\<open>sendChainRequest\<close>
  and of messages from the node, sane or not, a call that returns a message returns one that
  carries the id of its request; so where no two calls have the same id, no message answers two calls.\<close>

theorem chain_responses_match:
  "let s = chain_run E dec hex es init_chain_sys in
   (\<forall>k < length (cy_calls s). \<forall>m. cc_result (cy_calls s ! k) = Some (Response m) \<longrightarrow>
      ID (Some m) = cc_id (cy_calls s ! k)) \<and>
   (distinct (started es) \<longrightarrow> (\<forall>j < length (cy_calls s). \<forall>k < length (cy_calls s). \<forall>m.
      cc_result (cy_calls s ! j) = Some (Response m) \<and> cc_result (cy_calls s ! k) = Some (Response m) \<longrightarrow> j = k))"
proof -
  let ?s = "chain_run E dec hex es init_chain_sys"
  have inv: "chain_inv ?s" by (intro chain_run_inv init_chain_inv)
  have own: "ID (Some m) = cc_id (cy_calls ?s ! k)"
    if "k < length (cy_calls ?s)" "cc_result (cy_calls ?s ! k) = Some (Response m)" for k m
    using chain_invD(4) [OF inv that(1)] that(2) by (simp add: call_ok_def)
  have "map cc_id (cy_calls ?s) = started es" by (simp add: ids_run init_chain_sys_def)
  then have "j = k" if "distinct (started es)" "j < length (cy_calls ?s)" "k < length (cy_calls ?s)"
    "cc_id (cy_calls ?s ! j) = cc_id (cy_calls ?s ! k)" for j k
    using that by (metis length_map nth_map nth_eq_iff_index_eq)
  with own show ?thesis by (metis (no_types, lifting))
qed

text \<open>C11. A request is answered: take any run of the client in which no two calls have the same id.
  Once a call of \<^verbatim>\<open>sendChainRequest\<close> has sent its request, the first message that carries its id,
  if it is of a kind the handler hands to callers, is put into its channel without blocking the
  handler, and the call returns exactly that message, whatever else is sent, received or timed out
  in between, as long as the timer of this call does not fire.\<close>

theorem sendChainRequest_answered:
  assumes ids: "distinct (started (before @ [StartCall True i cmd body OneShot] @ es1 @ es2))"
    and n: "n = length (started before)"
    and es1: "\<forall>e \<in> set es1. e \<noteq> TimerCall n \<and> (\<forall>r. e = Incoming r \<longrightarrow> ID (Some (req_message r)) \<noteq> i)"
    and es2: "\<forall>e \<in> set es2. e \<noteq> TimerCall n"
    and r: "ID (Some (req_message r)) = i" "answers_by_id E (req_message r)"
      "Command (Some (req_message r)) \<noteq> ''RegisterAccountAck''"
  shows "cc_result (cy_calls (chain_run E dec hex (before @ [StartCall True i cmd body OneShot, SendCall n True] @
     es1 @ [Incoming r] @ es2 @ [ReceiveCall n]) init_chain_sys) ! n) = Some (Response (req_message r))"
  using assms by (rule request_answered)

text \<open>A client that knows no protobuf, and an answer to a request for a nonce.\<close>

definition bare_env :: client_env where
  "bare_env = \<lparr>e_eth = ref_eth, e_ext = ref_ext,
     e_receipt = \<lparr>mar = \<lambda>_. None, unm = \<lambda>_. None, mar_list = \<lambda>_. None, unm_list = \<lambda>_. None, ser_batch = \<lambda>_. None\<rparr>,
     u_InitConnection = \<lambda>_. None, u_AccountState = \<lambda>_. None, u_TxError = \<lambda>_. None, u_EventLogs = \<lambda>_. None,
     u_Stats = \<lambda>_. False, u_RpcResponse = \<lambda>_. None, u_RpcEvent = \<lambda>_. None\<rparr>"

definition nonce_answer :: Request where
  "nonce_answer = \<lparr>req_connection = 0, req_message = chain_request ''a'' ''Nonce'' [0, 0, 0, 0, 0, 0, 0, 7]\<rparr>"

lemma chain_request_fields [simp]:
  "ID (Some (chain_request i cmd body)) = i" "Command (Some (chain_request i cmd body)) = cmd"
  "Body (Some (chain_request i cmd body)) = body"
  by (simp_all add: chain_request_def NewMessage_def ID_def Command_def Body_def msg_header_def empty_Header_def)

theorem sendChainRequest_answered_witness:
  "cc_result (cy_calls (chain_run bare_env (\<lambda>_. None) hex_encode
     ([] @ [StartCall True ''a'' ''GetNonce'' [1] OneShot, SendCall 0 True] @
      [StartCall True ''b'' ''GetNonce'' [2] OneShot, SendCall 1 True] @ [Incoming nonce_answer] @
      [TimerCall 1] @ [ReceiveCall 0]) init_chain_sys) ! 0) = Some (Response (req_message nonce_answer))"
  by (rule sendChainRequest_answered)
    (auto simp: nonce_answer_def answers_by_id_def chain_responses_def)

theorem chain_responses_match_witness:
  "ID (Some (req_message nonce_answer)) =
     cc_id (cy_calls (chain_run bare_env (\<lambda>_. None) hex_encode
       [StartCall True ''a'' ''GetNonce'' [1] OneShot, SendCall 0 True, Incoming nonce_answer, ReceiveCall 0]
       init_chain_sys) ! 0)"
proof -
  let ?s = "chain_run bare_env (\<lambda>_. None) hex_encode
       [StartCall True ''a'' ''GetNonce'' [1] OneShot, SendCall 0 True, Incoming nonce_answer, ReceiveCall 0]
       init_chain_sys"
  have "length (cy_calls ?s) = 1 \<and> cc_result (cy_calls ?s ! 0) = Some (Response (req_message nonce_answer))"
    by (simp add: chain_run_def init_chain_sys_def NewClient_handler_def client_NewHandler_def Let_def map_pending_def
        update_call_def waiting_def take_response_def HandleRequest_def nonce_answer_def chain_responses_def
        handleChainResponse_def send_chain_def chan_send_def make_chan_def chan_capacity_def)
  then show ?thesis
    using chain_responses_match [of bare_env "\<lambda>_. None" hex_encode
      "[StartCall True ''a'' ''GetNonce'' [1] OneShot, SendCall 0 True, Incoming nonce_answer, ReceiveCall 0]"]
    by (simp only: Let_def)
qed

end
