(* ===== verification/Chain_Client.thy ===== *)
theory Chain_Client
  imports Chain_Requests Transaction
begin

text \<open>
  The methods of the TCP client that ask the chain directly, \<^verbatim>\<open>src/pkg/client-tcp/client_chain.go\<close>.
  Each builds the body of a request, calls \<^verbatim>\<open>sendChainRequest\<close> and reads the answer. That call is
  the argument \<open>ask\<close>, from a command and a body to an error or a message; \<open>ask_in_run\<close> is the one
  a run of \<^verbatim>\<open>Chain_Requests.thy\<close> gives. Protobuf is a parameter, \<open>None\<close> is its error.
\<close>

subsection \<open>Messages\<close>

record ReceiptResponse =
  gr_Error :: string
  gr_Receipt :: "Receipt option"

record LogsRequest =
  lr_BlockHash :: bytes
  lr_FromBlock :: string
  lr_ToBlock :: string
  lr_Addresses :: "bytes list"
  lr_Topics :: "bytes list option list"

record LogsResponse =
  ls_Error :: string
  ls_Logs :: "EventLog list"

record chain_lib =
  cl_env :: client_env
  cl_tx :: tx_lib
  mar_ReceiptRequest :: "bytes \<Rightarrow> bytes option"
  unm_ReceiptResponse :: "bytes \<Rightarrow> ReceiptResponse option"
  mar_LogsRequest :: "LogsRequest \<Rightarrow> bytes option"
  unm_LogsResponse :: "bytes \<Rightarrow> LogsResponse option"
  mar_Tx :: "pb_Transaction \<Rightarrow> bytes option"
  mar_TxDeviceKey :: "pb_Transaction \<times> bytes \<Rightarrow> bytes option"
  mar_RegisterRequest :: "bytes \<times> bytes \<Rightarrow> bytes option"
  unm_Registration :: "bytes \<Rightarrow> RegistrationResult option"
  Status_String :: "int \<Rightarrow> bytes"

datatype client_error =
    ErrChain chain_error | ErrTxErrorBody | ErrTransaction string | ErrBody | UnexpectedCommand string
  | InvalidLength nat | ServerError string | ErrMarshalRequest | EmptyRawTx | InvalidSignatureLen nat
  | ErrCallRejected string | ErrCallRejectedRaw bytes | ExecutionReverted bytes

type_synonym ask = "string \<Rightarrow> bytes \<Rightarrow> chain_error + pbMessage"

text \<open>The answer that is a transaction error.\<close>

definition tx_error_reply :: "chain_lib \<Rightarrow> pbMessage \<Rightarrow> client_error" where
  "tx_error_reply L m =
     (case u_TxError (cl_env L) (Body (Some m)) of
        None \<Rightarrow> ErrTxErrorBody
      | Some e \<Rightarrow> ErrTransaction (te_Description e))"

subsection \<open>Reading the chain\<close>

definition GetAccountState :: "chain_lib \<Rightarrow> ask \<Rightarrow> bytes \<Rightarrow> client_error + AccountState" where
  "GetAccountState L ask addr =
     (case ask ''GetAccountState'' addr of
        Inl e \<Rightarrow> Inl (ErrChain e)
      | Inr m \<Rightarrow>
          let cmd = Command (Some m) in
          if cmd = ''TransactionError'' then Inl (tx_error_reply L m)
          else if cmd = ''AccountState'' then
            (case as_Unmarshal (e_eth (cl_env L)) (u_AccountState (cl_env L)) (Body (Some m)) zero_AccountState of
               None \<Rightarrow> Inl ErrBody
             | Some a \<Rightarrow> Inr a)
          else Inl (UnexpectedCommand cmd))"

definition ChainGetChainId :: "ask \<Rightarrow> client_error + u64" where
  "ChainGetChainId ask =
     (case ask ''GetChainId'' [] of
        Inl e \<Rightarrow> Inl (ErrChain e)
      | Inr m \<Rightarrow> let resp = Body (Some m) in
          if length resp < 8 then Inl (InvalidLength (length resp)) else Inr (get_be64 resp))"

definition ChainGetNonce :: "ask \<Rightarrow> bytes \<Rightarrow> client_error + u64" where
  "ChainGetNonce ask addr =
     (case ask ''GetNonce'' addr of
        Inl e \<Rightarrow> Inl (ErrChain e)
      | Inr m \<Rightarrow> let resp = Body (Some m) in Inr (if length resp \<ge> 8 then get_be64 resp else 0))"

definition ChainGetBlockNumber :: "ask \<Rightarrow> client_error + u64" where
  "ChainGetBlockNumber ask =
     (case ask ''GetBlockNumber'' [] of
        Inl e \<Rightarrow> Inl (ErrChain e)
      | Inr m \<Rightarrow> let resp = Body (Some m) in
          if length resp < 8 then Inl (InvalidLength (length resp)) else Inr (get_be64 resp))"

definition ChainGetTransactionReceipt :: "chain_lib \<Rightarrow> ask \<Rightarrow> bytes \<Rightarrow> client_error + ReceiptResponse" where
  "ChainGetTransactionReceipt L ask txHash =
     (case mar_ReceiptRequest L txHash of
        None \<Rightarrow> Inl ErrMarshalRequest
      | Some body \<Rightarrow>
          (case ask ''GetTransactionReceipt'' body of
             Inl e \<Rightarrow> Inl (ErrChain e)
           | Inr m \<Rightarrow>
               (case unm_ReceiptResponse L (Body (Some m)) of
                  None \<Rightarrow> Inl ErrBody
                | Some resp \<Rightarrow> if gr_Error resp \<noteq> [] then Inl (ServerError (gr_Error resp)) else Inr resp)))"

definition logs_request :: "bytes \<Rightarrow> string \<Rightarrow> string \<Rightarrow> bytes list \<Rightarrow> bytes list list \<Rightarrow> LogsRequest" where
  "logs_request blockHash fromBlock toBlock addresses topics =
     \<lparr>lr_BlockHash = blockHash, lr_FromBlock = fromBlock, lr_ToBlock = toBlock, lr_Addresses = addresses,
      lr_Topics = map (\<lambda>ts. if length ts > 0 then Some ts else None) topics\<rparr>"

definition ChainGetLogs ::
  "chain_lib \<Rightarrow> ask \<Rightarrow> bytes \<Rightarrow> string \<Rightarrow> string \<Rightarrow> bytes list \<Rightarrow> bytes list list \<Rightarrow> client_error + LogsResponse" where
  "ChainGetLogs L ask blockHash fromBlock toBlock addresses topics =
     (case mar_LogsRequest L (logs_request blockHash fromBlock toBlock addresses topics) of
        None \<Rightarrow> Inl ErrMarshalRequest
      | Some body \<Rightarrow>
          (case ask ''GetLogs'' body of
             Inl e \<Rightarrow> Inl (ErrChain e)
           | Inr m \<Rightarrow>
               (case unm_LogsResponse L (Body (Some m)) of
                  None \<Rightarrow> Inl ErrBody
                | Some resp \<Rightarrow> if ls_Error resp \<noteq> [] then Inl (ServerError (ls_Error resp)) else Inr resp)))"

subsection \<open>Sending transactions\<close>

definition SendRawEthTransaction :: "chain_lib \<Rightarrow> ask \<Rightarrow> bytes \<Rightarrow> client_error + bytes" where
  "SendRawEthTransaction L ask rawTx =
     (if length rawTx = 0 then Inl EmptyRawTx
      else (case ask ''SendRawTransaction'' rawTx of
              Inl e \<Rightarrow> Inl (ErrChain e)
            | Inr m \<Rightarrow>
                let cmd = Command (Some m); body = Body (Some m) in
                if cmd = ''TransactionSuccess'' then
                  if length body \<noteq> 32 then Inl (InvalidLength (length body))
                  else Inr (BytesToHash32 (cl_tx L) body)
                else if cmd = ''TransactionError'' then Inl (tx_error_reply L m)
                else Inl (UnexpectedCommand cmd)))"

definition SendTransactionWithDeviceKeySync ::
  "chain_lib \<Rightarrow> ask \<Rightarrow> bytes \<Rightarrow> bytes \<Rightarrow> bytes \<Rightarrow> int \<Rightarrow> u64 \<Rightarrow> u64 \<Rightarrow> u64 \<Rightarrow> bytes \<Rightarrow> bytes list \<Rightarrow> bytes \<Rightarrow> bytes \<Rightarrow>
   u64 \<Rightarrow> bytes \<Rightarrow> u64 \<Rightarrow> client_error + bytes" where
  "SendTransactionWithDeviceKeySync L ask priv fromA toA amount maxGas maxGasPrice maxTimeUse data related
     lastKey newKey n rawKey chainId =
     (let t = SetSign (cl_tx L) priv (NewTransaction fromA toA amount maxGas maxGasPrice maxTimeUse data related
                lastKey newKey n chainId) in
      case mar_TxDeviceKey L (tproto t, rawKey) of
        None \<Rightarrow> Inl ErrMarshalRequest
      | Some body \<Rightarrow>
          (case ask ''SendTransactionWithDeviceKey'' body of
             Inl e \<Rightarrow> Inl (ErrChain e)
           | Inr m \<Rightarrow>
               let cmd = Command (Some m); resp = Body (Some m) in
               if cmd = ''TransactionError'' then Inl (tx_error_reply L m)
               else if cmd = ''TransactionSuccess'' \<and> length resp > 0 then Inr (BytesToHash32 (cl_tx L) resp)
               else Inl (UnexpectedCommand cmd)))"

subsection \<open>Registration\<close>

definition ChainGetRegistrationMessage :: "chain_lib \<Rightarrow> ask \<Rightarrow> bytes \<Rightarrow> client_error + bytes" where
  "ChainGetRegistrationMessage L ask addr =
     (case ask ''GetRegistrationMessage'' addr of
        Inl e \<Rightarrow> Inl (ErrChain e)
      | Inr m \<Rightarrow> let body = Body (Some m) in
          if length body \<noteq> 32 then Inl (InvalidLength (length body)) else Inr (BytesToHash32 (cl_tx L) body))"

definition ChainGetRegistrationStatus :: "chain_lib \<Rightarrow> ask \<Rightarrow> bytes \<Rightarrow> client_error + RegistrationResult" where
  "ChainGetRegistrationStatus L ask addr =
     (case ask ''GetRegistrationStatus'' addr of
        Inl e \<Rightarrow> Inl (ErrChain e)
      | Inr m \<Rightarrow> (case unm_Registration L (Body (Some m)) of None \<Rightarrow> Inl ErrBody | Some info \<Rightarrow> Inr info))"

text \<open>How \<^verbatim>\<open>ChainRegisterAccountWait\<close> begins: the checks, then the call with its request.\<close>

definition ChainRegisterAccountWait_start ::
  "chain_lib \<Rightarrow> bool \<Rightarrow> string \<Rightarrow> bytes \<Rightarrow> bytes \<Rightarrow> client_error + chain_event" where
  "ChainRegisterAccountWait_start L up i addr sig =
     (if \<not> up then Inl (ErrChain ParentNotAvailable)
      else if length sig \<noteq> 65 then Inl (InvalidSignatureLen (length sig))
      else (case mar_RegisterRequest L (addr, sig) of
              None \<Rightarrow> Inl ErrMarshalRequest
            | Some body \<Rightarrow> Inr (StartCall True i ''RegisterAccount'' body (Registration addr))))"

subsection \<open>Calls without a transaction\<close>

definition buildCallTransactionProto ::
  "chain_lib \<Rightarrow> bytes \<Rightarrow> bytes \<Rightarrow> bytes option \<Rightarrow> int option \<Rightarrow> u64 \<Rightarrow> client_error + Transaction \<times> bytes" where
  "buildCallTransactionProto L toA data fromA v chainId =
     (case (if length data > 0 then mar_CallData (cl_tx L) data else Some []) of
        None \<Rightarrow> Inl ErrMarshalRequest
      | Some bData \<Rightarrow>
          let amount = (case v of Some i \<Rightarrow> if i > 0 then i else 0 | None \<Rightarrow> 0);
              t = NewTransactionWithoutNonce (case fromA of None \<Rightarrow> zero_address | Some a \<Rightarrow> a) toA amount 50000000 0 0
                    bData [] zero_hash32 zero_hash32 (if chainId = 0 then 991 else chainId)
          in (case mar_Tx L (tproto t) of None \<Rightarrow> Inl ErrMarshalRequest | Some body \<Rightarrow> Inr (t, body)))"

definition parseReceiptResponse :: "chain_lib \<Rightarrow> pbMessage \<Rightarrow> client_error + Receipt" where
  "parseReceiptResponse L m =
     (if Command (Some m) = ''TransactionError'' then
        (case u_TxError (cl_env L) (Body (Some m)) of
           Some e \<Rightarrow> Inl (ErrCallRejected (te_Description e))
         | None \<Rightarrow> Inl (ErrCallRejectedRaw (Body (Some m))))
      else (case Receipt_Unmarshal (e_receipt (cl_env L)) (Body (Some m)) of
              None \<Rightarrow> Inl ErrBody
            | Some r \<Rightarrow> Inr r))"

definition config_chain_id :: "u64 option \<Rightarrow> u64" where
  "config_chain_id cfg = (case cfg of Some c \<Rightarrow> if c \<noteq> 0 then c else 991 | None \<Rightarrow> 991)"

definition ChainCall :: "chain_lib \<Rightarrow> ask \<Rightarrow> u64 option \<Rightarrow> bytes \<Rightarrow> bytes \<Rightarrow> bytes option \<Rightarrow> client_error + Receipt" where
  "ChainCall L ask cfg toA data fromA =
     (case buildCallTransactionProto L toA data fromA None (config_chain_id cfg) of
        Inl e \<Rightarrow> Inl e
      | Inr (_, body) \<Rightarrow>
          (case ask ''ReadTransaction'' body of
             Inl e \<Rightarrow> Inl (ErrChain e)
           | Inr m \<Rightarrow> parseReceiptResponse L m))"

definition ChainEstimateGas ::
  "chain_lib \<Rightarrow> ask \<Rightarrow> u64 option \<Rightarrow> bytes \<Rightarrow> bytes \<Rightarrow> bytes option \<Rightarrow> int option \<Rightarrow> client_error + u64" where
  "ChainEstimateGas L ask cfg toA data fromA v =
     (case buildCallTransactionProto L toA data fromA v (config_chain_id cfg) of
        Inl e \<Rightarrow> Inl e
      | Inr (_, body) \<Rightarrow>
          (case ask ''EstimateGas'' body of
             Inl e \<Rightarrow> Inl (ErrChain e)
           | Inr m \<Rightarrow>
               (case parseReceiptResponse L m of
                  Inl e \<Rightarrow> Inl e
                | Inr r \<Rightarrow>
                    if Status r \<noteq> RECEIPT_STATUS_RETURNED \<and> Status r \<noteq> RECEIPT_STATUS_HALTED
                    then Inl (ExecutionReverted (if Return r = [] then Status_String L (Status r) else Return r))
                    else Inr (GasUsed r))))"
subsection \<open>Requests in a run\<close>

text \<open>\<^verbatim>\<open>sendChainRequest\<close> as a run of the client gives it: call \<open>n\<close> starts with id \<open>i\<close> after the events
  \<open>before\<close>, and \<open>r\<close> is the first message with its id.\<close>

definition outcome :: "chain_result option \<Rightarrow> chain_error + pbMessage" where
  "outcome res = (case res of Some (Response m) \<Rightarrow> Inr m | Some (ChainFailed e) \<Rightarrow> Inl e | _ \<Rightarrow> Inl ErrTimeout)"

definition ask_in_run ::
  "client_env \<Rightarrow> (bytes \<Rightarrow> RegistrationResult option) \<Rightarrow> (bytes \<Rightarrow> string) \<Rightarrow> chain_event list \<Rightarrow> string \<Rightarrow>
   chain_event list \<Rightarrow> Request \<Rightarrow> chain_event list \<Rightarrow> ask" where
  "ask_in_run E dec hex before i es1 r es2 cmd body =
     (let n = length (started before) in
      outcome (cc_result (cy_calls (chain_run E dec hex (before @ [StartCall True i cmd body OneShot, SendCall n True] @
        es1 @ [Incoming r] @ es2 @ [ReceiveCall n]) init_chain_sys) ! n)))"

definition answered_run_of :: "client_env \<Rightarrow> chain_event list \<Rightarrow> string \<Rightarrow> chain_event list \<Rightarrow> Request \<Rightarrow> chain_event list \<Rightarrow> bool" where
  "answered_run_of E before i es1 r es2 \<longleftrightarrow>
     distinct (started before @ i # started es1 @ started es2) \<and>
     (\<forall>e \<in> set es1. e \<noteq> TimerCall (length (started before)) \<and>
        (\<forall>r. e = Incoming r \<longrightarrow> ID (Some (req_message r)) \<noteq> i)) \<and>
     (\<forall>e \<in> set es2. e \<noteq> TimerCall (length (started before))) \<and>
     ID (Some (req_message r)) = i \<and> answers_by_id E (req_message r) \<and>
     Command (Some (req_message r)) \<noteq> ''RegisterAccountAck''"

lemma ask_in_run_answer:
  "answered_run_of E before i es1 r es2 \<Longrightarrow> ask_in_run E dec hex before i es1 r es2 cmd body = Inr (req_message r)"
  unfolding ask_in_run_def Let_def outcome_def answered_run_of_def
  by (subst request_answered) auto

text \<open>C16. Fetching an account, end to end: in every run of the client in which the node answers the
  request with the marshalled account, before the timer of the call and after whatever other
  traffic, \<^verbatim>\<open>GetAccountState\<close> returns that account, with the absolute values of its balances. Where the
  node answers with a transaction error, it returns the error.\<close>

theorem GetAccountState_end_to_end:
  assumes run: "answered_run_of (cl_env L) before i es1 r es2" and eth: "eth_laws (e_eth (cl_env L))" and wf: "as_wf a"
    and mar: "as_Marshal marsh a = Some (Body (Some (req_message r)))"
    and inverse: "\<And>p b. marsh p = Some b \<Longrightarrow> u_AccountState (cl_env L) b = Some p"
  shows "(Command (Some (req_message r)) = ''AccountState'' \<longrightarrow>
      GetAccountState L (ask_in_run (cl_env L) dec hex before i es1 r es2) addr =
        Inr (a\<lparr>balance := \<bar>balance a\<bar>, pendingBalance := \<bar>pendingBalance a\<bar>, isDirty := False\<rparr>)) \<and>
    (Command (Some (req_message r)) = ''TransactionError'' \<longrightarrow>
      GetAccountState L (ask_in_run (cl_env L) dec hex before i es1 r es2) addr = Inl (tx_error_reply L (req_message r)))"
proof -
  have "u_AccountState (cl_env L) (Body (Some (req_message r))) = Some (as_Proto a)"
    using mar inverse by (simp add: as_Marshal_def)
  then show ?thesis
    using as_proto_roundtrip [OF eth wf] ask_in_run_answer [OF run]
    by (simp add: GetAccountState_def as_Unmarshal_def)
qed

text \<open>\<^verbatim>\<open>ChainGetNonce\<close> does not look at the command of the answer: in every run of the client in
  which the node answers, it returns the first eight bytes of the body as a number, or zero when
  the body is shorter, and never an error. In particular a transaction error, which the handler
  hands to the caller, is read as a nonce.\<close>

theorem ChainGetNonce_unchecked:
  assumes "answered_run_of E before i es1 r es2"
  shows "ChainGetNonce (ask_in_run E dec hex before i es1 r es2) addr =
    Inr (let body = Body (Some (req_message r)) in if length body \<ge> 8 then get_be64 body else 0)"
  using ask_in_run_answer [OF assms] by (simp add: ChainGetNonce_def Let_def)

text \<open>The gas of a simulated call: a receipt that the node built with \<^verbatim>\<open>NewReceipt\<close> gives its gas exactly
  when the execution returned; a halted execution is an error, because \<^verbatim>\<open>NewReceipt\<close> stores it as a
  transaction error, so the second status that \<^verbatim>\<open>ChainEstimateGas\<close> accepts does not occur.\<close>

lemma ChainEstimateGas_NewReceipt:
  assumes "buildCallTransactionProto L toA data fromA v (config_chain_id cfg) = Inr (t, body)"
    and "ask ''EstimateGas'' body = Inr m" "Command (Some m) = ''Receipt''"
    and "Receipt_Unmarshal (e_receipt (cl_env L)) (Body (Some m)) =
      Some (NewReceipt U txHash f g amount status ret exc gasFee gasUsed logs idx)"
  shows "(\<exists>gas. ChainEstimateGas L ask cfg toA data fromA v = Inr gas) \<longleftrightarrow> status = RECEIPT_STATUS_RETURNED"
    and "status = RECEIPT_STATUS_RETURNED \<Longrightarrow> ChainEstimateGas L ask cfg toA data fromA v = Inr gasUsed"
  using assms
  by (auto simp: ChainEstimateGas_def parseReceiptResponse_def NewReceipt_def save_result_def zero_Receipt_def Let_def
      RECEIPT_STATUS_RETURNED_def RECEIPT_STATUS_HALTED_def RECEIPT_STATUS_TRANSACTION_ERROR_def split: prod.splits if_splits)

text \<open>An account on the wire for the witnesses, and an error that is read as a nonce.\<close>

definition wire_account :: AccountState where
  "wire_account = NewAccountState (replicate 20 1)"

definition wire_lib :: chain_lib where
  "wire_lib = \<lparr>cl_env = bare_env\<lparr>u_AccountState := \<lambda>b. if b = [9] then Some (as_Proto wire_account) else None,
       u_TxError := \<lambda>b. Some \<lparr>te_Hash = [], te_Code = 26, te_Description = ''invalid nonce'', te_Output = []\<rparr>\<rparr>,
     cl_tx = undefined, mar_ReceiptRequest = \<lambda>_. None, unm_ReceiptResponse = \<lambda>_. None, mar_LogsRequest = \<lambda>_. None,
     unm_LogsResponse = \<lambda>_. None, mar_Tx = \<lambda>_. None, mar_TxDeviceKey = \<lambda>_. None, mar_RegisterRequest = \<lambda>_. None,
     unm_Registration = \<lambda>_. None, Status_String = \<lambda>_. []\<rparr>"

definition account_answer :: Request where
  "account_answer = \<lparr>req_connection = 0, req_message = chain_request ''a'' ''AccountState'' [9]\<rparr>"

definition error_answer :: Request where
  "error_answer = \<lparr>req_connection = 0, req_message = chain_request ''a'' ''TransactionError'' [8, 26, 18, 13, 105, 110, 118, 97]\<rparr>"

lemma wire_account_wf: "as_wf wire_account"
  by (simp add: wire_account_def as_wf_def NewAccountState_def zero_hash32_def)

theorem GetAccountState_end_to_end_witness:
  "GetAccountState wire_lib (ask_in_run (cl_env wire_lib) (\<lambda>_. None) hex_encode [] ''a'' [] account_answer [TimerCall 7])
     (replicate 20 1) = Inr wire_account"
proof -
  let ?marsh = "\<lambda>p. if p = as_Proto wire_account then Some [9] else None"
  have run: "answered_run_of (cl_env wire_lib) [] ''a'' [] account_answer [TimerCall 7]"
    by (simp add: account_answer_def answered_run_of_def answers_by_id_def)
  have eth: "eth_laws (e_eth (cl_env wire_lib))" using ref_eth_laws by (simp add: wire_lib_def bare_env_def)
  have mar: "as_Marshal ?marsh wire_account = Some (Body (Some (req_message account_answer)))"
    by (simp add: as_Marshal_def account_answer_def)
  have inverse: "u_AccountState (cl_env wire_lib) b = Some p" if "?marsh p = Some b" for p b
    using that by (auto simp: wire_lib_def split: if_splits)
  have abs: "wire_account\<lparr>balance := \<bar>balance wire_account\<bar>, pendingBalance := \<bar>pendingBalance wire_account\<bar>,
      isDirty := False\<rparr> = wire_account"
    by (simp add: wire_account_def NewAccountState_def)
  show ?thesis
    using GetAccountState_end_to_end [OF run eth wire_account_wf mar inverse] abs by (simp add: account_answer_def)
qed

lemma ChainGetNonce_unchecked_example:
  "ChainGetNonce (ask_in_run (cl_env wire_lib) (\<lambda>_. None) hex_encode [] ''a'' [] error_answer []) [1] =
     Inr 0x081A120D696E7661"
  using ChainGetNonce_unchecked [of "cl_env wire_lib" "[]" "''a''" "[]" error_answer "[]" "\<lambda>_. None" hex_encode "[1]"]
  by (simp add: error_answer_def answered_run_of_def answers_by_id_def wire_lib_def bare_env_def chain_responses_def
      get_be64_def be_nat_def)

end
