(* ===== verification/Pending_Calls.thy ===== *)
theory Pending_Calls
  imports Go_Prelude
begin

text \<open>
  The contract between a call that waits for the answer with its id and the handler that processes the
  messages of a connection, as a locale. A call is open, with an id and a channel, until the handler processes
  a message that carries an answer with this id; from then on its channel holds that answer. What the caller
  relies on is proved once here; the handlers of the program are interpretations.
\<close>

locale pending_calls =
  fixes step :: "'m \<Rightarrow> 's \<Rightarrow> 's"
    and carried :: "'m \<Rightarrow> 'r option"
    and answer_id :: "'r \<Rightarrow> 'i"
    and opened :: "'i \<Rightarrow> 'c \<Rightarrow> 's \<Rightarrow> bool"
    and answered :: "'r \<Rightarrow> 'c \<Rightarrow> 's \<Rightarrow> bool"
  assumes other_message: "opened i c s \<Longrightarrow> \<forall>r. carried m = Some r \<longrightarrow> answer_id r \<noteq> i \<Longrightarrow> opened i c (step m s)"
    and own_message: "opened i c s \<Longrightarrow> carried m = Some r \<Longrightarrow> answer_id r = i \<Longrightarrow> answered r c (step m s)"
    and answer_stays: "answered r c s \<Longrightarrow> answered r c (step m s)"
begin

lemma opened_fold:
  "opened i c s \<Longrightarrow> \<forall>m \<in> set ms. \<forall>r. carried m = Some r \<longrightarrow> answer_id r \<noteq> i \<Longrightarrow> opened i c (fold step ms s)"
  by (induction ms arbitrary: s) (auto intro: other_message)

lemma answered_fold: "answered r c s \<Longrightarrow> answered r c (fold step ms s)"
  by (induction ms arbitrary: s) (auto intro: answer_stays)

text \<open>The first answer with the id of the call is the one its channel holds, whatever comes before and after.\<close>

lemma first_answer:
  assumes "opened i c s" "\<forall>m \<in> set before. \<forall>r. carried m = Some r \<longrightarrow> answer_id r \<noteq> i"
    "carried m = Some r" "answer_id r = i"
  shows "answered r c (fold step (before @ m # after) s)"
  using answered_fold [OF own_message [OF opened_fold [OF assms(1,2)] assms(3,4)]] by simp

end

end
