(* ===== verification/Rpc_Client.thy ===== *)
theory Rpc_Client
  imports Chain_Client Pending_Calls
begin

text \<open>
  The RPC methods of the TCP client, \<^verbatim>\<open>src/pkg/client-tcp/client.go\<close>: \<^verbatim>\<open>sendRpcRequest\<close> with the map of
  pending requests it shares with the handler, and the methods that build a request and read its response.
  Protobuf is a parameter, \<open>None\<close> is its error. The methods that decode JSON are not in this theory.
\<close>

subsection \<open>One request\<close>

datatype rpc_error =
    RpcUnavailable | RpcSendFailed string | RpcTimeout | RpcServerError int string
  | RpcServerErrorData int string string | RpcInvalidHex | RpcMarshal | RpcParse

definition rpc_request :: "bytes \<Rightarrow> string \<Rightarrow> string \<Rightarrow> bytes \<Rightarrow> pbMessage" where
  "rpc_request wallet reqID cmd body =
     NewMessage (Some \<lparr>m_Header = Some (empty_Header\<lparr>h_Command := cmd, h_ToAddress := wallet, h_ID := reqID\<rparr>),
       m_Body = body\<rparr>)"

text \<open>
  \<open>con\<close> is the parent connection if it is there and connected, \<open>c\<close> the name of the response channel,
  \<open>others\<close> what the other goroutines (the handler among them) do to the shared state before the select
  of this call is served, and \<open>timer\<close> whether the select takes the timer although a response is there.
\<close>

definition sendRpcRequest ::
  "bytes \<Rightarrow> send_conn option \<Rightarrow> nat \<Rightarrow> string \<Rightarrow> (client_handler \<Rightarrow> client_handler) \<Rightarrow> bool \<Rightarrow> string \<Rightarrow> bytes \<Rightarrow>
   client_handler \<Rightarrow> (rpc_error + RpcResponse) \<times> pbMessage list \<times> client_handler" where
  "sendRpcRequest wallet con c reqID others timer cmd body h0 =
     (case con of
        None \<Rightarrow> (Inl RpcUnavailable, [], h0)
      | Some p \<Rightarrow>
          let forget = (\<lambda>h. h\<lparr>hc_pendingRpc := map_option (\<lambda>m. m(reqID := None)) (hc_pendingRpc h)\<rparr>);
              h1 = h0\<lparr>hc_pendingRpc := map_option (\<lambda>m. m(reqID \<mapsto> c)) (hc_pendingRpc h0),
                      hc_rpcChans := (hc_rpcChans h0)(c := make_chan 1)\<rparr>;
              msg = rpc_request wallet reqID cmd body
          in (case sc_Send p msg of
                Some e \<Rightarrow> (Inl (RpcSendFailed e), [msg], forget h1)
              | None \<Rightarrow>
                  let h2 = others h1; ch = hc_rpcChans h2 c in
                  (case ch_buf ch of
                     resp # rs \<Rightarrow>
                       if timer then (Inl RpcTimeout, [msg], forget h2)
                       else (Inr resp, [msg], h2\<lparr>hc_rpcChans := (hc_rpcChans h2)(c := ch\<lparr>ch_buf := rs\<rparr>)\<rparr>)
                   | [] \<Rightarrow> (Inl RpcTimeout, [msg], forget h2))))"

subsection \<open>Methods\<close>

definition fromHexChar :: "char \<Rightarrow> nat option" where
  "fromHexChar ch =
     (let n = of_char ch :: nat in
      if 48 \<le> n \<and> n \<le> 57 then Some (n - 48)
      else if 97 \<le> n \<and> n \<le> 102 then Some (n - 87)
      else if 65 \<le> n \<and> n \<le> 70 then Some (n - 55) else None)"

fun hex_DecodeString :: "string \<Rightarrow> bytes option" where
  "hex_DecodeString [] = Some []"
| "hex_DecodeString [a] = None"
| "hex_DecodeString (a # b # s) =
     (case (fromHexChar a, fromHexChar b, hex_DecodeString s) of
        (Some x, Some y, Some r) \<Rightarrow> Some (word_of_nat (16 * x + y) # r)
      | _ \<Rightarrow> None)"

definition TrimPrefix0x :: "string \<Rightarrow> string" where
  "TrimPrefix0x s = (if take 2 s = ''0x'' then drop 2 s else s)"

record 'r rpc_lib =
  rl_env :: client_env
  mar_SendTxRequest :: "bytes \<Rightarrow> bytes option"
  unm_HashParam :: "bytes \<Rightarrow> bytes option"
  mar_HashParam :: "bytes \<Rightarrow> bytes option"
  mar_EthCallRequest :: "bytes \<times> bytes \<Rightarrow> bytes option"
  unm_RpcReceipt :: "bytes \<Rightarrow> 'r option"
  mar_SubscribeRequest :: "bytes list \<times> bytes list \<Rightarrow> bytes option"
  mar_UnsubscribeRequest :: "string \<Rightarrow> bytes option"

type_synonym rpc_ask = "string \<Rightarrow> bytes \<Rightarrow> rpc_error + RpcResponse"

text \<open>The check of the error of a response, which reports its data or does not.\<close>

definition rpc_result :: "bool \<Rightarrow> rpc_error + RpcResponse \<Rightarrow> rpc_error + bytes" where
  "rpc_result withData r =
     (case r of
        Inl e \<Rightarrow> Inl e
      | Inr resp \<Rightarrow>
          (case rr_Error resp of
             Some (code, message, data) \<Rightarrow>
               Inl (if withData then RpcServerErrorData code message data else RpcServerError code message)
           | None \<Rightarrow> Inr (rr_Result resp)))"

definition tx_hash_Hex :: "'r rpc_lib \<Rightarrow> bytes \<Rightarrow> string" where
  "tx_hash_Hex L b = Hash_Hex (e_eth (rl_env L)) (BytesToHash (e_ext (rl_env L)) b)"

definition RpcSendRawTransaction :: "'r rpc_lib \<Rightarrow> rpc_ask \<Rightarrow> string \<Rightarrow> rpc_error + string" where
  "RpcSendRawTransaction L ask rawTxHex =
     (case hex_DecodeString (TrimPrefix0x rawTxHex) of
        None \<Rightarrow> Inl RpcInvalidHex
      | Some rawBytes \<Rightarrow>
          (case mar_SendTxRequest L rawBytes of
             None \<Rightarrow> Inl RpcMarshal
           | Some body \<Rightarrow>
               (case rpc_result True (ask ''eth_sendRawTransaction'' body) of
                  Inl e \<Rightarrow> Inl e
                | Inr res \<Rightarrow>
                    (case unm_HashParam L res of
                       None \<Rightarrow> Inl RpcParse
                     | Some hash \<Rightarrow> Inr (tx_hash_Hex L hash)))))"

definition RpcSendRawTransactionWithReceipt ::
  "'r rpc_lib \<Rightarrow> rpc_ask \<Rightarrow> string \<Rightarrow> rpc_error + (string \<times> bytes option)" where
  "RpcSendRawTransactionWithReceipt L ask rawTxHex =
     (case hex_DecodeString (TrimPrefix0x rawTxHex) of
        None \<Rightarrow> Inl RpcInvalidHex
      | Some rawBytes \<Rightarrow>
          (case mar_SendTxRequest L rawBytes of
             None \<Rightarrow> Inl RpcMarshal
           | Some body \<Rightarrow>
               (case rpc_result True (ask ''eth_sendRawTransaction'' body) of
                  Inl e \<Rightarrow> Inl e
                | Inr res \<Rightarrow>
                    let fallback = (case unm_HashParam L res of
                          None \<Rightarrow> Inl RpcParse | Some hash \<Rightarrow> Inr (tx_hash_Hex L hash, None))
                    in (case unm (e_receipt (rl_env L)) res of
                          Some rcpt \<Rightarrow>
                            if length (TransactionHash_pb rcpt) > 0
                            then Inr (tx_hash_Hex L (TransactionHash_pb rcpt), Some res) else fallback
                        | None \<Rightarrow> fallback))))"

definition RpcSendRawTransactionReceipt ::
  "'r rpc_lib \<Rightarrow> rpc_ask \<Rightarrow> string \<Rightarrow> rpc_error + (string \<times> Receipt option)" where
  "RpcSendRawTransactionReceipt L ask rawTxHex =
     (case RpcSendRawTransactionWithReceipt L ask rawTxHex of
        Inl e \<Rightarrow> Inl e
      | Inr (txHash, rcptBytes) \<Rightarrow>
          let b = (case rcptBytes of None \<Rightarrow> [] | Some b \<Rightarrow> b) in
          if length b > 0 then
            (case unm (e_receipt (rl_env L)) b of
               Some rcpt \<Rightarrow> Inr (txHash, if length (TransactionHash_pb rcpt) > 0 then Some rcpt else None)
             | None \<Rightarrow> Inr (txHash, None))
          else Inr (txHash, None))"

definition RpcEthCall :: "'r rpc_lib \<Rightarrow> rpc_ask \<Rightarrow> bytes \<Rightarrow> bytes \<Rightarrow> rpc_error + bytes" where
  "RpcEthCall L ask to dat =
     (case mar_EthCallRequest L (to, dat) of
        None \<Rightarrow> Inl RpcMarshal
      | Some body \<Rightarrow> rpc_result True (ask ''eth_call'' body))"

definition RpcGetPendingNonce :: "ask \<Rightarrow> bytes \<Rightarrow> client_error + u64" where
  "RpcGetPendingNonce ask addr = ChainGetNonce ask addr"

text \<open>A receipt that is not there yet is \<open>Inr None\<close>. The decoded receipt is kept as the parameter gives it.\<close>

definition RpcGetTransactionReceipt :: "'r rpc_lib \<Rightarrow> rpc_ask \<Rightarrow> string \<Rightarrow> rpc_error + 'r option" where
  "RpcGetTransactionReceipt L ask txHash =
     (case mar_HashParam L (HexToHash (e_eth (rl_env L)) txHash) of
        None \<Rightarrow> Inl RpcMarshal
      | Some body \<Rightarrow>
          (case rpc_result False (ask ''eth_getTransactionReceipt'' body) of
             Inl e \<Rightarrow> Inl e
           | Inr res \<Rightarrow>
               if length res = 0 then Inr None
               else (case unm_RpcReceipt L res of None \<Rightarrow> Inl RpcParse | Some r \<Rightarrow> Inr (Some r))))"

definition RpcCustomCall :: "rpc_ask \<Rightarrow> string \<Rightarrow> bytes \<Rightarrow> rpc_error + bytes" where
  "RpcCustomCall ask method params = rpc_result False (ask method params)"

text \<open>The methods that change the callbacks of the handler; their request runs on the same state.\<close>

type_synonym rpc_run = "string \<Rightarrow> bytes \<Rightarrow> client_handler \<Rightarrow> (rpc_error + RpcResponse) \<times> pbMessage list \<times> client_handler"

definition RpcSubscribe ::
  "'r rpc_lib \<Rightarrow> rpc_run \<Rightarrow> string list \<Rightarrow> string list \<Rightarrow> nat \<Rightarrow> client_handler \<Rightarrow>
   (rpc_error + string) \<times> pbMessage list \<times> client_handler" where
  "RpcSubscribe L run contractAddrs topics callback h =
     (case mar_SubscribeRequest L (map (HexToAddress (e_eth (rl_env L))) contractAddrs,
                                   map (HexToHash (e_eth (rl_env L))) topics) of
        None \<Rightarrow> (Inl RpcMarshal, [], h)
      | Some body \<Rightarrow>
          (case run ''eth_subscribe'' body h of (r, sent, h') \<Rightarrow>
             (case rpc_result False r of
                Inl e \<Rightarrow> (Inl e, sent, h')
              | Inr res \<Rightarrow>
                  let subID = map (\<lambda>b. char_of (unat b)) res
                  in (Inr subID, sent, RegisterEventCallback subID callback h'))))"

definition RpcUnsubscribe ::
  "'r rpc_lib \<Rightarrow> rpc_run \<Rightarrow> string \<Rightarrow> client_handler \<Rightarrow> (rpc_error + bool) \<times> pbMessage list \<times> client_handler" where
  "RpcUnsubscribe L run subID h =
     (case mar_UnsubscribeRequest L subID of
        None \<Rightarrow> (Inl RpcMarshal, [], h)
      | Some body \<Rightarrow>
          (case run ''eth_unsubscribe'' body h of (r, sent, h') \<Rightarrow>
             (case rpc_result False r of
                Inl e \<Rightarrow> (Inl e, sent, h')
              | Inr res \<Rightarrow>
                  (Inr (length res > 0 \<and> hd res = 1), sent, RemoveEventCallback subID h'))))"
subsection \<open>A response reaches the call that waits for its id\<close>

lemma handlers_rpc:
  "hc_pendingRpc (snd (handleInitConnection E r h)) = hc_pendingRpc h \<and> hc_rpcChans (snd (handleInitConnection E r h)) = hc_rpcChans h"
  "hc_pendingRpc (snd (handleAccountState E m h)) = hc_pendingRpc h \<and> hc_rpcChans (snd (handleAccountState E m h)) = hc_rpcChans h"
  "hc_pendingRpc (snd (handleTransactionError E m h)) = hc_pendingRpc h \<and> hc_rpcChans (snd (handleTransactionError E m h)) = hc_rpcChans h"
  "hc_pendingRpc (snd (handleReceipt E m h)) = hc_pendingRpc h \<and> hc_rpcChans (snd (handleReceipt E m h)) = hc_rpcChans h"
  "hc_pendingRpc (snd (handleDeviceKey m h)) = hc_pendingRpc h \<and> hc_rpcChans (snd (handleDeviceKey m h)) = hc_rpcChans h"
  "hc_pendingRpc (snd (handleEventLogs E m h)) = hc_pendingRpc h \<and> hc_rpcChans (snd (handleEventLogs E m h)) = hc_rpcChans h"
  "hc_pendingRpc (snd (handleStats E m h)) = hc_pendingRpc h \<and> hc_rpcChans (snd (handleStats E m h)) = hc_rpcChans h"
  "hc_pendingRpc (snd (handleRpcEvent E m h)) = hc_pendingRpc h \<and> hc_rpcChans (snd (handleRpcEvent E m h)) = hc_rpcChans h"
  "hc_pendingRpc (snd (handleChainResponse m h)) = hc_pendingRpc h \<and> hc_rpcChans (snd (handleChainResponse m h)) = hc_rpcChans h"
  "hc_pendingRpc (snd (handleBlockData m h)) = hc_pendingRpc h \<and> hc_rpcChans (snd (handleBlockData m h)) = hc_rpcChans h"
  by (simp_all add: handleInitConnection_def handleAccountState_def handleTransactionError_def handleReceipt_def
      handleDeviceKey_def handleEventLogs_def handleStats_def handleRpcEvent_def handleChainResponse_def handleBlockData_def
      send_chain_def dispatch_by_id_def Let_def split: option.split prod.split)

lemma HandleRequest_rpc:
  assumes "Command (Some (req_message r)) \<noteq> ''RpcResponse''"
  shows "hc_pendingRpc (snd (HandleRequest E r h)) = hc_pendingRpc h" "hc_rpcChans (snd (HandleRequest E r h)) = hc_rpcChans h"
  using assms by (simp_all add: HandleRequest_def Let_def handlers_rpc)

lemma HandleRequest_RpcResponse:
  "Command (Some (req_message r)) = ''RpcResponse'' \<Longrightarrow> HandleRequest E r h = handleRpcResponse E (req_message r) h"
  by (simp add: HandleRequest_def Let_def)

text \<open>The response a message carries.\<close>

definition carries :: "client_env \<Rightarrow> Request \<Rightarrow> RpcResponse option" where
  "carries E r = (if Command (Some (req_message r)) = ''RpcResponse'' then u_RpcResponse E (Body (Some (req_message r))) else None)"

lemma carriesD:
  "carries E r = Some resp \<Longrightarrow> Command (Some (req_message r)) = ''RpcResponse'' \<and> u_RpcResponse E (Body (Some (req_message r))) = Some resp"
  by (simp add: carries_def split: if_splits)

definition expects :: "string \<Rightarrow> nat \<Rightarrow> client_handler \<Rightarrow> bool" where
  "expects i c h \<longleftrightarrow> (\<exists>pend. hc_pendingRpc h = Some pend \<and> pend i = Some c \<and> (\<forall>j. pend j = Some c \<longrightarrow> j = i)) \<and>
     hc_rpcChans h c = make_chan 1"

definition holds_response :: "RpcResponse \<Rightarrow> nat \<Rightarrow> client_handler \<Rightarrow> bool" where
  "holds_response resp c h \<longleftrightarrow> (\<exists>pend. hc_pendingRpc h = Some pend \<and> c \<notin> ran pend) \<and> ch_buf (hc_rpcChans h c) = [resp]"

lemma expectsI:
  "hc_pendingRpc h = Some pend \<Longrightarrow> pend i = Some c \<Longrightarrow> (\<And>j. pend j = Some c \<Longrightarrow> j = i) \<Longrightarrow> hc_rpcChans h c = make_chan 1 \<Longrightarrow>
   expects i c h"
  unfolding expects_def by blast

lemma holdsI:
  "hc_pendingRpc h = Some pend \<Longrightarrow> c \<notin> ran pend \<Longrightarrow> ch_buf (hc_rpcChans h c) = [resp] \<Longrightarrow> holds_response resp c h"
  by (auto simp: holds_response_def)

text \<open>What handling a response does to the pending requests.\<close>

lemma handleRpcResponse_cases:
  assumes "hc_pendingRpc h = Some pend"
  obtains (same) "snd (handleRpcResponse E m h) = h"
      "\<And>resp. u_RpcResponse E (Body (Some m)) = Some resp \<Longrightarrow> pend (rr_Id resp) = None"
  | (hit) resp d where "u_RpcResponse E (Body (Some m)) = Some resp" "pend (rr_Id resp) = Some d"
      "hc_pendingRpc (snd (handleRpcResponse E m h)) = Some (pend(rr_Id resp := None))"
      "hc_rpcChans (snd (handleRpcResponse E m h)) = (case chan_send resp (hc_rpcChans h d) of
         None \<Rightarrow> hc_rpcChans h | Some ch \<Rightarrow> (hc_rpcChans h)(d := ch))"
proof (cases "\<exists>resp d. u_RpcResponse E (Body (Some m)) = Some resp \<and> pend (rr_Id resp) = Some d")
  case True
  then obtain resp d where rd: "u_RpcResponse E (Body (Some m)) = Some resp" "pend (rr_Id resp) = Some d" by blast
  show thesis
    by (rule hit [OF rd]) (use assms rd in \<open>simp_all add: handleRpcResponse_def Let_def split: option.split\<close>)
next
  case False
  then show thesis
    using assms by (intro same) (auto simp: handleRpcResponse_def split: option.split)
qed

lemma expects_step:
  assumes "expects i c h" "\<forall>resp. carries E r = Some resp \<longrightarrow> rr_Id resp \<noteq> i"
  shows "expects i c (snd (HandleRequest E r h))"
proof (cases "Command (Some (req_message r)) = ''RpcResponse''")
  case True
  obtain pend where p: "hc_pendingRpc h = Some pend" "pend i = Some c" "\<And>j. pend j = Some c \<Longrightarrow> j = i"
    "hc_rpcChans h c = make_chan 1"
    using assms(1) unfolding expects_def by blast
  have n: "rr_Id resp \<noteq> i" if "u_RpcResponse E (Body (Some (req_message r))) = Some resp" for resp
    using assms(2) True that by (simp add: carries_def)
  have "expects i c (snd (handleRpcResponse E (req_message r) h))"
    using p(1)
  proof (cases rule: handleRpcResponse_cases [where E = E and m = "req_message r"])
    case same
    then show ?thesis using assms(1) by simp
  next
    case (hit resp d)
    have d: "d \<noteq> c" using hit(2) p(3) n [OF hit(1)] by blast
    show ?thesis
    proof (rule expectsI [OF hit(3)])
      show "(pend(rr_Id resp := None)) i = Some c" using p(2) n [OF hit(1)] by simp
      show "j = i" if "(pend(rr_Id resp := None)) j = Some c" for j
        using that p(3) [of j] by (simp split: if_splits)
      show "hc_rpcChans (snd (handleRpcResponse E (req_message r) h)) c = make_chan 1"
        using p(4) d hit(4) by (simp split: option.split)
    qed
  qed
  then show ?thesis by (simp add: HandleRequest_RpcResponse [OF True])
next
  case False
  then show ?thesis using assms(1) by (simp add: expects_def HandleRequest_rpc)
qed

lemma holds_step:
  assumes "holds_response resp c h"
  shows "holds_response resp c (snd (HandleRequest E r h))"
proof (cases "Command (Some (req_message r)) = ''RpcResponse''")
  case True
  obtain pend where p: "hc_pendingRpc h = Some pend" "c \<notin> ran pend" "ch_buf (hc_rpcChans h c) = [resp]"
    using assms by (auto simp: holds_response_def)
  have "holds_response resp c (snd (handleRpcResponse E (req_message r) h))"
    using p(1)
  proof (cases rule: handleRpcResponse_cases [where E = E and m = "req_message r"])
    case same
    then show ?thesis using assms by simp
  next
    case (hit resp' d)
    have d: "d \<noteq> c" using hit(2) p(2) by (auto simp: ran_def)
    show ?thesis
      using p(2,3) d hit(4) by (intro holdsI [OF hit(3)]) (auto simp: ran_def split: if_splits option.splits)
  qed
  then show ?thesis by (simp add: HandleRequest_RpcResponse [OF True])
next
  case False
  then show ?thesis using assms by (simp add: holds_response_def HandleRequest_rpc)
qed

lemma expects_answer:
  assumes "expects i c h" "carries E r = Some resp" "rr_Id resp = i"
  shows "holds_response resp c (snd (HandleRequest E r h))"
proof -
  obtain pend where p: "hc_pendingRpc h = Some pend" "pend i = Some c" "\<And>j. pend j = Some c \<Longrightarrow> j = i"
    "hc_rpcChans h c = make_chan 1"
    using assms(1) unfolding expects_def by blast
  note r = carriesD [OF assms(2)]
  have "holds_response resp c (snd (handleRpcResponse E (req_message r) h))"
    using p(1)
  proof (cases rule: handleRpcResponse_cases [where E = E and m = "req_message r"])
    case same
    then show ?thesis using r p(2) assms(3) by simp
  next
    case (hit resp' d)
    have e: "resp' = resp" "d = c" using hit(1,2) r p(2) assms(3) by simp_all
    have "(pend(rr_Id resp' := None)) j \<noteq> Some c" for j
      using p(3) [of j] assms(3) e(1) by (cases "j = i") auto
    then have "c \<notin> ran (pend(rr_Id resp' := None))" unfolding ran_def by blast
    then show ?thesis
      using hit(4) p(4) e by (intro holdsI [OF hit(3)]) (simp_all add: make_chan_def chan_send_def)
  qed
  then show ?thesis using r by (simp add: HandleRequest_RpcResponse)
qed

definition handle_all :: "client_env \<Rightarrow> Request list \<Rightarrow> client_handler \<Rightarrow> client_handler" where
  "handle_all E rs h = fold (\<lambda>r h. snd (HandleRequest E r h)) rs h"

text \<open>The handler keeps the contract of pending calls.\<close>

interpretation rpc_calls: pending_calls "\<lambda>r h. snd (HandleRequest E r h)" "carries E" rr_Id expects holds_response for E
  by unfold_locales (auto intro: expects_step expects_answer holds_step)

text \<open>C17. A call of \<^verbatim>\<open>sendRpcRequest\<close> whose request is sent gets exactly the response that carries its id:
  whatever messages the handler processes before and after that response while the call waits, the first
  response with this id is what the call returns (unless its timer is taken first), and afterwards nothing is
  pending for its channel.\<close>

theorem sendRpcRequest_answered:
  assumes "hc_pendingRpc h = Some pend" "c \<notin> ran pend" "sc_Send p (rpc_request wallet reqID cmd body) = None"
    and "list_all (\<lambda>r. case carries E r of None \<Rightarrow> True | Some resp' \<Rightarrow> rr_Id resp' \<noteq> reqID) before"
    and "carries E ans = Some resp" "rr_Id resp = reqID"
  shows "\<exists>h' pend'. sendRpcRequest wallet (Some p) c reqID (handle_all E (before @ ans # after)) False cmd body h =
     (Inr resp, [rpc_request wallet reqID cmd body], h') \<and>
     hc_pendingRpc h' = Some pend' \<and> c \<notin> ran pend' \<and> ch_buf (hc_rpcChans h' c) = []"
proof -
  let ?h = "h\<lparr>hc_pendingRpc := map_option (\<lambda>m. m(reqID \<mapsto> c)) (hc_pendingRpc h),
    hc_rpcChans := (hc_rpcChans h)(c := make_chan 1)\<rparr>"
  have "expects reqID c ?h" using assms(1,2) by (auto simp: expects_def ran_def)
  then have "holds_response resp c (handle_all E (before @ ans # after) ?h)"
    unfolding handle_all_def using assms(4-6)
    by (intro rpc_calls.first_answer) (auto simp: list_all_iff split: option.splits)
  then show ?thesis using assms(3) by (auto simp: sendRpcRequest_def holds_response_def Let_def)
qed
definition rpc_demo_response :: RpcResponse where
  "rpc_demo_response = \<lparr>rr_Id = ''q'', rr_Result = [7], rr_Error = None\<rparr>"

definition rpc_demo_env :: client_env where
  "rpc_demo_env = bare_env\<lparr>u_RpcResponse := \<lambda>b. if b = [1] then Some rpc_demo_response else None\<rparr>"

definition rpc_demo_request :: "string \<Rightarrow> Request" where
  "rpc_demo_request cmd = NewRequest 0 (generateMessage [] [] cmd [1] [])"

theorem sendRpcRequest_answered_witness:
  "fst (sendRpcRequest [] (Some \<lparr>sc_Address = [], sc_Send = \<lambda>_. None\<rparr>) 3 ''q''
     (handle_all rpc_demo_env ([rpc_demo_request ''ServerBusy''] @ rpc_demo_request ''RpcResponse'' # [rpc_demo_request ''RpcResponse'']))
     False ''eth_call'' [] NewClient_handler) = Inr rpc_demo_response"
proof -
  have "\<exists>h' pend'. sendRpcRequest [] (Some \<lparr>sc_Address = [], sc_Send = \<lambda>_. None\<rparr>) 3 ''q''
     (handle_all rpc_demo_env ([rpc_demo_request ''ServerBusy''] @ rpc_demo_request ''RpcResponse'' # [rpc_demo_request ''RpcResponse'']))
     False ''eth_call'' [] NewClient_handler = (Inr rpc_demo_response, [rpc_request [] ''q'' ''eth_call'' []], h') \<and>
     hc_pendingRpc h' = Some pend' \<and> 3 \<notin> ran pend' \<and> ch_buf (hc_rpcChans h' 3) = []"
    by (rule sendRpcRequest_answered [where pend = Map.empty])
      (simp_all add: NewClient_handler_def carries_def rpc_demo_env_def rpc_demo_request_def rpc_demo_response_def
        NewRequest_def Command_def Body_def msg_header_def generateMessage_def NewMessage_def getHeaderForCommand_def
        empty_Header_def)
  then show ?thesis by auto
qed

subsection \<open>Subscriptions\<close>

lemma HandleRequest_RpcEvent:
  "Command (Some (req_message r)) = ''RpcEvent'' \<Longrightarrow> HandleRequest E r h = handleRpcEvent E (req_message r) h"
  by (simp add: HandleRequest_def Let_def)

text \<open>The events of a subscription: once \<^verbatim>\<open>RpcSubscribe\<close> has returned, each event with its id calls the
  callback once; an event that comes after the response of the server and before the callback is registered
  is dropped; after \<^verbatim>\<open>RpcUnsubscribe\<close> no event calls it.\<close>

lemma subscription_events:
  assumes "mar_SubscribeRequest L (map (HexToAddress (e_eth (rl_env L))) addrs, map (HexToHash (e_eth (rl_env L))) topics) = Some body"
    "run ''eth_subscribe'' body h = (Inr resp, sent, h1)" "rr_Error resp = None"
    "Command (Some (req_message ev)) = ''RpcEvent''"
    "u_RpcEvent E (Body (Some (req_message ev))) = Some (map (\<lambda>b. char_of (unat b)) (rr_Result resp))"
  shows "\<exists>subID h2. RpcSubscribe L run addrs topics cb h = (Inr subID, sent, h2) \<and>
      HandleRequest E ev h2 = (Handled, h2\<lparr>hc_effects := hc_effects h2 @ [CalledBack cb (Body (Some (req_message ev)))]\<rparr>) \<and>
      HandleRequest E ev (RemoveEventCallback subID h2) = (Handled, RemoveEventCallback subID h2) \<and>
      (hc_eventCallbacks h1 subID = None \<longrightarrow> HandleRequest E ev h1 = (Handled, h1))"
  using assms
  by (simp add: RpcSubscribe_def rpc_result_def Let_def HandleRequest_RpcEvent handleRpcEvent_def RegisterEventCallback_def
      RemoveEventCallback_def)

lemma unsubscribe_removes:
  assumes "mar_UnsubscribeRequest L subID = Some body" "run ''eth_unsubscribe'' body h = (Inr resp, sent, h1)" "rr_Error resp = None"
  shows "hc_eventCallbacks (snd (snd (RpcUnsubscribe L run subID h))) = (hc_eventCallbacks h1)(subID := None)"
  using assms by (simp add: RpcUnsubscribe_def rpc_result_def RemoveEventCallback_def)

subsection \<open>Raw transactions\<close>

lemma fromHexChar_digit: "n < 16 \<Longrightarrow> fromHexChar (hexdigit n) = Some n"
proof -
  assume "n < 16"
  then have "n \<in> set [0..<16]" by simp
  then show ?thesis by (auto simp: upt_rec [of _ 16] hexdigit_def fromHexChar_def)
qed
lemma hex_DecodeString_encode: "hex_DecodeString (hex_encode b) = Some b"
proof (induction b)
  case (Cons x b)
  have "unat x < 256" by (rule unat_byte_less)
  then have "unat x div 16 < 16" by auto
  then show ?case using Cons by (simp add: fromHexChar_digit)
qed simp

lemma TrimPrefix0x_encode:
  "TrimPrefix0x (CHR ''0'' # CHR ''x'' # s) = s" "TrimPrefix0x (hex_encode b) = hex_encode b"
proof -
  show "TrimPrefix0x (CHR ''0'' # CHR ''x'' # s) = s" by (simp add: TrimPrefix0x_def)
  have "hexdigit n \<noteq> CHR ''x''" if "n < 16" for n
  proof -
    have "n \<in> set [0..<16]" using that by simp
    then show ?thesis by (auto simp: upt_rec [of _ 16] hexdigit_def)
  qed
  then show "TrimPrefix0x (hex_encode b) = hex_encode b"
    by (cases b) (auto simp: TrimPrefix0x_def)
qed

text \<open>Sending a raw transaction given in hexadecimal: with or without the prefix \<^verbatim>\<open>0x\<close>, the request the
  server gets carries exactly the bytes of the transaction, and when the server answers with the encoding of a
  receipt, the caller gets that receipt and its transaction hash.\<close>

theorem RpcSendRawTransactionReceipt_sends:
  assumes "mar_SendTxRequest L raw = Some body" "ask ''eth_sendRawTransaction'' body = Inr resp" "rr_Error resp = None"
    "unm (e_receipt (rl_env L)) (rr_Result resp) = Some rcpt" "TransactionHash_pb rcpt \<noteq> []" "rr_Result resp \<noteq> []"
  shows "RpcSendRawTransactionReceipt L ask (''0x'' @ hex_encode raw) = Inr (tx_hash_Hex L (TransactionHash_pb rcpt), Some rcpt) \<and>
    RpcSendRawTransactionReceipt L ask (hex_encode raw) = Inr (tx_hash_Hex L (TransactionHash_pb rcpt), Some rcpt)"
  using assms
  by (simp add: RpcSendRawTransactionReceipt_def RpcSendRawTransactionWithReceipt_def TrimPrefix0x_encode hex_DecodeString_encode
      rpc_result_def Let_def)
definition rpc_demo_receipt :: Receipt where
  "rpc_demo_receipt = zero_Receipt\<lparr>TransactionHash_pb := [5]\<rparr>"

definition rpc_demo_lib :: "bytes rpc_lib" where
  "rpc_demo_lib =
     \<lparr>rl_env = rpc_demo_env\<lparr>e_receipt := \<lparr>mar = \<lambda>_. None, unm = \<lambda>b. if b = [7] then Some rpc_demo_receipt else None,
        mar_list = \<lambda>_. None, unm_list = \<lambda>_. None, ser_batch = \<lambda>_. None\<rparr>\<rparr>,
      mar_SendTxRequest = Some, unm_HashParam = Some, mar_HashParam = Some, mar_EthCallRequest = \<lambda>_. None,
      unm_RpcReceipt = Some, mar_SubscribeRequest = \<lambda>_. None, mar_UnsubscribeRequest = \<lambda>_. None\<rparr>"

lemma RpcSendRawTransactionReceipt_sends_example:
  "hex_encode [1, 171] = ''01ab'' \<and>
   RpcSendRawTransactionReceipt rpc_demo_lib (\<lambda>cmd body. if body = [1, 171] then Inr rpc_demo_response else Inl RpcTimeout) ''0x01ab'' =
     Inr (tx_hash_Hex rpc_demo_lib [5], Some rpc_demo_receipt)"
proof -
  have x: "hex_encode [1, 171] = ''01ab''" by (simp add: hexdigit_def)
  show ?thesis
    using RpcSendRawTransactionReceipt_sends [of rpc_demo_lib "[1, 171]" "[1, 171]"
        "\<lambda>cmd body. if body = [1, 171] then Inr rpc_demo_response else Inl RpcTimeout" rpc_demo_response rpc_demo_receipt]
    unfolding x by (simp add: rpc_demo_lib_def rpc_demo_response_def rpc_demo_receipt_def)
qed

end
