(* ===== verification/Client_Send.thy ===== *)
theory Client_Send
  imports Rpc_Client Transaction_Props
begin

text \<open>
  How the TCP client sends transactions: the transaction controller,
  \<^verbatim>\<open>src/pkg/client-tcp/controllers/transaction_controller.go\<close>, and the methods of
  \<^verbatim>\<open>src/pkg/client-tcp/client.go\<close> that use it. A method is a function of what it finds: the parent
  connection, the answer of a reconnection, the accounts in the channel it reads. Its value is what
  it sends, in order, with the connection it sends it on, and how it ends: with an error, waiting
  for ever, or waiting for a receipt under a hash, which is the call of \<^verbatim>\<open>waitReceipt\<close> that
  \<^verbatim>\<open>Receipt_Router.thy\<close> models.
\<close>

subsection \<open>Context\<close>

record send_ctx =
  x_lib :: chain_lib
  x_priv :: bytes
  x_version :: string
  x_uuid :: "string \<Rightarrow> string"
  x_chainId :: u64
  mar_Txs :: "pb_Transaction list \<Rightarrow> bytes option"
  unm_TxDeviceKey :: "bytes \<Rightarrow> (pb_Transaction \<times> bytes) option"

datatype send_error =
    ErrMarshalTx | ErrSendBytes string | ErrReconnect string | ErrAsk client_error | ErrSignTx sign_error
  | ErrChainIdText | ErrParseKey | ErrDecodeBlsKey | ErrPackABI | ErrSignEth | ErrNoSender | ErrFromEth tx_error
  | ErrReadFile | ErrUnmarshalFile | ErrMkdir | ErrWriteFile | ErrReadDir | ErrNotConnected

text \<open>The two results of a controller method, transaction and error, and the messages it sent.\<close>

type_synonym tc_result = "(Transaction option \<times> send_error option) \<times> pbMessage list"

definition tc_bytes :: "send_ctx \<Rightarrow> send_conn option \<Rightarrow> string \<Rightarrow> bytes \<Rightarrow> send_error option \<times> pbMessage list" where
  "tc_bytes C con cmd body =
     (case MessageSender_SendBytes (x_version C) (x_uuid C cmd) con cmd body of (e, ms) \<Rightarrow> (map_option ErrSendBytes e, ms))"

definition tx_of :: "send_ctx \<Rightarrow> tx_lib" where
  "tx_of C = cl_tx (x_lib C)"

subsection \<open>The transaction controller\<close>

text \<open>What every method does with its transaction: sign it, marshal it, send it to the parent.\<close>

definition sign_and_send :: "send_ctx \<Rightarrow> send_conn option \<Rightarrow> string \<Rightarrow> Transaction \<Rightarrow> tc_result" where
  "sign_and_send C con cmd t =
     (let t = SetSign (tx_of C) (x_priv C) t in
      case mar_Tx (x_lib C) (tproto t) of
        None \<Rightarrow> ((None, Some ErrMarshalTx), [])
      | Some b \<Rightarrow> (case tc_bytes C con cmd b of (e, ms) \<Rightarrow> ((Some t, e), ms)))"

definition sign_and_send_with_key :: "send_ctx \<Rightarrow> send_conn option \<Rightarrow> Transaction \<Rightarrow> bytes \<Rightarrow> tc_result" where
  "sign_and_send_with_key C con t rawKey =
     (let t = SetSign (tx_of C) (x_priv C) t in
      case mar_TxDeviceKey (x_lib C) (tproto t, rawKey) of
        None \<Rightarrow> ((None, Some ErrMarshalTx), [])
      | Some b \<Rightarrow> (case tc_bytes C con ''SendTransactionWithDeviceKey'' b of (e, ms) \<Rightarrow> ((Some t, e), ms)))"

definition tc_SendTransaction ::
  "send_ctx \<Rightarrow> send_conn option \<Rightarrow> bytes \<Rightarrow> bytes \<Rightarrow> int \<Rightarrow> u64 \<Rightarrow> u64 \<Rightarrow> u64 \<Rightarrow> bytes \<Rightarrow> bytes list \<Rightarrow> bytes \<Rightarrow> bytes \<Rightarrow>
   u64 \<Rightarrow> u64 \<Rightarrow> tc_result" where
  "tc_SendTransaction C con fromA toA amount maxGas maxGasFee maxTimeUse data related lastKey newKey n chainId =
     sign_and_send C con ''SendTransaction''
       (NewTransaction fromA toA amount maxGas maxGasFee maxTimeUse data related lastKey newKey n chainId)"

definition tc_ReadTransaction ::
  "send_ctx \<Rightarrow> send_conn option \<Rightarrow> bytes \<Rightarrow> bytes \<Rightarrow> int \<Rightarrow> u64 \<Rightarrow> u64 \<Rightarrow> u64 \<Rightarrow> bytes \<Rightarrow> bytes list \<Rightarrow> bytes \<Rightarrow> bytes \<Rightarrow>
   u64 \<Rightarrow> u64 \<Rightarrow> tc_result" where
  "tc_ReadTransaction C con fromA toA amount maxGas maxGasFee maxTimeUse data related lastKey newKey n chainId =
     sign_and_send C con ''ReadTransaction''
       (NewTransaction fromA toA amount maxGas maxGasFee maxTimeUse data related lastKey newKey n chainId)"

definition tc_ReadTransactionWithoutNonce ::
  "send_ctx \<Rightarrow> send_conn option \<Rightarrow> bytes \<Rightarrow> bytes \<Rightarrow> int \<Rightarrow> u64 \<Rightarrow> u64 \<Rightarrow> u64 \<Rightarrow> bytes \<Rightarrow> bytes list \<Rightarrow> bytes \<Rightarrow> bytes \<Rightarrow>
   u64 \<Rightarrow> tc_result" where
  "tc_ReadTransactionWithoutNonce C con fromA toA amount maxGas maxGasFee maxTimeUse data related lastKey newKey chainId =
     sign_and_send C con ''ReadTransaction''
       (NewTransactionWithoutNonce fromA toA amount maxGas maxGasFee maxTimeUse data related lastKey newKey chainId)"

definition tc_EstimateGas ::
  "send_ctx \<Rightarrow> send_conn option \<Rightarrow> bytes \<Rightarrow> bytes \<Rightarrow> int \<Rightarrow> u64 \<Rightarrow> u64 \<Rightarrow> u64 \<Rightarrow> bytes \<Rightarrow> bytes list \<Rightarrow> bytes \<Rightarrow> bytes \<Rightarrow>
   u64 \<Rightarrow> tc_result" where
  "tc_EstimateGas C con fromA toA amount maxGas maxGasFee maxTimeUse data related lastKey newKey chainId =
     sign_and_send C con ''EstimateGas''
       (NewTransactionWithoutNonce fromA toA amount maxGas maxGasFee maxTimeUse data related lastKey newKey chainId)"

definition tc_SendTransactions ::
  "send_ctx \<Rightarrow> send_conn option \<Rightarrow> Transaction list \<Rightarrow> send_error option \<times> pbMessage list" where
  "tc_SendTransactions C con txs =
     (case mar_Txs C (TransactionsToProto txs) of
        None \<Rightarrow> (Some ErrMarshalTx, [])
      | Some b \<Rightarrow> tc_bytes C con ''SendTransactions'' b)"

definition tc_SendTransactionWithDeviceKey ::
  "send_ctx \<Rightarrow> send_conn option \<Rightarrow> bytes \<Rightarrow> bytes \<Rightarrow> int \<Rightarrow> u64 \<Rightarrow> u64 \<Rightarrow> u64 \<Rightarrow> bytes \<Rightarrow> bytes list \<Rightarrow> bytes \<Rightarrow> bytes \<Rightarrow>
   u64 \<Rightarrow> bytes \<Rightarrow> u64 \<Rightarrow> tc_result" where
  "tc_SendTransactionWithDeviceKey C con fromA toA amount maxGas maxGasFee maxTimeUse data related lastKey newKey n
     rawKey chainId =
     sign_and_send_with_key C con
       (NewTransaction fromA toA amount maxGas maxGasFee maxTimeUse data related lastKey newKey n chainId) rawKey"

definition SendNewTransaction :: "send_ctx \<Rightarrow> send_conn option \<Rightarrow> Transaction \<Rightarrow> tc_result" where
  "SendNewTransaction C con t = sign_and_send C con ''SendTransaction'' t"

definition SendNewTransactionWithDeviceKey ::
  "send_ctx \<Rightarrow> send_conn option \<Rightarrow> Transaction \<Rightarrow> bytes \<Rightarrow> tc_result" where
  "SendNewTransactionWithDeviceKey C con t rawKey = sign_and_send_with_key C con t rawKey"

subsection \<open>Transactions in files\<close>

text \<open>A directory of transaction files: a map from file names to contents. \<open>mkdir_ok\<close> and \<open>write_ok\<close> are the
  answers of the system.\<close>

type_synonym txdir = "string \<rightharpoonup> bytes"

definition SaveTransactionWithDeviceKeyToFile ::
  "send_ctx \<Rightarrow> bool \<Rightarrow> bool \<Rightarrow> bytes \<Rightarrow> bytes \<Rightarrow> int \<Rightarrow> u64 \<Rightarrow> u64 \<Rightarrow> u64 \<Rightarrow> bytes \<Rightarrow> bytes list \<Rightarrow> bytes \<Rightarrow> bytes \<Rightarrow>
   u64 \<Rightarrow> bytes \<Rightarrow> u64 \<Rightarrow> txdir \<Rightarrow> send_error option \<times> txdir" where
  "SaveTransactionWithDeviceKeyToFile C mkdir_ok write_ok fromA toA amount maxGas maxGasFee maxTimeUse data related
     lastKey newKey n rawKey chainId d =
     (let t = SetSign (tx_of C) (x_priv C)
                (NewTransaction fromA toA amount maxGas maxGasFee maxTimeUse data related lastKey newKey n chainId) in
      case mar_TxDeviceKey (x_lib C) (tproto t, rawKey) of
        None \<Rightarrow> (Some ErrMarshalTx, d)
      | Some b \<Rightarrow>
          if \<not> mkdir_ok then (Some ErrMkdir, d)
          else if \<not> write_ok then (Some ErrWriteFile, d)
          else (None, d(Hash_Hex (tx_of C) (fst (Transaction.Hash (tx_of C) t)) \<mapsto> b)))"

definition LoadTransactionWithDeviceKeyFromFile ::
  "send_ctx \<Rightarrow> txdir \<Rightarrow> string \<Rightarrow> send_error + Transaction \<times> bytes" where
  "LoadTransactionWithDeviceKeyFromFile C d name =
     (case d name of
        None \<Rightarrow> Inl ErrReadFile
      | Some b \<Rightarrow>
          (case unm_TxDeviceKey C b of
             None \<Rightarrow> Inl ErrUnmarshalFile
           | Some (p, k) \<Rightarrow> Inr (TransactionFromProto p, k)))"

definition LoadedTransactionWithDeviceKeyFromFile :: "send_ctx \<Rightarrow> txdir \<Rightarrow> string \<Rightarrow> send_error + bytes" where
  "LoadedTransactionWithDeviceKeyFromFile C d name =
     (case LoadTransactionWithDeviceKeyFromFile C d name of
        Inl e \<Rightarrow> Inl e
      | Inr (t, k) \<Rightarrow> (case mar_TxDeviceKey (x_lib C) (tproto t, k) of None \<Rightarrow> Inl ErrMarshalTx | Some b \<Rightarrow> Inr b))"

text \<open>The two loops over a directory; \<open>files\<close> lists its plain files, \<open>None\<close> if it cannot be read. Both
  connect a second client first, which they do not use, and end the process (\<open>None\<close>) when there is no
  parent connection or that client cannot connect. Neither reports a failed file; the first sends a
  message with an empty body for a file that cannot be loaded.\<close>

definition SendAllTransactionsWidthDeviceKeyInDirectory ::
  "send_ctx \<Rightarrow> send_conn option \<Rightarrow> bool \<Rightarrow> txdir \<Rightarrow> string list option \<Rightarrow> (send_error option \<times> pbMessage list) option" where
  "SendAllTransactionsWidthDeviceKeyInDirectory C con connect_ok d dir =
     (if con = None \<or> \<not> connect_ok then None
      else (case dir of
              None \<Rightarrow> Some (Some ErrReadDir, [])
            | Some files \<Rightarrow>
                Some (None, concat (map (\<lambda>f. snd (tc_bytes C con ''SendTransactionWithDeviceKey''
                  (case LoadedTransactionWithDeviceKeyFromFile C d f of Inl _ \<Rightarrow> [] | Inr b \<Rightarrow> b))) files))))"

definition SendAllTransactionsInDirectory ::
  "send_ctx \<Rightarrow> send_conn option \<Rightarrow> bool \<Rightarrow> txdir \<Rightarrow> string list option \<Rightarrow> (send_error option \<times> pbMessage list) option" where
  "SendAllTransactionsInDirectory C con connect_ok d dir =
     (if con = None \<or> \<not> connect_ok then None
      else (case dir of
              None \<Rightarrow> Some (Some ErrReadDir, [])
            | Some files \<Rightarrow>
                let txs = concat (map (\<lambda>f. case LoadTransactionWithDeviceKeyFromFile C d f of
                            Inl _ \<Rightarrow> [] | Inr (t, _) \<Rightarrow> [t]) files) in
                Some (case mar_Txs C (TransactionsToProto txs) of
                  None \<Rightarrow> (Some ErrMarshalTx, [])
                | Some b \<Rightarrow> (None, snd (tc_bytes C con ''SendTransactions'' b)))))"

subsection \<open>The parent connection\<close>

text \<open>The parent connection with the answer of its \<^verbatim>\<open>IsConnect\<close>; \<open>rec\<close> is what \<^verbatim>\<open>ReconnectToParent\<close> gives, an error
  or the new connection. A message is tagged with the connection it was sent on: 0 is the one found
  at the start of the method, 1 the one after a reconnection.\<close>

record parent =
  p_conn :: "send_conn option"
  p_up :: bool

definition IsParentConnected :: "parent \<Rightarrow> bool" where
  "IsParentConnected p \<longleftrightarrow> p_conn p \<noteq> None \<and> p_up p"

definition ensure_parent :: "parent \<Rightarrow> string + send_conn \<Rightarrow> send_error + nat \<times> send_conn option" where
  "ensure_parent p rec =
     (if IsParentConnected p then Inr (0, p_conn p)
      else (case rec of Inl e \<Rightarrow> Inl (ErrReconnect e) | Inr c \<Rightarrow> Inr (1, Some c)))"

datatype send_end =
    SendFails send_error
  | WaitsForAccount
  | AwaitReceipt Transaction bytes receiptMatchType int

type_synonym send_run = "send_end \<times> (nat \<times> pbMessage) list"

definition tagged :: "nat \<Rightarrow> pbMessage list \<Rightarrow> (nat \<times> pbMessage) list" where
  "tagged k ms = map (\<lambda>m. (k, m)) ms"

text \<open>The end of every sending method: an error of the controller, or the wait for the receipt of the
  hash of the transaction.\<close>

definition then_await ::
  "send_ctx \<Rightarrow> receiptMatchType \<Rightarrow> int \<Rightarrow> (nat \<times> pbMessage) list \<Rightarrow> nat \<Rightarrow> tc_result \<Rightarrow> send_run" where
  "then_await C mt timeout ms k res =
     (case res of
        ((_, Some e), ms') \<Rightarrow> (SendFails e, ms @ tagged k ms')
      | ((None, None), ms') \<Rightarrow> (SendFails ErrMarshalTx, ms @ tagged k ms')
      | ((Some t, None), ms') \<Rightarrow>
          (case Transaction.Hash (tx_of C) t of (h, t) \<Rightarrow> (AwaitReceipt t h mt timeout, ms @ tagged k ms')))"

subsection \<open>Sending and reading\<close>

definition client_SendTransaction ::
  "send_ctx \<Rightarrow> parent \<Rightarrow> string + send_conn \<Rightarrow> bytes \<Rightarrow> bytes \<Rightarrow> int \<Rightarrow> bytes \<Rightarrow> bytes list \<Rightarrow> u64 \<Rightarrow> u64 \<Rightarrow> u64 \<Rightarrow> u64 \<Rightarrow>
   send_run" where
  "client_SendTransaction C p rec fromA toA amount data related maxGas maxGasPrice maxTimeUse n =
     (case ensure_parent p rec of
        Inl e \<Rightarrow> (SendFails e, [])
      | Inr (k, con) \<Rightarrow>
          then_await C matchByTxHash (300 * 1000000000) [] k
            (tc_SendTransaction C con fromA toA amount maxGas maxGasPrice maxTimeUse data related zero_hash32 zero_hash32
              n (x_chainId C)))"

text \<open>The read methods ask for the account on the connection they found first, also after a
  reconnection. They take whatever account is first in the channel.\<close>

definition client_ReadTransaction ::
  "send_ctx \<Rightarrow> parent \<Rightarrow> string + send_conn \<Rightarrow> AccountState list \<Rightarrow> ask \<Rightarrow> bytes \<Rightarrow> bytes \<Rightarrow> int \<Rightarrow> bytes \<Rightarrow> bytes list \<Rightarrow>
   u64 \<Rightarrow> u64 \<Rightarrow> u64 \<Rightarrow> send_run" where
  "client_ReadTransaction C p rec accounts ask fromA toA amount data related maxGas maxGasPrice maxTimeUse =
     (case ensure_parent p rec of
        Inl e \<Rightarrow> (SendFails e, [])
      | Inr (k, con) \<Rightarrow>
          let ms = tagged 0 (snd (tc_bytes C (p_conn p) ''GetAccountState'' fromA) @
                             snd (tc_bytes C (p_conn p) ''GetNonce'' fromA)) in
          if accounts = [] then (WaitsForAccount, ms)
          else (case ask ''GetNonce'' fromA of
                  Inl e \<Rightarrow> (SendFails (ErrAsk (ErrChain e)), ms)
                | Inr m \<Rightarrow>
                    let n = (if length (Body (Some m)) \<ge> 8 then get_be64 (Body (Some m)) else 0) in
                    then_await C matchByTxHash (300 * 1000000000) ms k
                      (tc_ReadTransaction C con fromA toA amount maxGas maxGasPrice maxTimeUse data related
                        zero_hash32 zero_hash32 n (x_chainId C))))"

definition client_ReadTransactionWithoutNonce ::
  "send_ctx \<Rightarrow> parent \<Rightarrow> string + send_conn \<Rightarrow> AccountState list \<Rightarrow> bytes \<Rightarrow> bytes \<Rightarrow> int \<Rightarrow> bytes \<Rightarrow> bytes list \<Rightarrow>
   u64 \<Rightarrow> u64 \<Rightarrow> u64 \<Rightarrow> send_run" where
  "client_ReadTransactionWithoutNonce C p rec accounts fromA toA amount data related maxGas maxGasPrice maxTimeUse =
     (case ensure_parent p rec of
        Inl e \<Rightarrow> (SendFails e, [])
      | Inr (k, con) \<Rightarrow>
          let ms = tagged 0 (snd (tc_bytes C (p_conn p) ''GetAccountState'' fromA)) in
          if accounts = [] then (WaitsForAccount, ms)
          else then_await C matchByReceiptHash (300 * 1000000000) ms k
                 (tc_ReadTransactionWithoutNonce C con fromA toA amount maxGas maxGasPrice maxTimeUse data related
                   zero_hash32 zero_hash32 (x_chainId C)))"

definition client_EstimateGas ::
  "send_ctx \<Rightarrow> parent \<Rightarrow> string + send_conn \<Rightarrow> bytes \<Rightarrow> bytes \<Rightarrow> int \<Rightarrow> bytes \<Rightarrow> bytes list \<Rightarrow> u64 \<Rightarrow> u64 \<Rightarrow> u64 \<Rightarrow> send_run" where
  "client_EstimateGas C p rec fromA toA amount data related maxGas maxGasPrice maxTimeUse =
     (case ensure_parent p rec of
        Inl e \<Rightarrow> (SendFails e, [])
      | Inr (k, con) \<Rightarrow>
          then_await C matchByTxHash (300 * 1000000000) [] k
            (tc_EstimateGas C con fromA toA amount maxGas maxGasPrice maxTimeUse data related zero_hash32 zero_hash32
              (x_chainId C)))"

text \<open>\<open>pub\<close> derives the address of a private key.\<close>

definition SendSecpProtoTransactionWithNonce ::
  "send_ctx \<Rightarrow> parent \<Rightarrow> string + send_conn \<Rightarrow> (bytes \<Rightarrow> bytes) \<Rightarrow> bytes \<Rightarrow> bytes \<Rightarrow> int \<Rightarrow> u64 \<Rightarrow> u64 \<Rightarrow> bytes \<Rightarrow> u64 \<Rightarrow> send_run" where
  "SendSecpProtoTransactionWithNonce C p rec pub key toA amount maxGas maxGasPrice data n =
     (case ensure_parent p rec of
        Inl e \<Rightarrow> (SendFails e, [])
      | Inr (k, con) \<Rightarrow>
          let t = SetType 0xFF (NewTransaction (pub key) toA amount maxGas maxGasPrice 0 data [] zero_hash32 zero_hash32 n
                    (x_chainId C));
              t = (if maxGasPrice > 0 then SetGasFeeCap (Some (uint maxGasPrice)) t else t)
          in (case SignSecpProto (tx_of C) (Some key) t of
                (Some e, _) \<Rightarrow> (SendFails (ErrSignTx e), [])
              | (None, t) \<Rightarrow>
                  (case mar_Tx (x_lib C) (tproto t) of
                     None \<Rightarrow> (SendFails ErrMarshalTx, [])
                   | Some b \<Rightarrow>
                       (case tc_bytes C con ''SendTransaction'' b of (e, ms) \<Rightarrow>
                          then_await C matchByTxHash (60 * 1000000000) [] k ((Some t, e), ms)))))"

text \<open>\<^verbatim>\<open>AccountState\<close> asks on the parent connection and takes the first account of the channel, whoever it
  is for; \<^verbatim>\<open>SendSecpProtoTransaction\<close> takes its nonce.\<close>

definition client_AccountState ::
  "send_ctx \<Rightarrow> send_conn option \<Rightarrow> AccountState list \<Rightarrow> bytes \<Rightarrow> AccountState option \<times> AccountState list \<times> pbMessage list" where
  "client_AccountState C con accounts addr =
     (let ms = snd (tc_bytes C con ''GetAccountState'' addr) in
      case accounts of [] \<Rightarrow> (None, [], ms) | a # q \<Rightarrow> (Some a, q, ms))"

definition SendSecpProtoTransaction ::
  "send_ctx \<Rightarrow> parent \<Rightarrow> string + send_conn \<Rightarrow> AccountState list \<Rightarrow> (bytes \<Rightarrow> bytes) \<Rightarrow> bytes \<Rightarrow> bytes \<Rightarrow> int \<Rightarrow> u64 \<Rightarrow> u64 \<Rightarrow>
   bytes \<Rightarrow> send_run" where
  "SendSecpProtoTransaction C p rec accounts pub key toA amount maxGas maxGasPrice data =
     (case client_AccountState C (p_conn p) accounts (pub key) of
        (None, _, ms) \<Rightarrow> (WaitsForAccount, tagged 0 ms)
      | (Some a, _, ms) \<Rightarrow>
          (case SendSecpProtoTransactionWithNonce C p rec pub key toA amount maxGas maxGasPrice data (nonce a) of
             (res, ms') \<Rightarrow> (res, tagged 0 ms @ ms')))"
subsection \<open>Waiting for an account of one's own\<close>

text \<open>The loop \<^verbatim>\<open>for as := range client.accountStateChan\<close>: an account of somebody else goes to the end of
  the channel. The fuel counts its rounds; \<open>None\<close> is that the loop has not found the account.\<close>

fun take_account :: "nat \<Rightarrow> bytes \<Rightarrow> AccountState list \<Rightarrow> (AccountState \<times> AccountState list) option" where
  "take_account 0 addr q = None"
| "take_account (Suc fuel) addr [] = None"
| "take_account (Suc fuel) addr (a # q) =
     (if as_address a \<noteq> addr then take_account fuel addr (q @ [a]) else Some (a, q))"

subsection \<open>Transactions with device keys\<close>

definition device_keys :: "send_ctx \<Rightarrow> int \<Rightarrow> LastDeviceKey \<Rightarrow> bytes \<times> bytes \<times> bytes" where
  "device_keys C now key =
     (let raw = Keccak256Hash (tx_of C) (ascii_bytes (hex_encode (ld_TransactionHash key) @ ''-'' @ big_String now))
      in (HexToHash (tx_of C) (hex_encode (ld_LastDeviceKeyFromServer key)), raw, Keccak256Hash (tx_of C) raw))"

datatype device_step =
    DeviceFails send_error
  | DeviceWaits
  | DeviceReady nat "send_conn option" AccountState "bytes \<times> bytes \<times> bytes"

text \<open>The common beginning of the methods with device keys: the account, then the key of its last
  transaction. They use the connection that they have after a reconnection.\<close>

definition prepare_device ::
  "send_ctx \<Rightarrow> parent \<Rightarrow> string + send_conn \<Rightarrow> nat \<Rightarrow> AccountState list \<Rightarrow> LastDeviceKey list \<Rightarrow> int \<Rightarrow> bytes \<Rightarrow>
   device_step \<times> (nat \<times> pbMessage) list" where
  "prepare_device C p rec fuel accounts keys now fromA =
     (case ensure_parent p rec of
        Inl e \<Rightarrow> (DeviceFails e, [])
      | Inr (k, con) \<Rightarrow>
          let ms = tagged k (snd (tc_bytes C con ''GetAccountState'' fromA)) in
          (case take_account fuel fromA accounts of
             None \<Rightarrow> (DeviceWaits, ms)
           | Some (a, _) \<Rightarrow>
               (case tc_bytes C con ''GetDeviceKey'' (lastHash a) of
                  (Some e, ms') \<Rightarrow> (DeviceFails e, ms @ tagged k ms')
                | (None, ms') \<Rightarrow>
                    (case keys of
                       [] \<Rightarrow> (DeviceWaits, ms @ tagged k ms')
                     | key # _ \<Rightarrow> (DeviceReady k con a (device_keys C now key), ms @ tagged k ms')))))"

definition client_SendTransactionWithDeviceKey ::
  "send_ctx \<Rightarrow> parent \<Rightarrow> string + send_conn \<Rightarrow> nat \<Rightarrow> AccountState list \<Rightarrow> LastDeviceKey list \<Rightarrow> int \<Rightarrow> bytes \<Rightarrow> bytes \<Rightarrow> int \<Rightarrow>
   bytes \<Rightarrow> bytes list \<Rightarrow> u64 \<Rightarrow> u64 \<Rightarrow> u64 \<Rightarrow> send_run" where
  "client_SendTransactionWithDeviceKey C p rec fuel accounts keys now fromA toA amount data related maxGas maxGasPrice
     maxTimeUse =
     (case prepare_device C p rec fuel accounts keys now fromA of
        (DeviceFails e, ms) \<Rightarrow> (SendFails e, ms)
      | (DeviceWaits, ms) \<Rightarrow> (WaitsForAccount, ms)
      | (DeviceReady k con a (lastKey, raw, newKey), ms) \<Rightarrow>
          then_await C matchByTxHash (300 * 1000000000) ms k
            (tc_SendTransactionWithDeviceKey C con fromA toA amount maxGas maxGasPrice maxTimeUse data related lastKey newKey
              (nonce a) raw (x_chainId C)))"

definition SendTransactionWithDeviceKeyAsync ::
  "send_ctx \<Rightarrow> parent \<Rightarrow> string + send_conn \<Rightarrow> nat \<Rightarrow> AccountState list \<Rightarrow> LastDeviceKey list \<Rightarrow> int \<Rightarrow> ask \<Rightarrow> bytes \<Rightarrow> bytes \<Rightarrow>
   int \<Rightarrow> bytes \<Rightarrow> bytes list \<Rightarrow> u64 \<Rightarrow> u64 \<Rightarrow> u64 \<Rightarrow> (send_error + bytes) option \<times> (nat \<times> pbMessage) list" where
  "SendTransactionWithDeviceKeyAsync C p rec fuel accounts keys now ask fromA toA amount data related maxGas maxGasPrice
     maxTimeUse =
     (case prepare_device C p rec fuel accounts keys now fromA of
        (DeviceFails e, ms) \<Rightarrow> (Some (Inl e), ms)
      | (DeviceWaits, ms) \<Rightarrow> (None, ms)
      | (DeviceReady k con a (lastKey, raw, newKey), ms) \<Rightarrow>
          (case SendTransactionWithDeviceKeySync (x_lib C) ask (x_priv C) fromA toA amount maxGas maxGasPrice maxTimeUse data
                  related lastKey newKey (nonce a) raw (x_chainId C) of
             Inl e \<Rightarrow> (Some (Inl (ErrAsk e)), ms)
           | Inr h \<Rightarrow> (Some (Inr h), ms)))"

definition client_SaveTransactionWithDeviceKeyToFile ::
  "send_ctx \<Rightarrow> parent \<Rightarrow> string + send_conn \<Rightarrow> nat \<Rightarrow> AccountState list \<Rightarrow> LastDeviceKey list \<Rightarrow> int \<Rightarrow> bool \<Rightarrow> bool \<Rightarrow> bytes \<Rightarrow>
   bytes \<Rightarrow> int \<Rightarrow> bytes \<Rightarrow> bytes list \<Rightarrow> u64 \<Rightarrow> u64 \<Rightarrow> u64 \<Rightarrow> txdir \<Rightarrow> (send_error option \<times> txdir) option" where
  "client_SaveTransactionWithDeviceKeyToFile C p rec fuel accounts keys now mkdir_ok write_ok fromA toA amount data related
     maxGas maxGasPrice maxTimeUse d =
     (case prepare_device C p rec fuel accounts keys now fromA of
        (DeviceFails e, _) \<Rightarrow> Some (Some e, d)
      | (DeviceWaits, _) \<Rightarrow> None
      | (DeviceReady k con a (lastKey, raw, newKey), _) \<Rightarrow>
          Some (SaveTransactionWithDeviceKeyToFile C mkdir_ok write_ok fromA toA amount maxGas maxGasPrice maxTimeUse data
            (related @ [fromA, toA]) lastKey newKey (nonce a) raw (x_chainId C) d))"

definition SendTransactionWithFullInfo ::
  "send_ctx \<Rightarrow> parent \<Rightarrow> string + send_conn \<Rightarrow> AccountState list \<Rightarrow> bytes \<Rightarrow> bytes \<Rightarrow> int \<Rightarrow> u64 \<Rightarrow> u64 \<Rightarrow> u64 \<Rightarrow> bytes \<Rightarrow>
   bytes list \<Rightarrow> bytes \<Rightarrow> bytes \<Rightarrow> send_run" where
  "SendTransactionWithFullInfo C p rec accounts fromA toA amount maxGas maxGasFee maxTimeUse data related lastKey newKey =
     (case ensure_parent p rec of
        Inl e \<Rightarrow> (SendFails e, [])
      | Inr (k, con) \<Rightarrow>
          let ms = tagged 0 (snd (tc_bytes C (p_conn p) ''GetAccountState'' fromA)) in
          (case accounts of
             [] \<Rightarrow> (WaitsForAccount, ms)
           | a # _ \<Rightarrow>
               then_await C matchByTxHash 0 ms k
                 (tc_SendTransaction C con fromA toA amount maxGas maxGasFee maxTimeUse data related lastKey newKey
                   (nonce a) (x_chainId C))))"

subsection \<open>Registering a BLS key\<close>

text \<open>What \<^verbatim>\<open>CreateSignedSetBLSPublicKeyTx\<close> uses of go-ethereum: reading a private key, packing the call of
  \<^verbatim>\<open>setBlsPublicKey\<close> with its fixed ABI (\<open>None\<close> when the ABI does not parse or does not fit), and \<^verbatim>\<open>SignTx\<close>.\<close>

record register_lib =
  HexToECDSA :: "string \<Rightarrow> bytes option"
  Pack_setBlsPublicKey :: "bytes \<Rightarrow> bytes option"
  SignTx :: "EthTx \<Rightarrow> signer \<Rightarrow> bytes \<Rightarrow> EthTx option"

definition CreateSignedSetBLSPublicKeyTx ::
  "tx_lib \<Rightarrow> register_lib \<Rightarrow> string \<Rightarrow> string \<Rightarrow> int \<Rightarrow> send_error + EthTx" where
  "CreateSignedSetBLSPublicKeyTx X B privateKeyHex blsPubKeyHex chainID =
     (case HexToECDSA B (TrimPrefix0x privateKeyHex) of
        None \<Rightarrow> Inl ErrParseKey
      | Some privateKey \<Rightarrow>
          (case hex_DecodeString (TrimPrefix0x blsPubKeyHex) of
             None \<Rightarrow> Inl ErrDecodeBlsKey
           | Some blsPubKeyBytes \<Rightarrow>
               (case Pack_setBlsPublicKey B blsPubKeyBytes of
                  None \<Rightarrow> Inl ErrPackABI
                | Some data \<Rightarrow>
                    let contractAddr = HexToAddress X ''0x00000000000000000000000000000000D844bb55'';
                        tx = LegacyTx \<lparr>e_Nonce = 0, e_Gas = 1000000000, e_To = Some contractAddr, e_Value = 0,
                               e_Data = data, e_V = 0, e_R = 0, e_S = 0\<rparr> 100000;
                        signer = (if chainID > 0 then EIP155Signer chainID else HomesteadSigner)
                    in (case SignTx B tx signer privateKey of
                          None \<Rightarrow> Inl ErrSignEth | Some signedTx \<Rightarrow> Inr signedTx))))"

text \<open>What \<^verbatim>\<open>RegisterBlsForAccount\<close> and \<^verbatim>\<open>RegisterBlsForAccountAsync\<close> do before they send: the transaction is signed
  here, and once more by the controller.\<close>

definition register_prepare ::
  "send_ctx \<Rightarrow> register_lib \<Rightarrow> parent \<Rightarrow> string + send_conn \<Rightarrow> string \<Rightarrow> string \<Rightarrow> string \<Rightarrow>
   send_error + nat \<times> send_conn option \<times> Transaction" where
  "register_prepare C B p rec privateKey publickey chainId =
     (case big_SetString chainId of
        None \<Rightarrow> Inl ErrChainIdText
      | Some bigIntChainId \<Rightarrow>
          (case CreateSignedSetBLSPublicKeyTx (tx_of C) B privateKey publickey bigIntChainId of
             Inl e \<Rightarrow> Inl e
           | Inr ethTx \<Rightarrow>
               (case ensure_parent p rec of
                  Inl e \<Rightarrow> Inl e
                | Inr (k, con) \<Rightarrow>
                    if eth_Sender (tx_of C) (EIP155Signer bigIntChainId) ethTx = None then Inl ErrNoSender
                    else (case NewTransactionFromEth (tx_of C) ethTx of
                            Inl e \<Rightarrow> Inl (ErrFromEth e)
                          | Inr t \<Rightarrow> Inr (k, con, SetSign (tx_of C) (x_priv C) t)))))"

definition RegisterBlsForAccount ::
  "send_ctx \<Rightarrow> register_lib \<Rightarrow> parent \<Rightarrow> string + send_conn \<Rightarrow> string \<Rightarrow> string \<Rightarrow> string \<Rightarrow> send_run" where
  "RegisterBlsForAccount C B p rec privateKey publickey chainId =
     (case register_prepare C B p rec privateKey publickey chainId of
        Inl e \<Rightarrow> (SendFails e, [])
      | Inr (k, con, t) \<Rightarrow> then_await C matchByTxHash (60 * 1000000000) [] k (SendNewTransaction C con t))"

text \<open>\<^verbatim>\<open>RegisterBlsForAccountAsync\<close> returns the hash without waiting.\<close>

definition RegisterBlsForAccountAsync ::
  "send_ctx \<Rightarrow> register_lib \<Rightarrow> parent \<Rightarrow> string + send_conn \<Rightarrow> string \<Rightarrow> string \<Rightarrow> string \<Rightarrow>
   (send_error + bytes) \<times> (nat \<times> pbMessage) list" where
  "RegisterBlsForAccountAsync C B p rec privateKey publickey chainId =
     (case register_prepare C B p rec privateKey publickey chainId of
        Inl e \<Rightarrow> (Inl e, [])
      | Inr (k, con, t) \<Rightarrow>
          (case SendNewTransaction C con t of
             ((_, Some e), ms) \<Rightarrow> (Inl e, tagged k ms)
           | ((_, None), ms) \<Rightarrow> (Inr (fst (Transaction.Hash (tx_of C) t)), tagged k ms)))"

text \<open>\<open>publickey\<close> is the text of the client's own public key.\<close>

definition AddAccountForClient ::
  "send_ctx \<Rightarrow> register_lib \<Rightarrow> parent \<Rightarrow> string + send_conn \<Rightarrow> string \<Rightarrow> string \<Rightarrow> string \<Rightarrow> send_run" where
  "AddAccountForClient C B p rec publickey privateKey chainId =
     RegisterBlsForAccount C B p rec privateKey publickey chainId"

subsection \<open>Subscriptions\<close>

fun subscribe_all :: "send_ctx \<Rightarrow> send_conn option \<Rightarrow> bytes list \<Rightarrow> send_error option \<times> pbMessage list" where
  "subscribe_all C con [] = (None, [])"
| "subscribe_all C con (a # as) =
     (case tc_bytes C con ''SubscribeToAddress'' a of
        (Some e, ms) \<Rightarrow> (Some e, ms)
      | (None, ms) \<Rightarrow> (case subscribe_all C con as of (e, ms') \<Rightarrow> (e, ms @ ms')))"

text \<open>The addresses are kept before they are sent; after a reconnection all of them are sent again. When
  all are sent, the handler gets a new unbuffered channel for the logs.\<close>

definition ParentSubcribes ::
  "send_ctx \<Rightarrow> send_conn option \<Rightarrow> bytes list \<Rightarrow> client_handler \<Rightarrow> bytes list \<Rightarrow>
   send_error option \<times> pbMessage list \<times> bytes list \<times> client_handler" where
  "ParentSubcribes C con subscribed h addrs =
     (case subscribe_all C con addrs of
        (Some e, ms) \<Rightarrow> (Some e, ms, subscribed @ addrs, h)
      | (None, ms) \<Rightarrow> (None, ms, subscribed @ addrs, h\<lparr>hc_eventLog := Some (make_chan 0)\<rparr>))"

definition reSubscribeToAddresses :: "send_ctx \<Rightarrow> parent \<Rightarrow> bytes list \<Rightarrow> send_error option \<times> pbMessage list" where
  "reSubscribeToAddresses C p subscribed =
     (if \<not> IsParentConnected p then (Some ErrNotConnected, []) else subscribe_all C (p_conn p) subscribed)"
subsection \<open>Properties\<close>

text \<open>The signatures that the methods put into a message: the BLS signature of its hash, and the secp256k1
  signature of its signing hash, in \<open>R\<close>, \<open>S\<close> and \<open>V\<close>.\<close>

definition bls_signed :: "tx_lib \<Rightarrow> bytes \<Rightarrow> pb_Transaction \<Rightarrow> bool" where
  "bls_signed X priv p \<longleftrightarrow> tx_Sign p = bls_Sign X priv (digest X (hash_data p))"

definition secp_signed :: "tx_lib \<Rightarrow> bytes \<Rightarrow> pb_Transaction \<Rightarrow> bool" where
  "secp_signed X key p \<longleftrightarrow> tx_Type p = 0xFF \<and> tx_Sign p = [] \<and> length (tx_R p) = 32 \<and> length (tx_S p) = 32 \<and>
     secp_Sign X (signing_digest X p) key = Some (tx_R p @ tx_S p @ tx_V p)"

lemma SetSign_signed:
  assumes "coherent X t"
  shows "bls_signed X priv (tproto (SetSign X priv t))" "coherent X (SetSign X priv t)"
proof -
  obtain h t' where h: "Transaction.Hash X t = (h, t')" by fastforce
  then have "h = digest X (hash_data (tproto t))" "tproto t' = tproto t"
    using coherent_hashes(1) [OF assms] tproto_hashes(1) [of X t] by simp_all
  then show "bls_signed X priv (tproto (SetSign X priv t))" by (simp add: bls_signed_def SetSign_def on_proto_def h)
  show "coherent X (SetSign X priv t)" using assms by (rule coherent_SetSign)
qed

lemma SignSecpProto_signed:
  assumes "SignSecpProto X (Some key) t = (None, t')"
  shows "secp_signed X key (tproto t')" "coherent X t'"
proof -
  let ?t0 = "ClearCacheHash (on_proto (\<lambda>p. p\<lparr>tx_Type := 0xFF, tx_Sign := []\<rparr>) t)"
  obtain h t1 where h: "SigningHash X ?t0 = (h, t1)" by fastforce
  have t1: "tproto t1 = tproto ?t0" using tproto_hashes(2) [of X ?t0] unfolding h by simp
  then have h': "h = signing_digest X (tproto t1)" "tproto t1 = (tproto t)\<lparr>tx_Type := 0xFF, tx_Sign := []\<rparr>"
    using coherent_hashes(2) [OF coherent_cleared, of X "on_proto (\<lambda>p. p\<lparr>tx_Type := 0xFF, tx_Sign := []\<rparr>) t"]
    unfolding h by (simp, simp add: ClearCacheHash_def on_proto_def)
  obtain sig where sig: "secp_Sign X h key = Some sig" "length sig = 65"
    "t' = ClearCacheHash (on_proto (\<lambda>p. p\<lparr>tx_R := take 32 sig, tx_S := take 32 (drop 32 sig), tx_V := [sig ! 64]\<rparr>) t1)"
    using assms h by (auto simp: SignSecpProto_def Let_def go_copy_same_length split: option.splits if_splits)
  then have p: "tproto t' = (tproto t1)\<lparr>tx_R := take 32 sig, tx_S := take 32 (drop 32 sig), tx_V := [sig ! 64]\<rparr>"
    by (simp add: ClearCacheHash_def on_proto_def)
  then have "signing_digest X (tproto t') = h" unfolding h'(1) by (simp add: signing_digest_def)
  then show "secp_signed X key (tproto t')" using sig(1,2) split65 [OF sig(2)] p h'(2) by (simp add: secp_signed_def)
  show "coherent X t'" by (simp add: sig(3))
qed

lemma new_coherent:
  "coherent X (NewTransaction a b c d e f g h i j k l)"
  "coherent X (NewTransactionWithoutNonce a b c d e f g h i j l)"
  by (simp_all add: NewTransaction_def NewTransactionWithoutNonce_def coherent_setters)

lemma tc_bytes_ok:
  assumes "tc_bytes C con cmd b = (None, ms)"
  obtains m where "ms = [m]" "Command (Some m) = cmd" "Body (Some m) = b"
  using assms
  by (auto simp: tc_bytes_def MessageSender_SendBytes_def SendBytes_def generateMessage_def NewMessage_def
      getHeaderForCommand_def Command_def Body_def msg_header_def empty_Header_def Let_def split: option.splits prod.splits)

text \<open>The transaction in a message, as a node reads it: \<open>dec\<close> decodes a transaction, \<open>decKey\<close> one with a device key.\<close>

definition read_tx ::
  "(bytes \<Rightarrow> pb_Transaction option) \<Rightarrow> (bytes \<Rightarrow> (pb_Transaction \<times> bytes) option) \<Rightarrow> pbMessage \<Rightarrow> pb_Transaction option" where
  "read_tx dec decKey m =
     (if Command (Some m) = ''SendTransactionWithDeviceKey'' then map_option fst (decKey (Body (Some m)))
      else dec (Body (Some m)))"

text \<open>The decoders read what protobuf writes.\<close>

definition wire_ok ::
  "send_ctx \<Rightarrow> (bytes \<Rightarrow> pb_Transaction option) \<Rightarrow> (bytes \<Rightarrow> (pb_Transaction \<times> bytes) option) \<Rightarrow> bool" where
  "wire_ok C dec decKey \<longleftrightarrow> (\<forall>p b. mar_Tx (x_lib C) p = Some b \<longrightarrow> dec b = Some p) \<and>
     (\<forall>q b. mar_TxDeviceKey (x_lib C) q = Some b \<longrightarrow> decKey b = Some q)"

text \<open>What a run of a sending method has done when it waits for a receipt: a node reads from its last message
  a transaction with the hash that is waited for, and \<open>isSigned\<close> holds for it.\<close>

definition awaits_sent :: "tx_lib \<Rightarrow> (pbMessage \<Rightarrow> pb_Transaction option) \<Rightarrow> (pb_Transaction \<Rightarrow> bool) \<Rightarrow> send_run \<Rightarrow> bool" where
  "awaits_sent X rd isSigned res \<longleftrightarrow> (case res of
     (AwaitReceipt t h mt timeout, ms) \<Rightarrow>
       \<exists>k m q. ms \<noteq> [] \<and> last ms = (k, m) \<and> rd m = Some q \<and>
         fst (Transaction.Hash X (TransactionFromProto q)) = h \<and> isSigned q
   | _ \<Rightarrow> True)"

lemma awaits_sent_simps [simp]:
  "awaits_sent X rd isSigned (SendFails e, ms)" "awaits_sent X rd isSigned (WaitsForAccount, ms)"
  by (simp_all add: awaits_sent_def)

lemma awaits_sentD:
  assumes "awaits_sent X rd isSigned (AwaitReceipt t h mt timeout, ms)"
  shows "\<exists>k m q. ms \<noteq> [] \<and> last ms = (k, m) \<and> rd m = Some q \<and>
    fst (Transaction.Hash X (TransactionFromProto q)) = h \<and> isSigned q"
  using assms by (simp add: awaits_sent_def)

lemma awaits_sent_before: "awaits_sent X rd isSigned (res, ms) \<Longrightarrow> awaits_sent X rd isSigned (res, ms' @ ms)"
  by (auto simp: awaits_sent_def split: send_end.splits)

lemma then_await_sent:
  assumes "tc_bytes C con cmd b = (e, ms')" "coherent (tx_of C) t" "isSigned (tproto t)"
    and rd: "\<And>m. Command (Some m) = cmd \<Longrightarrow> Body (Some m) = b \<Longrightarrow> rd m = Some (tproto t)"
  shows "awaits_sent (tx_of C) rd isSigned (then_await C mt timeout ms k ((Some t, e), ms'))"
proof (cases e)
  case None
  with assms(1) obtain m where m: "ms' = [m]" "Command (Some m) = cmd" "Body (Some m) = b" by (metis tc_bytes_ok)
  have "fst (Transaction.Hash (tx_of C) (TransactionFromProto (tproto t))) = fst (Transaction.Hash (tx_of C) t)"
    using coherent_hashes(1) [OF assms(2)] coherent_hashes(1) [OF coherent_setters(1), of "tx_of C" "tproto t"]
    by (simp add: TransactionFromProto_def)
  then show ?thesis using None m(1) rd [OF m(2,3)] assms(3)
    by (auto simp: awaits_sent_def then_await_def tagged_def split: prod.split)
qed (simp add: then_await_def)

lemma sign_and_send_sent:
  assumes "wire_ok C dec decKey" "coherent (tx_of C) t" "cmd \<noteq> ''SendTransactionWithDeviceKey''"
  shows "awaits_sent (tx_of C) (read_tx dec decKey) (bls_signed (tx_of C) (x_priv C))
    (then_await C mt timeout ms k (sign_and_send C con cmd t))"
proof -
  let ?t = "SetSign (tx_of C) (x_priv C) t"
  show ?thesis
  proof (cases "mar_Tx (x_lib C) (tproto ?t)")
    case None
    then show ?thesis by (simp add: sign_and_send_def then_await_def Let_def)
  next
    case (Some b)
    have "awaits_sent (tx_of C) (read_tx dec decKey) (bls_signed (tx_of C) (x_priv C))
        (then_await C mt timeout ms k ((Some ?t, e), ms'))" if "tc_bytes C con cmd b = (e, ms')" for e ms'
      by (rule then_await_sent [OF that])
        (use assms(1,3) Some SetSign_signed [OF assms(2)] in \<open>simp_all add: read_tx_def wire_ok_def\<close>)
    with Some show ?thesis by (cases "tc_bytes C con cmd b") (simp add: sign_and_send_def Let_def)
  qed
qed

lemma sign_and_send_with_key_sent:
  assumes "wire_ok C dec decKey" "coherent (tx_of C) t"
  shows "awaits_sent (tx_of C) (read_tx dec decKey) (bls_signed (tx_of C) (x_priv C))
    (then_await C mt timeout ms k (sign_and_send_with_key C con t rawKey))"
proof -
  let ?t = "SetSign (tx_of C) (x_priv C) t" and ?cmd = "''SendTransactionWithDeviceKey''"
  show ?thesis
  proof (cases "mar_TxDeviceKey (x_lib C) (tproto ?t, rawKey)")
    case None
    then show ?thesis by (simp add: sign_and_send_with_key_def then_await_def Let_def)
  next
    case (Some b)
    have "awaits_sent (tx_of C) (read_tx dec decKey) (bls_signed (tx_of C) (x_priv C))
        (then_await C mt timeout ms k ((Some ?t, e), ms'))" if "tc_bytes C con ?cmd b = (e, ms')" for e ms'
      by (rule then_await_sent [OF that])
        (use assms(1) Some SetSign_signed [OF assms(2)] in \<open>simp_all add: read_tx_def wire_ok_def\<close>)
    with Some show ?thesis by (cases "tc_bytes C con ?cmd b") (simp add: sign_and_send_with_key_def Let_def)
  qed
qed

lemma secp_sent:
  assumes "wire_ok C dec decKey"
  shows "awaits_sent (tx_of C) (read_tx dec decKey) (secp_signed (tx_of C) key)
    (SendSecpProtoTransactionWithNonce C p rec pub key toA amount maxGas maxGasPrice data n)"
proof -
  have "awaits_sent (tx_of C) (read_tx dec decKey) (secp_signed (tx_of C) key)
      (then_await C mt timeout [] k ((Some t', e), ms))"
    if "SignSecpProto (tx_of C) (Some key) t = (None, t')" "mar_Tx (x_lib C) (tproto t') = Some b"
      "tc_bytes C con ''SendTransaction'' b = (e, ms)" for mt timeout k t t' b con e ms
    by (rule then_await_sent [OF that(3)])
      (use assms that(2) SignSecpProto_signed [OF that(1)] in \<open>simp_all add: read_tx_def wire_ok_def\<close>)
  then show ?thesis
    unfolding SendSecpProtoTransactionWithNonce_def Let_def by (auto split: sum.split prod.split option.split)
qed

lemma secp_account_sent:
  assumes "wire_ok C dec decKey"
  shows "awaits_sent (tx_of C) (read_tx dec decKey) (secp_signed (tx_of C) key)
    (SendSecpProtoTransaction C p rec accounts pub key toA amount maxGas maxGasPrice data)"
proof -
  have "awaits_sent (tx_of C) (read_tx dec decKey) (secp_signed (tx_of C) key)
      (case SendSecpProtoTransactionWithNonce C p rec pub key toA amount maxGas maxGasPrice data n of
         (res, ms') \<Rightarrow> (res, tagged 0 ms @ ms'))" for n ms
    using secp_sent [OF assms, of key p rec pub toA amount maxGas maxGasPrice data n]
    by (cases "SendSecpProtoTransactionWithNonce C p rec pub key toA amount maxGas maxGasPrice data n")
      (simp add: awaits_sent_before)
  then show ?thesis
    by (auto simp: SendSecpProtoTransaction_def client_AccountState_def Let_def split: list.split)
qed

lemma senders_sent:
  fixes C :: send_ctx
  defines "sent \<equiv> \<lambda>dec decKey. awaits_sent (tx_of C) (read_tx dec decKey) (bls_signed (tx_of C) (x_priv C))"
  assumes "wire_ok C dec decKey"
  shows "sent dec decKey (client_SendTransaction C p rec fromA toA amount data related maxGas maxGasPrice maxTimeUse n)"
    "sent dec decKey (client_ReadTransaction C p rec accounts ask fromA toA amount data related maxGas maxGasPrice maxTimeUse)"
    "sent dec decKey (client_ReadTransactionWithoutNonce C p rec accounts fromA toA amount data related maxGas maxGasPrice maxTimeUse)"
    "sent dec decKey (client_EstimateGas C p rec fromA toA amount data related maxGas maxGasPrice maxTimeUse)"
    "sent dec decKey (SendTransactionWithFullInfo C p rec accounts fromA toA amount maxGas maxGasPrice maxTimeUse data related
       lastKey newKey)"
  using sign_and_send_sent [OF assms(2) new_coherent(1)] sign_and_send_sent [OF assms(2) new_coherent(2)]
  by (simp_all add: sent_def client_SendTransaction_def client_ReadTransaction_def client_ReadTransactionWithoutNonce_def
      client_EstimateGas_def SendTransactionWithFullInfo_def tc_SendTransaction_def tc_ReadTransaction_def
      tc_ReadTransactionWithoutNonce_def tc_EstimateGas_def Let_def split: sum.split prod.split list.split)

lemma device_sent:
  assumes "wire_ok C dec decKey"
  shows "awaits_sent (tx_of C) (read_tx dec decKey) (bls_signed (tx_of C) (x_priv C))
    (client_SendTransactionWithDeviceKey C p rec fuel accounts keys now fromA toA amount data related maxGas maxGasPrice
       maxTimeUse)"
  using sign_and_send_with_key_sent [OF assms new_coherent(1)]
  by (simp add: client_SendTransactionWithDeviceKey_def tc_SendTransactionWithDeviceKey_def
      split: prod.split device_step.split)

lemma register_sent:
  assumes "wire_ok C dec decKey"
  shows "awaits_sent (tx_of C) (read_tx dec decKey) (bls_signed (tx_of C) (x_priv C))
    (RegisterBlsForAccount C B p rec privateKey publickey chainId)"
proof (cases "register_prepare C B p rec privateKey publickey chainId")
  case (Inl e)
  then show ?thesis by (simp add: RegisterBlsForAccount_def)
next
  case (Inr r)
  obtain k con t where r: "r = (k, con, t)" by (cases r) auto
  have "coherent (tx_of C) t"
    using Inr unfolding r
    by (auto simp: register_prepare_def NewTransactionFromEth_def intro!: coherent_SetSign coherent_setters(1)
        split: option.splits sum.splits if_splits prod.splits)
  with Inr sign_and_send_sent [OF assms] show ?thesis by (simp add: r RegisterBlsForAccount_def SendNewTransaction_def)
qed

text \<open>C18. A client waits for the receipt of the transaction it sent, and that transaction is signed. Let one of
  the methods of \<^verbatim>\<open>client.go\<close> that wait for a receipt (sending, reading with and without a nonce, estimating,
  sending with full information, with a device key and with a secp256k1 signature, registering a BLS key)
  end by waiting, on whatever connection and after whatever reconnection. Then its last message carries a
  transaction from which a node that decodes it computes exactly the hash that is waited for. It carries
  the BLS signature of that hash under the key of the client, and the methods for secp256k1 put the
  signature of its signing hash under the given key into \<open>R\<close>, \<open>S\<close> and \<open>V\<close>.\<close>

theorem client_awaits_sent_transaction:
  assumes run: "res \<in> {client_SendTransaction C p rec fromA toA amount data related maxGas maxGasPrice maxTimeUse n,
        client_ReadTransaction C p rec accounts ask fromA toA amount data related maxGas maxGasPrice maxTimeUse,
        client_ReadTransactionWithoutNonce C p rec accounts fromA toA amount data related maxGas maxGasPrice maxTimeUse,
        client_EstimateGas C p rec fromA toA amount data related maxGas maxGasPrice maxTimeUse,
        SendTransactionWithFullInfo C p rec accounts fromA toA amount maxGas maxGasPrice maxTimeUse data related
          lastKey newKey,
        client_SendTransactionWithDeviceKey C p rec fuel accounts keys now fromA toA amount data related maxGas
          maxGasPrice maxTimeUse,
        RegisterBlsForAccount C B p rec privateKey publickey chainId,
        AddAccountForClient C B p rec publickey privateKey chainId} \<and>
      isSigned = bls_signed (tx_of C) (x_priv C) \<or>
      res \<in> {SendSecpProtoTransactionWithNonce C p rec pub key toA amount maxGas maxGasPrice data n,
        SendSecpProtoTransaction C p rec accounts pub key toA amount maxGas maxGasPrice data} \<and>
      isSigned = secp_signed (tx_of C) key"
    and waits: "res = (AwaitReceipt t h mt timeout, ms)"
    and wire: "wire_ok C dec decKey"
  shows "\<exists>k m q. ms \<noteq> [] \<and> last ms = (k, m) \<and> read_tx dec decKey m = Some q \<and>
    fst (Transaction.Hash (tx_of C) (TransactionFromProto q)) = h \<and> isSigned q"
proof -
  have "awaits_sent (tx_of C) (read_tx dec decKey) isSigned res"
    using run unfolding insert_iff empty_iff
    by (elim disjE conjE FalseE) (simp_all add: senders_sent [OF wire] device_sent [OF wire] register_sent [OF wire]
        AddAccountForClient_def secp_sent [OF wire] secp_account_sent [OF wire])
  then show ?thesis unfolding waits by (rule awaits_sentD)
qed

text \<open>A call without a nonce waits under the receipt hash of its transaction, whatever nonce the node
  then gives it.\<close>

lemma read_without_nonce_hash:
  assumes "client_ReadTransactionWithoutNonce C p rec accounts fromA toA amount data related maxGas maxGasPrice maxTimeUse =
    (AwaitReceipt t h mt timeout, ms)"
  shows "mt = matchByReceiptHash \<and>
    fst (tx_RHash (tx_of C) (TransactionFromProto ((tproto t)\<lparr>tx_Nonce := n\<rparr>))) = h"
  using assms
  by (auto simp: client_ReadTransactionWithoutNonce_def tc_ReadTransactionWithoutNonce_def sign_and_send_def then_await_def
      tx_RHash_def Transaction.Hash_def SetSign_def on_proto_def NewTransactionWithoutNonce_def TransactionFromProto_def
      hash_data_def rhash_data_def zero_tx_def Let_def split: sum.splits prod.splits option.splits if_splits)

lemma take_account_first:
  assumes "\<forall>b\<in>set pre. as_address b \<noteq> addr" "as_address a = addr" "length pre < fuel"
  shows "take_account fuel addr (pre @ a # post) = Some (a, post @ pre)"
  using assms
proof (induction pre arbitrary: post fuel)
  case Nil
  then show ?case by (cases fuel) auto
next
  case (Cons b pre)
  then obtain f where "fuel = Suc f" "length pre < f" by (cases fuel) auto
  with Cons.IH [of f "post @ [b]"] Cons.prems show ?case by simp
qed

lemma take_account_none: "\<forall>b\<in>set q. as_address b \<noteq> addr \<Longrightarrow> take_account fuel addr q = None"
  by (induction fuel addr q rule: take_account.induct) auto

text \<open>C20. The loop that waits for its own account ends when the channel holds an account with the
  address, after at most as many rounds as the channel has entries; it takes the first such account
  and gives every other account back. When there is none, no number of rounds ends it.\<close>

theorem take_account_terminates:
  "if \<exists>a\<in>set q. as_address a = addr
   then \<exists>pre a post. q = pre @ a # post \<and> as_address a = addr \<and> (\<forall>b\<in>set pre. as_address b \<noteq> addr) \<and>
     (\<forall>fuel. length q \<le> fuel \<longrightarrow> take_account fuel addr q = Some (a, post @ pre))
   else \<forall>fuel. take_account fuel addr q = None"
proof (cases "\<exists>a\<in>set q. as_address a = addr")
  case True
  then obtain pre a post where "q = pre @ a # post" "as_address a = addr" "\<forall>b\<in>set pre. as_address b \<noteq> addr"
    using split_list_first_prop [of q "\<lambda>a. as_address a = addr"] by blast
  then show ?thesis using True take_account_first [of pre addr a _ post] by (auto intro!: exI)
next
  case False
  then show ?thesis using take_account_none by auto
qed

theorem take_account_terminates_witness:
  "\<exists>pre a post. [NewAccountState [1], NewAccountState [2], NewAccountState [3]] = pre @ a # post \<and>
     take_account 3 [2] [NewAccountState [1], NewAccountState [2], NewAccountState [3]] = Some (a, post @ pre)"
proof -
  let ?q = "[NewAccountState [1], NewAccountState [2], NewAccountState [3]]"
  have ex: "\<exists>a\<in>set ?q. as_address a = [2]" by (simp add: NewAccountState_def)
  show ?thesis
    using take_account_terminates [of ?q "[2]"] unfolding if_P [OF ex]
  proof (elim exE conjE)
    fix pre a post
    assume q: "?q = pre @ a # post" and t: "\<forall>fuel. length ?q \<le> fuel \<longrightarrow> take_account fuel [2] ?q = Some (a, post @ pre)"
    have "take_account 3 [2] ?q = Some (a, post @ pre)" by (rule t [rule_format]) simp
    with q show ?thesis by blast
  qed
qed

definition estimate_tx :: Transaction where
  "estimate_tx = SetSign ref_tx [5] (NewTransactionWithoutNonce [1] [2] 0 21000 1 0 [] [] zero_hash32 zero_hash32 991)"

definition estimate_ctx :: send_ctx where
  "estimate_ctx = \<lparr>x_lib = wire_lib\<lparr>cl_tx := ref_tx, mar_Tx := \<lambda>p. if p = tproto estimate_tx then Some [7] else None\<rparr>,
     x_priv = [5], x_version = [], x_uuid = id, x_chainId = 991, mar_Txs = \<lambda>_. None, unm_TxDeviceKey = \<lambda>_. None\<rparr>"

definition estimate_parent :: parent where
  "estimate_parent = \<lparr>p_conn = Some \<lparr>sc_Address = [3], sc_Send = \<lambda>_. None\<rparr>, p_up = True\<rparr>"

theorem client_awaits_sent_transaction_witness:
  "\<exists>t h ms. client_EstimateGas estimate_ctx estimate_parent (Inl []) [1] [2] 0 [] [] 21000 1 0 =
       (AwaitReceipt t h matchByTxHash 300000000000, ms) \<and>
     (\<exists>k m q. ms \<noteq> [] \<and> last ms = (k, m) \<and>
        read_tx (\<lambda>b. if b = [7] then Some (tproto estimate_tx) else None) (\<lambda>_. None) m = Some q \<and>
        fst (Transaction.Hash ref_tx (TransactionFromProto q)) = h \<and> bls_signed ref_tx [5] q)"
proof -
  let ?res = "client_EstimateGas estimate_ctx estimate_parent (Inl []) [1] [2] 0 [] [] 21000 1 0"
  have tx: "tx_of estimate_ctx = ref_tx" "x_priv estimate_ctx = [5]" by (simp_all add: tx_of_def estimate_ctx_def)
  obtain t h ms where r: "?res = (AwaitReceipt t h matchByTxHash 300000000000, ms)"
    by (cases "Transaction.Hash ref_tx estimate_tx")
      (auto simp: client_EstimateGas_def ensure_parent_def IsParentConnected_def estimate_parent_def tc_EstimateGas_def
        sign_and_send_def tx estimate_tx_def [symmetric] tc_bytes_def MessageSender_SendBytes_def SendBytes_def Let_def
        then_await_def estimate_ctx_def tx_of_def split: prod.split)
  let ?dec = "\<lambda>b. if b = [7] then Some (tproto estimate_tx) else None"
  have w: "wire_ok estimate_ctx ?dec (\<lambda>_. None)"
    by (auto simp: wire_ok_def estimate_ctx_def wire_lib_def split: if_splits)
  have "\<exists>k m q. ms \<noteq> [] \<and> last ms = (k, m) \<and> read_tx ?dec (\<lambda>_. None) m = Some q \<and>
      fst (Transaction.Hash (tx_of estimate_ctx) (TransactionFromProto q)) = h \<and>
      bls_signed (tx_of estimate_ctx) (x_priv estimate_ctx) q"
    by (rule client_awaits_sent_transaction [where p = estimate_parent and rec = "Inl []" and fromA = "[1]" and toA = "[2]"
        and amount = 0 and data = "[]" and related = "[]" and maxGas = 21000 and maxGasPrice = 1 and maxTimeUse = 0,
        OF _ r w]) simp
  then show ?thesis using r unfolding tx by blast
qed

end
