(* ===== verification/Socket_Server.thy ===== *)
theory Socket_Server
  imports Wire Connections Circuit_Breaker "HOL-Library.Multiset" "HOL-Library.AList" "HOL-Library.Sublist" "HOL-Library.List_Lexorder"
    "HOL-Library.Char_ord"
begin

text \<open>
  The server side of the network, \<^verbatim>\<open>src/pkg/network/handler.go\<close> and \<^verbatim>\<open>src/pkg/network/server.go\<close>: the
  routes of a handler with its counters, the pool of workers that take requests from one bounded
  channel, and the goroutines that feed this channel from the connections. A run of the server is a
  list of events, one step of one goroutine each; a panic is \<open>None\<close>. The capacity of the channel is
  taken to be positive, as the configuration has it. Routes are functions from a request to an error.
\<close>

subsection \<open>The handler\<close>

record tpsTracker =
  counts :: "(string \<times> int) list"
  lastLogTime :: int

record net_handler =
  routes :: "string \<rightharpoonup> (Request \<Rightarrow> string option)"
  circuitBreaker :: "CircuitBreaker option"
  tps :: tpsTracker

datatype route_error = InvalidRequest | UnknownCommand string | RouteError string

definition handleServerBusy :: "Request \<Rightarrow> string option" where
  "handleServerBusy r = None"

definition NewHandler :: "int \<Rightarrow> (string \<rightharpoonup> (Request \<Rightarrow> string option)) option \<Rightarrow> net_handler" where
  "NewHandler now rs0 =
     (let rs = (case rs0 of None \<Rightarrow> Map.empty | Some m \<Rightarrow> m) in
      \<lparr>routes = (if rs ''ServerBusy'' = None then rs(''ServerBusy'' \<mapsto> handleServerBusy) else rs),
       circuitBreaker = Some (NewCircuitBreaker (Some DefaultCircuitBreakerConfig)),
       tps = \<lparr>counts = [], lastLogTime = now\<rparr>\<rparr>)"

definition bump :: "string \<Rightarrow> (string \<times> int) list \<Rightarrow> (string \<times> int) list" where
  "bump cmd cs = AList.update cmd ((case map_of cs cmd of None \<Rightarrow> 0 | Some n \<Rightarrow> n) + 1) cs"

text \<open>A nil request or a request without a message is \<open>None\<close>. The deferred function that was to feed the
  circuit breaker is commented out, so the breaker is untouched.\<close>

definition net_HandleRequest :: "Request option \<Rightarrow> net_handler \<Rightarrow> route_error option \<times> net_handler" where
  "net_HandleRequest ro h0 =
     (case ro of
        None \<Rightarrow> (Some InvalidRequest, h0)
      | Some r \<Rightarrow>
          let cmd = Command (Some (req_message r));
              h = h0\<lparr>tps := (tps h0)\<lparr>counts := bump cmd (counts (tps h0))\<rparr>\<rparr>
          in (case routes h cmd of
                None \<Rightarrow> (Some (UnknownCommand cmd), h)
              | Some route \<Rightarrow> (map_option RouteError (route r), h)))"

text \<open>One tick of \<^verbatim>\<open>logTPS\<close>: the counts of the interval in the order of the routes, and the reset. The
  rates it prints are these counts divided by the interval; times are in nanoseconds.\<close>

definition logTPS_tick :: "int \<Rightarrow> net_handler \<Rightarrow> (string \<times> int) list \<times> net_handler" where
  "logTPS_tick now h =
     (let t = tps h in
      if now - lastLogTime t < 50000000 then ([], h)
      else (filter (\<lambda>(_, n). n > 0)
              (map (\<lambda>k. (k, case map_of (counts t) k of None \<Rightarrow> 0 | Some n \<Rightarrow> n)) (sort (remdups (map fst (counts t))))),
            h\<lparr>tps := \<lparr>counts = [], lastLogTime = now\<rparr>\<rparr>))"

definition ResetCircuitBreaker :: "net_handler \<Rightarrow> net_handler" where
  "ResetCircuitBreaker h = h\<lparr>circuitBreaker := map_option cb_Reset (circuitBreaker h)\<rparr>"

definition GetCircuitBreakerStats :: "net_handler \<Rightarrow> cb_stats option" where
  "GetCircuitBreakerStats h = map_option GetStats (circuitBreaker h)"

subsection \<open>The server\<close>

text \<open>
  Contexts are numbers, \<open>sv_cancelled\<close> holds those that are done. A goroutine in its select waits on the
  context that was current when it entered the select, which is the argument of \<open>Idle\<close> for a worker and the
  value of \<open>sv_conns\<close> for \<^verbatim>\<open>HandleConnection\<close>. The fields from \<open>sv_received\<close> on record what happened: every
  request a connection has forwarded, those the workers have taken, those they have finished with the error
  of the handler, those that were dropped, the messages sent, the calls of the registered callbacks, and the
  connections that were disconnected.
\<close>

datatype worker = Idle nat | Busy Request | Stopped

record server =
  sv_handler :: net_handler
  sv_cm :: ConnectionsManager
  sv_config :: Config
  sv_keyAddress :: bytes
  sv_onConnected :: "nat list"
  sv_onDisconnected :: "nat list"
  sv_ctx :: nat
  sv_cancelled :: "nat set"
  sv_queue :: "Request list"
  sv_closed :: bool
  sv_workers :: "worker list"
  sv_conns :: "nat \<rightharpoonup> nat"
  sv_received :: "Request list"
  sv_taken :: "Request list"
  sv_processed :: "(Request \<times> route_error option) list"
  sv_dropped :: "Request list"
  sv_sent :: "(nat \<times> pbMessage) list"
  sv_called :: "(nat \<times> nat) list"
  sv_disconnected :: "nat list"

datatype server_error = ErrNilKeyPair | ErrNilConnectionsManager | ErrNilHandler

definition NewSocketServer ::
  "int \<Rightarrow> Config option \<Rightarrow> bytes option \<Rightarrow> ConnectionsManager option \<Rightarrow> net_handler option \<Rightarrow> server_error + server" where
  "NewSocketServer numCPU cfg key cmo ho =
     (let cfg' = (case cfg of None \<Rightarrow> DefaultConfig numCPU | Some c \<Rightarrow> c) in
      case key of
        None \<Rightarrow> Inl ErrNilKeyPair
      | Some a \<Rightarrow>
          (case cmo of
             None \<Rightarrow> Inl ErrNilConnectionsManager
           | Some cm \<Rightarrow>
               (case ho of
                  None \<Rightarrow> Inl ErrNilHandler
                | Some h \<Rightarrow>
                    Inr \<lparr>sv_handler = h, sv_cm = cm, sv_config = cfg', sv_keyAddress = a, sv_onConnected = [],
                         sv_onDisconnected = [], sv_ctx = 0, sv_cancelled = {}, sv_queue = [], sv_closed = False,
                         sv_workers = [], sv_conns = Map.empty, sv_received = [], sv_taken = [], sv_processed = [],
                         sv_dropped = [], sv_sent = [], sv_called = [], sv_disconnected = []\<rparr>)))"

definition startWorkerPool :: "server \<Rightarrow> server" where
  "startWorkerPool s = s\<lparr>sv_workers := sv_workers s @ replicate (nat (HandlerWorkerPoolSize (sv_config s))) (Idle (sv_ctx s))\<rparr>"

definition AddOnConnectedCallBack :: "nat \<Rightarrow> server \<Rightarrow> server" where
  "AddOnConnectedCallBack f s = s\<lparr>sv_onConnected := sv_onConnected s @ [f]\<rparr>"

definition AddOnDisconnectedCallBack :: "nat \<Rightarrow> server \<Rightarrow> server" where
  "AddOnDisconnectedCallBack f s = s\<lparr>sv_onDisconnected := sv_onDisconnected s @ [f]\<rparr>"

definition SetKeyPair :: "bytes option \<Rightarrow> server \<Rightarrow> server" where
  "SetKeyPair key s = (case key of None \<Rightarrow> s | Some a \<Rightarrow> s\<lparr>sv_keyAddress := a\<rparr>)"

text \<open>What the server uses of its surroundings: the connections, the id generator, the encoding of the
  \<^verbatim>\<open>InitConnection\<close> message with address, type and the flag \<^verbatim>\<open>Replace\<close>, its node type and version.\<close>

record server_env =
  se_conn :: conn_env
  se_uuid :: "nat \<Rightarrow> string"
  se_init :: "bytes \<Rightarrow> string \<Rightarrow> bool \<Rightarrow> bytes option"
  se_Send :: "nat \<Rightarrow> pbMessage \<Rightarrow> string option"
  se_nodeType :: string
  se_version :: string

definition server_conn :: "server_env \<Rightarrow> nat \<Rightarrow> send_conn" where
  "server_conn E c = \<lparr>sc_Address = conn_Address (se_conn E) c, sc_Send = se_Send E c\<rparr>"

definition OnConnect :: "server_env \<Rightarrow> nat \<Rightarrow> server \<Rightarrow> server" where
  "OnConnect E c s =
     (let address = (case ParentConnection (sv_cm s) of
                       Some p \<Rightarrow> conn_Address (se_conn E) p | None \<Rightarrow> sv_keyAddress s);
          sent = snd (SendMessage_util (se_uuid E (length (sv_sent s))) (Some (server_conn E c)) ''InitConnection''
                   (Some (se_init E address (se_nodeType E) True)) (se_version E))
      in s\<lparr>sv_sent := sv_sent s @ map (Pair c) sent, sv_called := sv_called s @ map (\<lambda>f. (f, c)) (sv_onConnected s)\<rparr>)"

definition OnDisconnect :: "server_env \<Rightarrow> nat \<Rightarrow> server \<Rightarrow> server" where
  "OnDisconnect E c s =
     s\<lparr>sv_cm := RemoveConnection (se_conn E) (sv_cm s) (Some c),
       sv_called := sv_called s @ map (\<lambda>f. (f, c)) (sv_onDisconnected s)\<rparr>"

text \<open>\<^verbatim>\<open>HandleConnection\<close> on a request: its select has a default case, so a full channel drops the request and
  answers \<^verbatim>\<open>ServerBusy\<close>; a select with a send on a closed channel panics. \<open>sv_sent\<close> holds the messages handed to
  \<^verbatim>\<open>SendMessage\<close>, whose error the code ignores. The channel is buffered, as \<^verbatim>\<open>RequestChanSize\<close> makes it; with capacity 0,
  where a send meets a waiting worker, the model drops every request.\<close>

definition forward :: "server_env \<Rightarrow> nat \<Rightarrow> Request option \<Rightarrow> server \<Rightarrow> server option" where
  "forward E c ro s0 =
     (let s = s0\<lparr>sv_conns := (sv_conns s0)(c \<mapsto> sv_ctx s0)\<rparr> in
      case ro of
        None \<Rightarrow> Some s
      | Some r \<Rightarrow>
          if sv_closed s then None
          else if int (length (sv_queue s)) < RequestChanSize (sv_config s)
          then Some (s\<lparr>sv_received := sv_received s @ [r], sv_queue := sv_queue s @ [r]\<rparr>)
          else Some (s\<lparr>sv_received := sv_received s @ [r], sv_dropped := sv_dropped s @ [r],
                 sv_sent := sv_sent s @ [(c, generateMessage (se_uuid E (length (sv_sent s)))
                   (conn_Address (se_conn E) c) ''ServerBusy'' [] (se_version E))]\<rparr>))"

text \<open>The deferred cleanup of \<^verbatim>\<open>HandleConnection\<close>.\<close>

definition end_connection :: "server_env \<Rightarrow> nat \<Rightarrow> server \<Rightarrow> server" where
  "end_connection E c s0 =
     (let s = OnDisconnect E c s0 in
      s\<lparr>sv_conns := (sv_conns s)(c := None), sv_disconnected := sv_disconnected s @ [c]\<rparr>)"

definition worker_take :: "nat \<Rightarrow> server \<Rightarrow> server" where
  "worker_take i s =
     (case sv_queue s of
        r # q \<Rightarrow> s\<lparr>sv_queue := q, sv_taken := sv_taken s @ [r], sv_workers := (sv_workers s)[i := Busy r]\<rparr>
      | [] \<Rightarrow> if sv_closed s then s\<lparr>sv_workers := (sv_workers s)[i := Stopped]\<rparr> else s)"

definition worker_done :: "nat \<Rightarrow> Request \<Rightarrow> server \<Rightarrow> server" where
  "worker_done i r s =
     (case net_HandleRequest (Some r) (sv_handler s) of (err, h) \<Rightarrow>
        s\<lparr>sv_handler := h, sv_processed := sv_processed s @ [(r, err)],
          sv_workers := (sv_workers s)[i := Idle (sv_ctx s)]\<rparr>)"

definition Stop :: "server \<Rightarrow> server option" where
  "Stop s = (if sv_closed s then None else Some (s\<lparr>sv_cancelled := insert (sv_ctx s) (sv_cancelled s), sv_closed := True\<rparr>))"

text \<open>\<^verbatim>\<open>SetContext\<close> cancels the context it replaces; its first argument is the new context unless it or its
  cancel function is nil.\<close>

definition SetContext :: "nat option \<Rightarrow> server \<Rightarrow> server" where
  "SetContext ctx s =
     (case ctx of None \<Rightarrow> s | Some k \<Rightarrow> s\<lparr>sv_cancelled := insert (sv_ctx s) (sv_cancelled s), sv_ctx := k\<rparr>)"

text \<open>A connected parent: it becomes the parent connection, is greeted, and its \<^verbatim>\<open>HandleConnection\<close> starts.\<close>

definition serve_parent :: "server_env \<Rightarrow> nat \<Rightarrow> server \<Rightarrow> server" where
  "serve_parent E c s =
     (let s' = OnConnect E c (s\<lparr>sv_cm := AddParentConnection (sv_cm s) (Some c)\<rparr>)
      in s'\<lparr>sv_conns := (sv_conns s')(c \<mapsto> sv_ctx s')\<rparr>)"

text \<open>The loop of \<^verbatim>\<open>RetryConnectToParent\<close> on the outcomes of its rounds: whether the context is done, the
  answer of \<^verbatim>\<open>Connect\<close>, and whether the context is done while it waits.\<close>

fun RetryConnectToParent :: "server_env \<Rightarrow> nat \<Rightarrow> (bool \<times> string option \<times> bool) list \<Rightarrow> server \<Rightarrow> server" where
  "RetryConnectToParent E c [] s = s"
| "RetryConnectToParent E c ((ctxDone, err, waitDone) # rounds) s =
     (if ctxDone then s
      else if err = None then serve_parent E c s
      else if waitDone then s else RetryConnectToParent E c rounds s)"

subsection \<open>Runs\<close>

datatype server_event =
    Accepts nat
  | Forwards nat "Request option"
  | ConnDone nat
  | ConnFails nat
  | WorkerTakes nat
  | WorkerStops nat
  | WorkerDone nat
  | NewContext "nat option"
  | StopServer

text \<open>An accepted connection is served by \<^verbatim>\<open>OnConnect\<close> and \<^verbatim>\<open>HandleConnection\<close> (\<open>Accepts\<close>). \<^verbatim>\<open>HandleConnection\<close>
  ends when its context is done (\<open>ConnDone\<close>), or when its channels are closed or give an error (\<open>ConnFails\<close>). An
  idle worker takes the next request or sees the closed channel (\<open>WorkerTakes\<close>), or its context is done
  (\<open>WorkerStops\<close>). An event of a goroutine that is not at that point changes nothing.\<close>

fun server_step :: "server_env \<Rightarrow> server \<Rightarrow> server_event \<Rightarrow> server option" where
  "server_step E s (Accepts c) =
     (let s' = OnConnect E c s in Some (s'\<lparr>sv_conns := (sv_conns s')(c \<mapsto> sv_ctx s')\<rparr>))"
| "server_step E s (Forwards c ro) = (if sv_conns s c = None then Some s else forward E c ro s)"
| "server_step E s (ConnDone c) =
     (case sv_conns s c of
        Some k \<Rightarrow> Some (if k \<in> sv_cancelled s then end_connection E c s else s) | None \<Rightarrow> Some s)"
| "server_step E s (ConnFails c) = Some (if sv_conns s c = None then s else end_connection E c s)"
| "server_step E s (WorkerTakes i) =
     Some (if i < length (sv_workers s) then
        (case sv_workers s ! i of Idle k \<Rightarrow> worker_take i s | _ \<Rightarrow> s) else s)"
| "server_step E s (WorkerStops i) =
     Some (if i < length (sv_workers s) then
        (case sv_workers s ! i of
           Idle k \<Rightarrow> if k \<in> sv_cancelled s then s\<lparr>sv_workers := (sv_workers s)[i := Stopped]\<rparr> else s | _ \<Rightarrow> s) else s)"
| "server_step E s (WorkerDone i) =
     Some (if i < length (sv_workers s) then
        (case sv_workers s ! i of Busy r \<Rightarrow> worker_done i r s | _ \<Rightarrow> s) else s)"
| "server_step E s (NewContext k) = Some (SetContext k s)"
| "server_step E s StopServer = Stop s"

fun server_run :: "server_env \<Rightarrow> server_event list \<Rightarrow> server \<Rightarrow> server option" where
  "server_run E [] s = Some s"
| "server_run E (e # es) s = Option.bind (server_step E s e) (server_run E es)"

text \<open>\<^verbatim>\<open>s.wg.Wait()\<close> in \<^verbatim>\<open>Stop\<close> returns when every worker has stopped.\<close>

definition stop_returns :: "server \<Rightarrow> bool" where
  "stop_returns s \<longleftrightarrow> sv_closed s \<and> list_all (\<lambda>w. w = Stopped) (sv_workers s)"
subsection \<open>No request is lost on the way to the workers\<close>

definition worker_request :: "worker \<Rightarrow> Request multiset" where
  "worker_request w = (case w of Busy r \<Rightarrow> {#r#} | _ \<Rightarrow> {#})"

definition in_progress :: "worker list \<Rightarrow> Request multiset" where
  "in_progress ws = sum_list (map worker_request ws)"

definition busy_answers :: "(nat \<times> pbMessage) list \<Rightarrow> nat" where
  "busy_answers ms = length (filter (\<lambda>(c, m). Command (Some m) = ''ServerBusy'') ms)"

definition server_inv :: "server \<Rightarrow> bool" where
  "server_inv s \<longleftrightarrow>
     int (length (sv_queue s)) \<le> max 0 (RequestChanSize (sv_config s)) \<and>
     mset (sv_received s) = mset (sv_taken s @ sv_queue s) + mset (sv_dropped s) \<and>
     subseq (sv_taken s @ sv_queue s) (sv_received s) \<and>
     mset (sv_taken s) = mset (map fst (sv_processed s)) + in_progress (sv_workers s) \<and>
     busy_answers (sv_sent s) = length (sv_dropped s)"

lemma in_progress_update:
  "i < length ws \<Longrightarrow> in_progress (ws[i := w]) + worker_request (ws ! i) = in_progress ws + worker_request w"
proof (induction ws arbitrary: i)
  case (Cons v ws)
  then show ?case by (cases i) (auto simp: in_progress_def ac_simps)
qed simp

lemma in_progress_idle:
  "in_progress (replicate n (Idle k)) = {#}"
  by (induction n) (simp_all add: in_progress_def worker_request_def)

lemma Command_generateMessage [simp]: "Command (Some (generateMessage u a cmd b v)) = cmd"
  by (simp add: Command_def msg_header_def generateMessage_def NewMessage_def getHeaderForCommand_def empty_Header_def)

lemma OnConnect_sent: "busy_answers (sv_sent (OnConnect E c s)) = busy_answers (sv_sent s)"
  by (auto simp: OnConnect_def Let_def SendMessage_util_def SendBytes_def busy_answers_def split: option.splits)

lemma OnConnect_inv: "server_inv s \<Longrightarrow> server_inv (OnConnect E c s)"
  using OnConnect_sent [of E c s] by (simp add: server_inv_def) (simp add: OnConnect_def Let_def)

lemma conns_inv [simp]: "server_inv (s\<lparr>sv_conns := x\<rparr>) = server_inv s"
  by (simp add: server_inv_def)

lemma end_connection_inv: "server_inv s \<Longrightarrow> server_inv (end_connection E c s)"
  by (simp add: server_inv_def end_connection_def OnDisconnect_def Let_def)

lemma forward_inv:
  assumes "server_inv s" "forward E c ro s = Some s'"
  shows "server_inv s'"
  using assms
  by (auto simp: forward_def Let_def server_inv_def busy_answers_def simp flip: append_assoc
    intro: list_emb_append_mono list_emb_append2 split: option.splits if_splits)

lemma worker_take_inv:
  assumes "server_inv s" "i < length (sv_workers s)" "sv_workers s ! i = Idle k"
  shows "server_inv (worker_take i s)"
proof -
  have u: "in_progress ((sv_workers s)[i := w]) = in_progress (sv_workers s) + worker_request w" for w
    using in_progress_update [OF assms(2), of w] assms(3) by (simp add: worker_request_def)
  show ?thesis
    using assms(1) by (auto simp: worker_take_def server_inv_def u worker_request_def split: list.splits)
qed

lemma worker_done_inv:
  assumes "server_inv s" "i < length (sv_workers s)" "sv_workers s ! i = Busy r"
  shows "server_inv (worker_done i r s)"
proof -
  have u: "in_progress (sv_workers s) = in_progress ((sv_workers s)[i := Idle k]) + {#r#}" for k
    using in_progress_update [OF assms(2), of "Idle k"] assms(3) by (simp add: worker_request_def)
  show ?thesis
    using assms(1) u [of "sv_ctx s"] by (auto simp: worker_done_def server_inv_def split: prod.splits)
qed

lemma worker_stop_inv:
  assumes "server_inv s" "i < length (sv_workers s)" "sv_workers s ! i = Idle k"
  shows "server_inv (s\<lparr>sv_workers := (sv_workers s)[i := Stopped]\<rparr>)"
  using assms(1) in_progress_update [OF assms(2), of Stopped] assms(3) by (simp add: server_inv_def worker_request_def)

lemma Stop_inv: "server_inv s \<Longrightarrow> Stop s = Some s' \<Longrightarrow> server_inv s'"
  by (auto simp: Stop_def server_inv_def split: if_splits)

lemma SetContext_inv: "server_inv s \<Longrightarrow> server_inv (SetContext k s)"
  by (simp add: SetContext_def server_inv_def split: option.split)

lemma server_step_inv:
  assumes "server_inv s" "server_step E s e = Some s'"
  shows "server_inv s'"
  using assms
  by (cases e) (auto simp: Let_def OnConnect_inv end_connection_inv worker_take_inv worker_done_inv worker_stop_inv
    SetContext_inv Stop_inv intro: forward_inv split: option.splits if_splits worker.splits)

lemma server_run_inv: "server_inv s \<Longrightarrow> server_run E es s = Some s' \<Longrightarrow> server_inv s'"
  by (induction es arbitrary: s) (auto simp: bind_eq_Some_conv dest: server_step_inv)

lemma new_server_inv:
  assumes "NewSocketServer n cfg key cm h = Inr s"
  shows "server_inv (startWorkerPool s)"
  using assms
  by (auto simp: NewSocketServer_def startWorkerPool_def server_inv_def in_progress_idle busy_answers_def Let_def
    split: option.splits)

text \<open>C12. However the goroutines of a server interleave (connections forwarding requests, workers, new
  contexts, a stop), as long as nothing panics: the central channel never holds more than its capacity, the
  workers take the accepted requests in the order in which they were forwarded, every forwarded request is
  taken, still queued or dropped, every taken one is handled once or being handled, and every dropped request
  was answered with exactly one \<^verbatim>\<open>ServerBusy\<close> message.\<close>

theorem server_requests_conserved:
  assumes "NewSocketServer n cfg key cm h = Inr s" "server_run E es (startWorkerPool s) = Some s'"
  shows "int (length (sv_queue s')) \<le> max 0 (RequestChanSize (sv_config s')) \<and>
    subseq (sv_taken s' @ sv_queue s') (sv_received s') \<and>
    mset (sv_received s') = mset (sv_taken s' @ sv_queue s') + mset (sv_dropped s') \<and>
    mset (sv_taken s') = mset (map fst (sv_processed s')) + in_progress (sv_workers s') \<and>
    busy_answers (sv_sent s') = length (sv_dropped s')"
  using server_run_inv [OF new_server_inv [OF assms(1)] assms(2)] by (auto simp: server_inv_def)
definition demo_config :: Config where
  "demo_config = (DefaultConfig 1)\<lparr>RequestChanSize := 1, HandlerWorkerPoolSize := 1\<rparr>"

definition demo_server_env :: server_env where
  "demo_server_env =
     \<lparr>se_conn = \<lparr>conn_Address = \<lambda>_. [], conn_Type = \<lambda>_. [], conn_IsConnect = \<lambda>_. True, address_Hex = \<lambda>_. []\<rparr>,
      se_uuid = \<lambda>_. [], se_init = \<lambda>_ _ _. Some [1], se_Send = \<lambda>_ _. None, se_nodeType = [], se_version = []\<rparr>"

definition demo_request :: "nat \<Rightarrow> string \<Rightarrow> Request" where
  "demo_request c cmd = NewRequest c (generateMessage [] [] cmd [] [])"

definition demo_server :: server where
  "demo_server =
     (case NewSocketServer 1 (Some demo_config) (Some []) (Some NewConnectionsManager)
        (Some (NewHandler 0 (Some [''Ping'' \<mapsto> \<lambda>_. None]))) of Inr s \<Rightarrow> s)"

lemma demo_server_new:
  "NewSocketServer 1 (Some demo_config) (Some []) (Some NewConnectionsManager)
     (Some (NewHandler 0 (Some [''Ping'' \<mapsto> \<lambda>_. None]))) = Inr demo_server"
  by (simp add: demo_server_def NewSocketServer_def)

lemmas demo_server_simps = demo_server_def NewSocketServer_def demo_config_def startWorkerPool_def demo_server_env_def
  demo_request_def NewRequest_def OnConnect_def forward_def worker_take_def worker_done_def net_HandleRequest_def NewHandler_def
  bump_def Let_def ParentConnection_def NewConnectionsManager_def SendMessage_util_def SendBytes_def server_conn_def

theorem server_requests_conserved_witness:
  "\<exists>s'. server_run demo_server_env
      [Accepts 1, Forwards 1 (Some (demo_request 1 ''Ping'')), Forwards 1 (Some (demo_request 1 ''Pong'')),
       WorkerTakes 0, WorkerDone 0] (startWorkerPool demo_server) = Some s' \<and>
     sv_processed s' = [(demo_request 1 ''Ping'', None)] \<and> length (sv_dropped s') = 1 \<and> busy_answers (sv_sent s') = 1"
proof -
  have "\<exists>s'. server_run demo_server_env
      [Accepts 1, Forwards 1 (Some (demo_request 1 ''Ping'')), Forwards 1 (Some (demo_request 1 ''Pong'')),
       WorkerTakes 0, WorkerDone 0] (startWorkerPool demo_server) = Some s' \<and>
     sv_processed s' = [(demo_request 1 ''Ping'', None)] \<and> length (sv_dropped s') = 1"
    by (simp add: demo_server_simps)
  then obtain s' where s: "server_run demo_server_env
      [Accepts 1, Forwards 1 (Some (demo_request 1 ''Ping'')), Forwards 1 (Some (demo_request 1 ''Pong'')),
       WorkerTakes 0, WorkerDone 0] (startWorkerPool demo_server) = Some s'"
     "sv_processed s' = [(demo_request 1 ''Ping'', None)] \<and> length (sv_dropped s') = 1"
    by blast
  show ?thesis using server_requests_conserved [OF demo_server_new s(1)] s by auto
qed

subsection \<open>The workers drain the channel\<close>

definition route_answer :: "net_handler \<Rightarrow> Request \<Rightarrow> route_error option" where
  "route_answer h r = fst (net_HandleRequest (Some r) h)"

lemma net_HandleRequest_routes: "routes (snd (net_HandleRequest ro h)) = routes h"
  by (auto simp: net_HandleRequest_def Let_def split: option.splits)

lemma route_answer_routes: "routes h = routes h' \<Longrightarrow> route_answer h = route_answer h'"
  by (auto simp: route_answer_def net_HandleRequest_def Let_def fun_eq_iff split: option.splits)

lemma worker_round:
  assumes "i < length (sv_workers s)" "sv_workers s ! i = Idle k" "sv_queue s = r # q"
  obtains s' where "server_run E [WorkerTakes i, WorkerDone i] s = Some s'" "sv_queue s' = q"
    "sv_processed s' = sv_processed s @ [(r, route_answer (sv_handler s) r)]" "length (sv_workers s') = length (sv_workers s)"
    "sv_workers s' ! i = Idle (sv_ctx s)" "route_answer (sv_handler s') = route_answer (sv_handler s)"
proof (rule that)
  let ?s = "worker_done i r (worker_take i s)"
  show "server_run E [WorkerTakes i, WorkerDone i] s = Some ?s"
    using assms by (simp add: worker_take_def)
  show "sv_queue ?s = q" "sv_processed ?s = sv_processed s @ [(r, route_answer (sv_handler s) r)]"
    "length (sv_workers ?s) = length (sv_workers s)" "sv_workers ?s ! i = Idle (sv_ctx s)"
    using assms by (auto simp: worker_done_def worker_take_def route_answer_def split: prod.splits)
  show "route_answer (sv_handler ?s) = route_answer (sv_handler s)"
    using assms(3) net_HandleRequest_routes [of "Some r" "sv_handler s"]
    by (intro route_answer_routes) (auto simp: worker_done_def worker_take_def split: prod.splits)
qed

lemma server_run_append: "server_run E (es @ fs) s = Option.bind (server_run E es s) (server_run E fs)"
  by (induction es arbitrary: s) (auto simp: Option.bind_assoc split: bind_splits)

text \<open>A server with an idle worker makes progress: as many rounds of this worker as there are queued
  requests empty the channel, and each request is handled once, in the order of the channel, with the answer
  of the route registered for its command (an error for an unknown command). The counters the handler updates
  never change which route a request gets.\<close>

theorem workers_drain_queue:
  assumes "i < length (sv_workers s)" "sv_workers s ! i = Idle k"
  shows "\<exists>s'. server_run E (concat (replicate (length (sv_queue s)) [WorkerTakes i, WorkerDone i])) s = Some s' \<and>
    sv_queue s' = [] \<and>
    sv_processed s' = sv_processed s @ map (\<lambda>r. (r, route_answer (sv_handler s) r)) (sv_queue s)"
  using assms
proof (induction "sv_queue s" arbitrary: s k)
  case (Cons r q)
  obtain s1 where s1: "server_run E [WorkerTakes i, WorkerDone i] s = Some s1" "sv_queue s1 = q"
    "sv_processed s1 = sv_processed s @ [(r, route_answer (sv_handler s) r)]" "length (sv_workers s1) = length (sv_workers s)"
    "sv_workers s1 ! i = Idle (sv_ctx s)" "route_answer (sv_handler s1) = route_answer (sv_handler s)"
    using worker_round [OF Cons.prems Cons.hyps(2) [symmetric]] by metis
  obtain s' where s': "server_run E (concat (replicate (length q) [WorkerTakes i, WorkerDone i])) s1 = Some s'"
    "sv_queue s' = []" "sv_processed s' = sv_processed s1 @ map (\<lambda>r. (r, route_answer (sv_handler s1) r)) q"
    using Cons.hyps(1) [of s1] s1 Cons.prems by auto
  have "server_run E (concat (replicate (length (sv_queue s)) [WorkerTakes i, WorkerDone i])) s = Some s'"
    using s'(1) s1(1) server_run_append [of E "[WorkerTakes i, WorkerDone i]" _ s] by (simp flip: Cons.hyps(2))
  then show ?case using s' s1 by (auto simp flip: Cons.hyps(2))
qed simp

lemma workers_drain_queue_example:
  "\<exists>s'. server_run demo_server_env (concat (replicate 1 [WorkerTakes 0, WorkerDone 0]))
       ((startWorkerPool demo_server)\<lparr>sv_queue := [demo_request 1 ''Pong'']\<rparr>) = Some s' \<and>
     sv_queue s' = [] \<and> sv_processed s' = [(demo_request 1 ''Pong'', Some (UnknownCommand ''Pong''))]"
  using workers_drain_queue [of 0 "(startWorkerPool demo_server)\<lparr>sv_queue := [demo_request 1 ''Pong'']\<rparr>" 0 demo_server_env]
  by (simp add: demo_server_simps route_answer_def)

subsection \<open>Stopping\<close>

lemma idle_workers_stop:
  assumes "k \<in> sv_cancelled s" "\<forall>j < length (sv_workers s). m \<le> j \<longrightarrow> sv_workers s ! j = Idle k" "m \<le> length (sv_workers s)"
  shows "server_run E (map WorkerStops [m..<length (sv_workers s)]) s =
    Some (s\<lparr>sv_workers := take m (sv_workers s) @ replicate (length (sv_workers s) - m) Stopped\<rparr>)"
  using assms
proof (induction "length (sv_workers s) - m" arbitrary: m s)
  case (Suc d)
  let ?s = "s\<lparr>sv_workers := (sv_workers s)[m := Stopped]\<rparr>"
  have m: "m < length (sv_workers s)" using Suc.hyps(2) by simp
  have "server_run E (map WorkerStops [Suc m..<length (sv_workers ?s)]) ?s =
    Some (?s\<lparr>sv_workers := take (Suc m) (sv_workers ?s) @ replicate (length (sv_workers ?s) - Suc m) Stopped\<rparr>)"
    using Suc.prems Suc.hyps(2) m by (intro Suc.hyps(1)) auto
  moreover have "length (sv_workers s) - m = Suc (length (sv_workers s) - Suc m)" using m by simp
  ultimately show ?case
    using Suc.prems m by (simp add: upt_rec [of m] take_Suc_conv_app_nth)
qed simp

text \<open>\<^verbatim>\<open>Stop\<close> cancels the context before it closes the channel, so a stop is not graceful: a second stop
  panics, a connection goroutine that forwards a request after the stop panics, and the idle workers may all
  leave on the cancelled context, so that \<^verbatim>\<open>Stop\<close> returns with every queued request unhandled, although its
  comment says that it waits for the remaining requests.\<close>

theorem Stop_hazards:
  assumes "\<not> sv_closed s" "sv_conns s c \<noteq> None" "\<forall>w \<in> set (sv_workers s). w = Idle (sv_ctx s)"
  shows "server_run E [StopServer, StopServer] s = None \<and>
    server_run E [StopServer, Forwards c (Some r)] s = None \<and>
    (\<exists>s'. server_run E (StopServer # map WorkerStops [0..<length (sv_workers s)]) s = Some s' \<and>
       stop_returns s' \<and> sv_queue s' = sv_queue s \<and> sv_processed s' = sv_processed s)"
proof -
  let ?s = "s\<lparr>sv_cancelled := insert (sv_ctx s) (sv_cancelled s), sv_closed := True\<rparr>"
  have "Stop s = Some ?s" using assms(1) by (simp add: Stop_def)
  moreover have "server_run E (map WorkerStops [0..<length (sv_workers ?s)]) ?s =
    Some (?s\<lparr>sv_workers := take 0 (sv_workers ?s) @ replicate (length (sv_workers ?s) - 0) Stopped\<rparr>)"
    using assms(3) by (intro idle_workers_stop [where k = "sv_ctx s"]) auto
  ultimately show ?thesis
    using assms(2) by (simp add: stop_returns_def forward_def Let_def list_all_iff) (simp add: Stop_def)
qed

lemma Stop_hazards_example:
  "\<exists>s. sv_queue s = [demo_request 1 ''Ping''] \<and> sv_workers s = [Idle 0] \<and>
     server_run demo_server_env [StopServer, Forwards 1 (Some (demo_request 1 ''Ping''))] s = None \<and>
     (\<exists>s'. server_run demo_server_env [StopServer, WorkerStops 0] s = Some s' \<and> stop_returns s' \<and>
        sv_queue s' = [demo_request 1 ''Ping''] \<and> sv_processed s' = [])"
  by (rule exI [of _ "(startWorkerPool demo_server)\<lparr>sv_queue := [demo_request 1 ''Ping''], sv_conns := [1 \<mapsto> 0]\<rparr>"])
    (use Stop_hazards [of "(startWorkerPool demo_server)\<lparr>sv_queue := [demo_request 1 ''Ping''], sv_conns := [1 \<mapsto> 0]\<rparr>" 1
       demo_server_env "demo_request 1 ''Ping''"] in \<open>simp add: demo_server_simps\<close>)

end
