(* ===== verification/Client_Reconnect.thy ===== *)
theory Client_Reconnect
  imports Client_Send Socket_Server
begin

text \<open>
  The TCP client over its server, \<^verbatim>\<open>src/pkg/client-tcp/client.go\<close>: how it connects to the parent again, what
  it does when a connection ends, and how it is closed. The state is the server of \<^verbatim>\<open>Socket_Server.thy\<close>; the
  list of subscribed addresses is an argument. Connections are numbers; the fresh connection of an attempt and
  the answer of its \<^verbatim>\<open>Connect\<close> are arguments.
\<close>

subsection \<open>Operations\<close>

definition ReconnectToParent :: "server_env \<Rightarrow> nat \<Rightarrow> string option \<Rightarrow> server \<Rightarrow> string option \<times> server" where
  "ReconnectToParent E c err s = (case err of Some e \<Rightarrow> (Some e, s) | None \<Rightarrow> (None, serve_parent E c s))"

definition parent_of :: "server_env \<Rightarrow> server \<Rightarrow> parent" where
  "parent_of E s =
     (case ParentConnection (sv_cm s) of
        None \<Rightarrow> \<lparr>p_conn = None, p_up = False\<rparr>
      | Some c \<Rightarrow> \<lparr>p_conn = Some (server_conn E c), p_up = conn_IsConnect (se_conn E) c\<rparr>)"

datatype reconnect_end = ContextDone | Reconnected "send_error option" | Trying

text \<open>The goroutine of \<^verbatim>\<open>handleParentDisconnectWithResubscribe\<close> on its rounds: whether the context is done,
  the fresh connection, and the answer of its \<^verbatim>\<open>Connect\<close>. The messages it sends are recorded with the number
  of the parent connection. The connection whose end started it is not looked at.\<close>

fun handleParentDisconnectWithResubscribe ::
  "server_env \<Rightarrow> send_ctx \<Rightarrow> bytes list \<Rightarrow> (bool \<times> nat \<times> string option) list \<Rightarrow> server \<Rightarrow> reconnect_end \<times> server" where
  "handleParentDisconnectWithResubscribe E C subscribed [] s = (Trying, s)"
| "handleParentDisconnectWithResubscribe E C subscribed ((ctxDone, c, answer) # rounds) s =
     (if ctxDone then (ContextDone, s)
      else (case ReconnectToParent E c answer s of
              (Some e, s1) \<Rightarrow> handleParentDisconnectWithResubscribe E C subscribed rounds s1
            | (None, s1) \<Rightarrow>
                if length subscribed > 0 then
                  (case reSubscribeToAddresses C (parent_of E s1) subscribed of
                     (e, ms) \<Rightarrow> (Reconnected e, s1\<lparr>sv_sent := sv_sent s1 @
                        (case ParentConnection (sv_cm s1) of None \<Rightarrow> [] | Some p \<Rightarrow> map (Pair p) ms)\<rparr>))
                else (Reconnected None, s1)))"

text \<open>\<^verbatim>\<open>RetryConnectToStorage\<close> on its rounds: the fresh connection and the answer of its \<^verbatim>\<open>Connect\<close>. It never
  returns; \<open>None\<close> is its panic, \<open>Some\<close> the state while it still tries.\<close>

fun RetryConnectToStorage :: "server_env \<Rightarrow> (nat \<times> string option) list \<Rightarrow> server \<Rightarrow> server option" where
  "RetryConnectToStorage E [] s = Some s"
| "RetryConnectToStorage E ((c, answer) # rounds) s =
     (if IsParentConnected (parent_of E s) then None
      else (case ReconnectToParent E c answer s of
              (Some e, s1) \<Rightarrow> RetryConnectToStorage E rounds s1
            | (None, s1) \<Rightarrow> None))"

text \<open>\<^verbatim>\<open>Close\<close>; \<open>None\<close> is the panic of a second \<^verbatim>\<open>Stop\<close>. The first component is \<^verbatim>\<open>keepAliveStop\<close> being set.\<close>

definition client_Close :: "bool \<times> server \<Rightarrow> (bool \<times> server) option" where
  "client_Close st =
     (case st of (keepAlive, s) \<Rightarrow>
        map_option (Pair False) (Stop (s\<lparr>sv_cm := AddParentConnection (sv_cm s) None\<rparr>)))"

definition SendQueryLogs :: "send_ctx \<Rightarrow> send_conn option \<Rightarrow> bytes \<Rightarrow> pbMessage list" where
  "SendQueryLogs C con bQuery = snd (tc_bytes C con ''QueryLogs'' bQuery)"

definition NewEventLogsChan :: "client_handler \<Rightarrow> client_handler" where
  "NewEventLogsChan h = h\<lparr>hc_eventLog := Some (make_chan 0)\<rparr>"

text \<open>\<^verbatim>\<open>Subcribe\<close> and \<^verbatim>\<open>Subcribes\<close>: a storage connection \<open>c\<close> with the answer of its \<^verbatim>\<open>Connect\<close>.\<close>

definition Subcribes ::
  "server_env \<Rightarrow> send_ctx \<Rightarrow> nat \<Rightarrow> string option \<Rightarrow> bytes list \<Rightarrow> server \<Rightarrow> client_handler \<Rightarrow>
   send_error option \<times> server \<times> client_handler" where
  "Subcribes E C c answer addrs s h =
     (case answer of
        Some e \<Rightarrow> (Some (ErrReconnect e), s, h)
      | None \<Rightarrow>
          let s1 = s\<lparr>sv_conns := (sv_conns s)(c \<mapsto> sv_ctx s)\<rparr> in
          (case subscribe_all C (Some (server_conn E c)) addrs of (e, ms) \<Rightarrow>
             (e, s1\<lparr>sv_sent := sv_sent s1 @ map (Pair c) ms\<rparr>, if e = None then NewEventLogsChan h else h)))"

definition Subcribe ::
  "server_env \<Rightarrow> send_ctx \<Rightarrow> nat \<Rightarrow> string option \<Rightarrow> bytes \<Rightarrow> server \<Rightarrow> client_handler \<Rightarrow>
   send_error option \<times> server \<times> client_handler" where
  "Subcribe E C c answer addr s h = Subcribes E C c answer [addr] s h"

subsection \<open>Reconnecting\<close>

lemma serve_parent_parent [simp]: "ParentConnection (sv_cm (serve_parent E c s)) = Some c"
  by (simp add: serve_parent_def OnConnect_def AddParentConnection_def ParentConnection_def Let_def)

lemma serve_parent_conns [simp]: "sv_conns (serve_parent E c s) = (sv_conns s)(c \<mapsto> sv_ctx s)"
  by (simp add: serve_parent_def OnConnect_def Let_def)

lemma serve_parent_sent:
  assumes "se_init E (conn_Address (se_conn E) c) (se_nodeType E) True = Some body"
  shows "sv_sent (serve_parent E c s) = sv_sent s @ [(c, generateMessage (se_uuid E (length (sv_sent s)))
    (conn_Address (se_conn E) c) ''InitConnection'' body (se_version E))]"
  using assms
  by (simp add: serve_parent_def OnConnect_def AddParentConnection_def ParentConnection_def Let_def SendMessage_util_def
      SendBytes_def server_conn_def)

definition subscription :: "server_env \<Rightarrow> send_ctx \<Rightarrow> nat \<Rightarrow> bytes \<Rightarrow> pbMessage" where
  "subscription E C c addr =
     generateMessage (x_uuid C ''SubscribeToAddress'') (conn_Address (se_conn E) c) ''SubscribeToAddress'' addr (x_version C)"

lemma subscribe_all_sends:
  assumes "\<And>m. se_Send E c m = None"
  shows "subscribe_all C (Some (server_conn E c)) addrs = (None, map (subscription E C c) addrs)"
  using assms
  by (induction addrs) (simp_all add: tc_bytes_def MessageSender_SendBytes_def SendBytes_def server_conn_def subscription_def Let_def)

lemma failing_rounds:
  "list_all (\<lambda>(d, c, answer). \<not> d \<and> answer \<noteq> None) failing \<Longrightarrow>
   handleParentDisconnectWithResubscribe E C subscribed (failing @ rounds) s =
   handleParentDisconnectWithResubscribe E C subscribed rounds s"
  by (induction failing) (auto simp: ReconnectToParent_def)

text \<open>C21. The client recovers its subscriptions: after any number of failed attempts, the first attempt that
  connects makes the fresh connection the parent, starts to serve it, and sends on it the greeting and then
  one subscription for every address subscribed so far, in order; nothing else is sent, and later rounds are
  not reached.\<close>

theorem reconnect_resubscribes:
  assumes "list_all (\<lambda>(d, c, answer). \<not> d \<and> answer \<noteq> None) failing"
    and "conn_IsConnect (se_conn E) c" "\<forall>m. se_Send E c m = None"
    and "se_init E (conn_Address (se_conn E) c) (se_nodeType E) True = Some body"
  shows "\<exists>s'. handleParentDisconnectWithResubscribe E C subscribed (failing @ (False, c, None) # rounds) s =
      (Reconnected None, s') \<and> ParentConnection (sv_cm s') = Some c \<and> sv_conns s' = (sv_conns s)(c \<mapsto> sv_ctx s) \<and>
    sv_sent s' = sv_sent s @ (c, generateMessage (se_uuid E (length (sv_sent s))) (conn_Address (se_conn E) c)
      ''InitConnection'' body (se_version E)) # map (\<lambda>a. (c, subscription E C c a)) subscribed"
  using assms(2-4)
  by (cases subscribed)
    (simp_all add: failing_rounds [OF assms(1)] ReconnectToParent_def parent_of_def reSubscribeToAddresses_def
      IsParentConnected_def serve_parent_sent subscribe_all_sends comp_def del: subscribe_all.simps)

subsection \<open>What goes wrong\<close>

text \<open>The callback is the one of every connection: when a peer that is not the parent disconnects, the client
  replaces a parent connection that is still served.\<close>

lemma peer_disconnect_replaces_parent:
  assumes "sv_conns s peer \<noteq> None" "ParentConnection (sv_cm s) = Some p" "p \<noteq> peer" "sv_conns s p \<noteq> None" "c \<noteq> p"
    "f \<in> set (sv_onDisconnected s)"
  shows "\<exists>s1 e s2. server_step E s (ConnFails peer) = Some s1 \<and> (f, peer) \<in> set (sv_called s1) \<and>
    handleParentDisconnectWithResubscribe E C [] [(False, c, None)] s1 = (e, s2) \<and>
    ParentConnection (sv_cm s2) = Some c \<and> sv_conns s2 p \<noteq> None"
  using assms by (auto simp: end_connection_def OnDisconnect_def ReconnectToParent_def Let_def)

text \<open>\<^verbatim>\<open>Close\<close> does not remove the parent connection although its comment says so: the call with nil
  changes nothing, so that the closed client still has its parent; and closing twice panics. What keeps a
  closed client from connecting again is that the context of its server is done.\<close>

theorem Close_keeps_parent:
  assumes "\<not> sv_closed s"
  shows "\<exists>s'. client_Close (k, s) = Some (False, s') \<and> ParentConnection (sv_cm s') = ParentConnection (sv_cm s) \<and>
    sv_ctx s' \<in> sv_cancelled s' \<and> client_Close (False, s') = None \<and>
    handleParentDisconnectWithResubscribe E C subscribed ((sv_ctx s' \<in> sv_cancelled s', c, answer) # rounds) s' = (ContextDone, s')"
  using assms by (simp add: client_Close_def Stop_def AddParentConnection_def)
subsection \<open>Witnesses\<close>

theorem reconnect_resubscribes_witness:
  "\<exists>s'. handleParentDisconnectWithResubscribe demo_server_env estimate_ctx [[1], [2]]
      ([(False, 5, Some ''refused'')] @ (False, 6, None) # []) demo_server = (Reconnected None, s') \<and>
    ParentConnection (sv_cm s') = Some 6 \<and> map fst (sv_sent s') = [6, 6, 6] \<and>
    map (Body \<circ> Some \<circ> snd) (sv_sent s') = [[1], [1], [2]]"
proof -
  have b: "Body (Some (generateMessage u a cmd b v)) = b" for u a cmd b v
    by (simp add: Body_def generateMessage_def NewMessage_def)
  show ?thesis
    using reconnect_resubscribes [of "[(False, 5, Some ''refused'')]" demo_server_env 6 "[1]" estimate_ctx "[[1], [2]]" "[]"
        demo_server]
    by (auto simp: demo_server_env_def demo_server_def NewSocketServer_def subscription_def b)
qed

lemma Close_keeps_parent_example:
  "\<exists>s'. client_Close (True, serve_parent demo_server_env 3 demo_server) = Some (False, s') \<and>
     ParentConnection (sv_cm s') = Some 3 \<and> client_Close (False, s') = None"
proof -
  have o: "\<not> sv_closed (serve_parent demo_server_env 3 demo_server)"
    by (simp add: serve_parent_def OnConnect_def Let_def demo_server_def NewSocketServer_def)
  show ?thesis
    using Close_keeps_parent [OF o, of True demo_server_env estimate_ctx "[]" 0 None "[]"] by auto
qed

end
