(* ===== verification/Remote_Storage.thy ===== *)
theory Remote_Storage
  imports Client_Handler
begin

text \<open>
  A store over the network, \<^verbatim>\<open>src/pkg/storage/remote_storage_client.go\<close> and \<^verbatim>\<open>remote_storage_service.go\<close>: the client
  puts an operation with a fresh id into a message, the service runs it on its own store and answers, and a
  goroutine of the client hands the answer to the call that waits for its id. The store of the service is any
  implementation of the interface \<^verbatim>\<open>Storage\<close>; protobuf is a parameter, \<open>None\<close> is its error.
\<close>

subsection \<open>Messages\<close>

datatype OperationType = GET | PUT | DELETE | BATCH_PUT | BATCH_DELETE | GET_BACKUP_PATH | OtherOperation int

datatype request_payload =
    GetRequest bytes
  | PutRequest bytes bytes
  | DeleteRequest bytes
  | BatchPutRequest "(bytes \<times> bytes) list"
  | BatchDeleteRequest "bytes list"
  | GetBackupPathRequest

datatype response_payload =
    GetResponse bytes string
  | PutResponse string
  | DeleteResponse string
  | BatchPutResponse string
  | BatchDeleteResponse string
  | GetBackupPathResponse string string

text \<open>A payload of the request is missing where the sender set none; the last argument of a response is its
  error text.\<close>

record DatabaseOperationRequest =
  oq_OperationType :: OperationType
  oq_RequestId :: string
  oq_Payload :: "request_payload option"

record DatabaseOperationResponse =
  os_OriginalOperationType :: OperationType
  os_RequestId :: string
  os_Error :: string
  os_Payload :: "response_payload option"

record storage_codec =
  mar_OpRequest :: "DatabaseOperationRequest \<Rightarrow> bytes option"
  unm_OpRequest :: "bytes \<Rightarrow> DatabaseOperationRequest option"
  mar_OpResponse :: "DatabaseOperationResponse \<Rightarrow> bytes option"
  unm_OpResponse :: "bytes \<Rightarrow> DatabaseOperationResponse option"

text \<open>Protobuf reads back what it wrote; it may refuse to write, as it does for texts that are not UTF-8.\<close>

definition codec_laws :: "storage_codec \<Rightarrow> bool" where
  "codec_laws L \<longleftrightarrow> (\<forall>r b. mar_OpRequest L r = Some b \<longrightarrow> unm_OpRequest L b = Some r) \<and>
     (\<forall>r b. mar_OpResponse L r = Some b \<longrightarrow> unm_OpResponse L b = Some r)"

subsection \<open>The service\<close>

text \<open>The interface \<^verbatim>\<open>Storage\<close>; an error is its text.\<close>

record 's Storage =
  sg_Get :: "'s \<Rightarrow> bytes \<Rightarrow> bytes \<times> string option"
  sg_Put :: "'s \<Rightarrow> bytes \<Rightarrow> bytes \<Rightarrow> string option \<times> 's"
  sg_Delete :: "'s \<Rightarrow> bytes \<Rightarrow> string option \<times> 's"
  sg_BatchPut :: "'s \<Rightarrow> (bytes \<times> bytes) list \<Rightarrow> string option \<times> 's"
  sg_BatchDelete :: "'s \<Rightarrow> bytes list \<Rightarrow> string option \<times> 's"
  sg_GetBackupPath :: "'s \<Rightarrow> string"

definition error_text :: "string option \<Rightarrow> string" where
  "error_text err = (case err of None \<Rightarrow> [] | Some e \<Rightarrow> e)"

definition with_error :: "string option \<Rightarrow> response_payload \<Rightarrow> response_payload" where
  "with_error err p =
     (case err of
        None \<Rightarrow> p
      | Some e \<Rightarrow>
          (case p of
             GetResponse v _ \<Rightarrow> GetResponse v e
           | PutResponse _ \<Rightarrow> PutResponse e
           | DeleteResponse _ \<Rightarrow> DeleteResponse e
           | BatchPutResponse _ \<Rightarrow> BatchPutResponse e
           | BatchDeleteResponse _ \<Rightarrow> BatchDeleteResponse e
           | GetBackupPathResponse path _ \<Rightarrow> GetBackupPathResponse path e))"

definition createResponseWrapper ::
  "DatabaseOperationRequest \<Rightarrow> response_payload option \<Rightarrow> string option \<Rightarrow> DatabaseOperationResponse" where
  "createResponseWrapper rq payload err =
     \<lparr>os_OriginalOperationType = oq_OperationType rq, os_RequestId = oq_RequestId rq, os_Error = error_text err,
      os_Payload = map_option (with_error err) payload\<rparr>"

text \<open>The switch over the operation: the response and the new state of the store. A payload that does not
  belong to the operation is a nil pointer whose field is read, a panic (\<open>None\<close>).\<close>

definition run_operation :: "'s Storage \<Rightarrow> DatabaseOperationRequest \<Rightarrow> 's \<Rightarrow> (DatabaseOperationResponse \<times> 's) option" where
  "run_operation S rq s =
     (case oq_OperationType rq of
        GET \<Rightarrow>
          (case oq_Payload rq of
             Some (GetRequest k) \<Rightarrow>
               (case sg_Get S s k of (v, err) \<Rightarrow> Some (createResponseWrapper rq (Some (GetResponse v [])) err, s))
           | _ \<Rightarrow> None)
      | PUT \<Rightarrow>
          (case oq_Payload rq of
             Some (PutRequest k v) \<Rightarrow>
               (case sg_Put S s k v of (err, s') \<Rightarrow> Some (createResponseWrapper rq (Some (PutResponse [])) err, s'))
           | _ \<Rightarrow> None)
      | DELETE \<Rightarrow>
          (case oq_Payload rq of
             Some (DeleteRequest k) \<Rightarrow>
               (case sg_Delete S s k of (err, s') \<Rightarrow> Some (createResponseWrapper rq (Some (DeleteResponse [])) err, s'))
           | _ \<Rightarrow> None)
      | BATCH_PUT \<Rightarrow>
          (case oq_Payload rq of
             Some (BatchPutRequest kvs) \<Rightarrow>
               (case sg_BatchPut S s kvs of (err, s') \<Rightarrow> Some (createResponseWrapper rq (Some (BatchPutResponse [])) err, s'))
           | _ \<Rightarrow> None)
      | BATCH_DELETE \<Rightarrow>
          (case oq_Payload rq of
             Some (BatchDeleteRequest ks) \<Rightarrow>
               (case sg_BatchDelete S s ks of (err, s') \<Rightarrow> Some (createResponseWrapper rq (Some (BatchDeleteResponse [])) err, s'))
           | _ \<Rightarrow> None)
      | GET_BACKUP_PATH \<Rightarrow>
          Some (createResponseWrapper rq (Some (GetBackupPathResponse (sg_GetBackupPath S s) [])) None, s)
      | OtherOperation n \<Rightarrow> Some (createResponseWrapper rq None (Some ''unsupported operation type''), s))"

text \<open>The handler: its error, the messages it sends on the connection of the request, the new state.\<close>

definition handleDatabaseOperation ::
  "storage_codec \<Rightarrow> string \<Rightarrow> string \<Rightarrow> 's Storage \<Rightarrow> (nat \<Rightarrow> send_conn) \<Rightarrow> Request \<Rightarrow> 's \<Rightarrow>
   ((string option \<times> pbMessage list) \<times> 's) option" where
  "handleDatabaseOperation L version uuid S conns r s =
     (case Message_Unmarshal (unm_OpRequest L) (Some (req_message r)) of
        None \<Rightarrow> Some ((Some ''failed to unmarshal request wrapper'', []), s)
      | Some rq \<Rightarrow>
          (case run_operation S rq s of
             None \<Rightarrow> None
           | Some (resp, s') \<Rightarrow>
               map_option (\<lambda>out. (out, s'))
                 (MessageSender_SendMessage version uuid (Some (conns (req_connection r))) ''Response''
                   (Some (mar_OpResponse L resp)))))"

subsection \<open>The client\<close>

text \<open>The pending requests in the order of a traversal of the map, with the number of their channels.\<close>

record RemoteStorage =
  rs_pending :: "(string \<times> nat) list"
  rs_ch :: "nat \<Rightarrow> DatabaseOperationResponse gochan"
  rs_errc :: "nat \<Rightarrow> string gochan"

datatype conn_event = FromServer pbMessage | RequestChanClosed | ConnectionError string | ErrorChanClosed

datatype listener = Listening | Returned | BlockedOnSend

definition deliver :: "storage_codec \<Rightarrow> pbMessage \<Rightarrow> RemoteStorage \<Rightarrow> RemoteStorage option" where
  "deliver L m rs =
     (if Command (Some m) = ''Response'' then
        (case Message_Unmarshal (unm_OpResponse L) (Some m) of
           None \<Rightarrow> Some rs
         | Some resp \<Rightarrow>
             (case map_of (rs_pending rs) (os_RequestId resp) of
                None \<Rightarrow> Some rs
              | Some c \<Rightarrow>
                  map_option (\<lambda>ch. rs\<lparr>rs_ch := (rs_ch rs)(c := ch)\<rparr>) (chan_send resp (rs_ch rs c))))
      else Some rs)"

fun notify_all :: "string \<Rightarrow> (string \<times> nat) list \<Rightarrow> RemoteStorage \<Rightarrow> listener \<times> RemoteStorage" where
  "notify_all err [] rs = (Returned, rs)"
| "notify_all err ((i, c) # ps) rs =
     (case chan_send err (rs_errc rs c) of
        None \<Rightarrow> (BlockedOnSend, rs)
      | Some ch \<Rightarrow>
          notify_all err ps (rs\<lparr>rs_errc := (rs_errc rs)(c := ch), rs_pending := AList.delete i (rs_pending rs)\<rparr>))"

fun handleResponses :: "storage_codec \<Rightarrow> conn_event list \<Rightarrow> RemoteStorage \<Rightarrow> listener \<times> RemoteStorage" where
  "handleResponses L [] rs = (Listening, rs)"
| "handleResponses L (RequestChanClosed # es) rs = (Returned, rs)"
| "handleResponses L (ErrorChanClosed # es) rs = (Returned, rs)"
| "handleResponses L (ConnectionError err # es) rs = notify_all err (rs_pending rs) rs"
| "handleResponses L (FromServer m # es) rs =
     (case deliver L m rs of None \<Rightarrow> (BlockedOnSend, rs) | Some rs' \<Rightarrow> handleResponses L es rs')"

datatype remote_error = ErrSendRequest string | RemoteError string | RemoteConnectionError string | RequestTimedOut

definition operation_of :: "request_payload \<Rightarrow> OperationType" where
  "operation_of p =
     (case p of GetRequest _ \<Rightarrow> GET | PutRequest _ _ \<Rightarrow> PUT | DeleteRequest _ \<Rightarrow> DELETE | BatchPutRequest _ \<Rightarrow> BATCH_PUT
      | BatchDeleteRequest _ \<Rightarrow> BATCH_DELETE | GetBackupPathRequest \<Rightarrow> GET_BACKUP_PATH)"

definition op_request :: "string \<Rightarrow> OperationType \<Rightarrow> request_payload \<Rightarrow> DatabaseOperationRequest" where
  "op_request reqID opType p = \<lparr>oq_OperationType = opType, oq_RequestId = reqID, oq_Payload = Some p\<rparr>"

text \<open>The choice of the select where several of its cases are ready.\<close>

datatype pick = PickResponse | PickError | PickTimer

definition await_response :: "nat \<Rightarrow> pick \<Rightarrow> RemoteStorage \<Rightarrow> remote_error + DatabaseOperationResponse" where
  "await_response c pick rs =
     (let from_ch = (\<lambda>r. if os_Error r \<noteq> [] then Inl (RemoteError (os_Error r)) else Inr r) in
      case (ch_buf (rs_ch rs c), ch_buf (rs_errc rs c)) of
        (r # _, []) \<Rightarrow> if pick = PickTimer then Inl RequestTimedOut else from_ch r
      | (r # _, e # _) \<Rightarrow>
          if pick = PickTimer then Inl RequestTimedOut
          else if pick = PickError then Inl (RemoteConnectionError e) else from_ch r
      | ([], e # _) \<Rightarrow> if pick = PickTimer then Inl RequestTimedOut else Inl (RemoteConnectionError e)
      | ([], []) \<Rightarrow> Inl RequestTimedOut)"

definition register_call :: "string \<Rightarrow> nat \<Rightarrow> RemoteStorage \<Rightarrow> RemoteStorage" where
  "register_call reqID c rs =
     rs\<lparr>rs_pending := AList.update reqID c (rs_pending rs), rs_ch := (rs_ch rs)(c := make_chan 1),
        rs_errc := (rs_errc rs)(c := make_chan 1)\<rparr>"

text \<open>\<^verbatim>\<open>sendRequest\<close>: \<open>c\<close> names the channels of the call, \<open>others\<close> is what the other goroutines do to the shared
  state while it waits. The deferred call removes the id.\<close>

definition sendRequest ::
  "storage_codec \<Rightarrow> string \<Rightarrow> string \<Rightarrow> send_conn \<Rightarrow> nat \<Rightarrow> string \<Rightarrow> (RemoteStorage \<Rightarrow> RemoteStorage) \<Rightarrow> pick \<Rightarrow>
   OperationType \<Rightarrow> request_payload \<Rightarrow> RemoteStorage \<Rightarrow>
   (remote_error + DatabaseOperationResponse) \<times> pbMessage list \<times> RemoteStorage" where
  "sendRequest L version uuid con c reqID others pick opType p rs =
     (let forget = (\<lambda>rs. rs\<lparr>rs_pending := AList.delete reqID (rs_pending rs)\<rparr>);
          rs1 = register_call reqID c rs
      in case MessageSender_SendMessage version uuid (Some con) ''DATABASE_OPERATION''
                (Some (mar_OpRequest L (op_request reqID opType p))) of
           Some (None, ms) \<Rightarrow> let rs2 = others rs1 in (await_response c pick rs2, ms, forget rs2)
         | Some (Some e, ms) \<Rightarrow> (Inl (ErrSendRequest e), ms, forget rs1)
         | None \<Rightarrow> (Inl (ErrSendRequest []), [], forget rs1))"

text \<open>The operations; \<open>ask\<close> is the call of \<^verbatim>\<open>sendRequest\<close>. A response without the payload of the operation is
  a nil pointer whose field is read, a panic (\<open>None\<close>).\<close>

type_synonym remote_ask = "OperationType \<Rightarrow> request_payload \<Rightarrow> remote_error + DatabaseOperationResponse"

definition remote_Get :: "remote_ask \<Rightarrow> bytes \<Rightarrow> (remote_error + bytes) option" where
  "remote_Get ask key =
     (case ask GET (GetRequest key) of
        Inl e \<Rightarrow> Some (Inl e)
      | Inr r \<Rightarrow>
          (case os_Payload r of
             Some (GetResponse v err) \<Rightarrow> Some (if err \<noteq> [] then Inl (RemoteError err) else Inr v)
           | _ \<Rightarrow> None))"

definition remote_Put :: "remote_ask \<Rightarrow> bytes \<Rightarrow> bytes \<Rightarrow> remote_error option option" where
  "remote_Put ask key v =
     (case ask PUT (PutRequest key v) of
        Inl e \<Rightarrow> Some (Some e)
      | Inr r \<Rightarrow>
          (case os_Payload r of
             Some (PutResponse err) \<Rightarrow> Some (if err \<noteq> [] then Some (RemoteError err) else None)
           | _ \<Rightarrow> None))"

definition remote_Delete :: "remote_ask \<Rightarrow> bytes \<Rightarrow> remote_error option option" where
  "remote_Delete ask key =
     (case ask DELETE (DeleteRequest key) of
        Inl e \<Rightarrow> Some (Some e)
      | Inr r \<Rightarrow>
          (case os_Payload r of
             Some (DeleteResponse err) \<Rightarrow> Some (if err \<noteq> [] then Some (RemoteError err) else None)
           | _ \<Rightarrow> None))"

definition remote_BatchPut :: "remote_ask \<Rightarrow> (bytes \<times> bytes) list \<Rightarrow> remote_error option option" where
  "remote_BatchPut ask kvs =
     (case ask BATCH_PUT (BatchPutRequest kvs) of
        Inl e \<Rightarrow> Some (Some e)
      | Inr r \<Rightarrow>
          (case os_Payload r of
             Some (BatchPutResponse err) \<Rightarrow> Some (if err \<noteq> [] then Some (RemoteError err) else None)
           | _ \<Rightarrow> None))"

definition remote_BatchDelete :: "remote_ask \<Rightarrow> bytes list \<Rightarrow> remote_error option option" where
  "remote_BatchDelete ask ks =
     (case ask BATCH_DELETE (BatchDeleteRequest ks) of
        Inl e \<Rightarrow> Some (Some e)
      | Inr r \<Rightarrow>
          (case os_Payload r of
             Some (BatchDeleteResponse err) \<Rightarrow> Some (if err \<noteq> [] then Some (RemoteError err) else None)
           | _ \<Rightarrow> None))"

definition remote_GetBackupPath :: "remote_ask \<Rightarrow> string option" where
  "remote_GetBackupPath ask =
     (case ask GET_BACKUP_PATH GetBackupPathRequest of
        Inl e \<Rightarrow> Some []
      | Inr r \<Rightarrow>
          (case os_Payload r of
             Some (GetBackupPathResponse path err) \<Rightarrow> Some (if err \<noteq> [] then [] else path)
           | _ \<Rightarrow> None))"

subsection \<open>A remote operation is the operation\<close>

text \<open>The answers of the service to a message on its connection \<open>k\<close>, and a call whose answers arrive among
  other messages; \<open>pick\<close> is the choice of its select.\<close>

definition service_answers ::
  "storage_codec \<Rightarrow> string \<Rightarrow> string \<Rightarrow> 's Storage \<Rightarrow> (nat \<Rightarrow> send_conn) \<Rightarrow> nat \<Rightarrow> pbMessage \<Rightarrow> 's \<Rightarrow> pbMessage list \<times> 's" where
  "service_answers L version uuid S conns k m s =
     (case handleDatabaseOperation L version uuid S conns (NewRequest k m) s of
        Some ((_, ms), s') \<Rightarrow> (ms, s') | None \<Rightarrow> ([], s))"

definition request_message :: "storage_codec \<Rightarrow> string \<Rightarrow> string \<Rightarrow> send_conn \<Rightarrow> string \<Rightarrow> OperationType \<Rightarrow> request_payload \<Rightarrow> pbMessage" where
  "request_message L version uuid con reqID opType p =
     generateMessage uuid (sc_Address con) ''DATABASE_OPERATION''
       (case mar_OpRequest L (op_request reqID opType p) of None \<Rightarrow> [] | Some b \<Rightarrow> b) version"

record 's deployment =
  d_codec :: storage_codec
  d_version :: string
  d_uuid :: string
  d_store :: "'s Storage"
  d_client :: send_conn
  d_conns :: "nat \<Rightarrow> send_conn"
  d_conn :: nat

definition answers_in :: "'s deployment \<Rightarrow> string \<Rightarrow> 's \<Rightarrow> OperationType \<Rightarrow> request_payload \<Rightarrow> pbMessage list \<times> 's" where
  "answers_in D reqID s opType p =
     service_answers (d_codec D) (d_version D) (d_uuid D) (d_store D) (d_conns D) (d_conn D)
       (request_message (d_codec D) (d_version D) (d_uuid D) (d_client D) reqID opType p) s"

definition remote_ask_run ::
  "'s deployment \<Rightarrow> nat \<Rightarrow> string \<Rightarrow> pbMessage list \<Rightarrow> conn_event list \<Rightarrow> pick \<Rightarrow> RemoteStorage \<Rightarrow> 's \<Rightarrow> remote_ask" where
  "remote_ask_run D c reqID before after pick rs s opType p =
     fst (sendRequest (d_codec D) (d_version D) (d_uuid D) (d_client D) c reqID
       (\<lambda>rs. snd (handleResponses (d_codec D) (map FromServer (before @ fst (answers_in D reqID s opType p)) @ after) rs))
       pick opType p rs)"

lemma notify_all_ends: "fst (notify_all err ps rs) \<noteq> Listening"
  by (induction err ps rs rule: notify_all.induct) (auto split: option.splits)

lemma handleResponses_append:
  "fst (handleResponses L es rs) = Listening \<Longrightarrow>
   handleResponses L (es @ fs) rs = handleResponses L fs (snd (handleResponses L es rs))"
  by (induction L es rs rule: handleResponses.induct) (auto simp: notify_all_ends split: option.splits)

definition call_open :: "string \<Rightarrow> nat \<Rightarrow> RemoteStorage \<Rightarrow> bool" where
  "call_open i c rs \<longleftrightarrow> map_of (rs_pending rs) i = Some c \<and> (\<forall>j. map_of (rs_pending rs) j = Some c \<longrightarrow> j = i) \<and>
     rs_ch rs c = make_chan 1"

definition call_answered :: "DatabaseOperationResponse \<Rightarrow> nat \<Rightarrow> RemoteStorage \<Rightarrow> bool" where
  "call_answered r c rs \<longleftrightarrow> ch_cap (rs_ch rs c) = 1 \<and> ch_buf (rs_ch rs c) = [r]"

lemma register_open:
  assumes "c \<notin> snd ` set (rs_pending rs)"
  shows "call_open i c (register_call i c rs)"
  unfolding call_open_def
proof (intro conjI allI impI)
  fix j
  assume "map_of (rs_pending (register_call i c rs)) j = Some c"
  then have "((map_of (rs_pending rs))(i \<mapsto> c)) j = Some c" by (simp add: register_call_def update_conv')
  moreover have "map_of (rs_pending rs) j \<noteq> Some c" using assms by (force dest: map_of_SomeD)
  ultimately show "j = i" by (simp split: if_splits)
qed (simp_all add: register_call_def update_conv')

definition response_in :: "storage_codec \<Rightarrow> pbMessage \<Rightarrow> DatabaseOperationResponse option" where
  "response_in L m = (if Command (Some m) = ''Response'' then Message_Unmarshal (unm_OpResponse L) (Some m) else None)"

lemma deliver_pending: "deliver L m rs = Some rs' \<Longrightarrow> rs_pending rs' = rs_pending rs"
  by (auto simp: deliver_def split: if_splits option.splits)

lemma deliver_ch:
  assumes "deliver L m rs = Some rs'" "\<And>r. response_in L m = Some r \<Longrightarrow> map_of (rs_pending rs) (os_RequestId r) \<noteq> Some c"
  shows "rs_ch rs' c = rs_ch rs c"
  using assms by (fastforce simp: deliver_def response_in_def split: if_splits option.splits)

lemma deliver_other:
  assumes "call_open i c rs" "deliver L m rs = Some rs'" "\<And>r. response_in L m = Some r \<Longrightarrow> os_RequestId r \<noteq> i"
  shows "call_open i c rs'"
proof -
  have "rs_ch rs' c = rs_ch rs c" by (rule deliver_ch [OF assms(2)]) (use assms(1,3) in \<open>unfold call_open_def, blast\<close>)
  then show ?thesis using assms(1) unfolding call_open_def deliver_pending [OF assms(2)] by simp
qed

lemma open_listening:
  assumes "call_open i c rs" "fst (handleResponses L (map FromServer ms) rs) = Listening"
    "\<And>m r. m \<in> set ms \<Longrightarrow> response_in L m = Some r \<Longrightarrow> os_RequestId r \<noteq> i"
  shows "call_open i c (snd (handleResponses L (map FromServer ms) rs))"
  using assms
proof (induction ms arbitrary: rs)
  case (Cons m ms)
  then obtain rs' where d: "deliver L m rs = Some rs'" by (auto split: option.splits)
  have "call_open i c rs'" by (rule deliver_other [OF Cons.prems(1) d]) (use Cons.prems(3) in auto)
  then show ?case using Cons d by auto
qed simp

lemma deliver_own:
  assumes "call_open i c rs" "response_in L m = Some r" "os_RequestId r = i"
  obtains rs' where "deliver L m rs = Some rs'" "call_answered r c rs'"
proof -
  have "map_of (rs_pending rs) (os_RequestId r) = Some c" "rs_ch rs c = make_chan 1"
    using assms(1,3) unfolding call_open_def by simp_all
  then show thesis using assms(2)
    by (intro that) (auto simp: deliver_def response_in_def call_answered_def make_chan_def chan_send_def split: if_splits)
qed

lemma notify_all_ch: "rs_ch (snd (notify_all err ps rs)) = rs_ch rs"
  by (induction err ps rs rule: notify_all.induct) (auto split: option.splits)

lemma deliver_answered: "call_answered r c rs \<Longrightarrow> deliver L m rs = Some rs' \<Longrightarrow> call_answered r c rs'"
  by (auto simp: deliver_def call_answered_def chan_send_def split: if_splits option.splits)

lemma answered_stays: "call_answered r c rs \<Longrightarrow> call_answered r c (snd (handleResponses L es rs))"
proof (induction L es rs rule: handleResponses.induct)
  case (4 L err es rs)
  then show ?case by (auto simp: call_answered_def notify_all_ch split: option.splits)
next
  case (5 L m es rs)
  then show ?case by (auto dest: deliver_answered split: option.splits)
qed auto
lemma run_operation_id: "run_operation S rq s = Some (resp, s') \<Longrightarrow> os_RequestId resp = oq_RequestId rq"
  by (auto simp: run_operation_def createResponseWrapper_def split: OperationType.splits option.splits request_payload.splits
      prod.splits)

lemma message_fields [simp]:
  "Command (Some (generateMessage u a cmd b v)) = cmd" "Body (Some (generateMessage u a cmd b v)) = b"
  "m_Body (generateMessage u a cmd b v) = b"
  by (simp_all add: Command_def Body_def msg_header_def generateMessage_def NewMessage_def getHeaderForCommand_def empty_Header_def)

text \<open>When a call can go through: the request and its response are written by protobuf, both sides can send,
  the channels of the call are its own, and the messages before the answer do not block the listener and do
  not answer the call.\<close>

definition call_goes_through ::
  "'s deployment \<Rightarrow> nat \<Rightarrow> string \<Rightarrow> pbMessage list \<Rightarrow> RemoteStorage \<Rightarrow> 's \<Rightarrow> OperationType \<Rightarrow> request_payload \<Rightarrow> bool" where
  "call_goes_through D c reqID before rs s opType p \<longleftrightarrow>
     codec_laws (d_codec D) \<and> mar_OpRequest (d_codec D) (op_request reqID opType p) \<noteq> None \<and>
     (case run_operation (d_store D) (op_request reqID opType p) s of
        None \<Rightarrow> False | Some (resp, s') \<Rightarrow> mar_OpResponse (d_codec D) resp \<noteq> None) \<and>
     (\<forall>m. sc_Send (d_client D) m = None \<and> sc_Send (d_conns D (d_conn D)) m = None) \<and>
     c \<notin> snd ` set (rs_pending rs) \<and>
     fst (handleResponses (d_codec D) (map FromServer before) (register_call reqID c rs)) = Listening \<and>
     (\<forall>m \<in> set before. \<forall>r. response_in (d_codec D) m = Some r \<longrightarrow> os_RequestId r \<noteq> reqID)"

lemma service_answer:
  assumes "codec_laws L" "mar_OpRequest L (op_request reqID opType p) = Some body"
    "run_operation S (op_request reqID opType p) s = Some (resp, s')" "mar_OpResponse L resp = Some body'"
  shows "service_answers L version uuid S conns k (request_message L version uuid con reqID opType p) s =
    ([generateMessage uuid (sc_Address (conns k)) ''Response'' body' version], s')"
proof -
  have "unm_OpRequest L body = Some (op_request reqID opType p)" using assms(1,2) by (simp add: codec_laws_def)
  then show ?thesis
    using assms(2-4)
    by (simp add: service_answers_def handleDatabaseOperation_def request_message_def NewRequest_def Message_Unmarshal_def
        MessageSender_SendMessage_def SendMessage_util_def SendBytes_def Let_def)
qed

text \<open>The errors that reach a call are connection errors.\<close>

definition errors_from :: "string set \<Rightarrow> nat \<Rightarrow> RemoteStorage \<Rightarrow> bool" where
  "errors_from E c rs \<longleftrightarrow> set (ch_buf (rs_errc rs c)) \<subseteq> E"

lemma errors_from_mono: "errors_from E c rs \<Longrightarrow> E \<subseteq> F \<Longrightarrow> errors_from F c rs"
  by (auto simp: errors_from_def)

lemma notify_all_errors:
  assumes "errors_from E c rs" "err \<in> E"
  shows "errors_from E c (snd (notify_all err ps rs))"
  using assms
proof (induction err ps rs rule: notify_all.induct)
  case (2 err i d ps rs)
  show ?case
  proof (cases "chan_send err (rs_errc rs d)")
    case (Some ch)
    then have "errors_from E c (rs\<lparr>rs_errc := (rs_errc rs)(d := ch), rs_pending := AList.delete i (rs_pending rs)\<rparr>)"
      using "2.prems" by (auto simp: errors_from_def chan_send_def split: if_splits)
    with Some 2 show ?thesis by simp
  qed (use 2 in simp)
qed simp

lemma deliver_errc: "deliver L m rs = Some rs' \<Longrightarrow> rs_errc rs' = rs_errc rs"
  by (auto simp: deliver_def split: if_splits option.splits)

lemma handleResponses_errors:
  assumes "errors_from E c rs" "{e. ConnectionError e \<in> set es} \<subseteq> E"
  shows "errors_from E c (snd (handleResponses L es rs))"
  using assms
proof (induction L es rs rule: handleResponses.induct)
  case (4 L err es rs)
  then show ?case by (auto intro: notify_all_errors)
next
  case (5 L m es rs)
  then show ?case by (auto simp: errors_from_def deliver_errc split: option.splits)
qed auto

text \<open>What a call may return in place of its answer, by the choice of the select: nothing, the time-out, or
  an error of the connection after the answer.\<close>

fun may_fail :: "pick \<Rightarrow> conn_event list \<Rightarrow> remote_error option \<Rightarrow> bool" where
  "may_fail PickResponse after f \<longleftrightarrow> f = None"
| "may_fail PickTimer after f \<longleftrightarrow> f = Some RequestTimedOut"
| "may_fail PickError after f \<longleftrightarrow>
     f = None \<or> (\<exists>e. ConnectionError e \<in> set after \<and> f = Some (RemoteConnectionError e))"

lemma await_answered:
  assumes "call_answered resp c rs" "errors_from {e. ConnectionError e \<in> set after} c rs"
  obtains f where "may_fail pick after f" "await_response c pick rs =
    (case f of Some e \<Rightarrow> Inl e | None \<Rightarrow> if os_Error resp \<noteq> [] then Inl (RemoteError (os_Error resp)) else Inr resp)"
proof -
  let ?f = "case pick of PickTimer \<Rightarrow> Some RequestTimedOut | PickResponse \<Rightarrow> None
    | PickError \<Rightarrow> (case ch_buf (rs_errc rs c) of [] \<Rightarrow> None | e # _ \<Rightarrow> Some (RemoteConnectionError e))"
  have "may_fail pick after ?f" using assms(2) by (cases pick) (auto simp: errors_from_def split: list.split)
  moreover have "await_response c pick rs =
    (case ?f of Some e \<Rightarrow> Inl e | None \<Rightarrow> if os_Error resp \<noteq> [] then Inl (RemoteError (os_Error resp)) else Inr resp)"
    using assms(1) by (cases pick) (auto simp: await_response_def call_answered_def Let_def split: list.split)
  ultimately show thesis by (rule that)
qed

lemma answer_arrives:
  assumes "call_goes_through D c reqID before rs s opType p"
    "run_operation (d_store D) (op_request reqID opType p) s = Some (resp, s')"
    and es: "es = map FromServer (before @ fst (answers_in D reqID s opType p)) @ after"
  shows "call_answered resp c (snd (handleResponses (d_codec D) es (register_call reqID c rs)))"
    and "{e. ConnectionError e \<in> set es} = {e. ConnectionError e \<in> set after}"
    and "snd (answers_in D reqID s opType p) = s'"
proof -
  let ?L = "d_codec D" and ?rs = "register_call reqID c rs"
  note g = assms(1) [unfolded call_goes_through_def assms(2)]
  obtain body body' where b: "mar_OpRequest ?L (op_request reqID opType p) = Some body" "mar_OpResponse ?L resp = Some body'"
    using g by auto
  let ?a = "generateMessage (d_uuid D) (sc_Address (d_conns D (d_conn D))) ''Response'' body' (d_version D)"
  have a: "answers_in D reqID s opType p = ([?a], s')"
    unfolding answers_in_def using g by (intro service_answer [OF _ b(1) assms(2) b(2)]) blast
  have r: "response_in ?L ?a = Some resp" using g b(2) by (simp add: response_in_def Message_Unmarshal_def codec_laws_def)
  let ?rs1 = "snd (handleResponses ?L (map FromServer before) ?rs)"
  have o: "call_open reqID c ?rs1"
    using g by (intro open_listening [OF register_open]) auto
  obtain rs2 where rs2: "deliver ?L ?a ?rs1 = Some rs2" "call_answered resp c rs2"
    using deliver_own [OF o r] run_operation_id [OF assms(2)] by (auto simp: op_request_def)
  have "handleResponses ?L es ?rs = handleResponses ?L after rs2"
    using g handleResponses_append [of ?L "map FromServer before" ?rs "FromServer ?a # after"] rs2(1)
    by (simp add: es a)
  then show "call_answered resp c (snd (handleResponses ?L es ?rs))" using answered_stays [OF rs2(2)] by simp
  show "{e. ConnectionError e \<in> set es} = {e. ConnectionError e \<in> set after}" by (auto simp: es)
  show "snd (answers_in D reqID s opType p) = s'" using a by simp
qed

lemma remote_call_answered:
  assumes "call_goes_through D c reqID before rs s opType p"
    "run_operation (d_store D) (op_request reqID opType p) s = Some (resp, s')"
  obtains f where "may_fail pick after f" "remote_ask_run D c reqID before after pick rs s opType p =
    (case f of Some e \<Rightarrow> Inl e | None \<Rightarrow> if os_Error resp \<noteq> [] then Inl (RemoteError (os_Error resp)) else Inr resp)"
proof -
  let ?rs = "snd (handleResponses (d_codec D)
    (map FromServer (before @ fst (answers_in D reqID s opType p)) @ after) (register_call reqID c rs))"
  have ask: "remote_ask_run D c reqID before after pick rs s opType p = await_response c pick ?rs"
    using assms(1) unfolding call_goes_through_def
    by (auto simp: remote_ask_run_def sendRequest_def MessageSender_SendMessage_def SendMessage_util_def SendBytes_def Let_def)
  have "errors_from {e. ConnectionError e \<in> set after} c (register_call reqID c rs)"
    by (simp add: errors_from_def register_call_def make_chan_def)
  then have e: "errors_from {e. ConnectionError e \<in> set after} c ?rs"
    by (rule handleResponses_errors) (simp only: answer_arrives(2) [OF assms refl] subset_refl)
  show thesis
    by (rule await_answered [OF answer_arrives(1) [OF assms refl] e, of pick]) (rule that, simp_all only: ask)
qed

text \<open>C22. A remote store is the store, as far as its answers are taken. When the call of an operation goes
  through, then whatever other messages arrive before its answer and whatever happens to the connection
  after it, the store is in the state the operation leaves, the client does not panic, and the call returns
  what the operation returns on the store of the service (an error as its text, where an error with an
  empty text is lost), unless the select of \<^verbatim>\<open>sendRequest\<close> finds several cases ready and takes another one:
  then it returns the time-out, or an error that the connection reported after the answer, although the
  operation has been carried out.\<close>

theorem remote_storage_refines:
  assumes "call_goes_through D c reqID before rs s (operation_of p) p"
  shows "\<exists>f. may_fail pick after f \<and>
    (let ask = remote_ask_run D c reqID before after pick rs s; S = d_store D;
      s' = snd (answers_in D reqID s (operation_of p) p);
      remote = (\<lambda>err. if f \<noteq> None then f
        else if error_text err = [] then None else Some (RemoteError (error_text err))) in
    (case p of
       GetRequest k \<Rightarrow> (case sg_Get S s k of (v, err) \<Rightarrow> s' = s \<and>
         remote_Get ask k = Some (case remote err of None \<Rightarrow> Inr v | Some e \<Rightarrow> Inl e))
     | PutRequest k v \<Rightarrow> (case sg_Put S s k v of (err, t) \<Rightarrow> s' = t \<and> remote_Put ask k v = Some (remote err))
     | DeleteRequest k \<Rightarrow> (case sg_Delete S s k of (err, t) \<Rightarrow> s' = t \<and> remote_Delete ask k = Some (remote err))
     | BatchPutRequest kvs \<Rightarrow> (case sg_BatchPut S s kvs of (err, t) \<Rightarrow> s' = t \<and> remote_BatchPut ask kvs = Some (remote err))
     | BatchDeleteRequest ks \<Rightarrow> (case sg_BatchDelete S s ks of (err, t) \<Rightarrow> s' = t \<and> remote_BatchDelete ask ks = Some (remote err))
     | GetBackupPathRequest \<Rightarrow> s' = s \<and>
         remote_GetBackupPath ask = Some (if f = None then sg_GetBackupPath S s else [])))"
proof -
  obtain resp s' where r: "run_operation (d_store D) (op_request reqID (operation_of p) p) s = Some (resp, s')"
    using assms by (auto simp: call_goes_through_def split: option.splits)
  obtain f where f: "may_fail pick after f" and call: "remote_ask_run D c reqID before after pick rs s (operation_of p) p =
    (case f of Some e \<Rightarrow> Inl e | None \<Rightarrow> if os_Error resp \<noteq> [] then Inl (RemoteError (os_Error resp)) else Inr resp)"
    by (rule remote_call_answered [OF assms r])
  show ?thesis
    using f call answer_arrives(3) [OF assms r refl] r
    by (intro exI [of _ f] conjI f, cases f; cases p)
      (auto simp: operation_of_def run_operation_def op_request_def createResponseWrapper_def with_error_def
        error_text_def remote_Get_def remote_Put_def remote_Delete_def remote_BatchPut_def remote_BatchDelete_def
        remote_GetBackupPath_def Let_def split: prod.splits option.splits)
qed

text \<open>A store in memory behind a service, for a call of \<^verbatim>\<open>Get\<close> whose answer comes after an unrelated message and is
  followed by a connection error.\<close>

definition list_store :: "(bytes \<times> bytes) list Storage" where
  "list_store = \<lparr>sg_Get = \<lambda>s k. (case map_of s k of None \<Rightarrow> ([], Some ''not found'') | Some v \<Rightarrow> (v, None)),
     sg_Put = \<lambda>s k v. (None, AList.update k v s), sg_Delete = \<lambda>s k. (None, AList.delete k s),
     sg_BatchPut = \<lambda>s kvs. (None, fold (\<lambda>(k, v). AList.update k v) kvs s),
     sg_BatchDelete = \<lambda>s ks. (None, fold AList.delete ks s), sg_GetBackupPath = \<lambda>s. []\<rparr>"

definition list_response :: DatabaseOperationResponse where
  "list_response = \<lparr>os_OriginalOperationType = GET, os_RequestId = ''q'', os_Error = [], os_Payload = Some (GetResponse [7] [])\<rparr>"

definition list_codec :: storage_codec where
  "list_codec =
     \<lparr>mar_OpRequest = \<lambda>r. if r = op_request ''q'' GET (GetRequest [1]) then Some [1] else None,
      unm_OpRequest = \<lambda>b. if b = [1] then Some (op_request ''q'' GET (GetRequest [1])) else None,
      mar_OpResponse = \<lambda>r. if r = list_response then Some [2] else None,
      unm_OpResponse = \<lambda>b. if b = [2] then Some list_response else None\<rparr>"

definition list_deployment :: "(bytes \<times> bytes) list deployment" where
  "list_deployment = \<lparr>d_codec = list_codec, d_version = [], d_uuid = [], d_store = list_store,
     d_client = \<lparr>sc_Address = [], sc_Send = \<lambda>_. None\<rparr>, d_conns = \<lambda>_. \<lparr>sc_Address = [], sc_Send = \<lambda>_. None\<rparr>, d_conn = 0\<rparr>"

definition fresh_remote :: RemoteStorage where
  "fresh_remote = \<lparr>rs_pending = [], rs_ch = \<lambda>_. make_chan 0, rs_errc = \<lambda>_. make_chan 0\<rparr>"

lemma list_call_goes_through:
  "call_goes_through list_deployment 0 ''q'' [generateMessage [] [] ''Ping'' [] []] fresh_remote [([1], [7])]
     (operation_of (GetRequest [1])) (GetRequest [1])"
  by (simp add: call_goes_through_def list_deployment_def list_codec_def codec_laws_def operation_of_def run_operation_def
      op_request_def list_store_def createResponseWrapper_def error_text_def with_error_def list_response_def fresh_remote_def
      deliver_def response_in_def)

theorem remote_storage_refines_witness:
  "map (\<lambda>pick. remote_Get (remote_ask_run list_deployment 0 ''q'' [generateMessage [] [] ''Ping'' [] []]
     [ConnectionError ''reset''] pick fresh_remote [([1], [7])]) [1]) [PickResponse, PickTimer] =
   [Some (Inr [7]), Some (Inl RequestTimedOut)]"
  using remote_storage_refines [OF list_call_goes_through, of PickResponse "[ConnectionError ''reset'']"]
    remote_storage_refines [OF list_call_goes_through, of PickTimer "[ConnectionError ''reset'']"]
  by (simp add: Let_def list_deployment_def list_store_def error_text_def)

subsection \<open>What goes wrong\<close>

text \<open>A request whose payload does not belong to its operation makes the service panic.\<close>

lemma mismatched_payload_panics:
  assumes "unm_OpRequest L (m_Body (req_message r)) = Some rq" "oq_OperationType rq = GET"
    "\<And>k. oq_Payload rq \<noteq> Some (GetRequest k)"
  shows "handleDatabaseOperation L version uuid S conns r s = None"
  using assms
  by (simp add: handleDatabaseOperation_def Message_Unmarshal_def run_operation_def split: option.split request_payload.split)

text \<open>A second response with the same id blocks the listener while the first one waits in its channel, and
  then no other call is answered.\<close>

lemma duplicate_response_blocks:
  assumes "call_open i c rs" "response_in L m = Some r" "os_RequestId r = i"
  shows "fst (handleResponses L (FromServer m # FromServer m # es) rs) = BlockedOnSend"
proof -
  have "map_of (rs_pending rs) (os_RequestId r) = Some c" "rs_ch rs c = make_chan 1"
    using assms(1,3) unfolding call_open_def by simp_all
  then show ?thesis using assms(2)
    by (auto simp: deliver_def response_in_def make_chan_def chan_send_def split: if_splits)
qed

end
