(* ===== verification/Log_Cleaner.thy ===== *)
theory Log_Cleaner
  imports Go_Prelude "HOL-Library.Multiset"
begin

text \<open>
  The cleaner of the log directory, \<^verbatim>\<open>src/pkg/loggerfile/log_cleaner.go\<close>. The directory is the list of its
  entries, a name and whether it is a directory; a removal that fails leaves its entry. The sizes that are
  only printed, the ticker and the stop channel are not modelled.
\<close>

subsection \<open>strconv\<close>

definition digit_value :: "char \<Rightarrow> nat option" where
  "digit_value ch = (let n = of_char ch :: nat in if 48 \<le> n \<and> n \<le> 57 then Some (n - 48) else None)"

fun decimal :: "nat \<Rightarrow> string \<Rightarrow> nat option" where
  "decimal acc [] = Some acc"
| "decimal acc (ch # s) = (case digit_value ch of None \<Rightarrow> None | Some d \<Rightarrow> decimal (10 * acc + d) s)"

text \<open>\<^verbatim>\<open>ParseUint(s, 10, 64)\<close> and whether \<^verbatim>\<open>Atoi\<close> of a text of at most 18 characters succeeds.\<close>

definition ParseUint :: "string \<Rightarrow> u64 option" where
  "ParseUint s =
     (if s = [] then None
      else (case decimal 0 s of None \<Rightarrow> None | Some n \<Rightarrow> if n < 2 ^ 64 then Some (word_of_nat n) else None))"

definition Atoi_ok :: "string \<Rightarrow> bool" where
  "Atoi_ok s =
     (let t = (case s of [] \<Rightarrow> [] | ch # r \<Rightarrow> if ch = CHR ''-'' \<or> ch = CHR ''+'' then r else s)
      in t \<noteq> [] \<and> decimal 0 t \<noteq> None)"

subsection \<open>The cleaner\<close>

record LogCleaner =
  maxEpochsToKeep :: int
  cleanInterval :: int
  disableCleanup :: bool

definition NewLogCleaner :: LogCleaner where
  "NewLogCleaner = \<lparr>maxEpochsToKeep = 3, cleanInterval = 3600 * 1000000000, disableCleanup = False\<rparr>"

definition SetMaxEpochsToKeep :: "int \<Rightarrow> LogCleaner \<Rightarrow> LogCleaner" where
  "SetMaxEpochsToKeep n lc =
     (if n = 0 then lc\<lparr>disableCleanup := True\<rparr> else lc\<lparr>maxEpochsToKeep := (if n < 1 then 3 else n)\<rparr>)"

definition SetCleanInterval :: "int \<Rightarrow> LogCleaner \<Rightarrow> LogCleaner" where
  "SetCleanInterval d lc = lc\<lparr>cleanInterval := (if d < 600 * 1000000000 then 600 * 1000000000 else d)\<rparr>"

definition SetDisableCleanup :: "bool \<Rightarrow> LogCleaner \<Rightarrow> LogCleaner" where
  "SetDisableCleanup disable lc = lc\<lparr>disableCleanup := disable\<rparr>"

type_synonym dir_entry = "string \<times> bool"

record epochEntry =
  epoch :: u64
  ep_name :: string

definition epoch_of :: "dir_entry \<Rightarrow> epochEntry option" where
  "epoch_of e =
     (case e of (name, isDir) \<Rightarrow>
        if \<not> isDir then None
        else if take 6 name \<noteq> ''epoch_'' then None
        else map_option (\<lambda>n. \<lparr>epoch = n, ep_name = name\<rparr>) (ParseUint (drop 6 name)))"

definition epochs_of :: "dir_entry list \<Rightarrow> epochEntry list" where
  "epochs_of entries = List.map_filter epoch_of entries"

text \<open>\<^verbatim>\<open>os.RemoveAll\<close> of the entry with a name.\<close>

definition RemoveAll :: "(string \<Rightarrow> bool) \<Rightarrow> string \<Rightarrow> dir_entry list \<Rightarrow> dir_entry list" where
  "RemoveAll fails name d = (if fails name then d else filter (\<lambda>e. fst e \<noteq> name) d)"

definition is_year_dir :: "dir_entry \<Rightarrow> bool" where
  "is_year_dir e = (case e of (name, isDir) \<Rightarrow> isDir \<and> length name = 4 \<and> Atoi_ok name)"

definition cleanLegacyDateDirs :: "bool \<Rightarrow> (string \<Rightarrow> bool) \<Rightarrow> dir_entry list \<Rightarrow> dir_entry list" where
  "cleanLegacyDateDirs readOk fails d =
     (if \<not> readOk then d else fold (RemoveAll fails) (map fst (filter is_year_dir d)) d)"

datatype StatResult = NotExist | StatError | IsFile | IsDirectory

datatype clean_error = ErrNotDir | ErrReadLogs

text \<open>The comparison that \<^verbatim>\<open>sort.Slice\<close> is given.\<close>

definition newer_epoch :: "epochEntry \<Rightarrow> epochEntry \<Rightarrow> bool" where
  "newer_epoch a b \<longleftrightarrow> epoch a > epoch b"

text \<open>The answers of the file system are arguments; \<open>sortSlice\<close> is \<^verbatim>\<open>sort.Slice\<close>, which takes a comparison and
  leaves equal elements in any order. \<open>None\<close> is a panic: an error of \<^verbatim>\<open>Stat\<close> other than a missing directory leaves a
  nil value whose method is called, and a negative limit is an index out of range.\<close>

definition CleanOldEpochLogs ::
  "((epochEntry \<Rightarrow> epochEntry \<Rightarrow> bool) \<Rightarrow> epochEntry list \<Rightarrow> epochEntry list) \<Rightarrow> StatResult \<Rightarrow> bool \<Rightarrow> bool \<Rightarrow> (string \<Rightarrow> bool) \<Rightarrow> LogCleaner \<Rightarrow> dir_entry list \<Rightarrow>
   (clean_error option \<times> dir_entry list) option" where
  "CleanOldEpochLogs sortSlice st readOk readOk' fails lc d =
     (if disableCleanup lc then Some (None, d)
      else (case st of
              NotExist \<Rightarrow> Some (None, d)
            | StatError \<Rightarrow> None
            | IsFile \<Rightarrow> Some (Some ErrNotDir, d)
            | IsDirectory \<Rightarrow>
                if \<not> readOk then Some (Some ErrReadLogs, d)
                else let epochs = epochs_of d in
                  if int (length epochs) \<le> maxEpochsToKeep lc then Some (None, d)
                  else if maxEpochsToKeep lc < 0 then None
                  else let old = drop (nat (maxEpochsToKeep lc)) (sortSlice newer_epoch epochs)
                    in Some (None, cleanLegacyDateDirs readOk' fails (fold (RemoveAll fails) (map ep_name old) d))))"

text \<open>What the documentation of \<^verbatim>\<open>sort.Slice\<close> says: for a comparison that is a strict weak ordering, the result is a
  permutation in which no element is less than one before it.\<close>

definition strict_weak :: "('a \<Rightarrow> 'a \<Rightarrow> bool) \<Rightarrow> bool" where
  "strict_weak lt \<longleftrightarrow> (\<forall>a b. lt a b \<longrightarrow> \<not> lt b a) \<and> (\<forall>a b c. lt a c \<longrightarrow> lt a b \<or> lt b c)"

definition slice_sort :: "(('a \<Rightarrow> 'a \<Rightarrow> bool) \<Rightarrow> 'a list \<Rightarrow> 'a list) \<Rightarrow> bool" where
  "slice_sort f \<longleftrightarrow> (\<forall>lt xs. strict_weak lt \<longrightarrow>
     mset (f lt xs) = mset xs \<and> sorted_wrt (\<lambda>a b. \<not> lt b a) (f lt xs))"

subsection \<open>What is kept\<close>

lemma fold_RemoveAll:
  "fold (RemoveAll fails) names d = filter (\<lambda>e. fst e \<notin> set names \<or> fails (fst e)) d"
  by (induction names arbitrary: d) (auto simp: RemoveAll_def intro!: filter_cong)

lemma epoch_of_name: "epoch_of e = Some x \<Longrightarrow> ep_name x = fst e"
  by (auto simp: epoch_of_def split: prod.splits if_splits)

lemma epoch_name_not_year: "epoch_of e = Some x \<Longrightarrow> is_year_dir (fst e, b) \<Longrightarrow> False"
proof -
  assume "epoch_of e = Some x" and y: "is_year_dir (fst e, b)"
  then have "take 6 (fst e) = ''epoch_''" by (auto simp: epoch_of_def split: prod.splits if_splits)
  then have "length (take 6 (fst e)) = 6" by simp
  then show False using y by (auto simp: is_year_dir_def)
qed

lemma epochs_of_simps [simp]:
  "epochs_of [] = []"
  "epochs_of (e # d) = (case epoch_of e of None \<Rightarrow> epochs_of d | Some x \<Rightarrow> x # epochs_of d)"
  by (simp_all add: epochs_of_def List.map_filter_def split: option.split)

lemma epochs_of_filter:
  assumes "\<And>e x. epoch_of e = Some x \<Longrightarrow> P e = Q x"
  shows "epochs_of (filter P d) = filter Q (epochs_of d)"
  using assms by (induction d) (auto split: option.splits)

lemma epochs_names: "ep_name ` set (epochs_of d) \<subseteq> fst ` set d"
  by (induction d) (auto dest: epoch_of_name split: option.splits)

lemma epochs_distinct: "distinct (map fst d) \<Longrightarrow> distinct (map ep_name (epochs_of d))"
proof (induction d)
  case (Cons e d)
  then have "fst e \<notin> ep_name ` set (epochs_of d)" using epochs_names [of d] by auto
  then show ?case using Cons epoch_of_name [of e] by (cases "epoch_of e") simp_all
qed simp

text \<open>After the removals an epoch directory is there if it is not among the old ones or cannot be removed.\<close>

lemma epochs_after_clean:
  "epochs_of (cleanLegacyDateDirs ok fails (fold (RemoveAll fails) (map ep_name old) d)) =
   filter (\<lambda>x. ep_name x \<notin> ep_name ` set old \<or> fails (ep_name x)) (epochs_of d)"
proof -
  have y: "epochs_of (cleanLegacyDateDirs ok fails d') = epochs_of d'" for d'
  proof (cases ok)
    case True
    have "epochs_of (filter (\<lambda>e. fst e \<notin> fst ` set (filter is_year_dir d') \<or> fails (fst e)) d') =
      filter (\<lambda>x. True) (epochs_of d')"
      by (rule epochs_of_filter) (auto dest: epoch_name_not_year)
    then show ?thesis using True by (simp add: cleanLegacyDateDirs_def fold_RemoveAll)
  qed (simp add: cleanLegacyDateDirs_def)
  have "epochs_of (fold (RemoveAll fails) (map ep_name old) d) =
    filter (\<lambda>x. ep_name x \<notin> ep_name ` set old \<or> fails (ep_name x)) (epochs_of d)"
    unfolding fold_RemoveAll by (rule epochs_of_filter) (auto dest: epoch_of_name)
  then show ?thesis using y by simp
qed

lemma clean_other_entries:
  assumes "e \<in> set d" "epoch_of e = None" "\<not> is_year_dir e" "distinct (map fst d)" "set old \<subseteq> set (epochs_of d)"
  shows "e \<in> set (cleanLegacyDateDirs ok fails (fold (RemoveAll fails) (map ep_name old) d))"
proof -
  have same: "e' = e" if "e' \<in> set d" "fst e' = fst e" for e'
    using that assms(1,4) by (intro prod_eqI) (auto simp: distinct_map dest: inj_onD)
  have "fst e \<notin> ep_name ` set old"
  proof
    assume "fst e \<in> ep_name ` set old"
    then obtain x where x: "x \<in> set (epochs_of d)" "ep_name x = fst e" using assms(5) by auto
    then obtain e' where "e' \<in> set d" "epoch_of e' = Some x"
      by (auto simp: epochs_of_def List.map_filter_def)
    then show False using same [of e'] epoch_of_name x(2) assms(2) by fastforce
  qed
  moreover have "fst e \<notin> fst ` {e' \<in> set d. is_year_dir e'}"
  proof
    assume "fst e \<in> fst ` {e' \<in> set d. is_year_dir e'}"
    then obtain e' where "e' \<in> set d" "is_year_dir e'" "fst e' = fst e" by fastforce
    then show False using same [of e'] assms(3) by simp
  qed
  ultimately show ?thesis using assms(1) by (auto simp: cleanLegacyDateDirs_def fold_RemoveAll)
qed

text \<open>With the comparison of the code the newest epochs come first.\<close>

definition newest_sort :: "(epochEntry list \<Rightarrow> epochEntry list) \<Rightarrow> bool" where
  "newest_sort f \<longleftrightarrow> (\<forall>xs. mset (f xs) = mset xs \<and> sorted_wrt (\<lambda>a b. epoch b \<le> epoch a) (f xs))"

lemma slice_sort_newer: "slice_sort f \<Longrightarrow> newest_sort (f newer_epoch)"
proof -
  have "strict_weak newer_epoch" by (auto simp: strict_weak_def newer_epoch_def)
  moreover have "(\<lambda>a b. \<not> newer_epoch b a) = (\<lambda>a b. epoch b \<le> epoch a)" by (simp add: newer_epoch_def fun_eq_iff not_less)
  ultimately show "slice_sort f \<Longrightarrow> newest_sort (f newer_epoch)" unfolding slice_sort_def newest_sort_def by metis
qed

lemma newest_kept:
  assumes "newest_sort f" "x \<in> set (take n (f xs))" "y \<in> set (drop n (f xs))"
  shows "epoch y \<le> epoch x"
proof -
  have "sorted_wrt (\<lambda>a b. epoch b \<le> epoch a) (take n (f xs) @ drop n (f xs))"
    using assms(1) by (simp add: newest_sort_def)
  then show ?thesis using assms(2,3) unfolding sorted_wrt_append by blast
qed

lemma clean_epochs:
  assumes "newest_sort f" "distinct (map fst d)" "old = drop n (f (epochs_of d))"
  shows "set (take n (f (epochs_of d))) \<subseteq> set (filter (\<lambda>x. ep_name x \<notin> ep_name ` set old) (epochs_of d))"
    and "length (filter (\<lambda>x. ep_name x \<notin> ep_name ` set old) (epochs_of d)) = min n (length (epochs_of d))"
proof -
  let ?xs = "epochs_of d" and ?Q = "\<lambda>x. ep_name x \<notin> ep_name ` set old"
  have m: "mset (f ?xs) = mset ?xs" using assms(1) by (simp add: newest_sort_def)
  then have "distinct (map ep_name (f ?xs))"
    using epochs_distinct [OF assms(2)] by (metis mset_eq_imp_distinct_iff mset_map)
  then have "distinct (map ep_name (take n (f ?xs)) @ map ep_name old)"
    unfolding assms(3) map_append [symmetric] append_take_drop_id .
  then have q: "?Q x" if "x \<in> set (take n (f ?xs))" for x using that by auto
  have "filter ?Q (take n (f ?xs) @ old) = take n (f ?xs)"
    using q by (auto simp: filter_id_conv filter_empty_conv)
  then have ff: "filter ?Q (f ?xs) = take n (f ?xs)" using assms(3) by simp
  have "mset (filter ?Q ?xs) = mset (take n (f ?xs))" using m ff by (metis mset_filter)
  then show "set (take n (f ?xs)) \<subseteq> set (filter ?Q ?xs)" "length (filter ?Q ?xs) = min n (length ?xs)"
    using mset_eq_setD mset_eq_length m by (fastforce, metis length_take min.commute)
qed

text \<open>C33. Cleaning the logs keeps the newest epochs: whichever removals fail and however equal epochs are
  ordered, the directories of the newest epochs, as many as configured, stay, and every epoch directory that is
  removed is of an epoch not newer than these; when no removal fails exactly as many epoch directories as
  configured are left, or all where there are fewer; and every entry that is neither an epoch nor a year
  directory stays.\<close>

theorem CleanOldEpochLogs_keeps_newest:
  assumes "slice_sort f" "distinct (map fst d)" "\<not> disableCleanup lc" "0 \<le> maxEpochsToKeep lc"
  shows "\<exists>d'. CleanOldEpochLogs f IsDirectory True readOk fails lc d = Some (None, d') \<and>
    (let n = nat (maxEpochsToKeep lc); kept = set (take n (f newer_epoch (epochs_of d))) in
       kept \<subseteq> set (epochs_of d') \<and>
       (\<forall>x \<in> kept. \<forall>y \<in> set (epochs_of d) - set (epochs_of d'). epoch y \<le> epoch x) \<and>
       ((\<forall>name. \<not> fails name) \<longrightarrow> length (epochs_of d') = min n (length (epochs_of d))) \<and>
       (\<forall>e \<in> set d. epoch_of e = None \<and> \<not> is_year_dir e \<longrightarrow> e \<in> set d'))"
proof (cases "int (length (epochs_of d)) \<le> maxEpochsToKeep lc")
  case True
  have "set (f newer_epoch (epochs_of d)) = set (epochs_of d)"
    using slice_sort_newer [OF assms(1)] by (metis newest_sort_def mset_eq_setD)
  then show ?thesis using True assms(3,4) by (auto simp: CleanOldEpochLogs_def Let_def dest: in_set_takeD)
next
  case False
  let ?n = "nat (maxEpochsToKeep lc)"
  define old where "old = drop ?n (f newer_epoch (epochs_of d))"
  let ?d = "cleanLegacyDateDirs readOk fails (fold (RemoveAll fails) (map ep_name old) d)"
  have set_f: "set (f newer_epoch (epochs_of d)) = set (epochs_of d)"
    using slice_sort_newer [OF assms(1)] by (metis newest_sort_def mset_eq_setD)
  then have old: "set old \<subseteq> set (epochs_of d)" by (auto simp: old_def dest: in_set_dropD)
  have r: "CleanOldEpochLogs f IsDirectory True readOk fails lc d = Some (None, ?d)"
    using False assms(3,4) by (simp add: CleanOldEpochLogs_def Let_def old_def)
  note k = clean_epochs [OF slice_sort_newer [OF assms(1)] assms(2) old_def]
  have 1: "set (take ?n (f newer_epoch (epochs_of d))) \<subseteq> set (epochs_of ?d)" using k(1) by (auto simp: epochs_after_clean)
  have "y \<in> set old" if "y \<in> set (epochs_of d) - set (epochs_of ?d)" for y
  proof -
    have "y \<in> set (take ?n (f newer_epoch (epochs_of d)) @ drop ?n (f newer_epoch (epochs_of d)))" using that set_f by simp
    then show ?thesis using that 1 unfolding old_def set_append by blast
  qed
  then have 2: "\<forall>x \<in> set (take ?n (f newer_epoch (epochs_of d))). \<forall>y \<in> set (epochs_of d) - set (epochs_of ?d). epoch y \<le> epoch x"
    using newest_kept [OF slice_sort_newer [OF assms(1)]] unfolding old_def by blast
  have 3: "length (epochs_of ?d) = min ?n (length (epochs_of d))" if "\<forall>name. \<not> fails name"
    using that k(2) by (simp add: epochs_after_clean)
  have 4: "\<forall>e \<in> set d. epoch_of e = None \<and> \<not> is_year_dir e \<longrightarrow> e \<in> set ?d"
    using clean_other_entries [OF _ _ _ assms(2) old] by blast
  show ?thesis unfolding Let_def by (intro exI [of _ ?d] conjI r 1 2 4 impI 3) assumption
qed

text \<open>Insertion sort for the parameter.\<close>

fun insert_by :: "('a \<Rightarrow> 'a \<Rightarrow> bool) \<Rightarrow> 'a \<Rightarrow> 'a list \<Rightarrow> 'a list" where
  "insert_by lt x [] = [x]"
| "insert_by lt x (y # ys) = (if lt y x then y # insert_by lt x ys else x # y # ys)"

definition sort_by :: "('a \<Rightarrow> 'a \<Rightarrow> bool) \<Rightarrow> 'a list \<Rightarrow> 'a list" where
  "sort_by lt xs = foldr (insert_by lt) xs []"

lemma insert_by_mset: "mset (insert_by lt x ys) = add_mset x (mset ys)"
  by (induction lt x ys rule: insert_by.induct) auto

lemma insert_by_sorted:
  assumes "strict_weak lt" "sorted_wrt (\<lambda>a b. \<not> lt b a) ys"
  shows "sorted_wrt (\<lambda>a b. \<not> lt b a) (insert_by lt x ys)"
  using assms(2)
proof (induction ys)
  case (Cons y ys)
  have "set (insert_by lt x ys) = insert x (set ys)"
    using insert_by_mset [of lt x ys] by (metis set_mset_add_mset_insert set_mset_mset)
  moreover have "\<not> lt z x" if "\<not> lt y x" "z \<in> set ys" for z
    using assms(1) that Cons.prems unfolding strict_weak_def by (metis sorted_wrt.simps(2))
  moreover have "\<not> lt x y" if "lt y x" using assms(1) that unfolding strict_weak_def by blast
  ultimately show ?case using Cons by auto
qed simp

lemma slice_sort_by: "slice_sort sort_by"
proof -
  have "mset (sort_by lt xs) = mset xs" for lt :: "'a \<Rightarrow> 'a \<Rightarrow> bool" and xs
    by (induction xs) (simp_all add: sort_by_def insert_by_mset)
  moreover have "sorted_wrt (\<lambda>a b. \<not> lt b a) (sort_by lt xs)" if "strict_weak lt" for lt :: "'a \<Rightarrow> 'a \<Rightarrow> bool" and xs
    by (induction xs) (simp_all add: sort_by_def insert_by_sorted [OF that])
  ultimately show ?thesis by (simp add: slice_sort_def)
qed

definition demo_logs :: "dir_entry list" where
  "demo_logs = [(''2024'', True), (''epoch_1'', True), (''epoch_10'', True), (''epoch_2'', True), (''epoch_x'', True),
     (''notes'', False)]"

lemma demo_epochs: "map epoch (epochs_of demo_logs) = [1, 10, 2]"
  by (simp add: demo_logs_def epoch_of_def ParseUint_def digit_value_def Let_def)

theorem CleanOldEpochLogs_keeps_newest_witness:
  "\<exists>d'. CleanOldEpochLogs sort_by IsDirectory True True (\<lambda>_. False) (SetMaxEpochsToKeep 2 NewLogCleaner) demo_logs =
      Some (None, d') \<and> length (epochs_of d') = 2 \<and> (''epoch_x'', True) \<in> set d' \<and> (''notes'', False) \<in> set d'"
proof -
  let ?lc = "SetMaxEpochsToKeep 2 NewLogCleaner"
  have lc: "\<not> disableCleanup ?lc" "maxEpochsToKeep ?lc = 2" by (simp_all add: SetMaxEpochsToKeep_def NewLogCleaner_def)
  have d: "distinct (map fst demo_logs)" by (simp add: demo_logs_def)
  have n: "length (epochs_of demo_logs) = 3" using arg_cong [OF demo_epochs, of length] by simp
  have e: "e \<in> set demo_logs \<and> epoch_of e = None \<and> \<not> is_year_dir e" if "e = (''epoch_x'', True) \<or> e = (''notes'', False)" for e
    using that by (auto simp: demo_logs_def epoch_of_def ParseUint_def digit_value_def is_year_dir_def Let_def)
  show ?thesis
    using CleanOldEpochLogs_keeps_newest [OF slice_sort_by d lc(1), of True "\<lambda>_. False"] n e
    unfolding lc Let_def by auto
qed

subsection \<open>What goes wrong\<close>

text \<open>With no more epochs than configured the cleaner returns before it removes the year directories, although
  they are left over from the old layout; and an error of \<^verbatim>\<open>Stat\<close> other than a missing directory is a panic.\<close>

lemma few_epochs_keep_year_dirs:
  assumes "\<not> disableCleanup lc" "int (length (epochs_of d)) \<le> maxEpochsToKeep lc"
  shows "CleanOldEpochLogs f IsDirectory True readOk fails lc d = Some (None, d) \<and>
    CleanOldEpochLogs f StatError readOk' readOk fails lc d = None"
  using assms by (simp add: CleanOldEpochLogs_def Let_def)

end
