(* ===== verification/Block_Checker.thy ===== *)
theory Block_Checker
  imports Go_Prelude
begin

text \<open>
  The checker that compares the blocks of several nodes, \<^verbatim>\<open>src/block/block_hash_checker/main.go\<close>: how it asks
  a node for a block and when it asks again, the comparison of the answers, the check that each block continues
  the previous one, the anomalies, the search for the first block that differs, and the watch mode. The answers
  of the nodes are arguments; the texts of reports, the log files and the alerts are not modelled beyond the
  events that cause them.
\<close>

subsection \<open>Blocks and answers\<close>

text \<open>The text of the source for a block that does not exist, in UTF-8.\<close>

definition NO_BLOCK :: string where
  "NO_BLOCK = ''(block kh'' @ [CHR 0xC3, CHR 0xB4] @ ''ng t'' @ [CHR 0xE1, CHR 0xBB, CHR 0x93] @ ''n t'' @
     [CHR 0xE1, CHR 0xBA, CHR 0xA1] @ ''i)''"

record txOrderEntry =
  te_Hash :: string
  te_GroupID :: string
  te_TransactionIndex :: string

record blockResult =
  br_Hash :: string
  br_Number :: string
  br_ParentHash :: string
  br_StateRoot :: string
  br_TransactionsRoot :: string
  br_ReceiptsRoot :: string
  br_Timestamp :: string
  br_Miner :: string
  br_GlobalExecIndex :: string
  br_Epoch :: string
  br_StakeStatesRoot :: string
  br_AggregateSignature :: string
  br_CommitIndex :: string
  br_Transactions :: "txOrderEntry list"

record blockInfo =
  bi_Hash :: string
  bi_ParentHash :: string
  bi_StateRoot :: string
  bi_TransactionsRoot :: string
  bi_ReceiptsRoot :: string
  bi_Timestamp :: string
  bi_Miner :: string
  bi_GlobalExecIndex :: string
  bi_Epoch :: string
  bi_StakeStatesRoot :: string
  bi_AggregateSignature :: string
  bi_CommitIndex :: string
  bi_TxCount :: nat
  bi_SysTxCount :: nat
  bi_Error :: string
  bi_TxOrder :: "txOrderEntry list"

definition zero_block :: blockInfo where
  "zero_block = \<lparr>bi_Hash = [], bi_ParentHash = [], bi_StateRoot = [], bi_TransactionsRoot = [], bi_ReceiptsRoot = [],
     bi_Timestamp = [], bi_Miner = [], bi_GlobalExecIndex = [], bi_Epoch = [], bi_StakeStatesRoot = [],
     bi_AggregateSignature = [], bi_CommitIndex = [], bi_TxCount = 0, bi_SysTxCount = 0, bi_Error = [], bi_TxOrder = []\<rparr>"

definition IsError :: "blockInfo \<Rightarrow> bool" where
  "IsError b \<longleftrightarrow> bi_Error b \<noteq> []"

record nodeInfo =
  nd_Name :: string
  nd_URL :: string

text \<open>The decoded answer to \<^verbatim>\<open>eth_getBlockByNumber\<close>: the call or the decoding fails with a text, the node
  reports an error with a code, the result is null, or it is a block.\<close>

datatype rpc_reply = CallError string | RpcErrorReply int string | NullResult | BlockReply blockResult

fun show_nat :: "nat \<Rightarrow> string" where
  "show_nat n = (if n < 10 then [hexdigit n] else show_nat (n div 10) @ [hexdigit (n mod 10)])"

declare show_nat.simps [simp del]

definition show_int :: "int \<Rightarrow> string" where
  "show_int i = (if i < 0 then CHR ''-'' # show_nat (nat (- i)) else show_nat (nat i))"

type_synonym fetched = "blockInfo \<times> string option"

text \<open>\<^verbatim>\<open>getBlockInfo\<close>; \<open>sys\<close> is the answer of \<^verbatim>\<open>getSystemTxsCount\<close>, asked when the block has no transactions.\<close>

definition getBlockInfo :: "rpc_reply \<Rightarrow> nat option \<Rightarrow> fetched" where
  "getBlockInfo reply sys =
     (case reply of
        CallError e \<Rightarrow> (zero_block, Some e)
      | RpcErrorReply code msg \<Rightarrow> (zero_block, Some (''RPC error '' @ show_int code @ '': '' @ msg))
      | NullResult \<Rightarrow> (zero_block\<lparr>bi_Error := NO_BLOCK\<rparr>, None)
      | BlockReply b \<Rightarrow>
          (let txCount = length (br_Transactions b);
               sysTxCount = (if txCount = 0 then (case sys of None \<Rightarrow> 0 | Some n \<Rightarrow> n) else 0)
           in (\<lparr>bi_Hash = br_Hash b, bi_ParentHash = br_ParentHash b, bi_StateRoot = br_StateRoot b,
                bi_TransactionsRoot = br_TransactionsRoot b, bi_ReceiptsRoot = br_ReceiptsRoot b,
                bi_Timestamp = br_Timestamp b, bi_Miner = br_Miner b, bi_GlobalExecIndex = br_GlobalExecIndex b,
                bi_Epoch = br_Epoch b, bi_StakeStatesRoot = br_StakeStatesRoot b,
                bi_AggregateSignature = br_AggregateSignature b, bi_CommitIndex = br_CommitIndex b,
                bi_TxCount = txCount, bi_SysTxCount = sysTxCount, bi_Error = [], bi_TxOrder = br_Transactions b\<rparr>, None)))"

text \<open>\<^verbatim>\<open>parseHexStr\<close>: \<^verbatim>\<open>Sscanf\<close> with the format \<^verbatim>\<open>0x%x\<close> leaves 0 where the text does not match or the number does not
  fit; it skips spaces before the digits and ignores what follows them.\<close>

definition hex_value :: "char \<Rightarrow> nat option" where
  "hex_value ch = (let n = of_char ch :: nat in
     if 48 \<le> n \<and> n \<le> 57 then Some (n - 48) else if 97 \<le> n \<and> n \<le> 102 then Some (n - 87)
     else if 65 \<le> n \<and> n \<le> 70 then Some (n - 55) else None)"

definition is_blank :: "char \<Rightarrow> bool" where
  "is_blank ch \<longleftrightarrow> (of_char ch :: nat) \<in> {32, 9, 11, 12, 13}"

definition parseHexStr :: "string \<Rightarrow> u64" where
  "parseHexStr s =
     (if take 2 s \<noteq> ''0x'' then 0
      else let digits = List.map_filter hex_value (takeWhile (\<lambda>ch. hex_value ch \<noteq> None) (dropWhile is_blank (drop 2 s)));
               n = foldl (\<lambda>a d. 16 * a + d) 0 digits
        in if n < 2 ^ 64 then word_of_nat n else 0)"

subsection \<open>Asking a node for a block\<close>

text \<open>What the nodes answer while one batch is checked, by the URL of the node: the number of the latest block,
  and the answer to the \<open>k\<close>-th request for a block.\<close>

record chain_view =
  cv_latest :: "string \<Rightarrow> string + u64"
  cv_block :: "string \<Rightarrow> u64 \<Rightarrow> nat \<Rightarrow> fetched"

text \<open>A loop of at most \<open>n\<close> further requests that ends at the first good answer.\<close>

fun ask_again :: "(fetched \<Rightarrow> bool) \<Rightarrow> nat \<Rightarrow> (nat \<Rightarrow> fetched) \<Rightarrow> nat \<Rightarrow> fetched \<Rightarrow> fetched \<times> nat" where
  "ask_again good 0 ans k f = (f, k)"
| "ask_again good (Suc n) ans k f = (if good (ans k) then (ans k, Suc k) else ask_again good n ans (Suc k) (ans k))"

definition is_pruned :: "fetched \<Rightarrow> bool" where
  "is_pruned f =
     (case f of (bi, err) \<Rightarrow>
        (case err of None \<Rightarrow> False | Some e \<Rightarrow> sublist ''pruned'' e) \<or> IsError bi \<and> sublist ''pruned'' (bi_Error bi))"

definition wait_written :: "chain_view \<Rightarrow> string \<Rightarrow> u64 \<Rightarrow> fetched \<times> nat" where
  "wait_written V url blockNum =
     (let f = cv_block V url blockNum 0 in
      if snd f = None \<and> bi_Error (fst f) = NO_BLOCK then
        (case cv_latest V url of
           Inl e \<Rightarrow> (f, 1)
         | Inr latest \<Rightarrow>
             if blockNum \<le> latest
             then ask_again (\<lambda>(bi, err). err = None \<and> \<not> IsError bi) 10 (cv_block V url blockNum) 1 f
             else (f, 1))
      else (f, 1))"

definition fetch_node :: "chain_view \<Rightarrow> string \<Rightarrow> u64 \<Rightarrow> fetched" where
  "fetch_node V url blockNum =
     (case wait_written V url blockNum of (f, k) \<Rightarrow>
        if snd f \<noteq> None \<or> IsError (fst f) \<and> bi_Error (fst f) \<noteq> NO_BLOCK then
          if is_pruned f then f
          else fst (ask_again (\<lambda>(bi, err). err = None \<and> (\<not> IsError bi \<or> bi_Error bi = NO_BLOCK)) 3 (cv_block V url blockNum) k f)
        else f)"

definition stored_block :: "fetched \<Rightarrow> blockInfo" where
  "stored_block f = (case f of (bi, None) \<Rightarrow> bi | (bi, Some e) \<Rightarrow> zero_block\<lparr>bi_Error := ''ERROR: '' @ e\<rparr>)"

record result =
  cr_blockNum :: u64
  cr_blocks :: "string \<rightharpoonup> blockInfo"
  cr_hasError :: bool

definition fetch_result :: "chain_view \<Rightarrow> nodeInfo list \<Rightarrow> u64 \<Rightarrow> result" where
  "fetch_result V nodes blockNum =
     foldl (\<lambda>r node. let bi = stored_block (fetch_node V (nd_URL node) blockNum) in
         r\<lparr>cr_blocks := (cr_blocks r)(nd_Name node \<mapsto> bi), cr_hasError := cr_hasError r \<or> IsError bi\<rparr>)
       \<lparr>cr_blockNum = blockNum, cr_blocks = Map.empty, cr_hasError = False\<rparr> nodes"

text \<open>Reading a missing key of a Go map gives the zero value.\<close>

definition block_at :: "(string \<rightharpoonup> blockInfo) \<Rightarrow> string \<Rightarrow> blockInfo" where
  "block_at blocks name = (case blocks name of None \<Rightarrow> zero_block | Some b \<Rightarrow> b)"
subsection \<open>Comparing the answers\<close>

definition same_entry :: "txOrderEntry \<Rightarrow> txOrderEntry \<Rightarrow> bool" where
  "same_entry a b \<longleftrightarrow> te_Hash a = te_Hash b \<and> te_GroupID a = te_GroupID b \<and> te_TransactionIndex a = te_TransactionIndex b"

text \<open>The fields in which a block differs from the reference: those of the header, then the transactions.\<close>

definition header_fields :: "blockInfo \<Rightarrow> blockInfo \<Rightarrow> string list" where
  "header_fields ref b =
     (if bi_Hash b \<noteq> bi_Hash ref then [''hash''] else []) @
     (if bi_ParentHash b \<noteq> bi_ParentHash ref then [''parentHash''] else []) @
     (if bi_StateRoot b \<noteq> bi_StateRoot ref then [''stateRoot''] else []) @
     (if bi_StakeStatesRoot b \<noteq> bi_StakeStatesRoot ref then [''stakeStatesRoot''] else []) @
     (if bi_TransactionsRoot b \<noteq> bi_TransactionsRoot ref then [''transactionsRoot''] else []) @
     (if bi_ReceiptsRoot b \<noteq> bi_ReceiptsRoot ref then [''receiptsRoot''] else []) @
     (if bi_Timestamp b \<noteq> bi_Timestamp ref then [''timestamp''] else []) @
     (if bi_Miner b \<noteq> bi_Miner ref then [''miner''] else []) @
     (if bi_Epoch b \<noteq> bi_Epoch ref then [''epoch''] else []) @
     (if bi_GlobalExecIndex b \<noteq> bi_GlobalExecIndex ref then [''globalExecIndex''] else []) @
     (if bi_CommitIndex b \<noteq> bi_CommitIndex ref then [''commitIndex''] else [])"

definition differing_fields :: "blockInfo \<Rightarrow> blockInfo \<Rightarrow> string list" where
  "differing_fields ref b =
     header_fields ref b @
     (if length (bi_TxOrder b) \<noteq> length (bi_TxOrder ref) then [''txCount'']
      else if list_ex (\<lambda>(x, y). \<not> same_entry x y) (zip (bi_TxOrder b) (bi_TxOrder ref)) then [''txOrder''] else [])"

definition compare_blocks :: "blockInfo list \<Rightarrow> string list" where
  "compare_blocks valid = (case valid of [] \<Rightarrow> [] | ref # bs \<Rightarrow> concat (map (differing_fields ref) bs))"

text \<open>The blocks of the nodes that answered with a block, in the order of the nodes.\<close>

definition valid_names :: "nodeInfo list \<Rightarrow> (string \<rightharpoonup> blockInfo) \<Rightarrow> string list" where
  "valid_names nodes blocks = filter (\<lambda>n. \<not> IsError (block_at blocks n)) (map nd_Name nodes)"

definition valid_blocks :: "nodeInfo list \<Rightarrow> (string \<rightharpoonup> blockInfo) \<Rightarrow> blockInfo list" where
  "valid_blocks nodes blocks = map (block_at blocks) (valid_names nodes blocks)"

definition missing_count :: "nodeInfo list \<Rightarrow> (string \<rightharpoonup> blockInfo) \<Rightarrow> nat" where
  "missing_count nodes blocks =
     length (filter (\<lambda>n. IsError (block_at blocks n) \<and> bi_Error (block_at blocks n) = NO_BLOCK) (map nd_Name nodes))"

text \<open>The parent hash of each block against the hash of the previous block of the same node. A block that does
  not continue it gets an error; \<open>None\<close> is a panic, where the text to print is shorter than 18 bytes.\<close>

fun chain_check ::
  "(string \<rightharpoonup> string) \<Rightarrow> string list \<Rightarrow> (string \<rightharpoonup> blockInfo) \<Rightarrow> (bool \<times> (string \<rightharpoonup> blockInfo)) option" where
  "chain_check prev [] blocks = Some (False, blocks)"
| "chain_check prev (n # ns) blocks =
     (let bi = block_at blocks n in
      if IsError bi then chain_check prev ns blocks
      else (case prev n of
              None \<Rightarrow> chain_check prev ns blocks
            | Some h \<Rightarrow>
                if bi_ParentHash bi = h then chain_check prev ns blocks
                else if length (bi_ParentHash bi) < 18 \<or> length h < 18 then None
                else map_option (\<lambda>(_, bs). (True, bs))
                  (chain_check prev ns (blocks(n \<mapsto> bi\<lparr>bi_Error := ''CHAIN BROKEN: parentHash='' @ take 18 (bi_ParentHash bi) @
                     ''... but prev block hash='' @ take 18 h @ ''...''\<rparr>)))))"

subsection \<open>Anomalies of one node\<close>

text \<open>An event of \<^verbatim>\<open>logBlockEvent\<close> or \<^verbatim>\<open>logAnomaly\<close>; the name of the anomaly of a state root that does not change is
  shortened.\<close>

datatype check_event = BlockEvent string u64 string | Anomaly string u64 string

record prevBlockState =
  ps_Timestamp :: u64
  ps_GEI :: u64
  ps_Epoch :: u64
  ps_StateRoot :: string
  ps_StateRootStreak :: nat
  ps_BlockNum :: u64
  ps_IsNil :: bool
  ps_ConsecutiveErrors :: nat

definition error_count :: "blockInfo \<Rightarrow> prevBlockState option \<Rightarrow> nat" where
  "error_count bi prev =
     (case prev of
        Some p \<Rightarrow> if bi_Error bi \<noteq> NO_BLOCK then ps_ConsecutiveErrors p + 1 else 0
      | None \<Rightarrow> if bi_Error bi = NO_BLOCK then 0 else 1)"

definition regressions :: "string \<Rightarrow> u64 \<Rightarrow> blockInfo \<Rightarrow> prevBlockState \<Rightarrow> check_event list" where
  "regressions name num bi p =
     (let curTS = parseHexStr (bi_Timestamp bi); curGEI = parseHexStr (bi_GlobalExecIndex bi);
          curEpoch = parseHexStr (bi_Epoch bi) in
      (if curTS > 0 \<and> ps_Timestamp p > 0 \<and> curTS < ps_Timestamp p \<and> ps_Timestamp p - curTS > 30
       then [Anomaly ''TIMESTAMP_REGRESSION'' num name] else []) @
      (if curGEI > 0 \<and> ps_GEI p > 0 \<and> curGEI \<le> ps_GEI p then [Anomaly ''GEI_REGRESSION'' num name] else []) @
      (if curEpoch > 0 \<and> ps_Epoch p > 0 then
         if curEpoch < ps_Epoch p then [Anomaly ''EPOCH_REGRESSION'' num name]
         else if curEpoch > ps_Epoch p + 1 then [Anomaly ''EPOCH_JUMP'' num name] else []
       else []))"

definition check_anomalies :: "string \<Rightarrow> u64 \<Rightarrow> blockInfo \<Rightarrow> prevBlockState option \<Rightarrow> prevBlockState \<times> check_event list" where
  "check_anomalies name num bi prev =
     (if IsError bi then
        (\<lparr>ps_Timestamp = 0, ps_GEI = 0, ps_Epoch = 0, ps_StateRoot = [], ps_StateRootStreak = 0, ps_BlockNum = num,
          ps_IsNil = True, ps_ConsecutiveErrors = error_count bi prev\<rparr>, [])
      else
        let cur = \<lparr>ps_Timestamp = parseHexStr (bi_Timestamp bi), ps_GEI = parseHexStr (bi_GlobalExecIndex bi),
                   ps_Epoch = parseHexStr (bi_Epoch bi), ps_StateRoot = bi_StateRoot bi, ps_StateRootStreak = 0,
                   ps_BlockNum = num, ps_IsNil = False, ps_ConsecutiveErrors = 0\<rparr>
        in case prev of
             None \<Rightarrow> (cur, [])
           | Some p \<Rightarrow>
               if ps_IsNil p then (cur, [])
               else if bi_StateRoot bi = ps_StateRoot p \<and> ps_Epoch cur = ps_Epoch p then
                 let newStreak = ps_StateRootStreak p + 1 in
                 (cur\<lparr>ps_StateRootStreak := newStreak\<rparr>,
                  regressions name num bi p @
                  (if newStreak \<ge> 5 \<and> bi_TxCount bi > 0 then [Anomaly ''STATEROOT_FREEZE'' num name] else []))
               else (cur, regressions name num bi p))"
subsection \<open>Checking a batch\<close>

record mismatch =
  mi_BlockNumber :: u64
  mi_Blocks :: "string \<rightharpoonup> blockInfo"

record check_state =
  ck_prevHash :: "string \<rightharpoonup> string"
  ck_prevState :: "string \<rightharpoonup> prevBlockState"
  ck_mismatches :: "mismatch list"
  ck_match :: u64
  ck_error :: u64
  ck_skip :: u64
  ck_nil :: "u64 list"
  ck_empty :: "u64 list"
  ck_logged :: "u64 \<Rightarrow> bool"
  ck_events :: "check_event list"

definition logBlockEvent :: "string \<Rightarrow> u64 \<Rightarrow> string \<Rightarrow> check_state \<Rightarrow> check_state" where
  "logBlockEvent kind num gei s =
     (if ck_logged s num then s
      else s\<lparr>ck_logged := (ck_logged s)(num := True), ck_events := ck_events s @ [BlockEvent kind num gei]\<rparr>)"

definition anomaly_step :: "result \<Rightarrow> string \<Rightarrow> check_state \<Rightarrow> check_state" where
  "anomaly_step r n s =
     (case check_anomalies n (cr_blockNum r) (block_at (cr_blocks r) n) (ck_prevState s n) of (p, es) \<Rightarrow>
        s\<lparr>ck_prevState := (ck_prevState s)(n \<mapsto> p), ck_events := ck_events s @ es\<rparr>)"

text \<open>The hashes of the blocks of the nodes that answered replace those of the previous block; the entry of a node
  that did not answer is deleted.\<close>

definition next_hashes :: "nodeInfo list \<Rightarrow> result \<Rightarrow> (string \<rightharpoonup> string) \<Rightarrow> (string \<rightharpoonup> string)" where
  "next_hashes nodes r prev =
     fold (\<lambda>n prev. let bi = block_at (cr_blocks r) n in
         if IsError bi then prev(n := None) else prev(n \<mapsto> bi_Hash bi)) (map nd_Name nodes) prev"

definition compare_result :: "nodeInfo list \<Rightarrow> result \<Rightarrow> check_state \<Rightarrow> check_state option" where
  "compare_result nodes r s =
     (let names = map nd_Name nodes; valid = valid_blocks nodes (cr_blocks r); ref = hd valid;
          s1 = (if bi_TxCount ref = 0 \<and> bi_SysTxCount ref = 0
                then logBlockEvent ''EMPTY_BLOCK'' (cr_blockNum r) (bi_GlobalExecIndex ref)
                       (s\<lparr>ck_empty := ck_empty s @ [cr_blockNum r]\<rparr>)
                else s);
          fields = compare_blocks valid
      in case chain_check (ck_prevHash s1) names (cr_blocks r) of
           None \<Rightarrow> None
         | Some (broken, blocks) \<Rightarrow>
             (let r' = r\<lparr>cr_blocks := blocks\<rparr>;
                  s2 = s1\<lparr>ck_prevHash := next_hashes nodes r (ck_prevHash s1)\<rparr>;
                  s3 = (if fields \<noteq> [] \<or> broken
                        then s2\<lparr>ck_mismatches := ck_mismatches s2 @ [\<lparr>mi_BlockNumber = cr_blockNum r, mi_Blocks = blocks\<rparr>]\<rparr>
                        else s2\<lparr>ck_match := ck_match s2 + 1\<rparr>)
              in Some (fold (anomaly_step r') names s3)))"

definition check_result :: "nodeInfo list \<Rightarrow> result \<Rightarrow> check_state \<Rightarrow> check_state option" where
  "check_result nodes r s =
     (let s0 = (if cr_hasError r then s\<lparr>ck_error := ck_error s + 1\<rparr> else s);
          valid = valid_blocks nodes (cr_blocks r)
      in if length valid < 2 then
           if length valid = 0 \<and> missing_count nodes (cr_blocks r) > 0 then
             let s1 = logBlockEvent ''NIL_BLOCK'' (cr_blockNum r) [] (s0\<lparr>ck_nil := ck_nil s0 @ [cr_blockNum r]\<rparr>)
             in Some (s1\<lparr>ck_prevHash := fold (\<lambda>n prev. prev(n := None)) (map nd_Name nodes) (ck_prevHash s1)\<rparr>)
           else Some (s0\<lparr>ck_skip := ck_skip s0 + 1, ck_prevHash := next_hashes nodes r (ck_prevHash s0)\<rparr>)
         else compare_result nodes r s0)"

fun check_results :: "nodeInfo list \<Rightarrow> result list \<Rightarrow> check_state \<Rightarrow> check_state option" where
  "check_results nodes [] s = Some s"
| "check_results nodes (r # rs) s = (case check_result nodes r s of None \<Rightarrow> None | Some s' \<Rightarrow> check_results nodes rs s')"

definition batch_results :: "chain_view \<Rightarrow> nodeInfo list \<Rightarrow> u64 \<Rightarrow> u64 \<Rightarrow> result list" where
  "batch_results V nodes from to =
     map (\<lambda>i. fetch_result V nodes (from + word_of_nat i)) [0..<unat (to - from + 1)]"

definition start_check :: "(u64 \<Rightarrow> bool) \<Rightarrow> check_state" where
  "start_check logged = \<lparr>ck_prevHash = Map.empty, ck_prevState = Map.empty, ck_mismatches = [], ck_match = 0, ck_error = 0,
     ck_skip = 0, ck_nil = [], ck_empty = [], ck_logged = logged, ck_events = []\<rparr>"

definition checkBatch :: "chain_view \<Rightarrow> nodeInfo list \<Rightarrow> u64 \<Rightarrow> u64 \<Rightarrow> (u64 \<Rightarrow> bool) \<Rightarrow> check_state option" where
  "checkBatch V nodes from to logged = check_results nodes (batch_results V nodes from to) (start_check logged)"

subsection \<open>The first block that differs\<close>

text \<open>The binary search; \<open>None\<close> is that it does not end.\<close>

partial_function (option) binary_search :: "(u64 \<Rightarrow> bool) \<Rightarrow> u64 \<Rightarrow> u64 \<Rightarrow> u64 \<Rightarrow> u64 option" where
  "binary_search differs low high found =
     (if low \<le> high then
        let mid = low + (high - low) div 2 in
        if differs mid then binary_search differs low (mid - 1) mid else binary_search differs (mid + 1) high found
      else Some found)"

text \<open>A check of a single block never panics, so the other case does not occur.\<close>

definition block_differs :: "chain_view \<Rightarrow> nodeInfo list \<Rightarrow> u64 \<Rightarrow> bool" where
  "block_differs V nodes b =
     (case checkBatch V nodes b b (\<lambda>_. True) of None \<Rightarrow> False | Some s \<Rightarrow> ck_mismatches s \<noteq> [])"

definition first_mismatch :: "chain_view \<Rightarrow> nodeInfo list \<Rightarrow> u64 \<Rightarrow> u64 option" where
  "first_mismatch V nodes firstInBatch = binary_search (block_differs V nodes) 1 (firstInBatch - 1) firstInBatch"

text \<open>Whether \<^verbatim>\<open>triggerStopFlagForFirstMismatch\<close> writes the stop flag: it asks every node once and compares the
  headers only.\<close>

definition triggerStopFlagForFirstMismatch :: "chain_view \<Rightarrow> nodeInfo list \<Rightarrow> u64 \<Rightarrow> bool" where
  "triggerStopFlagForFirstMismatch V nodes b =
     (let valid = map fst (filter (\<lambda>(bi, err). err = None \<and> \<not> IsError bi) (map (\<lambda>n. cv_block V (nd_URL n) b 0) nodes)) in
      2 \<le> length valid \<and> concat (map (header_fields (hd valid)) (tl valid)) \<noteq> [])"
subsection \<open>What a batch reports\<close>

text \<open>The specification: what is compared of a block, whether the nodes that answered agree, whether a block
  continues the previous one of its node, and which blocks are reported.\<close>

definition compared :: "blockInfo \<Rightarrow> string list \<times> txOrderEntry list" where
  "compared b = ([bi_Hash b, bi_ParentHash b, bi_StateRoot b, bi_StakeStatesRoot b, bi_TransactionsRoot b, bi_ReceiptsRoot b,
     bi_Timestamp b, bi_Miner b, bi_Epoch b, bi_GlobalExecIndex b, bi_CommitIndex b], bi_TxOrder b)"

definition enough :: "nodeInfo list \<Rightarrow> result \<Rightarrow> bool" where
  "enough nodes r \<longleftrightarrow> 2 \<le> length (valid_blocks nodes (cr_blocks r))"

definition agree :: "nodeInfo list \<Rightarrow> result \<Rightarrow> bool" where
  "agree nodes r \<longleftrightarrow> (\<forall>x \<in> set (valid_blocks nodes (cr_blocks r)). \<forall>y \<in> set (valid_blocks nodes (cr_blocks r)). compared x = compared y)"

definition hashes_of :: "nodeInfo list \<Rightarrow> result \<Rightarrow> (string \<rightharpoonup> string)" where
  "hashes_of nodes r n = (if n \<in> set (valid_names nodes (cr_blocks r)) then Some (bi_Hash (block_at (cr_blocks r) n)) else None)"

definition breaks_chain :: "nodeInfo list \<Rightarrow> (string \<rightharpoonup> string) \<Rightarrow> result \<Rightarrow> bool" where
  "breaks_chain nodes prev r \<longleftrightarrow>
     (\<exists>n \<in> set (valid_names nodes (cr_blocks r)). \<exists>h. prev n = Some h \<and> bi_ParentHash (block_at (cr_blocks r) n) \<noteq> h)"

definition reported :: "nodeInfo list \<Rightarrow> (string \<rightharpoonup> string) \<times> result \<Rightarrow> bool" where
  "reported nodes pr = (case pr of (prev, r) \<Rightarrow> enough nodes r \<and> (\<not> agree nodes r \<or> breaks_chain nodes prev r))"

definition missing :: "nodeInfo list \<Rightarrow> result \<Rightarrow> bool" where
  "missing nodes r \<longleftrightarrow> valid_blocks nodes (cr_blocks r) = [] \<and> missing_count nodes (cr_blocks r) > 0"

text \<open>The blocks of a batch with the hashes of the block before.\<close>

definition with_previous :: "nodeInfo list \<Rightarrow> result list \<Rightarrow> ((string \<rightharpoonup> string) \<times> result) list" where
  "with_previous nodes rs = zip (Map.empty # map (hashes_of nodes) rs) rs"

text \<open>The hashes of the blocks have at least the 18 characters the report prints.\<close>

definition printable :: "nodeInfo list \<Rightarrow> result \<Rightarrow> bool" where
  "printable nodes r \<longleftrightarrow> (\<forall>b \<in> set (valid_blocks nodes (cr_blocks r)). 18 \<le> length (bi_Hash b) \<and> 18 \<le> length (bi_ParentHash b))"

lemma same_entry_eq: "same_entry a b \<longleftrightarrow> a = b"
  by (auto simp: same_entry_def intro: txOrderEntry.equality)

lemma list_ex_differ: "length xs = length ys \<Longrightarrow> list_ex (\<lambda>(x, y). x \<noteq> y) (zip xs ys) \<longleftrightarrow> xs \<noteq> ys"
  by (induction xs ys rule: list_induct2) auto

lemma differing_fields_Nil: "differing_fields ref b = [] \<longleftrightarrow> compared b = compared ref"
proof -
  have "(if length (bi_TxOrder b) \<noteq> length (bi_TxOrder ref) then [''txCount'']
      else if list_ex (\<lambda>(x, y). \<not> same_entry x y) (zip (bi_TxOrder b) (bi_TxOrder ref)) then [''txOrder''] else []) = [] \<longleftrightarrow>
    bi_TxOrder b = bi_TxOrder ref"
    using list_ex_differ [of "bi_TxOrder b" "bi_TxOrder ref"] by (auto simp: same_entry_eq)
  moreover have "header_fields ref b = [] \<longleftrightarrow> fst (compared b) = fst (compared ref)"
    by (simp add: header_fields_def compared_def)
  ultimately show ?thesis by (simp add: differing_fields_def compared_def)
qed

lemma compare_blocks_Nil: "compare_blocks (valid_blocks nodes (cr_blocks r)) = [] \<longleftrightarrow> agree nodes r"
proof (cases "valid_blocks nodes (cr_blocks r)")
  case Nil
  then show ?thesis by (simp add: compare_blocks_def agree_def)
next
  case (Cons ref bs)
  have "compare_blocks (ref # bs) = [] \<longleftrightarrow> (\<forall>b \<in> set bs. compared b = compared ref)"
    by (auto simp: compare_blocks_def differing_fields_Nil)
  also have "\<dots> \<longleftrightarrow> (\<forall>x \<in> set (ref # bs). \<forall>y \<in> set (ref # bs). compared x = compared y)" by auto
  finally show ?thesis using Cons by (simp add: agree_def)
qed

lemma chain_check_result:
  assumes "\<forall>n \<in> set ns. \<not> IsError (block_at blocks n) \<and> n \<in> dom prev \<longrightarrow> 18 \<le> length (bi_ParentHash (block_at blocks n))"
    and "\<forall>h \<in> ran prev. 18 \<le> length h"
  shows "\<exists>bs. chain_check prev ns blocks =
    Some (\<exists>n \<in> set ns. \<not> IsError (block_at blocks n) \<and> (\<exists>h. prev n = Some h \<and> bi_ParentHash (block_at blocks n) \<noteq> h), bs)"
  using assms(1)
proof (induction ns arbitrary: blocks)
  case (Cons n ns)
  let ?bi = "block_at blocks n"
  show ?case
  proof (cases "\<not> IsError ?bi \<and> (\<exists>h. prev n = Some h \<and> bi_ParentHash ?bi \<noteq> h)")
    case True
    then obtain h where h: "\<not> IsError ?bi" "prev n = Some h" "bi_ParentHash ?bi \<noteq> h" by blast
    define msg where "msg = ''CHAIN BROKEN: parentHash='' @ take 18 (bi_ParentHash ?bi) @
      ''... but prev block hash='' @ take 18 h @ ''...''"
    let ?blocks = "blocks(n \<mapsto> ?bi\<lparr>bi_Error := msg\<rparr>)"
    have "IsError (block_at ?blocks n)" by (simp add: block_at_def IsError_def msg_def)
    moreover have "block_at ?blocks m = block_at blocks m" if "m \<noteq> n" for m using that by (simp add: block_at_def)
    ultimately have "\<forall>m \<in> set ns. \<not> IsError (block_at ?blocks m) \<and> m \<in> dom prev \<longrightarrow> 18 \<le> length (bi_ParentHash (block_at ?blocks m))"
      using Cons.prems by (metis list.set_intros(2))
    from Cons.IH [OF this] obtain b bs where "chain_check prev ns ?blocks = Some (b, bs)" by blast
    moreover have "18 \<le> length (bi_ParentHash ?bi)" "18 \<le> length h"
      using h Cons.prems assms(2) by (auto intro: ranI)
    ultimately show ?thesis using h by (auto simp: Let_def msg_def)
  next
    case False
    then have "chain_check prev (n # ns) blocks = chain_check prev ns blocks"
      by (auto simp: Let_def split: option.splits)
    moreover have "(\<exists>m \<in> set (n # ns). \<not> IsError (block_at blocks m) \<and> (\<exists>h. prev m = Some h \<and> bi_ParentHash (block_at blocks m) \<noteq> h)) \<longleftrightarrow>
      (\<exists>m \<in> set ns. \<not> IsError (block_at blocks m) \<and> (\<exists>h. prev m = Some h \<and> bi_ParentHash (block_at blocks m) \<noteq> h))"
      using False unfolding list.set by blast
    ultimately show ?thesis using Cons.IH [of blocks] Cons.prems by simp
  qed
qed simp
lemma fold_delete: "fold (\<lambda>n prev. prev(n := None)) ns prev m = (if m \<in> set ns then None else prev m)"
  by (induction ns arbitrary: prev) auto

lemma next_hashes_apply:
  "next_hashes nodes r prev m =
   (if m \<in> nd_Name ` set nodes
    then (if IsError (block_at (cr_blocks r) m) then None else Some (bi_Hash (block_at (cr_blocks r) m))) else prev m)"
  unfolding next_hashes_def by (induction nodes arbitrary: prev) (auto simp: Let_def)

lemma next_hashes_eq: "dom prev \<subseteq> nd_Name ` set nodes \<Longrightarrow> next_hashes nodes r prev = hashes_of nodes r"
  by (rule ext) (auto simp: next_hashes_apply hashes_of_def valid_names_def)

lemma hashes_of_dom: "dom (hashes_of nodes r) \<subseteq> nd_Name ` set nodes"
  by (auto simp: hashes_of_def valid_names_def split: if_splits)

lemma hashes_of_ran: "printable nodes r \<Longrightarrow> h \<in> ran (hashes_of nodes r) \<Longrightarrow> 18 \<le> length h"
  by (auto simp: ran_def hashes_of_def printable_def valid_blocks_def split: if_splits)

lemma hashes_of_none: "valid_blocks nodes (cr_blocks r) = [] \<Longrightarrow> hashes_of nodes r = Map.empty"
  by (rule ext) (simp add: hashes_of_def valid_blocks_def)

lemma logBlockEvent_fields [simp]:
  "ck_prevHash (logBlockEvent k b g s) = ck_prevHash s" "ck_mismatches (logBlockEvent k b g s) = ck_mismatches s"
  "ck_match (logBlockEvent k b g s) = ck_match s" "ck_error (logBlockEvent k b g s) = ck_error s"
  "ck_skip (logBlockEvent k b g s) = ck_skip s" "ck_nil (logBlockEvent k b g s) = ck_nil s"
  by (simp_all add: logBlockEvent_def)

lemma anomaly_steps_fields [simp]:
  "ck_prevHash (fold (anomaly_step r) ns s) = ck_prevHash s" "ck_mismatches (fold (anomaly_step r) ns s) = ck_mismatches s"
  "ck_match (fold (anomaly_step r) ns s) = ck_match s" "ck_error (fold (anomaly_step r) ns s) = ck_error s"
  "ck_skip (fold (anomaly_step r) ns s) = ck_skip s" "ck_nil (fold (anomaly_step r) ns s) = ck_nil s"
  by (induction ns arbitrary: s) (simp_all add: anomaly_step_def split: prod.split)

text \<open>What one block of a batch changes.\<close>

definition counts_after :: "nodeInfo list \<Rightarrow> (string \<rightharpoonup> string) \<times> result \<Rightarrow> check_state \<Rightarrow> check_state \<Rightarrow> bool" where
  "counts_after nodes pr s s' =
     (case pr of (prev, r) \<Rightarrow>
        map mi_BlockNumber (ck_mismatches s') =
          map mi_BlockNumber (ck_mismatches s) @ (if reported nodes pr then [cr_blockNum r] else []) \<and>
        ck_match s' = ck_match s + (if enough nodes r \<and> \<not> reported nodes pr then 1 else 0) \<and>
        ck_skip s' = ck_skip s + (if \<not> enough nodes r \<and> \<not> missing nodes r then 1 else 0) \<and>
        ck_nil s' = ck_nil s @ (if missing nodes r then [cr_blockNum r] else []))"

lemma missing_not_enough: "missing nodes r \<Longrightarrow> \<not> enough nodes r"
  by (simp add: missing_def enough_def)

lemma compare_result_counts:
  assumes "printable nodes r \<or> ck_prevHash s = Map.empty" "\<forall>h \<in> ran (ck_prevHash s). 18 \<le> length h" "dom (ck_prevHash s) \<subseteq> nd_Name ` set nodes"
    "enough nodes r"
  shows "\<exists>s'. compare_result nodes r s = Some s' \<and> ck_prevHash s' = hashes_of nodes r \<and> ck_error s' = ck_error s \<and>
    counts_after nodes (ck_prevHash s, r) s s'"
proof -
  let ?names = "map nd_Name nodes" and ?prev = "ck_prevHash s"
  have "\<forall>n \<in> set ?names. \<not> IsError (block_at (cr_blocks r) n) \<and> n \<in> dom ?prev \<longrightarrow> 18 \<le> length (bi_ParentHash (block_at (cr_blocks r) n))"
    using assms(1) by (auto simp: printable_def valid_blocks_def valid_names_def)
  from chain_check_result [OF this assms(2)] obtain bs where
    c: "chain_check ?prev ?names (cr_blocks r) = Some (breaks_chain nodes ?prev r, bs)"
    by (auto simp: breaks_chain_def valid_names_def)
  have rep: "reported nodes (?prev, r) \<longleftrightarrow> compare_blocks (valid_blocks nodes (cr_blocks r)) \<noteq> [] \<or> breaks_chain nodes ?prev r"
    using assms(4) by (simp add: reported_def compare_blocks_Nil)
  show ?thesis
    using c assms(4) missing_not_enough [of nodes r] next_hashes_eq [OF assms(3)]
    unfolding compare_result_def counts_after_def rep Let_def by (auto split: if_splits)
qed

lemma check_result_counts:
  assumes "printable nodes r \<or> ck_prevHash s = Map.empty" "\<forall>h \<in> ran (ck_prevHash s). 18 \<le> length h" "dom (ck_prevHash s) \<subseteq> nd_Name ` set nodes"
  shows "\<exists>s'. check_result nodes r s = Some s' \<and> ck_prevHash s' = hashes_of nodes r \<and>
    ck_error s' = ck_error s + (if cr_hasError r then 1 else 0) \<and> counts_after nodes (ck_prevHash s, r) s s'"
proof (cases "enough nodes r")
  case True
  let ?s = "if cr_hasError r then s\<lparr>ck_error := ck_error s + 1\<rparr> else s"
  have "check_result nodes r s = compare_result nodes r ?s" using True by (simp add: check_result_def Let_def enough_def)
  moreover have "counts_after nodes pr ?s s' = counts_after nodes pr s s'" for pr s' by (simp add: counts_after_def)
  moreover have "ck_prevHash ?s = ck_prevHash s" by simp
  ultimately show ?thesis using compare_result_counts [of nodes r ?s] assms True by auto
next
  case False
  have del: "fold (\<lambda>n prev. prev(n := None)) (map nd_Name nodes) (ck_prevHash s) = Map.empty"
    using assms(3) by (intro ext) (auto simp: fold_delete)
  have rep: "\<not> reported nodes (ck_prevHash s, r)" using False by (simp add: reported_def)
  show ?thesis
  proof (cases "missing nodes r")
    case True
    then show ?thesis using False del rep hashes_of_none [of nodes r]
      by (simp add: check_result_def Let_def enough_def counts_after_def missing_def)
  next
    case False
    then show ?thesis using \<open>\<not> enough nodes r\<close> rep next_hashes_eq [OF assms(3)]
      by (auto simp: check_result_def Let_def enough_def counts_after_def missing_def)
  qed
qed

text \<open>A batch from any state: the counters grow by the number of blocks of their kind.\<close>

definition batch_counts :: "nodeInfo list \<Rightarrow> ((string \<rightharpoonup> string) \<times> result) list \<Rightarrow> check_state \<Rightarrow> check_state \<Rightarrow> bool" where
  "batch_counts nodes prs s s' \<longleftrightarrow>
     map mi_BlockNumber (ck_mismatches s') =
       map mi_BlockNumber (ck_mismatches s) @ map (cr_blockNum \<circ> snd) (filter (reported nodes) prs) \<and>
     ck_match s' = ck_match s + of_nat (length (filter (\<lambda>pr. enough nodes (snd pr) \<and> \<not> reported nodes pr) prs)) \<and>
     ck_skip s' = ck_skip s + of_nat (length (filter (\<lambda>pr. \<not> enough nodes (snd pr) \<and> \<not> missing nodes (snd pr)) prs)) \<and>
     ck_nil s' = ck_nil s @ map (cr_blockNum \<circ> snd) (filter (missing nodes \<circ> snd) prs) \<and>
     ck_error s' = ck_error s + of_nat (length (filter (cr_hasError \<circ> snd) prs))"

lemma batch_counts_Cons:
  assumes "counts_after nodes pr s s'" "ck_error s' = ck_error s + (if cr_hasError (snd pr) then 1 else 0)"
    "batch_counts nodes prs s' s''"
  shows "batch_counts nodes (pr # prs) s s''"
  using assms by (cases pr) (auto simp: counts_after_def batch_counts_def add.commute add.left_commute)

lemma check_results_counts:
  assumes "\<forall>r \<in> set rs. printable nodes r" "\<forall>h \<in> ran (ck_prevHash s). 18 \<le> length h"
    "dom (ck_prevHash s) \<subseteq> nd_Name ` set nodes"
  shows "\<exists>s'. check_results nodes rs s = Some s' \<and>
    batch_counts nodes (zip (ck_prevHash s # map (hashes_of nodes) rs) rs) s s'"
  using assms
proof (induction rs arbitrary: s)
  case Nil
  then show ?case by (simp add: batch_counts_def)
next
  case (Cons r rs)
  then obtain s1 where s1: "check_result nodes r s = Some s1" "ck_prevHash s1 = hashes_of nodes r"
    "ck_error s1 = ck_error s + (if cr_hasError r then 1 else 0)" "counts_after nodes (ck_prevHash s, r) s s1"
    using check_result_counts [of nodes r s] by auto
  have "\<forall>h \<in> ran (ck_prevHash s1). 18 \<le> length h" "dom (ck_prevHash s1) \<subseteq> nd_Name ` set nodes"
    unfolding s1(2) using hashes_of_ran hashes_of_dom Cons.prems(1) by (meson list.set_intros(1))+
  then obtain s2 where "check_results nodes rs s1 = Some s2"
    "batch_counts nodes (zip (hashes_of nodes r # map (hashes_of nodes) rs) rs) s1 s2"
    using Cons.IH [of s1] Cons.prems(1) s1(2) by auto
  then show ?case using s1 batch_counts_Cons [OF s1(4)] by auto
qed
subsection \<open>The search\<close>

lemma unat_u64: "n < 2 ^ 64 \<Longrightarrow> unat (word_of_nat n :: u64) = n"
  by (simp add: unsigned_of_nat take_bit_nat_eq_self)

lemma half_u64:
  assumes "n < 2 ^ 64"
  shows "(word_of_nat n :: u64) div 2 = word_of_nat (n div 2)"
proof -
  have "unat ((word_of_nat n :: u64) div 2) = unat (word_of_nat (n div 2) :: u64)"
    using assms unat_u64 [OF assms] unat_u64 [of "n div 2"] by (simp add: unat_div_distrib)
  then show ?thesis by (simp only: word_unat_eq_iff)
qed

lemma less_u64: "a < 2 ^ 64 \<Longrightarrow> b < 2 ^ 64 \<Longrightarrow> (word_of_nat a :: u64) \<le> word_of_nat b \<longleftrightarrow> a \<le> b"
  by (simp add: word_le_nat_alt unat_u64)

lemma binary_search_step:
  assumes "l < h" "h < 2 ^ 64" "m = l + (h - 1 - l) div 2"
  shows "binary_search differs (word_of_nat l) (word_of_nat h - 1) (word_of_nat h) =
    (if differs (word_of_nat m) then binary_search differs (word_of_nat l) (word_of_nat m - 1) (word_of_nat m)
     else binary_search differs (word_of_nat (m + 1)) (word_of_nat h - 1) (word_of_nat h))"
proof -
  have hi: "(word_of_nat h :: u64) - 1 = word_of_nat (h - 1)" using assms(1) by (simp add: of_nat_diff)
  have "(word_of_nat (h - 1) :: u64) - word_of_nat l = word_of_nat (h - 1 - l)"
    using assms(1) by (intro of_nat_diff [symmetric]) auto
  then have mid: "(word_of_nat l :: u64) + (word_of_nat (h - 1) - word_of_nat l) div 2 = word_of_nat m"
    using half_u64 [of "h - 1 - l"] assms(2) unfolding assms(3) by (simp only: of_nat_add)
  have le: "(word_of_nat l :: u64) \<le> word_of_nat (h - 1)" using assms by (subst less_u64) auto
  have up: "(word_of_nat m :: u64) + 1 = word_of_nat (m + 1)" by simp
  show ?thesis unfolding hi
    using binary_search.simps [of differs "word_of_nat l" "word_of_nat (h - 1)" "word_of_nat h", unfolded mid Let_def] le up
    by (simp only: if_True)
qed

lemma binary_search_done:
  assumes "1 \<le> h" "h < 2 ^ 64"
  shows "binary_search differs (word_of_nat h) (word_of_nat h - 1) (word_of_nat h) = Some (word_of_nat h)"
proof -
  have "(word_of_nat h :: u64) - 1 = word_of_nat (h - 1)" using assms(1) by (simp add: of_nat_diff)
  moreover have "\<not> (word_of_nat h :: u64) \<le> word_of_nat (h - 1)" using assms by (subst less_u64) auto
  ultimately show ?thesis by (subst binary_search.simps) (simp only: if_False)
qed

text \<open>The loop from \<open>l\<close> to the block before \<open>h\<close>, which is known to differ: it ends, at a block that differs
  while the one before does not.\<close>

lemma binary_search_ends:
  assumes "1 \<le> l" "l \<le> h" "h < 2 ^ 64"
  shows "\<exists>r. binary_search differs (word_of_nat l) (word_of_nat h - 1) (word_of_nat h) = Some (word_of_nat r) \<and>
    l \<le> r \<and> r \<le> h \<and> (r = h \<or> differs (word_of_nat r)) \<and> (r = l \<or> \<not> differs (word_of_nat (r - 1)))"
  using assms
proof (induction "h - l" arbitrary: l h rule: less_induct)
  case less
  show ?case
  proof (cases "l < h")
    case False
    then have "l = h" using less.prems by simp
    then show ?thesis using binary_search_done [of h differs] less.prems by blast
  next
    case True
    define m where "m = l + (h - 1 - l) div 2"
    have m: "l \<le> m" "m < h" using True by (auto simp: m_def)
    note step = binary_search_step [OF True less.prems(3) m_def, of differs]
    show ?thesis
    proof (cases "differs (word_of_nat m)")
      case True
      have "m - l < h - l" "1 \<le> l" "l \<le> m" "m < 2 ^ 64" using m less.prems by auto
      from less.hyps [OF this] obtain r where
        r: "binary_search differs (word_of_nat l) (word_of_nat m - 1) (word_of_nat m) = Some (word_of_nat r)"
        "l \<le> r" "r \<le> m" "r = m \<or> differs (word_of_nat r)" "r = l \<or> \<not> differs (word_of_nat (r - 1))" by blast
      moreover have "r \<le> h" "differs (word_of_nat r)" using r(3,4) m(2) True by auto
      ultimately show ?thesis using step True by (simp only: if_True) blast
    next
      case False
      have "h - (m + 1) < h - l" "1 \<le> m + 1" "m + 1 \<le> h" "h < 2 ^ 64" using m less.prems by auto
      from less.hyps [OF this] obtain r where
        r: "binary_search differs (word_of_nat (m + 1)) (word_of_nat h - 1) (word_of_nat h) = Some (word_of_nat r)"
        "m + 1 \<le> r" "r \<le> h" "r = h \<or> differs (word_of_nat r)" "r = m + 1 \<or> \<not> differs (word_of_nat (r - 1))" by blast
      moreover have "\<not> differs (word_of_nat (r - 1))" using r(5) False add_diff_cancel_right' by metis
      moreover have "l \<le> r" using r(2) m(1) by simp
      ultimately show ?thesis using step False by (simp only: if_False) blast
    qed
  qed
qed

lemma single_batch: "batch_results V nodes b b = [fetch_result V nodes b]"
  by (simp add: batch_results_def)

lemma checkBatch_single:
  "\<exists>s. checkBatch V nodes b b logged = Some s \<and>
     (ck_mismatches s \<noteq> [] \<longleftrightarrow> enough nodes (fetch_result V nodes b) \<and> \<not> agree nodes (fetch_result V nodes b))"
proof -
  let ?r = "fetch_result V nodes b"
  have "\<not> breaks_chain nodes Map.empty ?r" by (simp add: breaks_chain_def)
  then have "reported nodes (Map.empty, ?r) \<longleftrightarrow> enough nodes ?r \<and> \<not> agree nodes ?r" by (simp add: reported_def)
  moreover obtain s where "check_result nodes ?r (start_check logged) = Some s"
    "counts_after nodes (Map.empty, ?r) (start_check logged) s"
    using check_result_counts [of nodes ?r "start_check logged"] by (auto simp: start_check_def)
  ultimately show ?thesis by (auto simp: checkBatch_def single_batch counts_after_def start_check_def split: if_splits)
qed

lemma block_differs_iff:
  "block_differs V nodes b \<longleftrightarrow> enough nodes (fetch_result V nodes b) \<and> \<not> agree nodes (fetch_result V nodes b)"
  using checkBatch_single [of V nodes b "\<lambda>_. True"] by (auto simp: block_differs_def)
lemma kinds_partition:
  "length (filter (reported nodes) prs) + length (filter (\<lambda>pr. enough nodes (snd pr) \<and> \<not> reported nodes pr) prs) +
   length (filter (\<lambda>pr. \<not> enough nodes (snd pr) \<and> \<not> missing nodes (snd pr)) prs) +
   length (filter (missing nodes \<circ> snd) prs) = length prs"
proof (induction prs)
  case (Cons pr prs)
  have "reported nodes pr \<longrightarrow> enough nodes (snd pr)" by (cases pr) (simp add: reported_def)
  then show ?case using Cons missing_not_enough [of nodes "snd pr"] by auto
qed simp

text \<open>C23. What a batch reports: it never panics on blocks with printable hashes, and it reports exactly the
  blocks that at least two nodes answered and on which two answers differ in a compared field, or where the
  parent hash of a node is not the hash of its block before in the batch (so that one break is not reported
  again for the blocks that follow); the other blocks that two nodes answered are counted as equal, those that
  every answering node misses are listed as missing, the rest is skipped, and every block is in exactly one of
  these classes.\<close>

theorem checkBatch_reports:
  assumes "\<forall>r \<in> set (batch_results V nodes from to). printable nodes r"
  shows "\<exists>s. checkBatch V nodes from to logged = Some s \<and>
    (let prs = with_previous nodes (batch_results V nodes from to);
         equal = filter (\<lambda>pr. enough nodes (snd pr) \<and> \<not> reported nodes pr) prs;
         skipped = filter (\<lambda>pr. \<not> enough nodes (snd pr) \<and> \<not> missing nodes (snd pr)) prs in
     map mi_BlockNumber (ck_mismatches s) = map (cr_blockNum \<circ> snd) (filter (reported nodes) prs) \<and>
     ck_match s = of_nat (length equal) \<and> ck_skip s = of_nat (length skipped) \<and>
     ck_nil s = map (cr_blockNum \<circ> snd) (filter (missing nodes \<circ> snd) prs) \<and>
     ck_error s = of_nat (length (filter (cr_hasError \<circ> snd) prs)) \<and>
     length (ck_mismatches s) + length equal + length skipped + length (ck_nil s) = unat (to - from + 1))"
proof -
  let ?rs = "batch_results V nodes from to"
  obtain s where s: "checkBatch V nodes from to logged = Some s" "batch_counts nodes (with_previous nodes ?rs) (start_check logged) s"
    using check_results_counts [OF assms, of "start_check logged"] by (auto simp: checkBatch_def with_previous_def start_check_def)
  have mis: "map mi_BlockNumber (ck_mismatches s) = map (cr_blockNum \<circ> snd) (filter (reported nodes) (with_previous nodes ?rs))"
    using s(2) by (simp add: batch_counts_def start_check_def)
  have "length (with_previous nodes ?rs) = unat (to - from + 1)" by (simp add: with_previous_def batch_results_def)
  moreover have "length (ck_mismatches s) = length (filter (reported nodes) (with_previous nodes ?rs))"
    using arg_cong [OF mis, of length] by simp
  ultimately show ?thesis
    using s kinds_partition [of nodes "with_previous nodes ?rs"]
    by (auto simp: batch_counts_def start_check_def Let_def)
qed

text \<open>Two nodes and three blocks: the nodes differ at block 2, and block 3 of the second node has the parent of the
  first.\<close>

definition demo_nodes :: "nodeInfo list" where
  "demo_nodes = [\<lparr>nd_Name = ''m0'', nd_URL = ''a''\<rparr>, \<lparr>nd_Name = ''m1'', nd_URL = ''b''\<rparr>]"

definition demo_hash :: "char \<Rightarrow> string" where
  "demo_hash ch = replicate 20 ch"

definition demo_view :: chain_view where
  "demo_view = \<lparr>cv_latest = (\<lambda>_. Inr 3),
     cv_block = (\<lambda>url b k. (zero_block\<lparr>
        bi_Hash := demo_hash (if b = 1 then CHR ''1'' else if b = 2 then (if url = ''a'' then CHR ''2'' else CHR ''x'') else CHR ''3''),
        bi_ParentHash := demo_hash (if b = 1 then CHR ''0'' else if b = 2 then CHR ''1'' else CHR ''2'')\<rparr>, None))\<rparr>"

lemmas demo_simps = demo_view_def demo_nodes_def demo_hash_def fetch_result_def fetch_node_def wait_written_def
  stored_block_def zero_block_def IsError_def NO_BLOCK_def valid_blocks_def valid_names_def block_at_def

lemma demo_batch: "batch_results V nodes 1 3 = [fetch_result V nodes 1, fetch_result V nodes 2, fetch_result V nodes 3]"
proof -
  have "unat (3 - 1 + 1 :: u64) = 3" by simp
  then show ?thesis by (simp add: batch_results_def upt_rec)
qed

theorem checkBatch_reports_witness:
  "\<exists>s. checkBatch demo_view demo_nodes 1 3 (\<lambda>_. False) = Some s \<and> map mi_BlockNumber (ck_mismatches s) = [2, 3] \<and> ck_match s = 1"
proof -
  let ?r = "fetch_result demo_view demo_nodes"
  have p: "\<forall>r \<in> set (batch_results demo_view demo_nodes 1 3). printable demo_nodes r"
    by (simp add: demo_batch printable_def demo_simps)
  have "enough demo_nodes (?r b)" if "b = 1 \<or> b = 2 \<or> b = 3" for b using that by (auto simp: enough_def demo_simps)
  moreover have "agree demo_nodes (?r 1)" "\<not> agree demo_nodes (?r 2)"
    by (simp_all add: agree_def compared_def demo_simps)
  moreover have "breaks_chain demo_nodes (hashes_of demo_nodes (?r 2)) (?r 3)" "\<not> breaks_chain demo_nodes Map.empty (?r 1)"
    by (simp_all add: breaks_chain_def hashes_of_def demo_simps)
  moreover have "cr_blockNum (?r b) = b" for b by (simp add: fetch_result_def demo_nodes_def Let_def)
  ultimately show ?thesis
    using checkBatch_reports [OF p, of "\<lambda>_. False"] by (auto simp: demo_batch with_previous_def reported_def Let_def)
qed

text \<open>C25. The search for the first block that differs ends, for every block number but 0 it starts from, and
  finds a block not after it that differs (or the block itself) while the block before does not; where blocks
  that differ are followed by blocks that differ, no earlier block differs.\<close>

theorem first_mismatch_found:
  assumes "1 \<le> firstInBatch"
  shows "let differs = (\<lambda>b. enough nodes (fetch_result V nodes b) \<and> \<not> agree nodes (fetch_result V nodes b)) in
    \<exists>r. first_mismatch V nodes firstInBatch = Some r \<and> 1 \<le> r \<and> r \<le> firstInBatch \<and>
      (r = firstInBatch \<or> differs r) \<and> (r = 1 \<or> \<not> differs (r - 1)) \<and>
      ((\<forall>b c. 1 \<le> b \<and> b \<le> c \<and> c < firstInBatch \<and> differs b \<longrightarrow> differs c) \<longrightarrow> (\<forall>b. 1 \<le> b \<and> b < r \<longrightarrow> \<not> differs b))"
proof -
  let ?d = "block_differs V nodes"
  have u: "1 \<le> unat firstInBatch" "unat firstInBatch < 2 ^ 64"
    using assms unsigned_less [of firstInBatch, where ?'a = nat] by (simp_all add: word_le_nat_alt)
  have id: "word_of_nat (unat firstInBatch) = firstInBatch" by simp
  obtain n where n: "first_mismatch V nodes firstInBatch = Some (word_of_nat n)" "1 \<le> n" "n \<le> unat firstInBatch"
    "n = unat firstInBatch \<or> ?d (word_of_nat n)" "n = 1 \<or> \<not> ?d (word_of_nat (n - 1))"
    using binary_search_ends [OF order_refl u, of ?d] unfolding first_mismatch_def of_nat_1 id by blast
  have un: "unat (word_of_nat n :: u64) = n" using n(3) u(2) by (intro unat_u64) simp
  define r where "r = (word_of_nat n :: u64)"
  have 1: "1 \<le> r" "r \<le> firstInBatch" using n(2,3) un by (simp_all add: r_def word_le_nat_alt)
  have "r = firstInBatch \<or> ?d r" using n(4) id unfolding r_def by metis
  moreover have "r = 1 \<or> \<not> ?d (r - 1)" using n(2,5) unfolding r_def by (metis of_nat_1 of_nat_diff)
  ultimately have 2: "r = firstInBatch \<or> ?d r" "r = 1 \<or> \<not> ?d (r - 1)" .
  have 3: "\<not> ?d b" if m: "\<forall>b c. 1 \<le> b \<and> b \<le> c \<and> c < firstInBatch \<and> ?d b \<longrightarrow> ?d c" and b: "1 \<le> b" "b < r" for b
  proof
    assume "?d b"
    moreover have "b \<le> r - 1" "r - 1 < firstInBatch" "r \<noteq> 1" using b 1 by unat_arith+
    ultimately show False using m b(1) 2(2) by blast
  qed
  show ?thesis unfolding Let_def block_differs_iff [symmetric]
    using n(1) 1 2 3 unfolding r_def [symmetric] by blast
qed

theorem first_mismatch_found_witness:
  "\<exists>r. first_mismatch demo_view demo_nodes 3 = Some r \<and> 1 \<le> r \<and> r \<le> 3 \<and> (r = 1 \<or> agree demo_nodes (fetch_result demo_view demo_nodes (r - 1)))"
proof -
  have "enough demo_nodes (fetch_result demo_view demo_nodes b)" for b by (simp add: enough_def demo_simps)
  then show ?thesis using first_mismatch_found [of 3 demo_nodes demo_view] by (auto simp: Let_def)
qed

end
