(* ===== verification/Block_Watch.thy ===== *)
theory Block_Watch
  imports Block_Checker
begin

text \<open>
  The two modes of the block checker, \<^verbatim>\<open>src/block/block_hash_checker/main.go\<close>: a scan of a range of blocks in
  batches, and the watch mode, which in every pass compares the blocks since the last one it verified. The
  theorem is that the cursor of the watch mode leaves no block out.
\<close>

subsection \<open>The scan\<close>

record scan =
  sn_mismatches :: "mismatch list"
  sn_matched :: u64
  sn_errors :: u64
  sn_skipped :: u64
  sn_nil :: "u64 list"
  sn_empty :: "u64 list"
  sn_logged :: "u64 \<Rightarrow> bool"
  sn_events :: "check_event list"

definition start_scan :: "(u64 \<Rightarrow> bool) \<Rightarrow> scan" where
  "start_scan logged = \<lparr>sn_mismatches = [], sn_matched = 0, sn_errors = 0, sn_skipped = 0, sn_nil = [], sn_empty = [],
     sn_logged = logged, sn_events = []\<rparr>"

definition add_batch :: "check_state \<Rightarrow> scan \<Rightarrow> scan" where
  "add_batch s a =
     \<lparr>sn_mismatches = sn_mismatches a @ ck_mismatches s, sn_matched = sn_matched a + ck_match s,
      sn_errors = sn_errors a + ck_error s, sn_skipped = sn_skipped a + ck_skip s, sn_nil = sn_nil a @ ck_nil s,
      sn_empty = sn_empty a @ ck_empty s, sn_logged = ck_logged s, sn_events = sn_events a @ ck_events s\<rparr>"

definition batch_end :: "u64 \<Rightarrow> u64 \<Rightarrow> u64 \<Rightarrow> u64" where
  "batch_end batchSize start to = (let e = start + batchSize - 1 in if e > to then to else e)"

text \<open>The loop of \<^verbatim>\<open>main\<close>; \<open>None\<close> is that it does not end and \<open>Some None\<close> a panic.\<close>

partial_function (option) scan_batches :: "chain_view \<Rightarrow> nodeInfo list \<Rightarrow> u64 \<Rightarrow> u64 \<Rightarrow> u64 \<Rightarrow> scan \<Rightarrow> scan option option" where
  "scan_batches V nodes batchSize start to a =
     (if start \<le> to then
        (case checkBatch V nodes start (batch_end batchSize start to) (sn_logged a) of
           None \<Rightarrow> Some None
         | Some s \<Rightarrow> scan_batches V nodes batchSize (start + batchSize) to (add_batch s a))
      else Some (Some a))"

subsection \<open>One pass of the watch mode\<close>

text \<open>What the nodes answer in a pass: the number of the latest block, and the views of the first check of a batch
  (0), of its repetition (1) and of the search (2).\<close>

record world =
  wd_latest :: "string \<Rightarrow> string + u64"
  wd_view :: "nat \<Rightarrow> chain_view"

record watch_state =
  wt_checks :: nat
  wt_mismatches :: nat
  wt_last :: u64
  wt_dead :: "string \<Rightarrow> bool"
  wt_logged :: "u64 \<Rightarrow> bool"
  wt_events :: "check_event list"

definition start_watch :: "(u64 \<Rightarrow> bool) \<Rightarrow> watch_state" where
  "start_watch logged = \<lparr>wt_checks = 0, wt_mismatches = 0, wt_last = 0, wt_dead = (\<lambda>_. False), wt_logged = logged, wt_events = []\<rparr>"

text \<open>Whether the validators, all nodes but \<^verbatim>\<open>m4\<close> and \<^verbatim>\<open>node4\<close>, have one hash; \<open>ord\<close> is the order in which Go
  traverses the map of blocks.\<close>

fun one_hash :: "string \<Rightarrow> blockInfo list \<Rightarrow> bool" where
  "one_hash ref [] = True"
| "one_hash ref (b # bs) =
     (if ref = [] then one_hash (bi_Hash b) bs else if ref \<noteq> bi_Hash b then False else one_hash ref bs)"

definition isSyncNodeMismatchOnly :: "(string list \<Rightarrow> string list) \<Rightarrow> nodeInfo list \<Rightarrow> mismatch list \<Rightarrow> bool" where
  "isSyncNodeMismatchOnly ord nodes ms =
     list_all (\<lambda>m. one_hash [] (filter (\<lambda>b. \<not> IsError b)
       (map (block_at (mi_Blocks m)) (filter (\<lambda>n. n \<noteq> ''m4'' \<and> n \<noteq> ''node4'') (ord (remdups (map nd_Name nodes))))))) ms"

text \<open>A batch in which only the node that synchronises differs is checked a second time.\<close>

definition check_range ::
  "(string list \<Rightarrow> string list) \<Rightarrow> nodeInfo list \<Rightarrow> world \<Rightarrow> u64 \<Rightarrow> u64 \<Rightarrow> (u64 \<Rightarrow> bool) \<Rightarrow> check_state option" where
  "check_range ord nodes W from to logged =
     (case checkBatch (wd_view W 0) nodes from to logged of
        None \<Rightarrow> None
      | Some s \<Rightarrow>
          if ck_mismatches s \<noteq> [] \<and> isSyncNodeMismatchOnly ord nodes (ck_mismatches s)
          then map_option (\<lambda>s'. s'\<lparr>ck_events := ck_events s @ ck_events s'\<rparr>)
                 (checkBatch (wd_view W 1) nodes from to (ck_logged s))
          else Some s)"

partial_function (option) watch_batches ::
  "(string list \<Rightarrow> string list) \<Rightarrow> nodeInfo list \<Rightarrow> world \<Rightarrow> u64 \<Rightarrow> u64 \<Rightarrow> scan \<Rightarrow> scan option option" where
  "watch_batches ord nodes W start maxBlock a =
     (if start \<le> maxBlock then
        (case check_range ord nodes W start (batch_end 20 start maxBlock) (sn_logged a) of
           None \<Rightarrow> Some None
         | Some s \<Rightarrow>
             if sn_mismatches (add_batch s a) \<noteq> [] then Some (Some (add_batch s a))
             else watch_batches ord nodes W (start + 20) maxBlock (add_batch s a))
      else Some (Some a))"

text \<open>The smallest and the largest of the latest block numbers; without an answer they are the largest number and 0.\<close>

definition min_block :: "(string + u64) list \<Rightarrow> u64" where
  "min_block hs = foldl (\<lambda>m h. case h of Inl _ \<Rightarrow> m | Inr b \<Rightarrow> if b < m then b else m) (- 1) hs"

definition max_block :: "(string + u64) list \<Rightarrow> u64" where
  "max_block hs = foldl (\<lambda>m h. case h of Inl _ \<Rightarrow> m | Inr b \<Rightarrow> if b > m then b else m) 0 hs"

definition answers :: "(string + u64) list \<Rightarrow> nat" where
  "answers hs = length (filter (\<lambda>h. case h of Inl _ \<Rightarrow> False | Inr _ \<Rightarrow> True) hs)"

text \<open>The cursor moves back when a node is behind it.\<close>

definition rewind :: "u64 \<Rightarrow> u64 \<Rightarrow> u64" where
  "rewind minBlock lastVerified =
     (if lastVerified > minBlock then (if minBlock > 0 then minBlock - 1 else 0) else lastVerified)"

definition note_heights :: "int \<Rightarrow> nodeInfo list \<Rightarrow> (string + u64) list \<Rightarrow> watch_state \<Rightarrow> watch_state" where
  "note_heights lagThreshold nodes hs s =
     (let dead = foldl (\<lambda>d (n, h). d(nd_Name n := (case h of Inl _ \<Rightarrow> True | Inr _ \<Rightarrow> False))) (wt_dead s) (zip nodes hs);
          diff = max_block hs - min_block hs;
          lagging = max_block hs > 0 \<and> min_block hs < - 1 \<and> diff > 10 \<and> lagThreshold > 0 \<and> int (unat diff) > lagThreshold
      in s\<lparr>wt_checks := wt_checks s + 1, wt_dead := dead,
           wt_logged := (if answers hs < length hs then (\<lambda>_. False) else wt_logged s),
           wt_events := wt_events s @ (if lagging then [Anomaly ''NODE_LAGGING'' (min_block hs) []] else [])\<rparr>)"

text \<open>After a mismatch: the search, and the block it found in front of the others.\<close>

definition locate :: "nodeInfo list \<Rightarrow> world \<Rightarrow> mismatch list \<Rightarrow> mismatch list option" where
  "locate nodes W ms =
     (case first_mismatch (wd_view W 2) nodes (mi_BlockNumber (hd ms)) of
        None \<Rightarrow> None
      | Some real \<Rightarrow>
          Some (if real < mi_BlockNumber (hd ms)
                then (case checkBatch (wd_view W 2) nodes real real (\<lambda>_. True) of None \<Rightarrow> [] | Some s \<Rightarrow> ck_mismatches s) @ ms
                else ms))"

text \<open>\<^verbatim>\<open>watchOnce\<close>: whether a mismatch was found, and the new state.\<close>

definition watchOnce ::
  "(string list \<Rightarrow> string list) \<Rightarrow> int \<Rightarrow> nodeInfo list \<Rightarrow> world \<Rightarrow> watch_state \<Rightarrow> (bool \<times> watch_state) option option" where
  "watchOnce ord lagThreshold nodes W s =
     (let hs = map (\<lambda>n. wd_latest W (nd_URL n)) nodes; s1 = note_heights lagThreshold nodes hs s in
      if min_block hs = - 1 \<or> answers hs < 2 then Some (Some (False, s1))
      else
        let last = rewind (min_block hs) (wt_last s1); from = (if last > 0 then last + 1 else 1);
            s2 = s1\<lparr>wt_last := last\<rparr> in
        if from > max_block hs then Some (Some (False, s2))
        else (case watch_batches ord nodes W from (max_block hs) (start_scan (wt_logged s2)) of
                None \<Rightarrow> None
              | Some None \<Rightarrow> Some None
              | Some (Some a) \<Rightarrow>
                  let s3 = s2\<lparr>wt_logged := sn_logged a, wt_events := wt_events s2 @ sn_events a\<rparr> in
                  if sn_mismatches a = [] then Some (Some (False, s3\<lparr>wt_last := min_block hs\<rparr>))
                  else (case locate nodes W (sn_mismatches a) of
                          None \<Rightarrow> None
                        | Some ms \<Rightarrow> Some (Some (True, s3\<lparr>wt_mismatches := wt_mismatches s3 + length ms\<rparr>)))))"

text \<open>\<^verbatim>\<open>runWatch\<close>: passes until one finds a mismatch.\<close>

fun runWatch ::
  "(string list \<Rightarrow> string list) \<Rightarrow> int \<Rightarrow> nodeInfo list \<Rightarrow> world list \<Rightarrow> watch_state \<Rightarrow> (bool \<times> watch_state) option option" where
  "runWatch ord lag nodes [] s = Some (Some (False, s))"
| "runWatch ord lag nodes (W # Ws) s =
     (case watchOnce ord lag nodes W s of
        None \<Rightarrow> None
      | Some None \<Rightarrow> Some None
      | Some (Some (True, s')) \<Rightarrow> Some (Some (True, s'))
      | Some (Some (False, s')) \<Rightarrow> runWatch ord lag nodes Ws s')"
subsection \<open>A clean batch\<close>

abbreviation (input) differs :: "chain_view \<Rightarrow> nodeInfo list \<Rightarrow> u64 \<Rightarrow> bool" where
  "differs V nodes b \<equiv> enough nodes (fetch_result V nodes b) \<and> \<not> agree nodes (fetch_result V nodes b)"

lemma block_in_batch:
  assumes "from \<le> b" "b \<le> to" "to < - 1"
  shows "fetch_result V nodes b \<in> set (batch_results V nodes from to)"
proof -
  have "unat (b - from) < unat (to - from + 1)" using assms by unat_arith
  moreover have "from + word_of_nat (unat (b - from)) = b" by simp
  ultimately show ?thesis unfolding batch_results_def by (auto intro!: image_eqI [of _ _ "unat (b - from)"])
qed

lemma fetch_result_blockNum [simp]: "cr_blockNum (fetch_result V nodes b) = b"
proof -
  have "cr_blockNum (foldl (\<lambda>r node. let bi = f node in r\<lparr>cr_blocks := (cr_blocks r)(nd_Name node \<mapsto> bi),
      cr_hasError := cr_hasError r \<or> IsError bi\<rparr>) r ns) = cr_blockNum r" for f and r :: result and ns :: "nodeInfo list"
    by (induction ns arbitrary: r) (simp_all add: Let_def)
  from this [of "\<lambda>node. stored_block (fetch_node V (nd_URL node) b)"] show ?thesis by (simp add: fetch_result_def)
qed

lemma batch_block_from:
  assumes "r \<in> set (batch_results V nodes from to)" "from \<le> to"
  shows "from \<le> cr_blockNum r"
proof -
  obtain i where i: "cr_blockNum r = from + word_of_nat i" "i < unat (to - from + 1)"
    using assms(1) by (auto simp: batch_results_def)
  have "unat (to - from) = unat to - unat from" using assms(2) by (simp add: unat_sub)
  moreover have "unat (to - from + 1) \<le> unat (to - from) + 1"
    unfolding unat_word_ariths by (rule order_trans [OF mod_less_eq_dividend]) simp
  ultimately have "unat from + i < 2 ^ 64"
    using i(2) assms(2) unsigned_less [of to, where ?'a = nat] by (simp add: word_le_nat_alt)
  then have "unat (from + word_of_nat i) = unat from + i"
    using unat_u64 [of i] by (subst unat_add_lem [THEN iffD1]) simp_all
  then show ?thesis unfolding i(1) word_le_nat_alt by simp
qed

lemma checkBatch_clean:
  assumes "\<forall>b. printable nodes (fetch_result V nodes b)" "from \<le> to" "to < - 1"
  shows "\<exists>s. checkBatch V nodes from to logged = Some s \<and> (\<forall>m \<in> set (ck_mismatches s). from \<le> mi_BlockNumber m) \<and>
    (ck_mismatches s = [] \<longrightarrow> (\<forall>b. from \<le> b \<and> b \<le> to \<longrightarrow> \<not> differs V nodes b))"
proof -
  let ?rs = "batch_results V nodes from to"
  have "\<forall>r \<in> set ?rs. printable nodes r" using assms(1) by (auto simp: batch_results_def)
  then obtain s where s: "checkBatch V nodes from to logged = Some s"
    "batch_counts nodes (with_previous nodes ?rs) (start_check logged) s"
    using check_results_counts [of ?rs nodes "start_check logged"] by (auto simp: checkBatch_def with_previous_def start_check_def)
  have "map snd (with_previous nodes ?rs) = ?rs" by (simp add: with_previous_def map_snd_zip_take)
  then have rs: "snd ` set (with_previous nodes ?rs) = set ?rs" by (metis list.set_map)
  have "\<not> differs V nodes b" if h: "ck_mismatches s = []" "from \<le> b" "b \<le> to" for b
  proof -
    from rs obtain prev where "(prev, fetch_result V nodes b) \<in> set (with_previous nodes ?rs)"
      using block_in_batch [OF h(2,3) assms(3), of V nodes] by (metis imageE prod.collapse)
    moreover have "filter (reported nodes) (with_previous nodes ?rs) = []"
      using s(2) h(1) by (simp add: batch_counts_def start_check_def)
    ultimately have "\<not> reported nodes (prev, fetch_result V nodes b)" by (auto simp: filter_empty_conv)
    then show ?thesis by (simp add: reported_def)
  qed
  moreover have "from \<le> mi_BlockNumber m" if "m \<in> set (ck_mismatches s)" for m
  proof -
    have "mi_BlockNumber m \<in> set (map mi_BlockNumber (ck_mismatches s))" using that by simp
    also have "map mi_BlockNumber (ck_mismatches s) = map (cr_blockNum \<circ> snd) (filter (reported nodes) (with_previous nodes ?rs))"
      using s(2) by (simp add: batch_counts_def start_check_def)
    finally have "mi_BlockNumber m \<in> cr_blockNum ` snd ` set (with_previous nodes ?rs)" by auto
    then show ?thesis unfolding rs by (auto dest: batch_block_from [OF _ assms(2)])
  qed
  ultimately show ?thesis using s(1) by blast
qed

text \<open>A block is verified in a pass when the nodes that answered one of the two checks agree on it.\<close>

definition verified :: "nodeInfo list \<Rightarrow> world \<Rightarrow> u64 \<Rightarrow> bool" where
  "verified nodes W b \<longleftrightarrow> (\<exists>t < 2. \<not> differs (wd_view W t) nodes b)"

definition good_world :: "nodeInfo list \<Rightarrow> world \<Rightarrow> bool" where
  "good_world nodes W \<longleftrightarrow> (\<forall>t b. printable nodes (fetch_result (wd_view W t) nodes b)) \<and>
     (\<forall>url h. wd_latest W url = Inr h \<longrightarrow> unat h + 20 < 2 ^ 64)"

lemma check_range_clean:
  assumes "good_world nodes W" "from \<le> to" "to < - 1"
  shows "\<exists>s. check_range ord nodes W from to logged = Some s \<and> (\<forall>m \<in> set (ck_mismatches s). from \<le> mi_BlockNumber m) \<and>
    (ck_mismatches s = [] \<longrightarrow> (\<forall>b. from \<le> b \<and> b \<le> to \<longrightarrow> verified nodes W b))"
proof -
  have v: "\<forall>b. printable nodes (fetch_result (wd_view W t) nodes b)" for t using assms(1) by (simp add: good_world_def)
  have c: "\<exists>s. checkBatch (wd_view W t) nodes from to lg = Some s \<and> (\<forall>m \<in> set (ck_mismatches s). from \<le> mi_BlockNumber m) \<and>
    (ck_mismatches s = [] \<longrightarrow> (\<forall>b. from \<le> b \<and> b \<le> to \<longrightarrow> verified nodes W b))" if "t < 2" for t lg
    using checkBatch_clean [OF v assms(2,3), of t lg] that unfolding verified_def by blast
  obtain s where s: "checkBatch (wd_view W 0) nodes from to logged = Some s" "\<forall>m \<in> set (ck_mismatches s). from \<le> mi_BlockNumber m"
    "ck_mismatches s = [] \<longrightarrow> (\<forall>b. from \<le> b \<and> b \<le> to \<longrightarrow> verified nodes W b)"
    using c [of 0 logged] by auto
  then show ?thesis using c [of 1 "ck_logged s"] by (auto simp: check_range_def)
qed

lemma batch_end_bounds:
  assumes "start \<le> maxBlock" "unat maxBlock + 20 < 2 ^ 64"
  shows "start \<le> batch_end 20 start maxBlock" "batch_end 20 start maxBlock \<le> maxBlock" "batch_end 20 start maxBlock < - 1"
    "unat (start + 20) = unat start + 20" "b < start + 20 \<Longrightarrow> b \<le> maxBlock \<Longrightarrow> b \<le> batch_end 20 start maxBlock"
proof -
  have s: "unat start \<le> unat maxBlock" using assms(1) by (simp add: word_le_nat_alt)
  show u: "unat (start + 20) = unat start + 20"
    using s assms(2) by (subst unat_add_lem [THEN iffD1]) simp_all
  have "unat (start + 19) = unat start + 19"
    using s assms(2) by (subst unat_add_lem [THEN iffD1]) simp_all
  moreover have "start + 20 - 1 = start + 19" by simp
  ultimately have e: "unat (batch_end 20 start maxBlock) = min (unat maxBlock) (unat start + 19)"
    by (auto simp: batch_end_def Let_def word_less_nat_alt add.commute)
  have m: "unat (- 1 :: u64) = 2 ^ 64 - 1" by (simp add: unsigned_minus_1_eq_mask mask_eq_exp_minus_1)
  show "start \<le> batch_end 20 start maxBlock" "batch_end 20 start maxBlock \<le> maxBlock"
    using s by (simp_all add: word_le_nat_alt e)
  show "batch_end 20 start maxBlock < - 1" using assms(2) unfolding word_less_nat_alt e m by simp
  show "b \<le> batch_end 20 start maxBlock" if "b < start + 20" "b \<le> maxBlock"
    using that unfolding word_less_nat_alt word_le_nat_alt e u by simp
qed

text \<open>The loop over the batches ends, and when it found nothing every block up to the largest number is verified.\<close>

lemma watch_batches_ends:
  assumes "good_world nodes W" "unat maxBlock + 20 < 2 ^ 64" "1 \<le> start" "sn_mismatches a = []" "start \<le> maxBlock + 20"
  shows "\<exists>a'. watch_batches ord nodes W start maxBlock a = Some (Some a') \<and>
    (\<forall>m \<in> set (sn_mismatches a'). 1 \<le> mi_BlockNumber m) \<and>
    (sn_mismatches a' = [] \<longrightarrow> (\<forall>b. start \<le> b \<and> b \<le> maxBlock \<longrightarrow> verified nodes W b))"
  using assms(3-5)
proof (induction "unat maxBlock + 20 - unat start" arbitrary: start a rule: less_induct)
  case less
  show ?case
  proof (cases "start \<le> maxBlock")
    case False
    then show ?thesis using less.prems by (subst watch_batches.simps) auto
  next
    case True
    note bounds = batch_end_bounds [OF True assms(2)]
    obtain s where s: "check_range ord nodes W start (batch_end 20 start maxBlock) (sn_logged a) = Some s"
      "\<forall>m \<in> set (ck_mismatches s). start \<le> mi_BlockNumber m"
      "ck_mismatches s = [] \<longrightarrow> (\<forall>b. start \<le> b \<and> b \<le> batch_end 20 start maxBlock \<longrightarrow> verified nodes W b)"
      using check_range_clean [OF assms(1) bounds(1,3)] by blast
    have m: "sn_mismatches (add_batch s a) = ck_mismatches s" using less.prems(2) by (simp add: add_batch_def)
    show ?thesis
    proof (cases "ck_mismatches s = []")
      case False
      then show ?thesis using True s(1,2) m less.prems(1) by (subst watch_batches.simps) (auto intro: order_trans)
    next
      case nil: True
      have n: "unat (start + 20) = unat start + 20" "unat start \<le> unat maxBlock" "unat (maxBlock + 20) = unat maxBlock + 20"
        using bounds(4) True batch_end_bounds(4) [OF order_refl assms(2)] by (simp_all add: word_le_nat_alt)
      have "unat maxBlock + 20 - unat (start + 20) < unat maxBlock + 20 - unat start" "1 \<le> start + 20" "start + 20 \<le> maxBlock + 20"
        using n by (simp_all add: word_le_nat_alt)
      from less.hyps [OF this(1,2) _ this(3), of "add_batch s a"] nil m obtain a' where
        a': "watch_batches ord nodes W (start + 20) maxBlock (add_batch s a) = Some (Some a')"
        "\<forall>m \<in> set (sn_mismatches a'). 1 \<le> mi_BlockNumber m"
        "sn_mismatches a' = [] \<longrightarrow> (\<forall>b. start + 20 \<le> b \<and> b \<le> maxBlock \<longrightarrow> verified nodes W b)" by auto
      have "verified nodes W b" if "sn_mismatches a' = []" "start \<le> b" "b \<le> maxBlock" for b
        using that a'(3) s(3) nil bounds(5) [of b] by (cases "b < start + 20") auto
      moreover have "watch_batches ord nodes W start maxBlock a = Some (Some a')"
        using True s(1) nil m a'(1) by (subst watch_batches.simps) simp
      ultimately show ?thesis using a'(2) by blast
    qed
  qed
qed
subsection \<open>A pass and a run\<close>

lemma min_block_in: "min_block hs = - 1 \<or> Inr (min_block hs) \<in> set hs"
proof -
  have "foldl (\<lambda>m h. case h of Inl _ \<Rightarrow> m | Inr b \<Rightarrow> if b < m then b else m) m hs = m \<or>
    Inr (foldl (\<lambda>m h. case h of Inl _ \<Rightarrow> m | Inr b \<Rightarrow> if b < m then b else m) m hs) \<in> set hs" for m :: u64
    by (induction hs arbitrary: m) (auto split: sum.splits)
  then show ?thesis by (simp add: min_block_def)
qed

lemma max_block_in: "max_block hs = 0 \<or> Inr (max_block hs) \<in> set hs"
proof -
  have "foldl (\<lambda>m h. case h of Inl _ \<Rightarrow> m | Inr b \<Rightarrow> if b > m then b else m) m hs = m \<or>
    Inr (foldl (\<lambda>m h. case h of Inl _ \<Rightarrow> m | Inr b \<Rightarrow> if b > m then b else m) m hs) \<in> set hs" for m :: u64
    by (induction hs arbitrary: m) (auto split: sum.splits)
  then show ?thesis by (simp add: max_block_def)
qed

lemma max_block_ge: "Inr b \<in> set hs \<Longrightarrow> b \<le> max_block hs"
proof -
  let ?f = "\<lambda>m h. case h of Inl _ \<Rightarrow> m | Inr b \<Rightarrow> if b > m then b else m"
  have ge: "m \<le> foldl ?f m hs" for m :: u64 and hs :: "(string + u64) list"
  proof (induction hs arbitrary: m)
    case (Cons h hs)
    have "m \<le> ?f m h" by (auto split: sum.splits)
    then show ?case using Cons [of "?f m h"] by (simp add: order_trans)
  qed simp
  have "Inr b \<in> set hs \<Longrightarrow> b \<le> foldl ?f m hs" for m :: u64
  proof (induction hs arbitrary: m)
    case (Cons h hs)
    have "b \<le> ?f m (Inr b)" by auto
    then show ?case using Cons ge [of "?f m (Inr b)" hs] by (auto intro: order_trans)
  qed simp
  then show "Inr b \<in> set hs \<Longrightarrow> b \<le> max_block hs" by (simp add: max_block_def)
qed

lemma first_mismatch_ends: "1 \<le> b \<Longrightarrow> \<exists>r. first_mismatch V nodes b = Some r"
  using binary_search_ends [of 1 "unat b" "block_differs V nodes"] unsigned_less [of b, where ?'a = nat]
  by (auto simp: first_mismatch_def word_le_nat_alt)

lemma locate_ends: "ms \<noteq> [] \<Longrightarrow> \<forall>m \<in> set ms. 1 \<le> mi_BlockNumber m \<Longrightarrow> \<exists>ms'. locate nodes W ms = Some ms'"
  using first_mismatch_ends [of "mi_BlockNumber (hd ms)" "wd_view W 2" nodes] by (auto simp: locate_def)

lemma rewind_bounds: "rewind m l \<le> l" "rewind m l \<le> m"
proof -
  have "m - 1 \<le> m" if "m > 0" using that unat_sub [of 1 m] by (simp add: word_le_nat_alt word_less_nat_alt)
  then show "rewind m l \<le> m" "rewind m l \<le> l" by (auto simp: rewind_def)
qed

lemma start_bounds:
  assumes "unat (maxBlock :: u64) + 20 < 2 ^ 64" "l \<le> maxBlock" "start = (if l > 0 then l + 1 else 1)"
  shows "1 \<le> start" "start \<le> maxBlock + 20" "b < start \<Longrightarrow> 1 \<le> b \<Longrightarrow> b \<le> l"
proof -
  have l: "unat l \<le> unat maxBlock" using assms(2) by (simp add: word_le_nat_alt)
  have m: "unat (maxBlock + 20) = unat maxBlock + 20" by (rule batch_end_bounds(4) [OF order_refl assms(1)])
  have "unat (l + 1) = unat l + 1" using l assms(1) by (subst unat_add_lem [THEN iffD1]) simp_all
  then have s: "unat start = unat l + 1" using assms(3) by (auto simp: word_less_nat_alt)
  show "1 \<le> start" "start \<le> maxBlock + 20" "b < start \<Longrightarrow> 1 \<le> b \<Longrightarrow> b \<le> l"
    using s l m by (simp_all add: word_le_nat_alt word_less_nat_alt)
qed

lemma cover_split:
  assumes "b < start \<Longrightarrow> 1 \<le> b \<Longrightarrow> b \<le> l" "l \<le> w" "lo \<le> hi" "\<forall>b. start \<le> b \<and> b \<le> hi \<longrightarrow> P b" "1 \<le> b" "b \<le> (lo :: u64)"
  shows "b \<le> w \<or> P b"
proof (cases "b < start")
  case True
  then show ?thesis using order_trans [OF assms(1) [OF True assms(5)] assms(2)] by blast
next
  case False
  then have "start \<le> b" "b \<le> hi" using order_trans [OF assms(6,3)] by simp_all
  then show ?thesis using assms(4) by blast
qed

lemma watchOnce_covers:
  assumes "good_world nodes W"
  shows "\<exists>found s'. watchOnce ord lag nodes W s = Some (Some (found, s')) \<and>
    (\<forall>b. 1 \<le> b \<and> b \<le> wt_last s' \<longrightarrow> b \<le> wt_last s \<or> verified nodes W b)"
proof -
  define hs where "hs = map (\<lambda>n. wd_latest W (nd_URL n)) nodes"
  define s1 where "s1 = note_heights lag nodes hs s"
  define l where "l = rewind (min_block hs) (wt_last s)"
  define start where "start = (if l > 0 then l + 1 else 1)"
  have last1: "wt_last s1 = wt_last s" by (simp add: s1_def note_heights_def Let_def)
  have l: "l \<le> wt_last s" unfolding l_def by (rule rewind_bounds)
  note unfolded = watchOnce_def [of ord lag nodes W s, folded hs_def, unfolded Let_def, folded s1_def, unfolded last1, folded l_def, folded start_def]
  show ?thesis
  proof (cases "min_block hs = - 1 \<or> answers hs < 2 \<or> start > max_block hs")
    case True
    then show ?thesis using unfolded last1 l by (auto intro: order_trans)
  next
    case False
    have max: "unat (max_block hs) + 20 < 2 ^ 64"
      using max_block_in [of hs] assms by (auto simp: hs_def good_world_def)
    have le: "min_block hs \<le> max_block hs" using False min_block_in [of hs] max_block_ge by blast
    have "l \<le> max_block hs" using le rewind_bounds(2) [of "min_block hs" "wt_last s"] unfolding l_def by (rule order_trans [rotated])
    note st = start_bounds [OF max this start_def]
    obtain a where a: "watch_batches ord nodes W start (max_block hs) (start_scan (wt_logged s1)) = Some (Some a)"
      "\<forall>m \<in> set (sn_mismatches a). 1 \<le> mi_BlockNumber m"
      "sn_mismatches a = [] \<longrightarrow> (\<forall>b. start \<le> b \<and> b \<le> max_block hs \<longrightarrow> verified nodes W b)"
      using watch_batches_ends [OF assms max st(1) _ st(2), of "start_scan (wt_logged s1)" ord] by (auto simp: start_scan_def)
    show ?thesis
    proof (cases "sn_mismatches a = []")
      case True
      have "b \<le> wt_last s \<or> verified nodes W b" if "1 \<le> b" "b \<le> min_block hs" for b
        using cover_split [where P = "verified nodes W", OF st(3) l le _ that] a(3) True by blast
      then show ?thesis using unfolded False a(1) True by auto
    next
      case False': False
      from locate_ends [OF this a(2)] obtain ms where "locate nodes W (sn_mismatches a) = Some ms" by blast
      then show ?thesis using unfolded False a(1) False' l by (auto intro: order_trans)
    qed
  qed
qed

text \<open>C24. The watch mode leaves no block out: in every run of passes it returns, and each block up to the one it
  has recorded as verified was checked in some pass in which no two nodes that answered differed on it,
  although nodes fail, fall behind, come back with fewer blocks or are checked a second time.\<close>

theorem watch_covers:
  assumes "\<forall>W \<in> set Ws. good_world nodes W"
  shows "\<exists>found s. runWatch ord lag nodes Ws (start_watch logged) = Some (Some (found, s)) \<and>
    (\<forall>b. 1 \<le> b \<and> b \<le> wt_last s \<longrightarrow> (\<exists>W \<in> set Ws. verified nodes W b))"
proof -
  have "\<exists>found s'. runWatch ord lag nodes Ws s = Some (Some (found, s')) \<and>
    (\<forall>b. 1 \<le> b \<and> b \<le> wt_last s' \<longrightarrow> b \<le> wt_last s \<or> (\<exists>W \<in> set Ws. verified nodes W b))" for s
    using assms
  proof (induction Ws arbitrary: s)
    case (Cons W Ws)
    obtain found s' where s': "watchOnce ord lag nodes W s = Some (Some (found, s'))"
      "\<forall>b. 1 \<le> b \<and> b \<le> wt_last s' \<longrightarrow> b \<le> wt_last s \<or> verified nodes W b"
      using watchOnce_covers Cons.prems by (metis list.set_intros(1))
    show ?case
    proof (cases found)
      case True
      then show ?thesis using s' by auto
    next
      case False
      obtain f s'' where "runWatch ord lag nodes Ws s' = Some (Some (f, s''))"
        "\<forall>b. 1 \<le> b \<and> b \<le> wt_last s'' \<longrightarrow> b \<le> wt_last s' \<or> (\<exists>W \<in> set Ws. verified nodes W b)"
        using Cons.IH [of s'] Cons.prems by auto
      then show ?thesis using False s' by auto
    qed
  qed auto
  from this [of "start_watch logged"] show ?thesis by (fastforce simp: start_watch_def)
qed

text \<open>Two nodes at block 1 that agree on it.\<close>

definition demo_world :: world where
  "demo_world = \<lparr>wd_latest = (\<lambda>_. Inr 1), wd_view = (\<lambda>_. demo_view)\<rparr>"

theorem watch_covers_witness:
  "\<exists>found s. runWatch id 1000 demo_nodes [demo_world, demo_world] (start_watch (\<lambda>_. False)) = Some (Some (found, s)) \<and>
    (\<forall>b. 1 \<le> b \<and> b \<le> wt_last s \<longrightarrow> verified demo_nodes demo_world b)"
proof -
  have "good_world demo_nodes demo_world"
    by (simp add: good_world_def demo_world_def printable_def demo_simps)
  then show ?thesis using watch_covers [of "[demo_world, demo_world]" demo_nodes id 1000] by auto
qed

subsection \<open>What goes wrong\<close>

text \<open>A batch size of 0 never ends. A block that two nodes agree on but that does not continue the block before is
  reported by a batch and not by the check of the single block, so the search does not see it; and a block with
  too few answers counts as verified.\<close>

lemma scan_batch_size_0:
  assumes "start \<le> to" "\<And>b logged. checkBatch V nodes start b logged \<noteq> None"
  shows "scan_batches V nodes 0 start to a = None"
proof (rule ccontr)
  assume "scan_batches V nodes 0 start to a \<noteq> None"
  then obtain y where y: "scan_batches V nodes 0 start to a = Some y" by blast
  have c: "checkBatch V nodes start b logged = Some (the (checkBatch V nodes start b logged))" for b logged
    using assms(2) [of b logged] by simp
  let ?P = "\<lambda>V' nodes' (batchSize :: u64) start' to' (a' :: scan) (y :: scan option). \<not> (V' = V \<and> nodes' = nodes \<and> batchSize = 0 \<and> start' = start \<and> to' = to)"
  have "?P V nodes 0 start to a y"
  proof (rule scan_batches.raw_induct [where P = ?P, OF _ y])
    fix rec V' nodes' batchSize start' to' a' y
    assume "\<And>V nodes batchSize start to a y. rec V nodes batchSize start to a = Some y \<Longrightarrow> ?P V nodes batchSize start to a y"
      and "(if start' \<le> to' then
        (case checkBatch V' nodes' start' (batch_end batchSize start' to') (sn_logged a') of
           None \<Rightarrow> Some None | Some s \<Rightarrow> rec V' nodes' batchSize (start' + batchSize) to' (add_batch s a'))
      else Some (Some a')) = Some y"
    then show "?P V' nodes' batchSize start' to' a' y" using assms(1) c
      by (auto split: option.split_asm if_splits) (metis option.distinct(1))
  qed
  then show False by simp
qed

lemma chain_break_not_searched:
  assumes "agree nodes (fetch_result V nodes b)"
  shows "\<not> block_differs V nodes b"
  using assms by (simp add: block_differs_iff)

lemma unanswered_verified:
  assumes "\<not> enough nodes (fetch_result (wd_view W 0) nodes b)"
  shows "verified nodes W b"
  using assms by (auto simp: verified_def intro!: exI [of _ 0])

end
