(* ===== verification/Spec2Isabelle.thy ===== *)
theory Spec2Isabelle
  imports Trie_Props Trie_Walk Memory_DB Simple_DB_Props Arg_Encode Receipts_Props Circuit_Breaker Connections
    Connection_Run Account_Props Batch_Store Transaction_Props Sc_Result Trie_Shape Rpc_Client
    Client_Reconnect Remote_Storage Log_Cleaner Block_Watch
begin

text \<open>
  Verification of the metanode suite, a Go code base under \<^verbatim>\<open>src/\<close>: the state of a blockchain node as a
  Merkle-Patricia trie over key-value stores, the receipts, accounts and transactions kept in it, the TCP network
  between nodes and clients, and the client library that sends transactions and waits for their receipts.

  \<^bold>\<open>How the parts work together.\<close> A collection of receipts puts each changed receipt into a trie; a commit of the
  trie yields a root hash and a set of nodes, which go to a store (in memory, in a file, or remote). A client signs
  a transaction, puts it into a message, and writes the message as a frame on a connection; the server takes
  requests from its connections into a queue and its workers run the handler of the command. The answers come back
  on the same connection, where the handler of the client gives each to the call that waits for it: by request id,
  or by transaction hash through the receipt router.

  \<^bold>\<open>The theories\<close>, by the code they model:

  \<^item> \<^verbatim>\<open>Go_Prelude\<close>, \<^verbatim>\<open>Os_File\<close>: what the code uses of Go: byte slices and fixed-width numbers, big integers,
    hexadecimal text, a file system whose calls may fail and whose writes may be cut.
  \<^item> \<^verbatim>\<open>Hex_Encoding\<close> (\<^verbatim>\<open>pkg/trie/node/encoding.go\<close>), \<^verbatim>\<open>Trie_Node\<close> (the other files of \<^verbatim>\<open>pkg/trie/node\<close>),
    \<^verbatim>\<open>Merkle_Trie\<close> (\<^verbatim>\<open>pkg/trie/trie.go\<close>, \<^verbatim>\<open>tracer.go\<close>, \<^verbatim>\<open>hasher.go\<close>, \<^verbatim>\<open>trie_reader.go\<close>), \<^verbatim>\<open>Trie_Commit\<close>
    (\<^verbatim>\<open>committer.go\<close>). A Go interface value of type Node is the datatype \<^verbatim>\<open>node\<close>, a trie is the record
    \<^verbatim>\<open>MerklePatriciaTrie\<close>, and an operation returns its error, its result and the new trie.
  \<^item> \<^verbatim>\<open>Trie_Spec\<close>: the specification, a trie without hashes, flags, tracer and database; \<^verbatim>\<open>Trie_Refine\<close>,
    \<^verbatim>\<open>Trie_Ops\<close>, \<^verbatim>\<open>Trie_API\<close>, \<^verbatim>\<open>Trie_Walk\<close>: the code implements it; \<^verbatim>\<open>Trie_Shape\<close>: the typing of full nodes;
    \<^verbatim>\<open>Trie_Instance\<close>: a concrete hash and codec that satisfy the laws; \<^verbatim>\<open>Trie_Props\<close>: the properties.
  \<^item> \<^verbatim>\<open>Kv_Store\<close>: the contract of \<^verbatim>\<open>pkg/storage/storage.go\<close>; \<^verbatim>\<open>Memory_DB\<close> (\<^verbatim>\<open>memorydb.go\<close>), \<^verbatim>\<open>Simple_DB\<close>
    (\<^verbatim>\<open>simpledb.go\<close>) with \<^verbatim>\<open>Simple_DB_Proofs\<close> and \<^verbatim>\<open>Simple_DB_Props\<close>, \<^verbatim>\<open>Batch_Store\<close> (\<^verbatim>\<open>batchstore.go\<close>),
    \<^verbatim>\<open>Remote_Storage\<close> (\<^verbatim>\<open>remote_storage_client.go\<close>, \<^verbatim>\<open>remote_storage_service.go\<close>).
  \<^item> \<^verbatim>\<open>Receipts\<close>, \<^verbatim>\<open>Receipts_Props\<close>: \<^verbatim>\<open>pkg/receipt\<close>.
  \<^item> \<^verbatim>\<open>Account_State\<close>, \<^verbatim>\<open>Account_Props\<close>: \<^verbatim>\<open>pkg/state\<close>.
  \<^item> \<^verbatim>\<open>Transaction\<close>, \<^verbatim>\<open>Transaction_Eth\<close>, \<^verbatim>\<open>Transaction_Props\<close>: \<^verbatim>\<open>pkg/transaction\<close>; \<^verbatim>\<open>Sc_Result\<close>: the results of
    \<^verbatim>\<open>pkg/smart_contract\<close>, the errors, groups and signature requests of \<^verbatim>\<open>pkg/transaction\<close>, and
    \<^verbatim>\<open>pkg/storage/block_number_state.go\<close>; \<^verbatim>\<open>Arg_Encode\<close>: \<^verbatim>\<open>pkg/smart_contract/argument_encode\<close>.
  \<^item> \<^verbatim>\<open>Wire\<close> (\<^verbatim>\<open>pkg/network/message.go\<close>, \<^verbatim>\<open>message_sender.go\<close>, \<^verbatim>\<open>request.go\<close>, \<^verbatim>\<open>config.go\<close> and the write and read
    loops of \<^verbatim>\<open>connection.go\<close>), \<^verbatim>\<open>Connection_Run\<close> (the goroutine \<^verbatim>\<open>run\<close> of \<^verbatim>\<open>connection.go\<close> and the methods that send
    it commands), \<^verbatim>\<open>Connections\<close> (\<^verbatim>\<open>connections_manager.go\<close>), \<^verbatim>\<open>Circuit_Breaker\<close> (\<^verbatim>\<open>circuit_breaker.go\<close>),
    \<^verbatim>\<open>Socket_Server\<close> (\<^verbatim>\<open>handler.go\<close>, \<^verbatim>\<open>server.go\<close>).
  \<^item> \<^verbatim>\<open>Receipt_Router\<close> (\<^verbatim>\<open>runReceiptRouter\<close> and \<^verbatim>\<open>waitReceipt\<close> of \<^verbatim>\<open>pkg/client-tcp/client.go\<close>), \<^verbatim>\<open>Client_Handler\<close>
    (\<^verbatim>\<open>pkg/client-tcp/network/handler.go\<close>), \<^verbatim>\<open>Chain_Requests\<close> and \<^verbatim>\<open>Chain_Client\<close> (\<^verbatim>\<open>client_chain.go\<close>), \<^verbatim>\<open>Client_Send\<close>
    (\<^verbatim>\<open>controllers/transaction_controller.go\<close> and the sending methods of \<^verbatim>\<open>client.go\<close>), \<^verbatim>\<open>Pending_Calls\<close> and
    \<^verbatim>\<open>Rpc_Client\<close> (the RPC methods of \<^verbatim>\<open>client.go\<close>), \<^verbatim>\<open>Client_Reconnect\<close> (reconnecting, subscriptions and closing in
    \<^verbatim>\<open>client.go\<close>).
  \<^item> \<^verbatim>\<open>Log_Cleaner\<close> (\<^verbatim>\<open>pkg/loggerfile/log_cleaner.go\<close>); \<^verbatim>\<open>Block_Checker\<close> and \<^verbatim>\<open>Block_Watch\<close>
    (\<^verbatim>\<open>block/block_hash_checker/main.go\<close>), the program that compares the blocks of several nodes.

  A definition has the name of its Go function, with a prefix where two functions share a name or a HOL constant has
  it. Structs are records, a Go error is a constructor of an error datatype or its text, and a panic is \<^verbatim>\<open>None\<close> where
  an operation can panic. Numbers with a fixed width are words where they can wrap around.

  \<^bold>\<open>Goroutines.\<close> A component whose goroutines run concurrently is a step function on its whole state, and the
  theorems quantify over every list of steps: the connection (\<^verbatim>\<open>run_step\<close>), the circuit breaker, the server
  (\<^verbatim>\<open>server_step\<close>), the router with its waiting calls (\<^verbatim>\<open>wait_step\<close>), chain requests (\<^verbatim>\<open>chain_step\<close>), the steps of
  concurrent reads of the file store. A channel is a queue with a capacity. A select with several ready cases, a
  timer and the order of a Go map are arguments, so the theorems hold for every choice.

  \<^bold>\<open>Interfaces\<close> are locales, each interpreted on the model:

  \<^item> \<^verbatim>\<open>trie_ext\<close>: what the trie relies on of Keccak-256, protobuf and \<^verbatim>\<open>BytesToHash\<close>; the interpretation \<^verbatim>\<open>ref\<close> shows
    that the laws can hold together.
  \<^item> \<^verbatim>\<open>canonical_map\<close>: a map whose representation is unique (\<^verbatim>\<open>am\<close>, the specification of the trie); it gives that the
    root hash does not depend on the order of updates.
  \<^item> \<^verbatim>\<open>kv_store\<close>: a key-value store (\<^verbatim>\<open>mem\<close>, \<^verbatim>\<open>sdb\<close>), and \<^verbatim>\<open>node_store\<close>: a store as the commit of receipts uses it
    (\<^verbatim>\<open>mem_nodes\<close>, \<^verbatim>\<open>sdb_nodes\<close>).
  \<^item> \<^verbatim>\<open>pending_calls\<close>: a call that waits for the answer with its id (\<^verbatim>\<open>rpc_calls\<close>, the handler of the client).

  \<^bold>\<open>What the theorems show.\<close>

  \<^item> The trie is a map: updates and reads, the root hash as a function of the contents, commit and reload, parallel
    reads for every schedule, counting; its nodes keep their 17 children; the compact key encodings are inverse.
  \<^item> The file store keeps its invariant and all other keys whichever call fails, is durable, and compaction changes
    no answer; batches are read back; a remote operation is carried out on the store of the service, and returns its
    result unless the select of the call takes a time-out or a later error of the connection.
  \<^item> Receipts that were committed are read back from the root hash, over every store with the contract.
  \<^item> Balances form a ledger, accounts and Ethereum transactions survive their conversions (with the exceptions that
    the statements name, such as data for the zero address with nonce 0), a signed transaction is accepted, and the cached hashes are those of the message.
  \<^item> Frames are read back as written, also a prefix of them when writing is cut; the goroutine of a connection
    never panics; the connection table is a map; the circuit breaker keeps its limits; a server neither loses nor
    repeats a request; a worker empties the queue.
  \<^item> A client call gets the answer to its own request and no other, in every interleaving; a receipt that arrives is
    delivered, except to a call that found an expired one; sending methods wait for the signed transaction they sent; a reconnected client is subscribed again; the
    loop that waits for an account ends.
  \<^item> The log cleaner keeps the newest epochs. The block checker reports exactly the blocks that differ or do not
    continue their chain, its search for the first one ends and finds it, and the watch mode leaves no block out.

  Lemmas in the sections named "What goes wrong" and the properties on errors record where the code does not do
  what its comments say.

  \<^bold>\<open>Bounds and fuel.\<close> The recursions of the trie follow hash references into the database, so they take fuel. A
  step either consumes a nibble of the key or resolves a reference, hence \<^verbatim>\<open>key_fuel\<close> = 4 * length + 4 is enough for
  an operation on a key, 132 for the 32-byte keys of receipts, and twice the height plus two for a traversal; the
  theorems state that with this fuel the operation returns. The loop over a snapshot needs one round more than
  there are keys, and the loop that looks for an account one round per account in the channel. The loops of the block
  checker are partial functions, because a batch size of 0 or a wrap-around never ends; the theorems prove that they
  return otherwise. All other definitions are total by structural recursion. Data in one record of the file store
  is shorter than 2 ^ 32 bytes, as its length field requires, and one read returns it whole, which the Go runtime does
  up to 1 GiB.

  \<^bold>\<open>Parameters.\<close> Code that is not under \<^verbatim>\<open>src/\<close> is an argument of the definitions, with its documented behaviour as
  a hypothesis and a concrete instance in the witnesses: Keccak-256, protobuf, gob, JSON, the curves secp256k1 and
  BLS, the types and signers of go-ethereum, uuid, \<^verbatim>\<open>uint256\<close>. No theorem assumes that the hash is injective; where
  a commit is read back, the hypothesis is that the nodes of this trie do not collide.

  \<^bold>\<open>Not modelled.\<close>

  \<^item> \<^verbatim>\<open>pkg/bls\<close> calls a vendored C library, and \<^verbatim>\<open>pkg/proto\<close> is generated: the messages that the code uses are records
    here and the codec is a parameter.
  \<^item> \<^verbatim>\<open>leveldb.go\<close>, \<^verbatim>\<open>badger_db.go\<close> and \<^verbatim>\<open>badgerdb.go\<close> wrap third-party databases and add a registry of open
    instances to them.
  \<^item> \<^verbatim>\<open>pkg/logger\<close>, the file logger, \<^verbatim>\<open>pkg/stats\<close> and the printing methods only write text; \<^verbatim>\<open>pkg/types\<close> and the
    storage interfaces have no code; \<^verbatim>\<open>pkg/complier\<close> runs an external compiler.
  \<^item> Of the client: the RPC methods that decode JSON answers, the keep-alive loop,
    configuration files and the helpers that build calls with the ABI package.
  \<^item> Sockets, the accept loop, deadlines and timers: their outcomes are the events and arguments of the model.
    Memory pools and locks: an operation under a lock is one step, and so is a method of the connection table, which
    takes none.
  \<^item> The other programs outside \<^verbatim>\<open>pkg\<close> drive a running chain over the network: scripts, load tests and examples. Of the
    block checker the flags, the transport, and the texts of its reports and alerts are not modelled.
\<close>

end
